(* ===== verification/Py_Prelude.thy ===== *)
theory Py_Prelude
  imports Complex_Main "HOL-Library.AList" "HOL-Library.Product_Lexorder"
    "HOL-Library.Multiset"
begin

text \<open>
  The layer every component rests on: Python's numbers as the code uses them
  (exact rationals for finite floats, an explicit type where the code tests for
  NaN and infinities), the conversion \<open>float(x)\<close> with its exceptions, \<open>round\<close>,
  \<open>int\<close> and \<open>math.floor\<close>, insertion-ordered dictionaries (association lists with
  the in-place update of \<open>HOL-Library.AList\<close>), the generic facts on sums, rounding
  and sorting, and the interface of a step machine with an invariant.
\<close>

section \<open>Collections of facts\<close>

named_theorems py_arith \<open>bounds of Python's rounding operations\<close>
named_theorems float_ops \<open>evaluation of operations on extended floats\<close>

section \<open>Numbers\<close>

text \<open>
  A finite Python float is an exact rational: binary rounding error is not
  modelled. Where the code converts an untrusted value and then asks
  \<open>math.isfinite\<close>, the result of the conversion is an extended float.
\<close>

type_synonym bat = nat \<comment> \<open>identity of a coordinator object: \<open>==\<close> and \<open>in\<close> compare it\<close>

datatype py_error = TypeError | ValueError | OverflowError

datatype pyfloat = Fin rat | PosInf | NegInf | NaN

datatype pyval = VNone | VBool bool | VInt int | VFloat pyfloat | VStr string

primrec py_isfinite :: "pyfloat \<Rightarrow> bool" where
  "py_isfinite (Fin _) = True"
| "py_isfinite PosInf = False"
| "py_isfinite NegInf = False"
| "py_isfinite NaN = False"

text \<open>IEEE comparison: every comparison with NaN is false.\<close>

fun pf_less :: "pyfloat \<Rightarrow> pyfloat \<Rightarrow> bool" where
  "pf_less (Fin a) (Fin b) = (a < b)"
| "pf_less NaN _ = False"
| "pf_less _ NaN = False"
| "pf_less PosInf _ = False"
| "pf_less _ NegInf = False"
| "pf_less _ _ = True"

fun pf_le :: "pyfloat \<Rightarrow> pyfloat \<Rightarrow> bool" where
  "pf_le (Fin a) (Fin b) = (a \<le> b)"
| "pf_le NaN _ = False"
| "pf_le _ NaN = False"
| "pf_le NegInf _ = True"
| "pf_le _ PosInf = True"
| "pf_le _ _ = False"

fun pf_uminus :: "pyfloat \<Rightarrow> pyfloat" where
  "pf_uminus (Fin a) = Fin (- a)"
| "pf_uminus PosInf = NegInf"
| "pf_uminus NegInf = PosInf"
| "pf_uminus NaN = NaN"

lemma pf_le_Fin_finite: "pf_le (Fin a) x \<Longrightarrow> pf_le x (Fin b) \<Longrightarrow> \<exists>q. x = Fin q \<and> a \<le> q \<and> q \<le> b"
  by (cases x) auto

lemma pf_uminus_finite [simp]: "py_isfinite (pf_uminus x) = py_isfinite x"
  by (cases x) auto

section \<open>Parsing a float literal\<close>

text \<open>
  Python's \<open>float(str)\<close>: surrounding white space is dropped, then a sign, then
  \<open>inf\<close>, \<open>infinity\<close> or \<open>nan\<close> in any case, or decimal digits with single
  underscores between them, a fraction and an exponent. Anything else is a
  \<open>ValueError\<close>.
\<close>

definition digit_table :: "(char \<times> int) list" where
  "digit_table = [(CHR ''0'', 0), (CHR ''1'', 1), (CHR ''2'', 2), (CHR ''3'', 3), (CHR ''4'', 4),
     (CHR ''5'', 5), (CHR ''6'', 6), (CHR ''7'', 7), (CHR ''8'', 8), (CHR ''9'', 9)]"

definition digit_of :: "char \<Rightarrow> int option" where
  "digit_of c = map_of digit_table c"

definition is_digit :: "char \<Rightarrow> bool" where
  "is_digit c = (digit_of c \<noteq> None)"

definition digit_val :: "char \<Rightarrow> int" where
  "digit_val c = (case digit_of c of Some n \<Rightarrow> n | None \<Rightarrow> 0)"

definition is_space :: "char \<Rightarrow> bool" where
  "is_space c = (c \<in> set [CHR '' '', CHR 0x09, CHR 0x0A, CHR 0x0B, CHR 0x0C, CHR 0x0D])"

definition py_strip :: "string \<Rightarrow> string" where
  "py_strip s = rev (dropWhile is_space (rev (dropWhile is_space s)))"

definition to_lower :: "char \<Rightarrow> char" where
  "to_lower c = (case map_of (zip ''ABCDEFGHIJKLMNOPQRSTUVWXYZ'' ''abcdefghijklmnopqrstuvwxyz'') c of
     Some l \<Rightarrow> l | None \<Rightarrow> c)"

fun take_digits :: "bool \<Rightarrow> string \<Rightarrow> string \<times> string" where
  "take_digits prev [] = ([], [])"
| "take_digits prev (c # cs) =
     (if is_digit c then (let (d, r) = take_digits True cs in (c # d, r))
      else if c = CHR ''_'' \<and> prev \<and> (case cs of [] \<Rightarrow> False | e # _ \<Rightarrow> is_digit e)
      then take_digits False cs
      else ([], c # cs))"

definition int_of_digits :: "string \<Rightarrow> int" where
  "int_of_digits ds = foldl (\<lambda>a c. 10 * a + digit_val c) 0 ds"

definition split_sign :: "string \<Rightarrow> bool \<times> string" where
  "split_sign s = (case s of
     [] \<Rightarrow> (False, [])
   | c # cs \<Rightarrow> if c = CHR ''-'' then (True, cs)
       else if c = CHR ''+'' then (False, cs) else (False, s))"

text \<open>The exponent part: \<open>None\<close> when the rest of the text is not one.\<close>

definition parse_exponent :: "string \<Rightarrow> int option" where
  "parse_exponent s = (case s of
     [] \<Rightarrow> Some 0
   | c # cs \<Rightarrow>
      if to_lower c \<noteq> CHR ''e'' then None
      else (let (neg, r) = split_sign cs; (ds, rest) = take_digits False r in
        if ds = [] \<or> rest \<noteq> [] then None
        else Some (if neg then - int_of_digits ds else int_of_digits ds)))"

definition scale10 :: "rat \<Rightarrow> int \<Rightarrow> rat" where
  "scale10 m e = (if 0 \<le> e then m * 10 ^ nat e else m / 10 ^ nat (- e))"

definition parse_unsigned :: "string \<Rightarrow> rat option" where
  "parse_unsigned s =
     (let (ip, r1) = take_digits False s;
          (fp, r2) = (case r1 of [] \<Rightarrow> ([], [])
             | c # cs \<Rightarrow> if c = CHR ''.'' then take_digits False cs else ([], r1))
      in if ip = [] \<and> fp = [] then None
         else (case parse_exponent r2 of None \<Rightarrow> None
           | Some e \<Rightarrow> Some (scale10 (of_int (int_of_digits (ip @ fp)) / 10 ^ length fp) e)))"

definition float_of_string :: "string \<Rightarrow> pyfloat option" where
  "float_of_string s0 =
     (let (neg, s) = split_sign (py_strip s0); l = map to_lower s in
      if l = ''inf'' \<or> l = ''infinity'' then Some (if neg then NegInf else PosInf)
      else if l = ''nan'' then Some NaN
      else (case parse_unsigned s of None \<Rightarrow> None
        | Some q \<Rightarrow> Some (Fin (if neg then - q else q))))"

text \<open>\<open>float(x)\<close> on the values a telemetry dictionary or a state can hold.\<close>

fun py_float :: "pyval \<Rightarrow> py_error + pyfloat" where
  "py_float VNone = Inl TypeError"
| "py_float (VBool b) = Inr (Fin (if b then 1 else 0))"
| "py_float (VInt i) = Inr (Fin (of_int i))"
| "py_float (VFloat f) = Inr f"
| "py_float (VStr s) = (case float_of_string s of None \<Rightarrow> Inl ValueError | Some f \<Rightarrow> Inr f)"

text \<open>\<open>int(x)\<close>: truncation of a float, exceptions for the values that are not one.\<close>

definition int_of_string :: "string \<Rightarrow> int option" where
  "int_of_string s0 =
     (let (neg, s) = split_sign (py_strip s0); (ds, rest) = take_digits False s in
      if ds = [] \<or> rest \<noteq> [] then None
      else Some (if neg then - int_of_digits ds else int_of_digits ds))"

definition py_trunc :: "rat \<Rightarrow> int" where
  "py_trunc x = (if 0 \<le> x then \<lfloor>x\<rfloor> else \<lceil>x\<rceil>)"

fun py_int :: "pyval \<Rightarrow> py_error + int" where
  "py_int VNone = Inl TypeError"
| "py_int (VBool b) = Inr (if b then 1 else 0)"
| "py_int (VInt i) = Inr i"
| "py_int (VFloat (Fin q)) = Inr (py_trunc q)"
| "py_int (VFloat NaN) = Inl ValueError"
| "py_int (VFloat _) = Inl OverflowError"
| "py_int (VStr s) = (case int_of_string s of None \<Rightarrow> Inl ValueError | Some i \<Rightarrow> Inr i)"

text \<open>\<open>isinstance(x, (int, float))\<close>: \<open>bool\<close> is a subclass of \<open>int\<close>.\<close>

primrec is_number :: "pyval \<Rightarrow> bool" where
  "is_number VNone = False"
| "is_number (VBool _) = True"
| "is_number (VInt _) = True"
| "is_number (VFloat _) = True"
| "is_number (VStr _) = False"

lemma py_float_number: "is_number v \<Longrightarrow> \<exists>f. py_float v = Inr f"
  by (cases v) auto

definition and_then :: "'e + 'a \<Rightarrow> ('a \<Rightarrow> 'e + 'b) \<Rightarrow> 'e + 'b" where
  "and_then r f = (case r of Inl e \<Rightarrow> Inl e | Inr x \<Rightarrow> f x)"

lemma and_then_Inr [simp]: "and_then (Inr x) f = f x"
  and and_then_Inl [simp]: "and_then (Inl e) f = Inl e"
  by (simp_all add: and_then_def)

lemma and_then_eq_Inr: "and_then r f = Inr y \<longleftrightarrow> (\<exists>x. r = Inr x \<and> f x = Inr y)"
  by (cases r) auto

text \<open>\<open>math.isfinite(float(x))\<close> guarded against both exceptions, as the pricing modules do.\<close>

definition finite_val :: "pyval \<Rightarrow> rat option" where
  "finite_val v = (case py_float v of Inr (Fin q) \<Rightarrow> Some q | _ \<Rightarrow> None)"

section \<open>Rounding\<close>

text \<open>\<open>round(x)\<close> is round-half-even.\<close>

definition py_round :: "rat \<Rightarrow> int" where
  "py_round x = (let f = \<lfloor>x\<rfloor>; d = x - of_int f in
     if d < 1/2 then f else if 1/2 < d then f + 1 else if even f then f else f + 1)"

lemma py_round_upper [py_arith]: "of_int (py_round x) \<le> x + 1/2"
proof -
  have "of_int \<lfloor>x\<rfloor> \<le> x" by simp
  then show ?thesis unfolding py_round_def Let_def by (simp; linarith)
qed

lemma py_round_lower [py_arith]: "x - 1/2 \<le> of_int (py_round x)"
proof -
  have "x < of_int \<lfloor>x\<rfloor> + 1" by linarith
  then show ?thesis unfolding py_round_def Let_def by (simp; linarith)
qed

lemma py_round_of_int [simp]: "py_round (of_int k) = k"
  by (simp add: py_round_def)

lemma py_round_numeral [simp]: "py_round (numeral k) = numeral k"
  using py_round_of_int [of "numeral k"] by (simp del: py_round_of_int)

lemma py_round_0 [simp]: "py_round 0 = 0" and py_round_1 [simp]: "py_round 1 = 1"
  using py_round_of_int [of 0] py_round_of_int [of 1] by (simp_all del: py_round_of_int)

lemma py_round_mono: "x \<le> y \<Longrightarrow> py_round x \<le> py_round y"
proof (rule ccontr)
  assume le: "x \<le> y" and "\<not> py_round x \<le> py_round y"
  then have lt: "py_round y + 1 \<le> py_round x" by simp
  then have "of_int (py_round y) + 1 \<le> (of_int (py_round x) :: rat)"
    by (metis of_int_1 of_int_add of_int_le_iff)
  with le have eq: "x = y"
    using py_round_upper [of x] py_round_lower [of y] by linarith
  with lt show False by simp
qed

lemma py_round_nonneg: "0 \<le> x \<Longrightarrow> 0 \<le> py_round x"
  using py_round_mono [of 0 x] by simp

lemma py_round_le_int: "x \<le> of_int k \<Longrightarrow> py_round x \<le> k"
  using py_round_mono [of x "of_int k"] by simp

lemma py_round_ge_int: "of_int k \<le> x \<Longrightarrow> k \<le> py_round x"
  using py_round_mono [of "of_int k" x] by simp

lemma py_trunc_nonneg: "0 \<le> x \<Longrightarrow> 0 \<le> py_trunc x"
  by (simp add: py_trunc_def)

lemma py_trunc_le [py_arith]: "0 \<le> x \<Longrightarrow> of_int (py_trunc x) \<le> x"
  by (simp add: py_trunc_def)

lemma py_trunc_of_int [simp]: "py_trunc (of_int k) = k"
  by (simp add: py_trunc_def)

lemma floor_rat_numeral_div [simp]:
  "\<lfloor>(numeral a / numeral b :: rat)\<rfloor> = numeral a div numeral b"
  by (metis floor_divide_of_int_eq of_int_numeral)

section \<open>Insertion-ordered dictionaries\<close>

text \<open>
  \<open>d[k] = v\<close> is \<^const>\<open>AList.update\<close> (in place when the key exists, at the end
  otherwise, which is Python's iteration order), \<open>d.pop(k, None)\<close> is
  \<^const>\<open>AList.delete\<close>, \<open>d.get(k)\<close> is \<^const>\<open>map_of\<close>.
\<close>

type_synonym ('k, 'v) dict = "('k \<times> 'v) list"

definition dict_get :: "'v \<Rightarrow> ('k, 'v) dict \<Rightarrow> 'k \<Rightarrow> 'v" where
  "dict_get dflt d k = (case map_of d k of None \<Rightarrow> dflt | Some v \<Rightarrow> v)"

lemma dict_get_update: "dict_get z (AList.update k v d) j = (if j = k then v else dict_get z d j)"
  by (simp add: dict_get_def update_conv')

lemma dict_get_delete: "dict_get z (AList.delete k d) j = (if j = k then z else dict_get z d j)"
  by (simp add: dict_get_def delete_conv')

lemma distinct_keys_update: "distinct (map fst d) \<Longrightarrow> distinct (map fst (AList.update k v d))"
  by (rule distinct_update)

lemma keys_update_mem: "k \<in> fst ` set d \<Longrightarrow> map fst (AList.update k v d) = map fst d"
  by (induction d) auto

lemma dict_get_mem:
  "distinct (map fst d) \<Longrightarrow> (k, v) \<in> set d \<Longrightarrow> dict_get z d k = v"
  by (simp add: dict_get_def map_of_is_SomeI)

section \<open>Sums and extrema\<close>

lemma sum_list_nonneg_map: "(\<And>x. x \<in> set xs \<Longrightarrow> (0::'a::ordered_comm_monoid_add) \<le> f x) \<Longrightarrow> 0 \<le> sum_list (map f xs)"
  by (induction xs) auto

lemma sum_list_mono_map:
  "(\<And>x. x \<in> set xs \<Longrightarrow> f x \<le> (g x :: 'a::ordered_comm_monoid_add)) \<Longrightarrow>
   sum_list (map f xs) \<le> sum_list (map g xs)"
  by (induction xs) (auto intro: add_mono)

lemma member_le_sum_list_map:
  fixes f :: "'a \<Rightarrow> 'b::linordered_ab_group_add"
  assumes "\<And>x. x \<in> set xs \<Longrightarrow> 0 \<le> f x" and "y \<in> set xs"
  shows "f y \<le> sum_list (map f xs)"
  using assms
proof (induction xs)
  case Nil
  then show ?case by simp
next
  case (Cons x xs)
  then have nn: "0 \<le> sum_list (map f xs)" "0 \<le> f x"
    by (auto intro!: sum_list_nonneg_map)
  show ?case
  proof (cases "y = x")
    case True
    with nn show ?thesis by simp
  next
    case False
    with Cons have "f y \<le> sum_list (map f xs)" by auto
    with nn show ?thesis by (simp add: add_increasing)
  qed
qed

lemma sum_list_of_int_map: "sum_list (map (\<lambda>x. of_int (f x) :: rat) xs) = of_int (sum_list (map f xs))"
  by (induction xs) auto

lemma sum_list_mult_map: "sum_list (map (\<lambda>x. c * f x) xs) = (c :: rat) * sum_list (map f xs)"
  by (induction xs) (auto simp: distrib_left)

lemma convex_ramp:
  fixes fr fl :: rat
  assumes "0 \<le> fr" and "fr \<le> 1" and "0 \<le> fl" and "fl \<le> 1"
  shows "fl \<le> 1 - fr * (1 - fl) \<and> 1 - fr * (1 - fl) \<le> 1"
proof -
  have "0 \<le> fr * (1 - fl)" using assms by simp
  moreover have "fr * (1 - fl) \<le> 1 * (1 - fl)" using assms by (intro mult_right_mono) auto
  ultimately show ?thesis by auto
qed

lemma Min_list_le: "xs \<noteq> [] \<Longrightarrow> x \<in> set xs \<Longrightarrow> Min (set xs) \<le> (x :: 'a :: linorder)"
  by simp

section \<open>Sorting\<close>

text \<open>\<open>sorted(xs, key=f)\<close> is the stable \<^const>\<open>sort_key\<close>.\<close>

lemma sorted_sort_key_map: "sorted (map f (sort_key f xs))"
  by simp

lemma sum_list_sort_key:
  "sum_list (map g (sort_key f xs)) = (sum_list (map g xs) :: 'b :: comm_monoid_add)"
proof -
  have "mset (map g (sort_key f xs)) = mset (map g xs)" by simp
  then show ?thesis by (metis sum_mset_sum_list)
qed

section \<open>Step machines\<close>

text \<open>
  Several components are a state updated by one call per control cycle. The laws
  of such a component, an invariant that every call keeps and a quantity no call
  decreases, are stated once.
\<close>

fun run :: "('s \<Rightarrow> 'e \<Rightarrow> 's) \<Rightarrow> 's \<Rightarrow> 'e list \<Rightarrow> 's" where
  "run step s [] = s"
| "run step s (e # es) = run step (step s e) es"

lemma run_append: "run step s (xs @ ys) = run step (run step s xs) ys"
  by (induction xs arbitrary: s) auto

locale invariant_machine =
  fixes step :: "'s \<Rightarrow> 'e \<Rightarrow> 's"
    and inv :: "'s \<Rightarrow> bool"
    and ok :: "'e \<Rightarrow> bool"
  assumes step_inv: "inv s \<Longrightarrow> ok e \<Longrightarrow> inv (step s e)"
begin

lemma run_inv: "inv s \<Longrightarrow> (\<And>e. e \<in> set es \<Longrightarrow> ok e) \<Longrightarrow> inv (run step s es)"
  by (induction es arbitrary: s) (auto intro: step_inv)

end

locale growing_machine = invariant_machine +
  fixes amount :: "'a \<Rightarrow> rat"
  assumes step_grows: "inv s \<Longrightarrow> ok e \<Longrightarrow> amount s \<le> amount (step s e)"
begin

lemma run_grows:
  "inv s \<Longrightarrow> (\<And>e. e \<in> set es \<Longrightarrow> ok e) \<Longrightarrow> amount s \<le> amount (run step s es)"
proof (induction es arbitrary: s)
  case Nil
  then show ?case by simp
next
  case (Cons e es)
  then have "amount s \<le> amount (step s e)" and "inv (step s e)"
    by (auto intro: step_grows step_inv)
  moreover from this Cons have "amount (step s e) \<le> amount (run step (step s e) es)" by auto
  ultimately show ?case by simp
qed

end

text \<open>
  A metered machine: every step pays for what it gains out of a stored potential and the
  cost of its event, so the gains of a run are bounded by the costs of its events.
\<close>

fun metered :: "('s \<Rightarrow> 'e \<Rightarrow> 's) \<Rightarrow> ('s \<Rightarrow> 's \<Rightarrow> nat) \<Rightarrow> 's \<Rightarrow> 'e list \<Rightarrow> nat" where
  "metered step gain s [] = 0"
| "metered step gain s (e # es) = gain s (step s e) + metered step gain (step s e) es"

locale metered_machine = invariant_machine +
  fixes potential :: "'a \<Rightarrow> nat"
    and gain :: "'a \<Rightarrow> 'a \<Rightarrow> nat"
    and price :: nat
    and cost :: "'b \<Rightarrow> nat"
  assumes step_pays: "inv s \<Longrightarrow> ok e \<Longrightarrow>
    potential (step s e) + price * gain s (step s e) \<le> potential s + cost e"
begin

lemma run_pays:
  "inv s \<Longrightarrow> (\<And>e. e \<in> set es \<Longrightarrow> ok e) \<Longrightarrow>
    potential (run step s es) + price * metered step gain s es \<le> potential s + sum_list (map cost es)"
proof (induction es arbitrary: s)
  case Nil
  then show ?case by simp
next
  case (Cons e es)
  then have "potential (step s e) + price * gain s (step s e) \<le> potential s + cost e" and "inv (step s e)"
    by (auto intro: step_pays step_inv)
  moreover from this Cons have "potential (run step (step s e) es) + price * metered step gain (step s e) es
      \<le> potential (step s e) + sum_list (map cost es)" by auto
  ultimately show ?case by (simp add: distrib_left)
qed

end

lemma sum_list_count: "sum_list (map (\<lambda>e. if P e then 1 else 0) es) = length (filter P es)"
  by (induction es) auto

end
