(* ===== verification/Energy.thy ===== *)
theory Energy
  imports Py_Prelude
begin

text \<open>
  \<open>energy.py\<close>: the effective discharge total of a battery and the software
  integrator of the energy a hardware counter omits while the battery feeds its
  backup output. The accumulator is a record, one call of \<open>observe\<close> a step; the
  facts show that it only grows, that the daily total never exceeds the lifetime
  total, and that it equals the sum over the adjacent pairs of active samples.
\<close>

section \<open>The effective discharge total\<close>

definition BACKUP_DISCHARGING_ENERGY_KEY :: string where
  "BACKUP_DISCHARGING_ENERGY_KEY = ''backup_discharging_energy''"
definition BACKUP_DAILY_DISCHARGING_ENERGY_KEY :: string where
  "BACKUP_DAILY_DISCHARGING_ENERGY_KEY = ''backup_daily_discharging_energy''"
definition EFFECTIVE_TOTAL_DISCHARGING_ENERGY_KEY :: string where
  "EFFECTIVE_TOTAL_DISCHARGING_ENERGY_KEY = ''effective_total_discharging_energy''"
definition MAX_BACKUP_INTEGRATION_GAP_S :: rat where
  "MAX_BACKUP_INTEGRATION_GAP_S = 600"

lemmas key_defs = BACKUP_DISCHARGING_ENERGY_KEY_def BACKUP_DAILY_DISCHARGING_ENERGY_KEY_def
  EFFECTIVE_TOTAL_DISCHARGING_ENERGY_KEY_def

type_synonym data = "(string, pyval) dict"

text \<open>\<open>value if math.isfinite(value) and value >= 0 else None\<close>\<close>

definition finite_nonneg :: "pyfloat \<Rightarrow> rat option" where
  "finite_nonneg f = (case f of Fin q \<Rightarrow> if 0 \<le> q then Some q else None | _ \<Rightarrow> None)"

definition raw_total :: "data \<Rightarrow> rat option" where
  "raw_total d = (case py_float (dict_get VNone d ''total_discharging_energy'') of
     Inl _ \<Rightarrow> None | Inr f \<Rightarrow> finite_nonneg f)"

definition effective_total_discharging_energy :: "data option \<Rightarrow> rat option" where
  "effective_total_discharging_energy od = (case od of
     None \<Rightarrow> None
   | Some d \<Rightarrow>
      if d = [] then None
      else (let eff = dict_get VNone d EFFECTIVE_TOTAL_DISCHARGING_ENERGY_KEY in
        if eff \<noteq> VNone
        then (case py_float eff of Inl _ \<Rightarrow> raw_total d | Inr f \<Rightarrow> finite_nonneg f)
        else raw_total d))"

section \<open>The accumulator\<close>

record accumulator =
  kwh :: rat
  daily_kwh :: rat
  reset_date :: "string option"
  last_sample_monotonic :: "rat option"
  last_sample_active :: bool

definition new_accumulator :: accumulator where
  "new_accumulator = \<lparr>kwh = 0, daily_kwh = 0, reset_date = None,
     last_sample_monotonic = None, last_sample_active = False\<rparr>"

record sample =
  now_monotonic :: rat
  power_w :: pyval
  local_date :: string

text \<open>\<open>math.isfinite(power) and power > 0\<close> of a sample that converts.\<close>

definition active_power :: "pyval \<Rightarrow> rat option" where
  "active_power v = (case py_float v of Inr (Fin p) \<Rightarrow> if 0 < p then Some p else None | _ \<Rightarrow> None)"

definition observe :: "accumulator \<Rightarrow> sample \<Rightarrow> accumulator \<times> bool" where
  "observe a s =
     (let a1 = (if reset_date a \<noteq> Some (local_date s)
                then a\<lparr>daily_kwh := 0, reset_date := Some (local_date s)\<rparr> else a);
          before = last_sample_monotonic a1;
          a2 = a1\<lparr>last_sample_monotonic := Some (now_monotonic s)\<rparr>
      in case py_float (power_w s) of
           Inl _ \<Rightarrow> (a2\<lparr>last_sample_active := False\<rparr>, False)
         | Inr pw \<Rightarrow>
            (let current = (case pw of Fin p \<Rightarrow> 0 < p | _ \<Rightarrow> False);
                 previous = last_sample_active a2;
                 a3 = a2\<lparr>last_sample_active := current\<rparr>
             in case before of
                  None \<Rightarrow> (a3, False)
                | Some l \<Rightarrow>
                   (let elapsed = now_monotonic s - l in
                    if elapsed \<le> 0 \<or> MAX_BACKUP_INTEGRATION_GAP_S < elapsed then (a3, False)
                    else if \<not> previous \<or> \<not> current then (a3, False)
                    else (case pw of
                        Fin p \<Rightarrow> (let e = p * elapsed / 3600000 in
                          (a3\<lparr>kwh := kwh a3 + e, daily_kwh := daily_kwh a3 + e\<rparr>, True))
                      | _ \<Rightarrow> (a3, False)))))"

definition observe_step :: "accumulator \<Rightarrow> sample \<Rightarrow> accumulator" where
  "observe_step a s = fst (observe a s)"

text \<open>\<open>publish\<close> writes both totals and the corrected one, or withdraws the latter.\<close>

definition publish :: "accumulator \<Rightarrow> data \<Rightarrow> data" where
  "publish a d =
     (let d1 = AList.update BACKUP_DISCHARGING_ENERGY_KEY (VFloat (Fin (kwh a))) d;
          d2 = AList.update BACKUP_DAILY_DISCHARGING_ENERGY_KEY (VFloat (Fin (daily_kwh a))) d1
      in case raw_total d2 of
           None \<Rightarrow> AList.delete EFFECTIVE_TOTAL_DISCHARGING_ENERGY_KEY d2
         | Some raw \<Rightarrow> AList.update EFFECTIVE_TOTAL_DISCHARGING_ENERGY_KEY
             (VFloat (Fin (raw + kwh a))) d2)"

section \<open>The specification of an increment\<close>

text \<open>
  What one sample adds, stated without the control flow: both end points active,
  and a positive gap of at most ten minutes, priced at the newer sample's power.
\<close>

definition increment :: "accumulator \<Rightarrow> sample \<Rightarrow> rat" where
  "increment a s = (case (last_sample_monotonic a, active_power (power_w s)) of
     (Some l, Some p) \<Rightarrow>
       if last_sample_active a \<and> l < now_monotonic s \<and> now_monotonic s \<le> l + 600
       then p * (now_monotonic s - l) / 3600000 else 0
   | _ \<Rightarrow> 0)"

lemma increment_nonneg: "0 \<le> increment a s"
  by (auto simp: increment_def active_power_def split: option.splits sum.splits pyfloat.splits)

lemma observe_cases:
  "observe_step a s =
     a\<lparr>kwh := kwh a + increment a s,
       daily_kwh := (if reset_date a \<noteq> Some (local_date s) then 0 else daily_kwh a) + increment a s,
       reset_date := Some (local_date s),
       last_sample_monotonic := Some (now_monotonic s),
       last_sample_active := active_power (power_w s) \<noteq> None\<rparr>"
  by (auto simp: observe_step_def observe_def increment_def active_power_def Let_def
      MAX_BACKUP_INTEGRATION_GAP_S_def split: sum.splits pyfloat.splits option.splits)

lemma observe_reports: "snd (observe a s) = (increment a s \<noteq> 0)"
  by (auto simp: observe_def increment_def active_power_def Let_def
      MAX_BACKUP_INTEGRATION_GAP_S_def split: sum.splits pyfloat.splits option.splits)

definition acc_inv :: "accumulator \<Rightarrow> bool" where
  "acc_inv a = (0 \<le> daily_kwh a \<and> daily_kwh a \<le> kwh a)"

lemma acc_inv_new: "acc_inv new_accumulator"
  by (simp add: acc_inv_def new_accumulator_def)

interpretation backup: growing_machine observe_step acc_inv "\<lambda>_. True" kwh
  by unfold_locales (use increment_nonneg in \<open>auto simp: observe_cases acc_inv_def add_nonneg_nonneg\<close>)

section \<open>The sum over adjacent active samples\<close>

fun pair_energy :: "sample list \<Rightarrow> rat" where
  "pair_energy (a # b # rest) =
     (case (active_power (power_w a), active_power (power_w b)) of
        (Some _, Some p) \<Rightarrow>
          if now_monotonic a < now_monotonic b \<and> now_monotonic b \<le> now_monotonic a + 600
          then p * (now_monotonic b - now_monotonic a) / 3600000 else 0
      | _ \<Rightarrow> 0) + pair_energy (b # rest)"
| "pair_energy _ = 0"

lemma run_observe_pairs:
  "last_sample_monotonic a = Some (now_monotonic s) \<Longrightarrow>
   last_sample_active a = (active_power (power_w s) \<noteq> None) \<Longrightarrow>
   kwh (run observe_step a ss) = kwh a + pair_energy (s # ss)"
proof (induction ss arbitrary: a s)
  case Nil
  then show ?case by simp
next
  case (Cons t ss)
  let ?a = "observe_step a t"
  have "kwh (run observe_step ?a ss) = kwh ?a + pair_energy (t # ss)"
    by (rule Cons.IH) (simp_all add: observe_cases)
  moreover have "kwh ?a + pair_energy (t # ss) = kwh a + pair_energy (s # t # ss)"
    using Cons.prems by (auto simp: observe_cases increment_def split: option.splits)
  ultimately show ?case by simp
qed

lemma run_observe_new: "kwh (run observe_step new_accumulator ss) = pair_energy ss"
proof (cases ss)
  case Nil
  then show ?thesis by (simp add: new_accumulator_def)
next
  case (Cons s rest)
  have "kwh (run observe_step (observe_step new_accumulator s) rest)
      = kwh (observe_step new_accumulator s) + pair_energy (s # rest)"
    by (rule run_observe_pairs) (simp_all add: observe_cases)
  then show ?thesis using Cons
    by (simp add: observe_cases increment_def new_accumulator_def)
qed

section \<open>Properties\<close>

text \<open>
  C1. Refinement of the integrator: over any run of samples from a fresh
  accumulator the lifetime total is the sum, over the adjacent pairs in which both
  samples are active and lie at most ten minutes apart, of the newer power times
  the gap; and a call reports a change exactly when its increment is not zero.
\<close>

theorem backup_energy_is_pair_sum:
  "kwh (run observe_step new_accumulator ss) = pair_energy ss \<and>
   snd (observe (run observe_step new_accumulator ss) s)
     = (kwh (observe_step (run observe_step new_accumulator ss) s)
        \<noteq> kwh (run observe_step new_accumulator ss))"
  by (simp add: run_observe_new observe_reports observe_cases)

text \<open>
  Along any run of samples the daily total stays between zero and the lifetime
  total, the lifetime total never decreases, and the first sample of a new date
  restarts the daily total at that sample's own increment.
\<close>

theorem backup_daily_within_total:
  assumes "0 \<le> daily_kwh a" and "daily_kwh a \<le> kwh a"
  shows "0 \<le> daily_kwh (run observe_step a ss)
    \<and> daily_kwh (run observe_step a ss) \<le> kwh (run observe_step a ss)
    \<and> kwh a \<le> kwh (run observe_step a ss)
    \<and> (reset_date (run observe_step a ss) \<noteq> Some (local_date s) \<longrightarrow>
        daily_kwh (observe_step (run observe_step a ss) s)
          = kwh (observe_step (run observe_step a ss) s) - kwh (run observe_step a ss))"
proof -
  from assms have inv: "acc_inv a" by (simp add: acc_inv_def)
  then have "acc_inv (run observe_step a ss)" by (rule backup.run_inv) simp
  moreover from inv have "kwh a \<le> kwh (run observe_step a ss)" by (rule backup.run_grows) simp
  ultimately show ?thesis by (simp add: acc_inv_def observe_cases)
qed

definition sample_a :: sample where
  "sample_a = \<lparr>now_monotonic = 10, power_w = VStr ''1800'', local_date = ''2026-09-04''\<rparr>"
definition sample_b :: sample where
  "sample_b = \<lparr>now_monotonic = 70, power_w = VInt 1200, local_date = ''2026-09-04''\<rparr>"
definition sample_c :: sample where
  "sample_c = \<lparr>now_monotonic = 130, power_w = VInt 600, local_date = ''2026-09-05''\<rparr>"

theorem backup_daily_within_total_witness:
  "0 \<le> daily_kwh (run observe_step new_accumulator [sample_a, sample_b])
   \<and> kwh (run observe_step new_accumulator [sample_a, sample_b]) = 1/50
   \<and> daily_kwh (observe_step (run observe_step new_accumulator [sample_a, sample_b]) sample_c) = 1/100"
proof -
  have "0 \<le> daily_kwh new_accumulator" and "daily_kwh new_accumulator \<le> kwh new_accumulator"
    by (simp_all add: new_accumulator_def)
  from backup_daily_within_total [OF this, of "[sample_a, sample_b]" sample_c] show ?thesis
    by code_simp
qed

text \<open>
  What \<open>publish\<close> writes is what the reader returns: the effective total is the
  hardware counter plus the integrated energy when the counter is a finite
  non-negative number, and unavailable otherwise, whatever stood under the key
  before.
\<close>

theorem publish_effective_roundtrip:
  assumes "0 \<le> kwh a"
  shows "effective_total_discharging_energy (Some (publish a d))
    = (case raw_total d of None \<Rightarrow> None | Some raw \<Rightarrow> Some (raw + kwh a))"
proof -
  let ?d2 = "AList.update BACKUP_DAILY_DISCHARGING_ENERGY_KEY (VFloat (Fin (daily_kwh a)))
    (AList.update BACKUP_DISCHARGING_ENERGY_KEY (VFloat (Fin (kwh a))) d)"
  have raw2: "raw_total ?d2 = raw_total d"
    by (simp add: raw_total_def dict_get_update key_defs)
  have ne: "publish a d \<noteq> []"
  proof -
    have "map_of (publish a d) BACKUP_DISCHARGING_ENERGY_KEY \<noteq> None"
      by (simp add: publish_def Let_def update_conv' delete_conv' key_defs split: option.split)
    then show ?thesis by auto
  qed
  show ?thesis
  proof (cases "raw_total d")
    case None
    then have p: "publish a d = AList.delete EFFECTIVE_TOTAL_DISCHARGING_ENERGY_KEY ?d2"
      by (simp add: publish_def Let_def raw2)
    have "raw_total (publish a d) = raw_total ?d2"
      unfolding p by (simp add: raw_total_def dict_get_delete key_defs)
    with None ne show ?thesis
      by (simp add: effective_total_discharging_energy_def raw2 Let_def p dict_get_delete)
  next
    case (Some r)
    then have "0 \<le> r"
      by (auto simp: raw_total_def finite_nonneg_def split: sum.splits pyfloat.splits if_splits)
    with Some assms ne show ?thesis
      by (simp add: effective_total_discharging_energy_def publish_def raw2 Let_def
          dict_get_update finite_nonneg_def)
  qed
qed

theorem publish_effective_roundtrip_witness:
  "effective_total_discharging_energy (Some (publish (new_accumulator\<lparr>kwh := 2\<rparr>)
     [(''total_discharging_energy'', VStr '' 10.5 '')])) = Some (25/2)"
proof -
  have "0 \<le> kwh (new_accumulator\<lparr>kwh := 2\<rparr>)" by (simp add: new_accumulator_def)
  from publish_effective_roundtrip [OF this, of "[(''total_discharging_energy'', VStr '' 10.5 '')]"]
  show ?thesis by code_simp
qed

end
