(* ===== verification/Pack_Soc.thy ===== *)
theory Pack_Soc
  imports Py_Prelude
begin

text \<open>
  \<open>control/pack_soc.py\<close>: the state of charge a battery of several coupled packs is
  judged by at either end of the charge, and the cell voltage that may speak for
  the whole battery. The telemetry is the insertion-ordered dictionary the
  coordinator holds; the pack keys are found by prefix, as in the code.
\<close>

type_synonym data = "(string, pyval) dict"

definition PACK_SOC_PREFIX :: string where
  "PACK_SOC_PREFIX = ''battery_soc_pack_''"

definition PACK_TOP_SOC :: rat where
  "PACK_TOP_SOC = 99"

definition starts_with :: "string \<Rightarrow> string \<Rightarrow> bool" where
  "starts_with p s = (take (length p) s = p)"

text \<open>
  \<open>isinstance(value, (int, float)) and 0 <= value <= 100\<close>: the bound also keeps
  NaN and the infinities out, so what passes is a finite number.
\<close>

definition bounded_soc :: "pyval \<Rightarrow> rat option" where
  "bounded_soc v = (if is_number v
     then (case py_float v of
         Inr (Fin q) \<Rightarrow> if 0 \<le> q \<and> q \<le> 100 then Some q else None
       | _ \<Rightarrow> None)
     else None)"

definition pack_socs :: "data option \<Rightarrow> rat list" where
  "pack_socs od = (case od of None \<Rightarrow> []
     | Some d \<Rightarrow> List.map_filter (\<lambda>(k, v).
         if starts_with PACK_SOC_PREFIX k then bounded_soc v else None) d)"

definition soc_vs_ceiling :: "data option \<Rightarrow> rat option \<Rightarrow> rat option" where
  "soc_vs_ceiling od aggregate =
     (let packs = pack_socs od in if packs \<noteq> [] then Some (Min (set packs)) else aggregate)"

definition soc_vs_floor :: "data option \<Rightarrow> rat option \<Rightarrow> rat option" where
  "soc_vs_floor od aggregate =
     (let packs = pack_socs od in if packs \<noteq> [] then Some (Min (set packs)) else aggregate)"

text \<open>
  A missing key, a value \<open>float\<close> rejects, and packs that have not all reached the
  top yield no opinion; otherwise the reading of the register.
\<close>

definition control_vmax :: "data option \<Rightarrow> pyfloat option" where
  "control_vmax od =
     (let d = (case od of None \<Rightarrow> [] | Some d \<Rightarrow> d) in
      case map_of d ''max_cell_voltage'' of
        None \<Rightarrow> None
      | Some v \<Rightarrow>
         (case py_float v of
            Inl _ \<Rightarrow> None
          | Inr vmax \<Rightarrow>
             (let packs = pack_socs od in
              if packs \<noteq> [] \<and> Min (set packs) < PACK_TOP_SOC then None else Some vmax)))"

lemma bounded_soc_range: "bounded_soc v = Some q \<Longrightarrow> 0 \<le> q \<and> q \<le> 100"
  by (auto simp: bounded_soc_def split: if_splits sum.splits pyfloat.splits)

lemma set_map_filter: "set (List.map_filter f xs) = {y. \<exists>x \<in> set xs. f x = Some y}"
  by (force simp: List.map_filter_def)

lemma pack_socs_mem:
  "q \<in> set (pack_socs (Some d)) \<longleftrightarrow>
     (\<exists>k v. (k, v) \<in> set d \<and> starts_with PACK_SOC_PREFIX k \<and> bounded_soc v = Some q)"
  by (auto simp: pack_socs_def set_map_filter split: if_splits; force)

lemma pack_socs_range: "q \<in> set (pack_socs od) \<Longrightarrow> 0 \<le> q \<and> q \<le> 100"
  by (cases od) (auto simp: pack_socs_def set_map_filter dest: bounded_soc_range split: if_splits)

section \<open>Properties\<close>

text \<open>
  Both ends of the charge are judged by the least full pack: with any pack
  reporting, the verdict lies in 0..100, is at or below every reported pack and is
  the reading of one of them, and the fleet aggregate is ignored; with none, the
  aggregate is passed through.
\<close>

theorem pack_verdict_is_least_full:
  "soc_vs_floor od aggregate = soc_vs_ceiling od aggregate
    \<and> (if pack_socs od = [] then soc_vs_ceiling od aggregate = aggregate
       else (\<exists>q. soc_vs_ceiling od aggregate = Some q \<and> q \<in> set (pack_socs od)
         \<and> list_all (\<lambda>p. q \<le> p) (pack_socs od) \<and> 0 \<le> q \<and> q \<le> 100))"
proof (cases "pack_socs od = []")
  case True
  then show ?thesis by (simp add: soc_vs_ceiling_def soc_vs_floor_def)
next
  case False
  let ?m = "Min (set (pack_socs od))"
  from False have mem: "?m \<in> set (pack_socs od)" by simp
  with pack_socs_range have "0 \<le> ?m \<and> ?m \<le> 100" by blast
  with False mem show ?thesis
    by (auto simp: soc_vs_ceiling_def soc_vs_floor_def Let_def list_all_iff)
qed

text \<open>
  The top cell voltage decides for the whole battery only when the register
  holds something \<open>float\<close> accepts and no reported pack is below 99 percent; then it
  is that reading unchanged.
\<close>

theorem control_vmax_only_at_top:
  "control_vmax (Some d) = Some v \<longleftrightarrow>
     (\<exists>x. map_of d ''max_cell_voltage'' = Some x \<and> py_float x = Inr v)
     \<and> list_all (\<lambda>q. 99 \<le> q) (pack_socs (Some d))"
proof -
  have "(packs \<noteq> [] \<and> Min (set packs) < PACK_TOP_SOC) = (\<not> list_all (\<lambda>q. 99 \<le> q) packs)" for packs
    by (cases "packs = []") (auto simp: PACK_TOP_SOC_def list_all_iff Min_less_iff not_le)
  then show ?thesis
    by (simp add: control_vmax_def Let_def split: option.splits sum.splits)
qed

end
