(* ===== verification/Time_Slots.thy ===== *)
theory Time_Slots
  imports Py_Prelude
begin

text \<open>
  The configured time slots of \<open>__init__.py\<close>: which slot applies to a battery, when
  its window is open (midnight crossing included), the per-direction whitelist, and
  the active slot with its power override. Times of day are numbers of minutes (any
  finer unit works as well); a start or end text that \<open>time.fromisoformat\<close> rejects
  is \<open>None\<close>.
\<close>

datatype slot_scope = ScopeAll | ScopeBattery nat

datatype slot_direction = DirAny | DirCharge | DirDischarge

record slot_limits =
  max_charge_power_w :: pyval
  max_discharge_power_w :: pyval
  soc_min :: pyval
  soc_max :: pyval

record time_slot =
  slot_enabled :: bool
  battery_scope :: slot_scope
  allow_charge :: bool
  allow_discharge :: bool
  days :: "nat list"
  start_time :: "nat option"
  end_time :: "nat option"
  power_override_enabled :: bool
  mode_manual :: bool
  soc_override_enabled :: bool
  battery_limits :: "(nat, slot_limits) dict"

definition no_limits :: slot_limits where
  "no_limits = \<lparr>max_charge_power_w = VNone, max_discharge_power_w = VNone,
     soc_min = VNone, soc_max = VNone\<rparr>"

text \<open>\<open>self.coordinators.index(coordinator)\<close>, with \<open>ValueError\<close> as \<open>None\<close>.\<close>

fun index_of :: "'a list \<Rightarrow> 'a \<Rightarrow> nat option" where
  "index_of [] x = None"
| "index_of (y # ys) x = (if x = y then Some 0 else map_option Suc (index_of ys x))"

definition slot_battery_key :: "bat list \<Rightarrow> bat \<Rightarrow> nat option" where
  "slot_battery_key coordinators c = map_option Suc (index_of coordinators c)"

definition slot_battery_limits :: "bat list \<Rightarrow> time_slot \<Rightarrow> bat \<Rightarrow> slot_limits" where
  "slot_battery_limits coordinators slot c = (case slot_battery_key coordinators c of
     None \<Rightarrow> no_limits
   | Some k \<Rightarrow> dict_get no_limits (battery_limits slot) k)"

definition slot_applies_to_battery :: "bat list \<Rightarrow> time_slot \<Rightarrow> bat \<Rightarrow> bool" where
  "slot_applies_to_battery coordinators slot c = (case battery_scope slot of
     ScopeAll \<Rightarrow> True
   | ScopeBattery k \<Rightarrow> slot_battery_key coordinators c = Some k)"

definition slot_time_matches :: "time_slot \<Rightarrow> nat \<Rightarrow> bool" where
  "slot_time_matches slot now_time = (case (start_time slot, end_time slot) of
     (Some start, Some finish) \<Rightarrow>
       if start \<le> finish then start \<le> now_time \<and> now_time \<le> finish
       else start \<le> now_time \<or> now_time \<le> finish
   | _ \<Rightarrow> False)"

definition slot_allows :: "time_slot \<Rightarrow> bool \<Rightarrow> bool" where
  "slot_allows slot is_charging = (if is_charging then allow_charge slot else allow_discharge slot)"

definition is_time_slot_allowed :: "bat list \<Rightarrow> time_slot list \<Rightarrow> nat \<Rightarrow> nat \<Rightarrow> bat \<Rightarrow> bool \<Rightarrow> bool" where
  "is_time_slot_allowed coordinators all_slots current_day current_time c is_charging =
     (let slots = filter slot_enabled all_slots in
      if slots = [] then True
      else (let relevant = filter (\<lambda>s. slot_applies_to_battery coordinators s c) slots in
        if \<not> list_ex (\<lambda>s. slot_allows s is_charging) relevant then True
        else list_ex (\<lambda>s. slot_allows s is_charging \<and> current_day \<in> set (days s)
               \<and> slot_time_matches s current_time) relevant))"

definition slot_eligible :: "bat list \<Rightarrow> bat option \<Rightarrow> slot_direction \<Rightarrow> nat \<Rightarrow> nat \<Rightarrow> time_slot \<Rightarrow> bool" where
  "slot_eligible coordinators oc direction current_day current_time s =
     (slot_enabled s
      \<and> (case oc of None \<Rightarrow> True | Some c \<Rightarrow> slot_applies_to_battery coordinators s c)
      \<and> (direction = DirCharge \<longrightarrow> allow_charge s)
      \<and> (direction = DirDischarge \<longrightarrow> allow_discharge s)
      \<and> current_day \<in> set (days s)
      \<and> slot_time_matches s current_time)"

definition get_active_slot :: "bat list \<Rightarrow> time_slot list \<Rightarrow> nat \<Rightarrow> nat \<Rightarrow> bat option
    \<Rightarrow> slot_direction \<Rightarrow> time_slot option" where
  "get_active_slot coordinators slots current_day current_time oc direction =
     find (slot_eligible coordinators oc direction current_day current_time) slots"

definition apply_slot_power_ceiling ::
    "bat list \<Rightarrow> time_slot option \<Rightarrow> bat \<Rightarrow> bool \<Rightarrow> int \<Rightarrow> py_error + int" where
  "apply_slot_power_ceiling coordinators active c is_charging current_limit = (case active of
     None \<Rightarrow> Inr current_limit
   | Some slot \<Rightarrow>
      if \<not> power_override_enabled slot then Inr current_limit
      else if mode_manual slot then Inr current_limit
      else (let limits = slot_battery_limits coordinators slot c;
                val = (if is_charging then max_charge_power_w limits else max_discharge_power_w limits)
        in if val = VNone then Inr current_limit
           else (case py_int val of
               Inr v \<Rightarrow> Inr (min current_limit v)
             | Inl OverflowError \<Rightarrow> Inl OverflowError
             | Inl _ \<Rightarrow> Inr current_limit)))"

text \<open>\<open>_slot_manual_direction_for\<close>: the one direction a manual slot forces, with its power.\<close>

definition slot_manual_direction_for ::
    "bat list \<Rightarrow> time_slot option \<Rightarrow> bat \<Rightarrow> py_error + (bool \<times> int) option" where
  "slot_manual_direction_for coordinators active c = (case active of
     None \<Rightarrow> Inr None
   | Some slot \<Rightarrow>
      if \<not> mode_manual slot then Inr None
      else if \<not> power_override_enabled slot then Inr None
      else if allow_charge slot \<and> allow_discharge slot then Inr None
      else (let limits = slot_battery_limits coordinators slot c in
        if allow_discharge slot then
          (if max_discharge_power_w limits = VNone then Inr None
           else and_then (py_int (max_discharge_power_w limits)) (\<lambda>v. Inr (Some (False, v))))
        else if allow_charge slot then
          (if max_charge_power_w limits = VNone then Inr None
           else and_then (py_int (max_charge_power_w limits)) (\<lambda>v. Inr (Some (True, v))))
        else Inr None))"

lemma index_of_Some: "index_of xs x = Some i \<Longrightarrow> i < length xs \<and> xs ! i = x"
  by (induction xs arbitrary: i) (auto split: if_splits)

lemma index_of_None: "index_of xs x = None \<longleftrightarrow> x \<notin> set xs"
  by (induction xs) auto

lemma slot_battery_key_inj:
  "slot_battery_key cs a = Some k \<Longrightarrow> slot_battery_key cs b = Some k \<Longrightarrow> a = b"
  by (auto simp: slot_battery_key_def dest!: index_of_Some)

lemma slot_time_open:
  "slot_time_matches s t \<longleftrightarrow>
     (\<exists>x y. start_time s = Some x \<and> end_time s = Some y
        \<and> (if x \<le> y then x \<le> t \<and> t \<le> y else x \<le> t \<or> t \<le> y))"
  by (cases "start_time s"; cases "end_time s") (simp_all add: slot_time_matches_def)

definition direction_of :: "bool \<Rightarrow> slot_direction" where
  "direction_of is_charging = (if is_charging then DirCharge else DirDischarge)"

lemma slot_eligible_direction:
  "slot_eligible cs (Some c) (direction_of b) day t s =
     (slot_enabled s \<and> slot_applies_to_battery cs s c \<and> slot_allows s b
      \<and> day \<in> set (days s) \<and> slot_time_matches s t)"
  by (auto simp: slot_eligible_def direction_of_def slot_allows_def)

lemma is_time_slot_allowed_eligible:
  "is_time_slot_allowed cs slots day t c b =
     (\<not> list_ex (\<lambda>s. slot_enabled s \<and> slot_applies_to_battery cs s c \<and> slot_allows s b) slots
      \<or> list_ex (slot_eligible cs (Some c) (direction_of b) day t) slots)"
  by (auto simp: is_time_slot_allowed_def Let_def list_ex_iff filter_empty_conv slot_eligible_direction)

lemma get_active_slot_found:
  "get_active_slot cs slots day t oc dir = Some s \<Longrightarrow> s \<in> set slots \<and> slot_eligible cs oc dir day t s"
  by (auto simp: get_active_slot_def find_Some_iff)

lemma get_active_slot_exists:
  "list_ex (slot_eligible cs oc dir day t) slots = (\<exists>s. get_active_slot cs slots day t oc dir = Some s)"
  by (metis (no_types, lifting) find_None_iff get_active_slot_def get_active_slot_found list_ex_iff
      not_None_eq)

section \<open>Properties\<close>

text \<open>
  The whitelist and the slot lookup agree: a battery may move in a direction
  exactly when no enabled slot that applies to it allows that direction (the
  whitelist is then inactive) or the lookup finds an active slot for it in that
  direction; and what the lookup finds is enabled, applies to the battery, allows
  the direction and has its window open, midnight crossing included.
\<close>

theorem time_slot_whitelist_agrees:
  "is_time_slot_allowed cs slots day t c b \<longleftrightarrow>
     list_all (\<lambda>s. \<not> (slot_enabled s \<and> slot_applies_to_battery cs s c \<and> slot_allows s b)) slots
     \<or> (\<exists>s. get_active_slot cs slots day t (Some c) (direction_of b) = Some s
         \<and> s \<in> set slots \<and> slot_enabled s \<and> slot_applies_to_battery cs s c \<and> slot_allows s b
         \<and> day \<in> set (days s)
         \<and> (\<exists>x y. start_time s = Some x \<and> end_time s = Some y
              \<and> (if x \<le> y then x \<le> t \<and> t \<le> y else x \<le> t \<or> t \<le> y)))"
proof -
  have "(\<exists>s. get_active_slot cs slots day t (Some c) (direction_of b) = Some s)
    \<longleftrightarrow> (\<exists>s. get_active_slot cs slots day t (Some c) (direction_of b) = Some s
         \<and> s \<in> set slots \<and> slot_eligible cs (Some c) (direction_of b) day t s)"
    by (auto dest: get_active_slot_found)
  then show ?thesis
    unfolding is_time_slot_allowed_eligible get_active_slot_exists
    by (simp only: slot_eligible_direction slot_time_open list_ex_iff list_all_iff bex_simps(8) ball_simps)
qed

end
