(* ===== verification/Power_Limits.thy ===== *)
theory Power_Limits
  imports Pack_Soc Time_Slots
begin

text \<open>
  The per-battery power limit of a control cycle: the thermal derate
  (\<open>control/temperature_limit.py\<close>), the cell-voltage taper near the top of charge
  (\<open>control/max_soc_charge.py\<close>), the driver's live headroom, the configured time
  slots, and their composition \<open>_battery_power_limit\<close> with the system-wide cap of
  \<open>__init__.py\<close>. Each stage is a cap: it never raises the limit it is given and
  never makes it negative; the composition inherits both from the interface.
\<close>

section \<open>The interface of a limiting stage\<close>

locale power_cap =
  fixes cap :: "'e \<Rightarrow> int \<Rightarrow> py_error + int"
    and ok :: "'e \<Rightarrow> bool"
  assumes cap_le: "0 \<le> l \<Longrightarrow> cap e l = Inr r \<Longrightarrow> r \<le> l"
    and cap_nonneg: "ok e \<Longrightarrow> 0 \<le> l \<Longrightarrow> cap e l = Inr r \<Longrightarrow> 0 \<le> r"
begin

lemma within: "ok e \<Longrightarrow> 0 \<le> l \<Longrightarrow> l \<le> m \<Longrightarrow> cap e l = Inr r \<Longrightarrow> 0 \<le> r \<and> r \<le> m"
  using cap_le [of l e r] cap_nonneg [of e l r] by linarith

lemma zero_stays: "ok e \<Longrightarrow> cap e 0 = Inr r \<Longrightarrow> r = 0"
  using cap_le [of 0 e r] cap_nonneg [of e 0 r] by linarith

end

section \<open>Thermal derate\<close>

record thermal_config =
  temp_charge_limit_enabled :: bool
  temp_limit_apply_discharge :: bool
  temp_charge_limit_c :: rat
  temp_charge_limit_band_c :: rat
  temp_charge_limit_floor_pct :: rat

text \<open>
  Only a NaN temperature reaches the last branch with a non-finite value: every
  comparison with it is false, and the arithmetic keeps it.
\<close>

definition derate_factor :: "thermal_config \<Rightarrow> pyfloat \<Rightarrow> pyfloat" where
  "derate_factor c temp =
     (let limit_c = temp_charge_limit_c c; band_c = temp_charge_limit_band_c c;
          flr = temp_charge_limit_floor_pct c / 100
      in if pf_le temp (Fin limit_c) then Fin 1
         else if band_c \<le> 0 \<or> pf_le (Fin (limit_c + band_c)) temp then Fin flr
         else (case temp of
             Fin t \<Rightarrow> (let frac = (t - limit_c) / band_c in Fin (1 - frac * (1 - flr)))
           | _ \<Rightarrow> NaN))"

text \<open>
  \<open>_apply\<close>: \<open>round(limit * factor)\<close> of a NaN factor raises \<open>ValueError\<close>, which no
  caller of this method catches.
\<close>

definition thermal_apply :: "thermal_config \<Rightarrow> data option \<Rightarrow> int \<Rightarrow> int \<Rightarrow> py_error + int" where
  "thermal_apply c od min_power limit =
     (let temp = dict_get VNone (case od of None \<Rightarrow> [] | Some d \<Rightarrow> d) ''internal_temperature'' in
      if temp = VNone then Inr limit
      else case py_float temp of
        Inl _ \<Rightarrow> Inr limit
      | Inr temp_f \<Rightarrow>
         (let factor = derate_factor c temp_f in
          if pf_le (Fin 1) factor then Inr limit
          else (case factor of
              Fin f \<Rightarrow> (let derated = min limit (py_round (of_int limit * f))
                       in Inr (max derated (min min_power limit)))
            | NaN \<Rightarrow> Inl ValueError
            | _ \<Rightarrow> Inl OverflowError)))"

definition apply_temperature_limit :: "thermal_config \<Rightarrow> data option \<Rightarrow> int \<Rightarrow> int \<Rightarrow> py_error + int" where
  "apply_temperature_limit c od min_charge_power_w limit =
     (if \<not> temp_charge_limit_enabled c then Inr limit
      else thermal_apply c od min_charge_power_w limit)"

definition apply_discharge_limit :: "thermal_config \<Rightarrow> data option \<Rightarrow> int \<Rightarrow> int \<Rightarrow> py_error + int" where
  "apply_discharge_limit c od min_discharge_power_w limit =
     (if \<not> (temp_charge_limit_enabled c \<and> temp_limit_apply_discharge c) then Inr limit
      else thermal_apply c od min_discharge_power_w limit)"

definition thermal_ok :: "thermal_config \<Rightarrow> bool" where
  "thermal_ok c = (0 \<le> temp_charge_limit_floor_pct c \<and> temp_charge_limit_floor_pct c \<le> 100)"

lemma derate_between:
  assumes "thermal_ok c" and "derate_factor c (Fin t) = Fin f"
  shows "temp_charge_limit_floor_pct c / 100 \<le> f \<and> f \<le> 1"
proof -
  let ?b = "temp_charge_limit_band_c c" and ?fl = "temp_charge_limit_floor_pct c / 100"
  have fl: "0 \<le> ?fl" "?fl \<le> 1" using assms(1) by (simp_all add: thermal_ok_def)
  show ?thesis
  proof (cases "t \<le> temp_charge_limit_c c \<or> ?b \<le> 0 \<or> temp_charge_limit_c c + ?b \<le> t")
    case True
    with assms(2) fl show ?thesis by (auto simp: derate_factor_def Let_def split: if_splits)
  next
    case False
    let ?fr = "(t - temp_charge_limit_c c) / ?b"
    from False have fr: "0 \<le> ?fr" "?fr \<le> 1" by (simp_all add: field_simps)
    from False assms(2) have "f = 1 - ?fr * (1 - ?fl)"
      by (auto simp: derate_factor_def Let_def split: if_splits)
    with convex_ramp [OF fr fl] show ?thesis by metis
  qed
qed

lemma derate_antimono:
  assumes ok: "thermal_ok c" and le: "t \<le> u"
    and "derate_factor c (Fin t) = Fin f" and "derate_factor c (Fin u) = Fin g"
  shows "g \<le> f"
proof -
  let ?l = "temp_charge_limit_c c" and ?b = "temp_charge_limit_band_c c"
    and ?fl = "temp_charge_limit_floor_pct c / 100"
  show ?thesis
  proof (cases "\<not> t \<le> ?l \<and> \<not> ?b \<le> 0 \<and> \<not> ?l + ?b \<le> u")
    case True
    with le have f: "f = 1 - (t - ?l) / ?b * (1 - ?fl)" and g: "g = 1 - (u - ?l) / ?b * (1 - ?fl)"
      using assms(3,4) by (auto simp: derate_factor_def Let_def split: if_splits)
    have "(t - ?l) / ?b \<le> (u - ?l) / ?b" using True le by (simp add: divide_right_mono)
    moreover have "0 \<le> 1 - ?fl" using ok by (simp add: thermal_ok_def)
    ultimately have "(t - ?l) / ?b * (1 - ?fl) \<le> (u - ?l) / ?b * (1 - ?fl)"
      by (rule mult_right_mono)
    then show ?thesis unfolding f g by linarith
  next
    case False
    with derate_between [OF ok assms(3)] derate_between [OF ok assms(4)] le assms(3,4)
    show ?thesis by (auto simp: derate_factor_def Let_def split: if_splits)
  qed
qed

lemma derate_infinite: "derate_factor c NegInf = Fin 1"
  "derate_factor c PosInf = Fin (temp_charge_limit_floor_pct c / 100)"
  by (simp_all add: derate_factor_def Let_def)

lemma derate_nan: "derate_factor c NaN = (if temp_charge_limit_band_c c \<le> 0
    then Fin (temp_charge_limit_floor_pct c / 100) else NaN)"
  by (simp add: derate_factor_def Let_def)

lemma derate_finite_factor [simp]: "py_isfinite (derate_factor c (Fin t))"
  by (simp add: derate_factor_def Let_def)

lemma thermal_apply_le: "thermal_apply c od m l = Inr r \<Longrightarrow> r \<le> l"
  by (auto simp: thermal_apply_def Let_def split: if_splits sum.splits pyfloat.splits)

lemma thermal_apply_nonneg:
  assumes "thermal_ok c" and "0 \<le> m" and "0 \<le> l" and "thermal_apply c od m l = Inr r"
  shows "0 \<le> r"
  using assms by (auto simp: thermal_apply_def Let_def split: if_splits sum.splits pyfloat.splits)

lemma thermal_apply_ge_min: "thermal_apply c od m l = Inr r \<Longrightarrow> min m l \<le> r"
  by (auto simp: thermal_apply_def Let_def split: if_splits sum.splits pyfloat.splits)

lemma thermal_apply_antimono:
  assumes ok: "thermal_ok c" and l: "0 \<le> l" and le: "t \<le> u"
    and od: "od = Some [(''internal_temperature'', VFloat (Fin t))]"
    and pd: "pd = Some [(''internal_temperature'', VFloat (Fin u))]"
    and r: "thermal_apply c od m l = Inr r" and s: "thermal_apply c pd m l = Inr s"
  shows "s \<le> r"
proof -
  obtain f g where f: "derate_factor c (Fin t) = Fin f" and g: "derate_factor c (Fin u) = Fin g"
    by (metis derate_finite_factor py_isfinite.simps pyfloat.exhaust)
  have fg: "g \<le> f" by (rule derate_antimono [OF ok le f g])
  then have "of_int l * g \<le> of_int l * f" using l by (simp add: mult_left_mono)
  then have "py_round (of_int l * g) \<le> py_round (of_int l * f)" by (rule py_round_mono)
  with fg r s f g thermal_apply_le [OF s] show ?thesis
    by (auto simp: thermal_apply_def od pd dict_get_def Let_def split: if_splits)
qed

record thermal_env =
  th_config :: thermal_config
  th_data :: "data option"
  th_min_power :: int

definition thermal_env_ok :: "thermal_env \<Rightarrow> bool" where
  "thermal_env_ok e = (thermal_ok (th_config e) \<and> 0 \<le> th_min_power e)"

interpretation thermal_charge: power_cap
  "\<lambda>e. apply_temperature_limit (th_config e) (th_data e) (th_min_power e)" thermal_env_ok
  by unfold_locales (auto simp: apply_temperature_limit_def thermal_env_ok_def
      dest: thermal_apply_le thermal_apply_nonneg split: if_splits)

interpretation thermal_discharge: power_cap
  "\<lambda>e. apply_discharge_limit (th_config e) (th_data e) (th_min_power e)" thermal_env_ok
  by unfold_locales (auto simp: apply_discharge_limit_def thermal_env_ok_def
      dest: thermal_apply_le thermal_apply_nonneg split: if_splits)

section \<open>Cell-voltage taper\<close>

definition NORMAL_BALANCE_TAPER_CELL_VOLTAGE :: rat where
  "NORMAL_BALANCE_TAPER_CELL_VOLTAGE = 348/100"
definition NORMAL_BALANCE_TAPER_EXIT_CELL_VOLTAGE :: rat where
  "NORMAL_BALANCE_TAPER_EXIT_CELL_VOLTAGE = 344/100"
definition NORMAL_BALANCE_CHARGE_POWER_W :: int where
  "NORMAL_BALANCE_CHARGE_POWER_W = 200"

lemmas taper_consts = NORMAL_BALANCE_TAPER_CELL_VOLTAGE_def
  NORMAL_BALANCE_TAPER_EXIT_CELL_VOLTAGE_def NORMAL_BALANCE_CHARGE_POWER_W_def

text \<open>
  \<open>latched\<close> is this battery's entry of \<open>_normal_balance_voltage_tapered\<close>; the result
  carries its new value. \<open>applies\<close> is \<open>_taper_applies\<close>.
\<close>

definition apply_charge_taper :: "bool \<Rightarrow> data option \<Rightarrow> bool \<Rightarrow> int \<Rightarrow> int \<times> bool" where
  "apply_charge_taper applies od latched limit =
     (if \<not> applies then (limit, latched)
      else case control_vmax od of
        None \<Rightarrow> (limit, latched)
      | Some vmax \<Rightarrow>
         (let latched' = (if pf_le (Fin NORMAL_BALANCE_TAPER_CELL_VOLTAGE) vmax then True
            else if pf_less vmax (Fin NORMAL_BALANCE_TAPER_EXIT_CELL_VOLTAGE) then False
            else latched)
          in (if latched' then min limit NORMAL_BALANCE_CHARGE_POWER_W else limit, latched')))"

definition taper_cap :: "bool \<times> data option \<times> bool \<Rightarrow> int \<Rightarrow> py_error + int" where
  "taper_cap = (\<lambda>(applies, od, latched) limit. Inr (fst (apply_charge_taper applies od latched limit)))"

interpretation taper: power_cap taper_cap "\<lambda>_. True"
  by unfold_locales (auto simp: taper_cap_def apply_charge_taper_def taper_consts Let_def
      split: option.splits if_splits)

section \<open>Driver headroom\<close>

text \<open>
  \<open>dynamic\<close> is what the driver's \<open>dynamic_discharge_limit_w\<close> yields; \<open>None\<close> stands
  for a driver without one, for one that returned None and for one that raised.
\<close>

definition apply_driver_dynamic_limit :: "rat option \<Rightarrow> int \<Rightarrow> int" where
  "apply_driver_dynamic_limit dynamic current_limit = (case dynamic of
     None \<Rightarrow> current_limit
   | Some d \<Rightarrow> if of_int current_limit \<le> d then current_limit else max 0 (py_trunc d))"

lemma apply_driver_dynamic_limit_le: "0 \<le> l \<Longrightarrow> apply_driver_dynamic_limit d l \<le> l"
proof (cases d)
  case (Some q)
  assume l: "0 \<le> l"
  have "py_trunc q \<le> l" if "q < of_int l"
  proof (cases "0 \<le> q")
    case True
    then have "of_int (py_trunc q) \<le> q" by (rule py_trunc_le)
    with that have "(of_int (py_trunc q) :: rat) \<le> of_int l" by linarith
    then show ?thesis by simp
  next
    case False
    then have "py_trunc q \<le> 0" by (simp add: py_trunc_def ceiling_le_zero)
    with l show ?thesis by simp
  qed
  with l Some show ?thesis by (auto simp: apply_driver_dynamic_limit_def)
qed (simp add: apply_driver_dynamic_limit_def)

interpretation headroom: power_cap "\<lambda>d l. Inr (apply_driver_dynamic_limit d l)" "\<lambda>_. True"
  by unfold_locales (auto dest: apply_driver_dynamic_limit_le
      simp: apply_driver_dynamic_limit_def split: option.splits if_splits)

section \<open>Slot ceiling\<close>

definition slot_cap :: "bat list \<times> time_slot option \<times> bat \<times> bool \<Rightarrow> int \<Rightarrow> py_error + int" where
  "slot_cap = (\<lambda>(cs, active, c, b). apply_slot_power_ceiling cs active c b)"

text \<open>The configured override of a slot for a direction, as an integer when it is one.\<close>

definition slot_override :: "bat list \<Rightarrow> time_slot option \<Rightarrow> bat \<Rightarrow> bool \<Rightarrow> int option" where
  "slot_override cs active c b = (case active of
     None \<Rightarrow> None
   | Some slot \<Rightarrow> if \<not> power_override_enabled slot \<or> mode_manual slot then None
      else (case py_int (if b then max_charge_power_w (slot_battery_limits cs slot c)
                         else max_discharge_power_w (slot_battery_limits cs slot c)) of
          Inr v \<Rightarrow> Some v | Inl _ \<Rightarrow> None))"

lemma slot_ceiling_value:
  "apply_slot_power_ceiling cs active c b l = Inr r \<Longrightarrow>
   r = (case slot_override cs active c b of None \<Rightarrow> l | Some v \<Rightarrow> min l v)"
  by (auto simp: apply_slot_power_ceiling_def slot_override_def Let_def
      split: option.splits if_splits sum.splits py_error.splits)

definition slot_cap_ok :: "bat list \<times> time_slot option \<times> bat \<times> bool \<Rightarrow> bool" where
  "slot_cap_ok = (\<lambda>(cs, active, c, b). case slot_override cs active c b of None \<Rightarrow> True | Some v \<Rightarrow> 0 \<le> v)"

interpretation slot: power_cap slot_cap slot_cap_ok
proof unfold_locales
  fix e l r
  assume l: "0 \<le> l" and eq: "slot_cap e l = Inr r"
  obtain cs active c b where e: "e = (cs, active, c, b)" by (cases e)
  from eq have r: "r = (case slot_override cs active c b of None \<Rightarrow> l | Some v \<Rightarrow> min l v)"
    by (simp add: slot_cap_def e slot_ceiling_value)
  then show "r \<le> l" by (simp split: option.splits)
  assume "slot_cap_ok e"
  with l r show "0 \<le> r" by (auto simp: slot_cap_ok_def e split: option.splits)
qed

section \<open>The composed limit\<close>

text \<open>
  What \<open>_battery_power_limit\<close> reads of one battery and of the configuration.
  \<open>taper_applies\<close> is \<open>_taper_applies\<close>, \<open>dynamic_w\<close> the driver's live headroom.
\<close>

record limit_env =
  coordinators_of :: "bat list"
  slots_of :: "time_slot list"
  this_day :: nat
  this_time :: nat
  effective_max_charge_power :: int
  effective_max_discharge_power :: int
  battery_data :: "data option"
  taper_applies :: bool
  thermal :: thermal_config
  min_charge_power_w :: int
  min_discharge_power_w :: int
  dynamic_w :: "rat option"

definition slot_ceiling :: "limit_env \<Rightarrow> bat \<Rightarrow> bool \<Rightarrow> int \<Rightarrow> py_error + int" where
  "slot_ceiling e c is_charging l =
     apply_slot_power_ceiling (coordinators_of e)
       (get_active_slot (coordinators_of e) (slots_of e) (this_day e) (this_time e) (Some c)
          (if is_charging then DirCharge else DirDischarge)) c is_charging l"

text \<open>The pair carries the new voltage-taper latch of the battery.\<close>

definition battery_power_limit :: "limit_env \<Rightarrow> bool \<Rightarrow> bat \<Rightarrow> bool \<Rightarrow> (py_error + int) \<times> bool" where
  "battery_power_limit e latched c is_charging =
     (if \<not> is_charging then
        (and_then (apply_discharge_limit (thermal e) (battery_data e) (min_discharge_power_w e)
            (effective_max_discharge_power e))
          (\<lambda>l. slot_ceiling e c False (apply_driver_dynamic_limit (dynamic_w e) l)), latched)
      else if battery_data e = None then
        (slot_ceiling e c True (effective_max_charge_power e), latched)
      else
        (let (l, latched') = apply_charge_taper (taper_applies e) (battery_data e) latched
               (effective_max_charge_power e)
         in (and_then (apply_temperature_limit (thermal e) (battery_data e) (min_charge_power_w e) l)
               (slot_ceiling e c True), latched')))"

text \<open>
  The system-wide cap. \<open>raw_limit\<close> is what the configuration holds for the
  direction (\<open>None\<close>, 0 and text that is no number disable it).
\<close>

definition configured_system_limit :: "bool \<Rightarrow> pyval \<Rightarrow> pyval \<Rightarrow> bool \<Rightarrow> int" where
  "configured_system_limit enable_system_power_limits sys_charge sys_discharge is_charging =
     (if \<not> enable_system_power_limits then 0
      else (let raw_limit = (if is_charging then sys_charge else sys_discharge) in
        (case py_int (if raw_limit \<in> {VNone, VStr [], VBool False, VInt 0, VFloat (Fin 0)} then VInt 0
                      else raw_limit) of
           Inr limit \<Rightarrow> max 0 limit | Inl _ \<Rightarrow> 0)))"

definition effective_system_capacity ::
    "(bat \<Rightarrow> bool) \<Rightarrow> (bat \<Rightarrow> int) \<Rightarrow> int \<Rightarrow> bat list \<Rightarrow> int" where
  "effective_system_capacity manual_owned limit_of system_limit batteries =
     (let total_capacity = sum_list (map limit_of (filter (\<lambda>c. \<not> manual_owned c) batteries)) in
      if 0 < system_limit then min total_capacity system_limit else total_capacity)"

definition clamp_to_system_capacity ::
    "(bat \<Rightarrow> bool) \<Rightarrow> (bat \<Rightarrow> int) \<Rightarrow> int \<Rightarrow> rat \<Rightarrow> bat list \<Rightarrow> rat" where
  "clamp_to_system_capacity manual_owned limit_of system_limit power_req batteries =
     min power_req (of_int (effective_system_capacity manual_owned limit_of system_limit batteries))"

lemma effective_system_capacity_nonneg:
  "(\<And>c. 0 \<le> limit_of c) \<Longrightarrow> 0 \<le> effective_system_capacity m limit_of s bs"
  by (auto simp: effective_system_capacity_def Let_def intro!: sum_list_nonneg_map)

section \<open>Properties\<close>

definition limit_env_ok :: "limit_env \<Rightarrow> bat \<Rightarrow> bool \<Rightarrow> bool" where
  "limit_env_ok e c b = (thermal_ok (thermal e) \<and> 0 \<le> min_charge_power_w e
     \<and> 0 \<le> min_discharge_power_w e \<and> 0 \<le> effective_max_charge_power e
     \<and> 0 \<le> effective_max_discharge_power e
     \<and> slot_cap_ok (coordinators_of e, get_active_slot (coordinators_of e) (slots_of e) (this_day e)
          (this_time e) (Some c) (direction_of b), c, b))"

lemma slot_ceiling_as_cap:
  "slot_ceiling e c b l = slot_cap (coordinators_of e, get_active_slot (coordinators_of e) (slots_of e)
     (this_day e) (this_time e) (Some c) (direction_of b), c, b) l"
  by (simp add: slot_ceiling_def slot_cap_def direction_of_def)

lemma slot_ceiling_within:
  assumes "limit_env_ok e c b" and "0 \<le> l" and "l \<le> m" and "slot_ceiling e c b l = Inr r"
  shows "0 \<le> r \<and> r \<le> m"
  using assms slot.within [OF _ assms(2,3)] by (auto simp: slot_ceiling_as_cap limit_env_ok_def)

lemma taper_within:
  assumes "apply_charge_taper ap od la m = (l, la')" and "0 \<le> m"
  shows "0 \<le> l \<and> l \<le> m"
  using taper.within [where e = "(ap, od, la)" and l = m and m = m and r = l] assms
  by (simp add: taper_cap_def)

text \<open>
  The composed limit is a cap: whatever the latch, the temperature, the driver
  headroom and the active slot say, a limit that is computed lies between zero and
  the hardware limit of its direction; in the charging direction it is at most
  200 W while the voltage taper is latched, and it never exceeds the active slot's
  override.
\<close>

theorem battery_power_limit_caps:
  assumes ok: "limit_env_ok e c b" and lim: "battery_power_limit e latched c b = (Inr r, latched')"
  shows "0 \<le> r \<and> r \<le> (if b then effective_max_charge_power e else effective_max_discharge_power e)
    \<and> (b \<and> battery_data e \<noteq> None \<and> taper_applies e \<and> latched'
         \<and> control_vmax (battery_data e) \<noteq> None \<longrightarrow> r \<le> 200)
    \<and> (case slot_override (coordinators_of e) (get_active_slot (coordinators_of e) (slots_of e)
          (this_day e) (this_time e) (Some c) (direction_of b)) c b of None \<Rightarrow> True | Some v \<Rightarrow> r \<le> v)"
proof -
  have bounds: "th_config t = thermal e \<Longrightarrow> 0 \<le> th_min_power t \<Longrightarrow> thermal_env_ok t" for t
    using ok by (simp add: thermal_env_ok_def limit_env_ok_def)
  have nn: "0 \<le> effective_max_charge_power e" "0 \<le> effective_max_discharge_power e"
    "0 \<le> min_charge_power_w e" "0 \<le> min_discharge_power_w e"
    using ok by (simp_all add: limit_env_ok_def)
  have over: "slot_ceiling e c b l = Inr r \<Longrightarrow> (case slot_override (coordinators_of e)
      (get_active_slot (coordinators_of e) (slots_of e) (this_day e) (this_time e) (Some c)
        (direction_of b)) c b of None \<Rightarrow> True | Some v \<Rightarrow> r \<le> v)" for l
    by (auto simp: slot_ceiling_as_cap slot_cap_def dest!: slot_ceiling_value split: option.splits)
  show ?thesis
  proof (cases "b \<and> battery_data e \<noteq> None")
    case True
    obtain l la where t: "apply_charge_taper (taper_applies e) (battery_data e) latched
        (effective_max_charge_power e) = (l, la)" by force
    with True lim obtain k where la: "la = latched'"
      and k: "apply_temperature_limit (thermal e) (battery_data e) (min_charge_power_w e) l = Inr k"
      and r: "slot_ceiling e c b k = Inr r"
      by (auto simp: battery_power_limit_def and_then_eq_Inr)
    from taper_within [OF t nn(1)] have l: "0 \<le> l" "l \<le> effective_max_charge_power e" by auto
    have kl: "0 \<le> k \<and> k \<le> l"
      using thermal_charge.within [of "\<lparr>th_config = thermal e, th_data = battery_data e,
          th_min_power = min_charge_power_w e\<rparr>" l l k] bounds nn(3) l k by simp
    have rk: "0 \<le> r \<and> r \<le> k" using slot_ceiling_within [OF ok _ _ r, of k] kl by simp
    have "taper_applies e \<and> latched' \<and> control_vmax (battery_data e) \<noteq> None \<longrightarrow> l \<le> 200"
      using t la by (auto simp: apply_charge_taper_def Let_def taper_consts split: option.splits if_splits)
    with True l kl rk over [OF r] show ?thesis by auto
  next
    case no_taper: False
    show ?thesis
    proof (cases b)
      case True
      with no_taper lim have r: "slot_ceiling e c b (effective_max_charge_power e) = Inr r"
        by (simp add: battery_power_limit_def)
      with slot_ceiling_within [OF ok nn(1) order_refl r] over [OF r] True no_taper
      show ?thesis by auto
    next
      case False
      with lim obtain l where l: "apply_discharge_limit (thermal e) (battery_data e)
            (min_discharge_power_w e) (effective_max_discharge_power e) = Inr l"
        and r: "slot_ceiling e c b (apply_driver_dynamic_limit (dynamic_w e) l) = Inr r"
        by (auto simp: battery_power_limit_def and_then_eq_Inr)
      have ll: "0 \<le> l \<and> l \<le> effective_max_discharge_power e"
        using thermal_discharge.within [of "\<lparr>th_config = thermal e, th_data = battery_data e,
          th_min_power = min_discharge_power_w e\<rparr>" "effective_max_discharge_power e"
          "effective_max_discharge_power e" l] bounds nn l by simp
      have "0 \<le> apply_driver_dynamic_limit (dynamic_w e) l
          \<and> apply_driver_dynamic_limit (dynamic_w e) l \<le> effective_max_discharge_power e"
        using headroom.within [of l "effective_max_discharge_power e" "dynamic_w e"] ll by blast
      with slot_ceiling_within [OF ok _ _ r] over [OF r] False show ?thesis by auto
    qed
  qed
qed

definition example_thermal :: thermal_config where
  "example_thermal = \<lparr>temp_charge_limit_enabled = True, temp_limit_apply_discharge = False,
     temp_charge_limit_c = 40, temp_charge_limit_band_c = 10, temp_charge_limit_floor_pct = 20\<rparr>"

definition example_slot :: time_slot where
  "example_slot = \<lparr>slot_enabled = True, battery_scope = ScopeAll, allow_charge = True,
     allow_discharge = False, days = [0, 1, 2, 3, 4, 5, 6], start_time = Some 1320, end_time = Some 360,
     power_override_enabled = True, mode_manual = False, soc_override_enabled = False,
     battery_limits = [(1, \<lparr>max_charge_power_w = VStr ''1200'', max_discharge_power_w = VNone, soc_min = VNone, soc_max = VNone\<rparr>)]\<rparr>"

definition example_limit_env :: limit_env where
  "example_limit_env = \<lparr>coordinators_of = [7], slots_of = [example_slot], this_day = 2, this_time = 60,
     effective_max_charge_power = 2500, effective_max_discharge_power = 2500,
     battery_data = Some [(''internal_temperature'', VFloat (Fin 45)),
       (''max_cell_voltage'', VFloat (Fin (345/100)))],
     taper_applies = True, thermal = example_thermal, min_charge_power_w = 50,
     min_discharge_power_w = 50, dynamic_w = None\<rparr>"

lemma example_limit_value: "battery_power_limit example_limit_env False 7 True = (Inr 1200, False)"
  by code_simp

lemma example_limit_ok: "limit_env_ok example_limit_env 7 True"
  by code_simp

theorem battery_power_limit_caps_witness:
  "battery_power_limit example_limit_env False 7 True = (Inr 1200, False) \<and> (0::int) \<le> 1200 \<and> (1200::int) \<le> 2500"
  using battery_power_limit_caps [OF example_limit_ok example_limit_value] example_limit_value
  by (simp add: example_limit_env_def)

text \<open>
  The thermal derate: a missing or unconvertible temperature leaves the limit
  alone; otherwise the result lies between the battery's minimum reliable power
  (or the limit, when that is lower) and the limit, and is the limit itself unless
  the temperature is above the configured one. The computation raises exactly when
  the temperature is a NaN and the band is positive, and then with a \<open>ValueError\<close>.
\<close>

theorem thermal_derate_bounds:
  "let temp = dict_get VNone (case od of None \<Rightarrow> [] | Some d \<Rightarrow> d) ''internal_temperature'' in
   (case thermal_apply c od m l of
      Inl e \<Rightarrow> e = ValueError \<and> py_float temp = Inr NaN \<and> 0 < temp_charge_limit_band_c c
    | Inr r \<Rightarrow> min m l \<le> r \<and> r \<le> l
        \<and> \<not> (py_float temp = Inr NaN \<and> 0 < temp_charge_limit_band_c c)
        \<and> (r = l \<or> (\<exists>t. py_float temp = Inr t \<and> \<not> pf_le t (Fin (temp_charge_limit_c c)))))"
proof -
  let ?T = "dict_get VNone (case od of None \<Rightarrow> [] | Some d \<Rightarrow> d) ''internal_temperature''"
  show ?thesis
  proof (cases "py_float ?T")
    case (Inl e)
    then show ?thesis by (auto simp: thermal_apply_def Let_def)
  next
    case (Inr t)
    then have "?T \<noteq> VNone" by auto
    with Inr show ?thesis
      by (cases t) (auto simp: thermal_apply_def Let_def derate_infinite derate_nan derate_factor_def
          split: pyfloat.splits)
  qed
qed

end
