(* ===== verification/Blockers.thy ===== *)
theory Blockers
  imports Py_Prelude
begin

text \<open>
  The controller's registries (\<open>__init__.py\<close>): the charge and discharge blockers,
  global or per battery, each under the name of the source that raised it, and the
  setpoint offsets and overrides that give the grid target. The registries refine a
  set of (direction, scope, source) triples: every call adds or removes exactly one.
\<close>

section \<open>State\<close>

record block =
  reason :: string
  details :: "(string, pyval) dict"
  since :: rat

type_synonym registry = "(string, block) dict"

record gate_state =
  global_charge_blockers :: registry
  global_discharge_blockers :: registry
  battery_charge_blockers :: "(bat, registry) dict"
  battery_discharge_blockers :: "(bat, registry) dict"
  setpoint_offsets :: "(string, rat) dict"
  setpoint_overrides :: "(string, int \<times> rat) dict"
  capacity_protection_active :: bool

definition empty_gates :: gate_state where
  "empty_gates = \<lparr>global_charge_blockers = [], global_discharge_blockers = [],
     battery_charge_blockers = [], battery_discharge_blockers = [], setpoint_offsets = [],
     setpoint_overrides = [], capacity_protection_active = False\<rparr>"

section \<open>Blockers\<close>

definition make_block_record :: "registry \<Rightarrow> string \<Rightarrow> string \<Rightarrow> (string, pyval) dict option \<Rightarrow> rat \<Rightarrow> block" where
  "make_block_record reg source rsn dets now =
     \<lparr>reason = rsn, details = (case dets of None \<Rightarrow> [] | Some d \<Rightarrow> d),
      since = (case map_of reg source of Some b \<Rightarrow> since b | None \<Rightarrow> now)\<rparr>"

text \<open>The registry of a direction and a scope; \<open>setdefault\<close> makes a missing one empty.\<close>

definition block_registry :: "gate_state \<Rightarrow> bool \<Rightarrow> bat option \<Rightarrow> registry" where
  "block_registry st is_charging scope = (case scope of
     None \<Rightarrow> (if is_charging then global_charge_blockers st else global_discharge_blockers st)
   | Some c \<Rightarrow> dict_get [] (if is_charging then battery_charge_blockers st
                            else battery_discharge_blockers st) c)"

definition store_registry :: "gate_state \<Rightarrow> bool \<Rightarrow> bat option \<Rightarrow> registry \<Rightarrow> gate_state" where
  "store_registry st is_charging scope reg = (case scope of
     None \<Rightarrow> (if is_charging then st\<lparr>global_charge_blockers := reg\<rparr>
              else st\<lparr>global_discharge_blockers := reg\<rparr>)
   | Some c \<Rightarrow> (if is_charging
        then st\<lparr>battery_charge_blockers := AList.update c reg (battery_charge_blockers st)\<rparr>
        else st\<lparr>battery_discharge_blockers := AList.update c reg (battery_discharge_blockers st)\<rparr>))"

definition set_operation_block :: "bool \<Rightarrow> string \<Rightarrow> string \<Rightarrow> (string, pyval) dict option
    \<Rightarrow> bat option \<Rightarrow> rat \<Rightarrow> gate_state \<Rightarrow> gate_state" where
  "set_operation_block is_charging source rsn dets scope now st =
     (let reg = block_registry st is_charging scope in
      store_registry st is_charging scope
        (AList.update source (make_block_record reg source rsn dets now) reg))"

definition remove_operation_block :: "bool \<Rightarrow> string \<Rightarrow> bat option \<Rightarrow> gate_state \<Rightarrow> gate_state" where
  "remove_operation_block is_charging source scope st = (case scope of
     None \<Rightarrow> store_registry st is_charging None
       (AList.delete source (block_registry st is_charging None))
   | Some c \<Rightarrow>
      (let registries = (if is_charging then battery_charge_blockers st
                         else battery_discharge_blockers st) in
       case map_of registries c of
         None \<Rightarrow> st
       | Some reg \<Rightarrow>
          (let reg' = AList.delete source reg;
               registries' = (if reg' = [] then AList.delete c registries
                              else AList.update c reg' registries)
           in if is_charging then st\<lparr>battery_charge_blockers := registries'\<rparr>
              else st\<lparr>battery_discharge_blockers := registries'\<rparr>)))"

definition is_charge_blocked :: "gate_state \<Rightarrow> bat option \<Rightarrow> bool" where
  "is_charge_blocked st oc =
     (if global_charge_blockers st \<noteq> [] then True
      else (case oc of None \<Rightarrow> False | Some c \<Rightarrow> dict_get [] (battery_charge_blockers st) c \<noteq> []))"

definition economic :: "string list" where
  "economic = [''price_discharge'', ''price_reserve'', ''curtailment_negative_window'']"

definition capacity_protection_overrides_curtailment :: "gate_state \<Rightarrow> bool" where
  "capacity_protection_overrides_curtailment st =
     (capacity_protection_active st \<or> map_of (setpoint_overrides st) ''capacity_protection'' \<noteq> None)"

definition is_discharge_blocked :: "gate_state \<Rightarrow> bat option \<Rightarrow> bool \<Rightarrow> bool" where
  "is_discharge_blocked st oc ignore_economic =
     (let drop_eco = (\<lambda>reg. if ignore_economic then filter (\<lambda>(k, v). k \<notin> set economic) reg else reg);
          global_blockers = drop_eco (global_discharge_blockers st)
      in if global_blockers \<noteq> [] then True
         else (case oc of None \<Rightarrow> False
           | Some c \<Rightarrow>
              (let blockers = drop_eco (dict_get [] (battery_discharge_blockers st) c) in
               if capacity_protection_overrides_curtailment st
               then set (map fst blockers) - {''curtailment_negative_window''} \<noteq> {}
               else blockers \<noteq> [])))"

text \<open>\<open>dict.update\<close>: the entries of the second dictionary are stored one by one.\<close>

definition dict_update :: "('k, 'v) dict \<Rightarrow> ('k, 'v) dict \<Rightarrow> ('k, 'v) dict" where
  "dict_update d e = fold (\<lambda>(k, v) acc. AList.update k v acc) e d"

definition get_charge_blockers :: "gate_state \<Rightarrow> bat option \<Rightarrow> registry" where
  "get_charge_blockers st oc = (case oc of
     None \<Rightarrow> global_charge_blockers st
   | Some c \<Rightarrow> dict_update (global_charge_blockers st) (dict_get [] (battery_charge_blockers st) c))"

definition get_discharge_blockers :: "gate_state \<Rightarrow> bat option \<Rightarrow> registry" where
  "get_discharge_blockers st oc = (case oc of
     None \<Rightarrow> global_discharge_blockers st
   | Some c \<Rightarrow>
      (let merged = dict_update (global_discharge_blockers st)
             (dict_get [] (battery_discharge_blockers st) c)
       in if capacity_protection_overrides_curtailment st
          then AList.delete ''curtailment_negative_window'' merged else merged))"

definition is_operation_allowed :: "gate_state \<Rightarrow> bool \<Rightarrow> bool" where
  "is_operation_allowed st is_charging =
     (\<not> (if is_charging then is_charge_blocked st None else is_discharge_blocked st None False))"

definition pd_demand_blocked :: "gate_state \<Rightarrow> rat \<Rightarrow> rat \<Rightarrow> rat \<Rightarrow> bool" where
  "pd_demand_blocked st deadband error commanded_power =
     (if \<bar>error\<bar> \<le> deadband then False
      else (let demand_is_charging = error < 0 in
        if is_operation_allowed st demand_is_charging then False
        else (let demand_sign = (if demand_is_charging then 1 else - 1) in
          0 \<le> commanded_power * demand_sign)))"

section \<open>Setpoints\<close>

text \<open>\<open>max(items, key=priority)\<close> keeps the first of equal maxima, in insertion order.\<close>

fun first_max :: "('a \<Rightarrow> 'b::linorder) \<Rightarrow> 'a \<Rightarrow> 'a list \<Rightarrow> 'a" where
  "first_max f best [] = best"
| "first_max f best (x # xs) = first_max f (if f best < f x then x else best) xs"

definition active_target :: "(string, int \<times> rat) dict \<Rightarrow> (string, rat) dict \<Rightarrow> rat" where
  "active_target overrides offsets = (case overrides of
     [] \<Rightarrow> sum_list (map snd offsets)
   | x # xs \<Rightarrow> snd (snd (first_max (fst \<circ> snd) x xs)))"

definition compute_active_target :: "gate_state \<Rightarrow> rat" where
  "compute_active_target st = active_target (setpoint_overrides st) (setpoint_offsets st)"

definition compute_active_target_excluding :: "gate_state \<Rightarrow> string \<Rightarrow> rat" where
  "compute_active_target_excluding st excluded_source =
     active_target (filter (\<lambda>(source, _). source \<noteq> excluded_source) (setpoint_overrides st))
       (setpoint_offsets st)"

definition set_setpoint_offset :: "string \<Rightarrow> rat \<Rightarrow> gate_state \<Rightarrow> gate_state" where
  "set_setpoint_offset source w st =
     st\<lparr>setpoint_offsets := AList.update source w (setpoint_offsets st)\<rparr>"

definition remove_setpoint_offset :: "string \<Rightarrow> gate_state \<Rightarrow> gate_state" where
  "remove_setpoint_offset source st =
     st\<lparr>setpoint_offsets := AList.delete source (setpoint_offsets st)\<rparr>"

definition set_setpoint_override :: "string \<Rightarrow> rat \<Rightarrow> int \<Rightarrow> gate_state \<Rightarrow> gate_state" where
  "set_setpoint_override source w priority st =
     st\<lparr>setpoint_overrides := AList.update source (priority, w) (setpoint_overrides st)\<rparr>"

definition remove_setpoint_override :: "string \<Rightarrow> gate_state \<Rightarrow> gate_state" where
  "remove_setpoint_override source st =
     st\<lparr>setpoint_overrides := AList.delete source (setpoint_overrides st)\<rparr>"

definition get_setpoint_offset :: "gate_state \<Rightarrow> string \<Rightarrow> rat" where
  "get_setpoint_offset st source = dict_get 0 (setpoint_offsets st) source"

definition clear_all_setpoint_offsets :: "gate_state \<Rightarrow> gate_state" where
  "clear_all_setpoint_offsets st = st\<lparr>setpoint_offsets := [], setpoint_overrides := []\<rparr>"

lemma first_max_in: "first_max f b xs \<in> insert b (set xs)"
proof (induction xs arbitrary: b)
  case Nil
  then show ?case by simp
next
  case (Cons x xs)
  from Cons.IH [of "if f b < f x then x else b"] show ?case by (auto split: if_splits)
qed

lemma first_max_ge: "x \<in> insert b (set xs) \<Longrightarrow> f x \<le> f (first_max f b xs)"
proof (induction xs arbitrary: b x)
  case Nil
  then show ?case by simp
next
  case (Cons y ys)
  let ?c = "if f b < f y then y else b"
  have c: "f ?c \<le> f (first_max f ?c ys)" by (rule Cons.IH) simp
  from Cons.prems consider "x = b \<or> x = y" | "x \<in> set ys" by auto
  then show ?case
  proof cases
    case 1
    then have "f x \<le> f ?c" by auto
    with c show ?thesis by simp
  next
    case 2
    then show ?thesis using Cons.IH [of x ?c] by simp
  qed
qed

section \<open>The registries as a set of sources\<close>

text \<open>
  The interface every blocking feature relies on: for a fixed direction and scope
  the registry is a set of sources, and a gate opens only when each source that
  closed it has withdrawn.
\<close>

locale gate =
  fixes sources :: "'st \<Rightarrow> string set"
    and add :: "string \<Rightarrow> 'st \<Rightarrow> 'st"
    and withdraw :: "string \<Rightarrow> 'st \<Rightarrow> 'st"
  assumes sources_add: "sources (add s st) = insert s (sources st)"
    and sources_withdraw: "sources (withdraw s st) = sources st - {s}"
begin

lemma sources_add_all: "sources (fold add ss st) = sources st \<union> set ss"
  by (induction ss arbitrary: st) (auto simp: sources_add)

lemma sources_withdraw_all: "sources (fold withdraw ss st) = sources st - set ss"
  by (induction ss arbitrary: st) (auto simp: sources_withdraw)

lemma reopens: "sources st = {} \<Longrightarrow> sources (fold withdraw ss (fold add ts st)) = {} \<longleftrightarrow> set ts \<subseteq> set ss"
  by (auto simp: sources_add_all sources_withdraw_all)

end

definition active :: "gate_state \<Rightarrow> bool \<Rightarrow> bat option \<Rightarrow> string set" where
  "active st d sc = fst ` set (block_registry st d sc)"

lemma keys_update_set: "fst ` set (AList.update k v d) = insert k (fst ` set d)"
  by (simp add: dom_map_of_conv_image_fst [symmetric] update_conv' del: fun_upd_apply)

lemma keys_delete_set: "fst ` set (AList.delete k d) = fst ` set d - {k}"
  by (auto simp: AList.delete_eq image_iff)

lemma block_registry_store:
  "block_registry (store_registry st d sc reg) d' sc' =
     (if d' = d \<and> sc' = sc then reg else block_registry st d' sc')"
  by (cases sc; cases sc'; cases d; cases d')
     (simp_all add: block_registry_def store_registry_def dict_get_update)

lemma dict_get_prune:
  "dict_get [] (if reg = [] then AList.delete c rs else AList.update c reg rs) c' =
     (if c' = c then reg else dict_get [] rs c')"
  by (simp add: dict_get_update dict_get_delete)

lemma block_registry_remove:
  "block_registry (remove_operation_block d s sc st) d' sc' =
     (if d' = d \<and> sc' = sc then AList.delete s (block_registry st d sc) else block_registry st d' sc')"
proof (cases sc)
  case None
  then show ?thesis by (simp add: remove_operation_block_def block_registry_store)
next
  case (Some c)
  let ?rs = "if d then battery_charge_blockers st else battery_discharge_blockers st"
  show ?thesis
  proof (cases "map_of ?rs c")
    case None
    then have "dict_get [] ?rs c = []" by (simp add: dict_get_def)
    with None Some show ?thesis
      by (cases d) (auto simp: remove_operation_block_def block_registry_def Let_def)
  next
    case (Some reg)
    then have "dict_get [] ?rs c = reg" by (simp add: dict_get_def)
    with Some \<open>sc = Some c\<close> show ?thesis
      by (cases d; cases d'; cases sc')
        (simp_all add: remove_operation_block_def block_registry_def Let_def dict_get_prune)
  qed
qed

lemma active_set_block: "active (set_operation_block d s r dt sc now st) d' sc' =
   (if d' = d \<and> sc' = sc then insert s (active st d sc) else active st d' sc')"
  by (simp add: active_def set_operation_block_def block_registry_store keys_update_set Let_def)

lemma active_remove_block: "active (remove_operation_block d s sc st) d' sc' =
   (if d' = d \<and> sc' = sc then active st d sc - {s} else active st d' sc')"
  by (simp add: active_def block_registry_remove keys_delete_set)

interpretation scoped: gate "\<lambda>st. active st d sc"
  "\<lambda>s. set_operation_block d s r dt sc now" "\<lambda>s. remove_operation_block d s sc"
  for d sc r dt now
  by unfold_locales (simp_all add: active_set_block active_remove_block)

datatype block_op =
    SetBlock bool string string "(string, pyval) dict option" "bat option" rat
  | RemoveBlock bool string "bat option"

fun apply_block_op :: "gate_state \<Rightarrow> block_op \<Rightarrow> gate_state" where
  "apply_block_op st (SetBlock d s r dt sc now) = set_operation_block d s r dt sc now st"
| "apply_block_op st (RemoveBlock d s sc) = remove_operation_block d s sc st"

fun spec_block_op :: "(bool \<times> bat option \<times> string) set \<Rightarrow> block_op \<Rightarrow> (bool \<times> bat option \<times> string) set" where
  "spec_block_op S (SetBlock d s r dt sc now) = insert (d, sc, s) S"
| "spec_block_op S (RemoveBlock d s sc) = S - {(d, sc, s)}"

lemma block_op_simulates:
  "(\<And>d sc. active st d sc = {s. (d, sc, s) \<in> S}) \<Longrightarrow>
   active (apply_block_op st opn) d sc = {s. (d, sc, s) \<in> spec_block_op S opn}"
  by (cases opn) (auto simp: active_set_block active_remove_block)

lemma run_block_ops_simulates:
  "(\<And>d sc. active st d sc = {s. (d, sc, s) \<in> S}) \<Longrightarrow>
   active (run apply_block_op st ops) d sc = {s. (d, sc, s) \<in> run spec_block_op S ops}"
proof (induction ops arbitrary: st S)
  case Nil
  then show ?case by simp
next
  case (Cons x ops)
  have "active (apply_block_op st x) d sc = {s. (d, sc, s) \<in> spec_block_op S x}" for d sc
    by (rule block_op_simulates) (rule Cons.prems)
  from Cons.IH [OF this] show ?case by simp
qed

lemma block_ops_frame:
  "setpoint_overrides (run apply_block_op st ops) = setpoint_overrides st
   \<and> capacity_protection_active (run apply_block_op st ops) = capacity_protection_active st"
proof (induction ops arbitrary: st)
  case (Cons x ops)
  have "setpoint_overrides (apply_block_op st x) = setpoint_overrides st
      \<and> capacity_protection_active (apply_block_op st x) = capacity_protection_active st"
    by (cases x) (auto simp: set_operation_block_def remove_operation_block_def store_registry_def
        Let_def split: option.splits)
  with Cons show ?case by simp
qed simp

lemma is_charge_blocked_active:
  "is_charge_blocked st oc \<longleftrightarrow> active st True None \<noteq> {} \<or> (\<exists>c. oc = Some c \<and> active st True (Some c) \<noteq> {})"
  by (auto simp: is_charge_blocked_def active_def block_registry_def split: option.splits)

lemma kept_keys:
  "(if ie then filter (\<lambda>(k, v). k \<notin> set economic) reg else reg) \<noteq> []
     \<longleftrightarrow> (\<exists>s \<in> fst ` set reg. ie \<longrightarrow> s \<notin> set economic)" (is "?l \<longleftrightarrow> ?r")
  "set (map fst (if ie then filter (\<lambda>(k, v). k \<notin> set economic) reg else reg)) - {x} \<noteq> {}
     \<longleftrightarrow> (\<exists>s \<in> fst ` set reg. (ie \<longrightarrow> s \<notin> set economic) \<and> s \<noteq> x)" (is "?l2 \<longleftrightarrow> ?r2")
proof -
  have "filter (\<lambda>(k, v). k \<notin> set economic) reg \<noteq> [] \<longleftrightarrow> (\<exists>s \<in> fst ` set reg. s \<notin> set economic)"
    by (force simp: filter_empty_conv)
  moreover have "reg \<noteq> [] \<longleftrightarrow> (\<exists>s \<in> fst ` set reg. True)" by (cases reg) auto
  ultimately show "?l \<longleftrightarrow> ?r" by (cases ie) simp_all
  have "set (map fst (filter (\<lambda>(k, v). k \<notin> set economic) reg)) = fst ` set reg - set economic"
    by force
  then show "?l2 \<longleftrightarrow> ?r2" by (cases ie) auto
qed

lemma is_discharge_blocked_active:
  "is_discharge_blocked st oc ie \<longleftrightarrow>
     (\<exists>s \<in> active st False None. ie \<longrightarrow> s \<notin> set economic)
     \<or> (\<exists>c. oc = Some c \<and> (\<exists>s \<in> active st False (Some c). (ie \<longrightarrow> s \<notin> set economic)
          \<and> (capacity_protection_overrides_curtailment st \<longrightarrow> s \<noteq> ''curtailment_negative_window'')))"
  unfolding is_discharge_blocked_def active_def block_registry_def Let_def kept_keys
  by (cases oc) simp_all

lemma keys_dict_update: "fst ` set (dict_update d e) = fst ` set d \<union> fst ` set e"
proof (induction e arbitrary: d)
  case Nil
  then show ?case by (simp add: dict_update_def)
next
  case (Cons x e)
  have "dict_update d (x # e) = dict_update (AList.update (fst x) (snd x) d) e"
    by (simp add: dict_update_def split_beta)
  then show ?case using Cons.IH by (simp add: keys_update_set Un_commute)
qed

lemma empty_keys: "d = [] \<longleftrightarrow> fst ` set d = {}"
  by simp

lemma get_discharge_blockers_keys:
  "fst ` set (get_discharge_blockers st (Some c)) =
     active st False None \<union> active st False (Some c)
     - (if capacity_protection_overrides_curtailment st then {''curtailment_negative_window''} else {})"
  by (simp add: get_discharge_blockers_def active_def block_registry_def Let_def keys_delete_set
      keys_dict_update)

lemma get_charge_blockers_keys:
  "fst ` set (get_charge_blockers st (Some c)) = active st True None \<union> active st True (Some c)"
  by (simp add: get_charge_blockers_def active_def block_registry_def keys_dict_update)

section \<open>Properties\<close>

text \<open>
  C9. The registries refine a set of (direction, scope, source) triples: after any
  sequence of set and remove calls from the empty state, charging is blocked for a
  battery exactly when some source still holds a block globally or for it, and
  discharging likewise, where ignoring economic blocks drops the three price
  sources. A gate a source closed stays closed until that same source removes it.
\<close>

theorem blockers_refine_source_set:
  fixes ops :: "block_op list"
  defines "S \<equiv> run spec_block_op {} ops" and "st \<equiv> run apply_block_op empty_gates ops"
  shows "(is_charge_blocked st (Some c) \<longleftrightarrow> (\<exists>s. (True, None, s) \<in> S \<or> (True, Some c, s) \<in> S))
    \<and> (is_discharge_blocked st (Some c) False \<longleftrightarrow> (\<exists>s. (False, None, s) \<in> S \<or> (False, Some c, s) \<in> S))
    \<and> (is_discharge_blocked st (Some c) True \<longleftrightarrow>
        (\<exists>s. s \<notin> set economic \<and> ((False, None, s) \<in> S \<or> (False, Some c, s) \<in> S)))"
proof -
  have act: "active st d sc = {s. (d, sc, s) \<in> S}" for d sc
    unfolding st_def S_def
    by (rule run_block_ops_simulates)
      (auto simp: active_def block_registry_def empty_gates_def dict_get_def split: option.splits)
  have "\<not> capacity_protection_overrides_curtailment st"
    using block_ops_frame [of empty_gates ops]
    by (simp add: capacity_protection_overrides_curtailment_def st_def empty_gates_def)
  then show ?thesis
    by (auto simp: is_charge_blocked_active is_discharge_blocked_active act)
qed

text \<open>
  The two readers of the discharge registry agree: a battery is blocked exactly
  when the reported blockers are not empty, except while capacity protection
  overrides curtailment and the only reported reason left would be a global
  negative-window block; the verdict then blocks and the report is empty.
\<close>

theorem discharge_report_agrees:
  "is_discharge_blocked st (Some c) False =
     (if capacity_protection_overrides_curtailment st
         \<and> ''curtailment_negative_window'' \<in> active st False None
      then True else get_discharge_blockers st (Some c) \<noteq> [])"
  unfolding is_discharge_blocked_active empty_keys get_discharge_blockers_keys
  by auto

lemma active_target_best:
  assumes "ov \<noteq> []"
  shows "\<exists>s p w. (s, p, w) \<in> set ov \<and> active_target ov off = w \<and> list_all (\<lambda>(s', p', w'). p' \<le> p) ov"
proof -
  from assms obtain x xs where x: "ov = x # xs" by (cases ov) auto
  let ?m = "first_max (fst \<circ> snd) x xs"
  have m: "?m \<in> set ov" using first_max_in [of "fst \<circ> snd" x xs] x by simp
  have "(fst \<circ> snd) y \<le> (fst \<circ> snd) ?m" if "y \<in> set ov" for y
    using first_max_ge [of y x xs "fst \<circ> snd"] that x by simp
  then have "list_all (\<lambda>(s', p', w'). p' \<le> fst (snd ?m)) ov" by (force simp: list_all_iff)
  moreover have "active_target ov off = snd (snd ?m)" using x by (simp add: active_target_def)
  ultimately show ?thesis using m by (metis prod.collapse)
qed

lemma update_member:
  assumes "distinct (map fst ov)" and "(s, v) \<in> set (AList.update k x ov)"
  shows "(s = k \<and> v = x) \<or> (s \<noteq> k \<and> (s, v) \<in> set ov)"
proof -
  have "map_of (AList.update k x ov) s = Some v"
    using assms distinct_update by (metis map_of_eq_Some_iff)
  then show ?thesis by (auto simp: update_conv' map_of_SomeD split: if_splits)
qed

lemma update_self: "(k, x) \<in> set (AList.update k x ov)"
  by (induction ov) auto

text \<open>
  The grid target: with no override it is the sum of the offsets; otherwise it
  is the value of an override of maximal priority. An override registered above
  every other priority decides, and removing it restores exactly the target that
  \<open>compute_active_target_excluding\<close> announced.
\<close>

theorem active_target_priority:
  assumes "distinct (map fst (setpoint_overrides st))"
  shows "(if setpoint_overrides st = [] then compute_active_target st = sum_list (map snd (setpoint_offsets st))
    else (\<exists>s p v. (s, p, v) \<in> set (setpoint_overrides st) \<and> compute_active_target st = v
      \<and> list_all (\<lambda>(s', p', v'). p' \<le> p) (setpoint_overrides st)))
   \<and> (list_all (\<lambda>(s', p', v'). s' \<noteq> src \<longrightarrow> p' < pri) (setpoint_overrides st) \<longrightarrow>
       compute_active_target (set_setpoint_override src w pri st) = w)
   \<and> compute_active_target (remove_setpoint_override src st) = compute_active_target_excluding st src"
proof -
  have top: "compute_active_target (set_setpoint_override src w pri st) = w"
    if lt: "list_all (\<lambda>(s', p', v'). s' \<noteq> src \<longrightarrow> p' < pri) (setpoint_overrides st)"
  proof -
    let ?ov = "AList.update src (pri, w) (setpoint_overrides st)"
    obtain s p v where mem: "(s, p, v) \<in> set ?ov" and val: "active_target ?ov (setpoint_offsets st) = v"
      and max: "list_all (\<lambda>(s', p', v'). p' \<le> p) ?ov"
      using active_target_best [of ?ov "setpoint_offsets st"] update_self [of src "(pri, w)"]
      by (metis empty_iff list.set(1))
    from max have "pri \<le> p" using update_self [of src "(pri, w)" "setpoint_overrides st"]
      by (force simp: list_all_iff)
    with update_member [OF assms mem] lt have "v = w" by (force simp: list_all_iff)
    with val show ?thesis by (simp add: compute_active_target_def set_setpoint_override_def)
  qed
  have "AList.delete src ov = filter (\<lambda>(source, _). source \<noteq> src) ov" for ov :: "(string, int \<times> rat) dict"
    by (auto simp: AList.delete_eq intro!: filter_cong)
  then have rem: "compute_active_target (remove_setpoint_override src st)
      = compute_active_target_excluding st src"
    by (simp add: compute_active_target_def compute_active_target_excluding_def
        remove_setpoint_override_def)
  show ?thesis
  proof (cases "setpoint_overrides st = []")
    case True
    with top rem show ?thesis by (simp add: compute_active_target_def active_target_def)
  next
    case False
    with active_target_best [OF False, of "setpoint_offsets st"] top rem show ?thesis
      by (simp add: compute_active_target_def)
  qed
qed

definition example_gates :: gate_state where
  "example_gates = empty_gates\<lparr>setpoint_offsets := [(''user_target'', 30)],
     setpoint_overrides := [(''curtailment_negative_window'', 6, 0), (''capacity_protection'', 10, 2500)]\<rparr>"

theorem active_target_priority_witness:
  "distinct (map fst (setpoint_overrides example_gates))
   \<and> compute_active_target (set_setpoint_override ''test'' (-700) 20 example_gates) = -700"
proof -
  have "distinct (map fst (setpoint_overrides example_gates))" by code_simp
  moreover have "list_all (\<lambda>(s', p', v'). s' \<noteq> ''test'' \<longrightarrow> p' < 20) (setpoint_overrides example_gates)"
    by code_simp
  ultimately show ?thesis
    using active_target_priority [of example_gates "''test''" 20 "-700"] by blast
qed

end
