(* ===== verification/PD_Control.thy ===== *)
theory PD_Control
  imports Py_Prelude
begin

text \<open>
  The control law of \<open>__init__.py\<close>: grid filter, feedforward detector, incremental PD
  law with anti-windup, rate limiter and direction hysteresis, and the shaping that
  every command passes through (zero-cross hold, minimum power, relay dwell, the
  capacity and contracted-power clamps). Powers are positive when charging. Two
  readings of the clock inside one call are taken as one instant, \<open>now\<close>.
\<close>

section \<open>Configuration and state\<close>

record pd_config =
  kp :: rat
  ki :: rat
  kd :: rat
  dt :: rat
  deadband :: rat
  derivative_tau :: rat
  integral_decay :: rat
  max_power_change_per_cycle :: rat
  direction_hysteresis :: rat
  min_charge_power :: rat
  min_discharge_power :: rat
  grid_filter_tau :: rat
  relay_cooldown_s :: rat
  saturation_backcalc_threshold :: rat
  saturation_backcalc_cycles :: nat
  saturation_backcalc_fallback_s :: rat
  max_charge_capacity :: rat
  max_discharge_capacity :: rat

record pd_state =
  previous_power :: rat
  previous_error :: rat
  error_integral :: rat
  sign_changes :: nat
  derivative_filtered :: rat
  last_output_sign :: int
  saturation_cycles :: nat
  saturation_shortfall_since :: "rat option"

text \<open>The defaults the controller is built with; the capacities come from the fleet.\<close>

definition default_pd :: "rat \<Rightarrow> rat \<Rightarrow> pd_config" where
  "default_pd charge_capacity discharge_capacity =
     \<lparr>kp = 35/100, ki = 0, kd = 3/10, dt = 2, deadband = 40, derivative_tau = 3, integral_decay = 9/10,
      max_power_change_per_cycle = 800, direction_hysteresis = 60, min_charge_power = 0,
      min_discharge_power = 0, grid_filter_tau = 2, relay_cooldown_s = 0,
      saturation_backcalc_threshold = 150, saturation_backcalc_cycles = 3,
      saturation_backcalc_fallback_s = 15,
      max_charge_capacity = charge_capacity, max_discharge_capacity = discharge_capacity\<rparr>"

definition initial_pd_state :: pd_state where
  "initial_pd_state =
     \<lparr>previous_power = 0, previous_error = 0, error_integral = 0, sign_changes = 0,
      derivative_filtered = 0, last_output_sign = 0, saturation_cycles = 0,
      saturation_shortfall_since = None\<rparr>"

definition sign_of :: "rat \<Rightarrow> int" where
  "sign_of x = (if 0 < x then 1 else if x < 0 then - 1 else 0)"

lemma sign_of_simps [simp]: "sign_of 0 = 0" "sign_of x = 1 \<longleftrightarrow> 0 < x" "sign_of x = - 1 \<longleftrightarrow> x < 0"
  "sign_of x = 0 \<longleftrightarrow> x = 0"
  by (auto simp: sign_of_def)

section \<open>Grid filter\<close>

definition filter_grid_sample :: "pd_config \<Rightarrow> rat option \<Rightarrow> rat \<Rightarrow> rat option \<Rightarrow> rat" where
  "filter_grid_sample c ema sensor_raw elapsed_s = (case ema of
     None \<Rightarrow> sensor_raw
   | Some old \<Rightarrow>
      if (case elapsed_s of None \<Rightarrow> True | Some e \<Rightarrow> 0 < e)
      then (let step_threshold = max (3 * deadband c) 200 in
        if step_threshold < \<bar>sensor_raw - old\<bar> then sensor_raw
        else (let d = (case elapsed_s of None \<Rightarrow> dt c | Some e \<Rightarrow> if 0 < e then e else dt c);
                  alpha = d / (grid_filter_tau c + d)
              in old + alpha * (sensor_raw - old)))
      else old)"

section \<open>No-PD law and feedforward detector\<close>

definition compute_no_pd_new_power :: "rat option \<Rightarrow> rat \<Rightarrow> rat \<Rightarrow> rat" where
  "compute_no_pd_new_power measured prev error =
     (let base = (case measured of Some m \<Rightarrow> m | None \<Rightarrow> prev) in base - error)"

definition FEEDFORWARD_STEP_FLOOR_W :: rat where "FEEDFORWARD_STEP_FLOOR_W = 400"
definition FEEDFORWARD_CONFIRM_RATIO :: rat where "FEEDFORWARD_CONFIRM_RATIO = 8/10"
definition FEEDFORWARD_CANDIDATE_MAX_AGE_S :: rat where "FEEDFORWARD_CANDIDATE_MAX_AGE_S = 5"
definition FEEDFORWARD_COOLDOWN_S :: rat where "FEEDFORWARD_COOLDOWN_S = 10"
definition FEEDFORWARD_PULSE_GUARD_S :: rat where "FEEDFORWARD_PULSE_GUARD_S = 30"

lemmas feedforward_consts = FEEDFORWARD_STEP_FLOOR_W_def FEEDFORWARD_CONFIRM_RATIO_def
  FEEDFORWARD_CANDIDATE_MAX_AGE_S_def FEEDFORWARD_COOLDOWN_S_def FEEDFORWARD_PULSE_GUARD_S_def

record ff_state =
  step_candidate :: "(rat \<times> rat \<times> rat) option"
  last_feedforward_monotonic :: "rat option"
  last_feedforward_sign :: int

text \<open>
  Arming: taken when no candidate confirms. A confirmed step that the cooldown or
  the pulse guard rejects returns without arming a new candidate.
\<close>

definition arm_step :: "pd_config \<Rightarrow> rat \<Rightarrow> rat \<Rightarrow> rat \<Rightarrow> ff_state \<Rightarrow> ff_state \<times> bool" where
  "arm_step c prev_error error now s =
     (let jump = error - prev_error in
      if max (5 * deadband c) FEEDFORWARD_STEP_FLOOR_W < \<bar>jump\<bar>
      then (s\<lparr>step_candidate := Some (prev_error, jump, now)\<rparr>, False)
      else (s, False))"

definition check_feedforward_step ::
    "pd_config \<Rightarrow> rat \<Rightarrow> rat \<Rightarrow> rat \<Rightarrow> ff_state \<Rightarrow> ff_state \<times> bool" where
  "check_feedforward_step c prev_error error now s0 =
     (let s = s0\<lparr>step_candidate := None\<rparr> in
      case step_candidate s0 of
        None \<Rightarrow> arm_step c prev_error error now s
      | Some (baseline, jump, armed_ts) \<Rightarrow>
         (let deviation = error - baseline in
          if now - armed_ts \<le> FEEDFORWARD_CANDIDATE_MAX_AGE_S
             \<and> (0 < deviation) = (0 < jump)
             \<and> FEEDFORWARD_CONFIRM_RATIO * \<bar>jump\<bar> \<le> \<bar>deviation\<bar>
          then (let sgn_new = (if 0 < jump then 1 else - 1);
                    recent = (\<lambda>limit. case last_feedforward_monotonic s of
                      None \<Rightarrow> False | Some last_ts \<Rightarrow> now - last_ts < limit)
            in if recent FEEDFORWARD_COOLDOWN_S then (s, False)
               else if recent FEEDFORWARD_PULSE_GUARD_S \<and> sgn_new \<noteq> last_feedforward_sign s
               then (s, False)
               else (s\<lparr>last_feedforward_monotonic := Some now, last_feedforward_sign := sgn_new\<rparr>, True))
          else arm_step c prev_error error now s))"

section \<open>The incremental PD law\<close>

definition reanchor :: "pd_config \<Rightarrow> rat option \<Rightarrow> bool \<Rightarrow> rat \<Rightarrow> pd_state \<Rightarrow> pd_state" where
  "reanchor c measured_power saturated now s = (case measured_power of
     None \<Rightarrow> s\<lparr>saturation_cycles := 0, saturation_shortfall_since := None\<rparr>
   | Some m \<Rightarrow>
      if previous_power s \<noteq> 0 \<and> (0 < previous_power s) = (0 \<le> m)
         \<and> saturation_backcalc_threshold c < \<bar>previous_power s\<bar> - \<bar>m\<bar>
      then (let since = (case saturation_shortfall_since s of None \<Rightarrow> now | Some t \<Rightarrow> t);
                sustained_s = now - since;
                cycles = (if saturated then Suc (saturation_cycles s) else 0)
            in if (saturated \<and> saturation_backcalc_cycles c \<le> cycles)
                  \<or> saturation_backcalc_fallback_s c \<le> sustained_s
               then s\<lparr>previous_power := m, saturation_cycles := 0, saturation_shortfall_since := None\<rparr>
               else s\<lparr>saturation_cycles := cycles, saturation_shortfall_since := Some since\<rparr>)
      else s\<lparr>saturation_cycles := 0, saturation_shortfall_since := None\<rparr>)"

definition integrate_error :: "pd_config \<Rightarrow> rat \<Rightarrow> pd_state \<Rightarrow> pd_state" where
  "integrate_error c error s =
     (if 0 < ki c then
        (let s1 = (if sign_of (error_integral s) \<noteq> 0 \<and> sign_of error \<noteq> 0
                     \<and> sign_of (error_integral s) \<noteq> sign_of error
                   then s\<lparr>error_integral := 0, sign_changes := 0\<rparr> else s);
             decayed = error_integral s1 * integral_decay c;
             new_integral = decayed + error * dt c
         in if max_charge_capacity c < new_integral then s1\<lparr>error_integral := max_charge_capacity c\<rparr>
            else if new_integral < - max_discharge_capacity c
            then s1\<lparr>error_integral := - max_discharge_capacity c\<rparr>
            else s1\<lparr>error_integral := new_integral\<rparr>)
      else s\<lparr>error_integral := 0\<rparr>)"

text \<open>\<open>(real_dt, scale_dt)\<close> of a cycle with a fresh sample.\<close>

definition time_bases :: "pd_config \<Rightarrow> rat option \<Rightarrow> rat \<times> rat" where
  "time_bases c sensor_elapsed_s =
     (let base_dt = (case sensor_elapsed_s of None \<Rightarrow> dt c | Some e \<Rightarrow> if 0 < e then e else dt c)
      in (max 1 (min base_dt 30), max (1/10) (min base_dt 30)))"

definition scale_of :: "pd_config \<Rightarrow> rat option \<Rightarrow> bool \<Rightarrow> rat" where
  "scale_of c sensor_elapsed_s stale = (if stale then dt c else snd (time_bases c sensor_elapsed_s))"

definition derivative_step :: "pd_config \<Rightarrow> rat \<Rightarrow> rat option \<Rightarrow> bool \<Rightarrow> pd_state \<Rightarrow> pd_state" where
  "derivative_step c error sensor_elapsed_s stale s =
     (if stale then s\<lparr>derivative_filtered := 0\<rparr>
      else (let real_dt = fst (time_bases c sensor_elapsed_s);
                raw = (error - previous_error s) / real_dt;
                d_alpha = real_dt / (derivative_tau c + real_dt)
            in s\<lparr>derivative_filtered := derivative_filtered s
                  + d_alpha * (raw - derivative_filtered s)\<rparr>))"

definition p_scale_of :: "pd_config \<Rightarrow> rat option \<Rightarrow> bool \<Rightarrow> rat" where
  "p_scale_of c sensor_elapsed_s stale =
     (if stale then 0
      else (let p_scale = scale_of c sensor_elapsed_s stale / dt c in
        if 0 < kp c then min p_scale (max 1 (1 / kp c)) else p_scale))"

definition pd_adjustment :: "pd_config \<Rightarrow> rat \<Rightarrow> rat option \<Rightarrow> bool \<Rightarrow> pd_state \<Rightarrow> rat" where
  "pd_adjustment c error sensor_elapsed_s stale s =
     kp c * error * p_scale_of c sensor_elapsed_s stale
     + ki c * error_integral s
     + kd c * (if stale then 0 else derivative_filtered s)"

definition rate_limit :: "pd_config \<Rightarrow> rat \<Rightarrow> rat \<Rightarrow> rat \<Rightarrow> rat" where
  "rate_limit c scale_dt prev new_power_raw =
     (let max_change = max_power_change_per_cycle c * (scale_dt / dt c);
          power_change = new_power_raw - prev
      in if max_change < \<bar>power_change\<bar>
         then prev + (if 0 < power_change then 1 else - 1) * max_change
         else new_power_raw)"

definition direction_gate :: "pd_config \<Rightarrow> int \<Rightarrow> rat \<Rightarrow> rat \<Rightarrow> rat" where
  "direction_gate c last_sign error new_power =
     (if last_sign \<noteq> 0 \<and> sign_of new_power \<noteq> 0 \<and> last_sign \<noteq> sign_of new_power
         \<and> \<bar>new_power\<bar> < direction_hysteresis c \<and> \<bar>error\<bar> < direction_hysteresis c
      then 0 else new_power)"

definition compute_pd_new_power ::
    "pd_config \<Rightarrow> rat \<Rightarrow> rat option \<Rightarrow> bool \<Rightarrow> rat option \<Rightarrow> bool \<Rightarrow> rat \<Rightarrow> pd_state \<Rightarrow> pd_state \<times> rat" where
  "compute_pd_new_power c error sensor_elapsed_s stale measured_power saturated now s =
     (let s1 = reanchor c measured_power saturated now s;
          s2 = integrate_error c error s1;
          s3 = derivative_step c error sensor_elapsed_s stale s2;
          new_power_raw = previous_power s3 - pd_adjustment c error sensor_elapsed_s stale s3;
          limited = rate_limit c (scale_of c sensor_elapsed_s stale) (previous_power s3) new_power_raw
      in (s3, direction_gate c (last_output_sign s3) error limited))"

section \<open>Shaping the command\<close>

definition apply_min_power :: "pd_config \<Rightarrow> rat \<Rightarrow> rat \<Rightarrow> rat" where
  "apply_min_power c new_power error =
     (if 0 < new_power \<and> 0 < min_charge_power c \<and> new_power < min_charge_power c
      then (if min_charge_power c - deadband c \<le> - error then min_charge_power c else 0)
      else if new_power < 0 \<and> 0 < min_discharge_power c \<and> \<bar>new_power\<bar> < min_discharge_power c
      then (if min_discharge_power c - deadband c \<le> error then - min_discharge_power c else 0)
      else new_power)"

definition RELAY_COOLDOWN_HOLD_POWER :: rat where "RELAY_COOLDOWN_HOLD_POWER = 100"

text \<open>The result carries the new \<open>_relay_shutoff_since\<close>.\<close>

definition apply_relay_dwell ::
    "pd_config \<Rightarrow> rat \<Rightarrow> bool \<Rightarrow> rat \<Rightarrow> rat option \<Rightarrow> rat \<Rightarrow> rat \<Rightarrow> bool \<Rightarrow> rat \<times> rat option" where
  "apply_relay_dwell c prev suppressed_flip now shutoff_since new_power error stale =
     (if stale \<and> shutoff_since \<noteq> None then (new_power, shutoff_since)
      else (let wants_idle = (0 < relay_cooldown_s c \<and> new_power = 0 \<and> prev \<noteq> 0
              \<and> (suppressed_flip
                 \<or> \<bar>error\<bar> - \<bar>prev\<bar> < max (deadband c * 3) RELAY_COOLDOWN_HOLD_POWER))
        in if \<not> wants_idle then (new_power, None)
           else (let since = (case shutoff_since of None \<Rightarrow> now | Some t \<Rightarrow> t);
                     held_s = now - since
             in if relay_cooldown_s c \<le> held_s then (new_power, None)
                else (if 0 < prev
                      then (if min_charge_power c \<noteq> 0 then min_charge_power c else RELAY_COOLDOWN_HOLD_POWER)
                      else - (if min_discharge_power c \<noteq> 0 then min_discharge_power c
                              else RELAY_COOLDOWN_HOLD_POWER), Some since))))"

definition PD_ZERO_CROSS_MIN_HOLD_S :: rat where "PD_ZERO_CROSS_MIN_HOLD_S = 5"

definition zero_cross_window :: "rat list \<Rightarrow> rat" where
  "zero_cross_window latencies =
     max PD_ZERO_CROSS_MIN_HOLD_S (2 * (if latencies = [] then 0 else Max (set latencies)))"

text \<open>The result carries the new \<open>_zero_cross_since\<close>.\<close>

definition apply_zero_cross_hold ::
    "rat list \<Rightarrow> int \<Rightarrow> rat \<Rightarrow> rat option \<Rightarrow> rat \<Rightarrow> bool \<Rightarrow> rat \<times> rat option" where
  "apply_zero_cross_hold latencies last_sign now zc_since new_power stale =
     (let requested_sign = sign_of new_power in
      if stale \<and> requested_sign = 0 \<and> zc_since \<noteq> None then (new_power, zc_since)
      else if last_sign = 0 \<or> requested_sign = 0 \<or> requested_sign = last_sign then (new_power, None)
      else (let since = (case zc_since of None \<Rightarrow> now | Some t \<Rightarrow> t);
                held_s = now - since
            in if zero_cross_window latencies \<le> held_s then (new_power, None)
               else (0, Some since)))"

text \<open>
  The end of the cycle: a restricted operation is paused at 0, the command is
  clamped to what the available batteries can do, and charging is capped so that
  the projected grid import stays within the contracted power.
\<close>

definition clamp_to_available :: "rat \<Rightarrow> rat \<Rightarrow> rat \<Rightarrow> rat" where
  "clamp_to_available max_total_charge max_total_discharge new_power =
     (if new_power \<noteq> 0
      then (if max_total_charge < new_power then max_total_charge
            else if new_power < - max_total_discharge then - max_total_discharge else new_power)
      else new_power)"

definition icp_clamp :: "rat \<Rightarrow> rat \<Rightarrow> rat \<Rightarrow> rat \<Rightarrow> rat" where
  "icp_clamp max_contracted_power sensor_filtered prev new_power =
     (if 0 < max_contracted_power \<and> 0 < new_power
      then (let charge_import_cap = max_contracted_power - sensor_filtered + prev in
        if charge_import_cap < new_power then max 0 charge_import_cap else new_power)
      else new_power)"

definition limit_command :: "bool \<Rightarrow> rat \<Rightarrow> rat \<Rightarrow> rat \<Rightarrow> rat \<Rightarrow> rat \<Rightarrow> rat \<Rightarrow> rat" where
  "limit_command operation_restricted max_total_charge max_total_discharge max_contracted_power
     sensor_filtered prev new_power =
     icp_clamp max_contracted_power sensor_filtered prev
       (if operation_restricted then 0
        else clamp_to_available max_total_charge max_total_discharge new_power)"

section \<open>Lemmas on the grid filter and the PD law\<close>

lemma reanchor_shrinks:
  "0 \<le> saturation_backcalc_threshold c \<Longrightarrow>
   \<bar>previous_power (reanchor c m sat now s)\<bar> \<le> \<bar>previous_power s\<bar>
   \<and> 0 \<le> previous_power (reanchor c m sat now s) * previous_power s"
  by (cases m) (auto simp: reanchor_def Let_def zero_le_mult_iff)

lemma reanchor_frame [simp]:
  "last_output_sign (reanchor c m sat now s) = last_output_sign s"
  "error_integral (reanchor c m sat now s) = error_integral s"
  by (auto simp: reanchor_def Let_def split: option.splits)

lemma integrate_error_bounds:
  assumes "0 \<le> max_charge_capacity c" and "0 \<le> max_discharge_capacity c"
  shows "- max_discharge_capacity c \<le> error_integral (integrate_error c e s)
    \<and> error_integral (integrate_error c e s) \<le> max_charge_capacity c"
  using assms by (auto simp: integrate_error_def Let_def not_less)

lemma integrate_error_frame [simp]:
  "previous_power (integrate_error c e s) = previous_power s"
  "previous_error (integrate_error c e s) = previous_error s"
  "last_output_sign (integrate_error c e s) = last_output_sign s"
  by (auto simp: integrate_error_def Let_def)

lemma derivative_step_frame [simp]:
  "previous_power (derivative_step c e el st s) = previous_power s"
  "error_integral (derivative_step c e el st s) = error_integral s"
  "last_output_sign (derivative_step c e el st s) = last_output_sign s"
  by (auto simp: derivative_step_def Let_def)

lemma rate_limit_bound:
  assumes "0 \<le> max_power_change_per_cycle c" and "0 < dt c" and "0 < sc"
  shows "\<bar>rate_limit c sc p q - p\<bar> \<le> max_power_change_per_cycle c * (sc / dt c)"
proof -
  have "0 \<le> max_power_change_per_cycle c * (sc / dt c)" using assms by simp
  then show ?thesis by (auto simp: rate_limit_def Let_def)
qed

lemma scale_of_pos: "0 < dt c \<Longrightarrow> 0 < scale_of c el st"
  by (auto simp: scale_of_def time_bases_def Let_def)

lemma direction_gate_cases:
  "direction_gate c l e p = p \<or> direction_gate c l e p = 0"
  "l * sign_of (direction_gate c l e p) = - 1 \<Longrightarrow>
     direction_hysteresis c \<le> \<bar>direction_gate c l e p\<bar> \<or> direction_hysteresis c \<le> \<bar>e\<bar>"
  by (auto simp: direction_gate_def sign_of_def split: if_splits)

text \<open>
  The filtered grid value always lies between the previous filtered value and the
  new sample: the filter never overshoots, whatever the cadence.
\<close>

theorem filter_grid_sample_between:
  assumes "0 \<le> grid_filter_tau c" and "0 < dt c"
  shows "min old x \<le> filter_grid_sample c (Some old) x e \<and> filter_grid_sample c (Some old) x e \<le> max old x"
proof (cases "e = None \<or> (\<exists>r. e = Some r \<and> 0 < r)")
  case True
  define d where "d = (case e of None \<Rightarrow> dt c | Some r \<Rightarrow> if 0 < r then r else dt c)"
  have d: "0 < d" using True assms by (auto simp: d_def)
  define a where "a = d / (grid_filter_tau c + d)"
  have a: "0 \<le> a" "a \<le> 1" using d assms by (simp_all add: a_def)
  have "min old x \<le> old + a * (x - old) \<and> old + a * (x - old) \<le> max old x"
  proof (cases "old \<le> x")
    case le: True
    have "0 \<le> a * (x - old)" using a le by simp
    moreover have "a * (x - old) \<le> 1 * (x - old)" using a le by (intro mult_right_mono) auto
    ultimately show ?thesis using le by simp
  next
    case False
    have "0 \<le> a * (old - x)" using a False by simp
    moreover have "a * (old - x) \<le> 1 * (old - x)" using a False by (intro mult_right_mono) auto
    ultimately show ?thesis using False by (simp add: algebra_simps)
  qed
  moreover have "filter_grid_sample c (Some old) x e = x \<or>
      filter_grid_sample c (Some old) x e = old + a * (x - old)"
    using True unfolding filter_grid_sample_def Let_def a_def d_def by (cases e) auto
  ultimately show ?thesis by auto
next
  case False
  then show ?thesis by (cases e) (auto simp: filter_grid_sample_def)
qed

lemma filter_grid_sample_between_witness:
  "min 100 160 \<le> filter_grid_sample (default_pd 2500 2500) (Some 100) 160 (Some 2)
   \<and> filter_grid_sample (default_pd 2500 2500) (Some 100) 160 (Some 2) \<le> max 100 160
   \<and> filter_grid_sample (default_pd 2500 2500) (Some 100) 160 (Some 2) = 130"
  using filter_grid_sample_between [of "default_pd 2500 2500" 100 160 "Some 2"]
  by (simp add: default_pd_def filter_grid_sample_def)

text \<open>
  C13. One pass of the incremental law: anti-windup only shrinks the base towards zero
  and never flips it, the command is 0 or within the rate limit of that base, the
  integral stays within the capacities, and a change of direction against the last
  output passes only when the command or the error reaches the hysteresis.
\<close>

theorem pd_step_bounded:
  assumes "0 \<le> saturation_backcalc_threshold c" and "0 < dt c" and "0 \<le> max_power_change_per_cycle c"
    and "0 \<le> max_charge_capacity c" and "0 \<le> max_discharge_capacity c"
    and "compute_pd_new_power c e el st m sat now s = (s', p)"
  shows "\<bar>previous_power s'\<bar> \<le> \<bar>previous_power s\<bar> \<and> 0 \<le> previous_power s' * previous_power s
    \<and> (p = 0 \<or> \<bar>p - previous_power s'\<bar> \<le> max_power_change_per_cycle c * (scale_of c el st / dt c))
    \<and> - max_discharge_capacity c \<le> error_integral s' \<and> error_integral s' \<le> max_charge_capacity c
    \<and> (last_output_sign s' * sign_of p = - 1 \<longrightarrow>
        direction_hysteresis c \<le> \<bar>p\<bar> \<or> direction_hysteresis c \<le> \<bar>e\<bar>)"
proof -
  let ?s3 = "derivative_step c e el st (integrate_error c e (reanchor c m sat now s))"
  let ?l = "rate_limit c (scale_of c el st) (previous_power ?s3)
    (previous_power ?s3 - pd_adjustment c e el st ?s3)"
  have s': "s' = ?s3" and p: "p = direction_gate c (last_output_sign s') e ?l"
    using assms(6) by (auto simp: compute_pd_new_power_def Let_def)
  have "\<bar>?l - previous_power s'\<bar> \<le> max_power_change_per_cycle c * (scale_of c el st / dt c)"
    unfolding s' using assms by (intro rate_limit_bound scale_of_pos)
  then have "p = 0 \<or> \<bar>p - previous_power s'\<bar> \<le> max_power_change_per_cycle c * (scale_of c el st / dt c)"
    using direction_gate_cases(1) unfolding p by metis
  moreover have "\<bar>previous_power s'\<bar> \<le> \<bar>previous_power s\<bar> \<and> 0 \<le> previous_power s' * previous_power s"
    using reanchor_shrinks [OF assms(1)] by (simp add: s')
  moreover have "- max_discharge_capacity c \<le> error_integral s' \<and> error_integral s' \<le> max_charge_capacity c"
    using integrate_error_bounds [OF assms(4,5)] by (simp add: s')
  ultimately show ?thesis using direction_gate_cases(2) unfolding p by blast
qed

definition lagging_state :: pd_state where
  "lagging_state = initial_pd_state\<lparr>previous_power := - 800, last_output_sign := - 1,
     saturation_cycles := 2, saturation_shortfall_since := Some 46\<rparr>"

lemma pd_step_bounded_witness:
  "let (s', p) = compute_pd_new_power (default_pd 2500 2500) 3000 (Some 2) False (Some (- 100)) True 50 lagging_state
   in previous_power s' = - 100 \<and> p = - 900
      \<and> (p = 0 \<or> \<bar>p - previous_power s'\<bar> \<le> max_power_change_per_cycle (default_pd 2500 2500)
           * (scale_of (default_pd 2500 2500) (Some 2) False / dt (default_pd 2500 2500)))"
proof -
  let ?c = "default_pd 2500 2500"
  obtain s' p where step: "compute_pd_new_power ?c 3000 (Some 2) False (Some (- 100)) True 50 lagging_state = (s', p)"
    by fastforce
  have "previous_power (fst (compute_pd_new_power ?c 3000 (Some 2) False (Some (- 100)) True 50 lagging_state)) = - 100"
    and "snd (compute_pd_new_power ?c 3000 (Some 2) False (Some (- 100)) True 50 lagging_state) = - 900"
    by code_simp+
  moreover have "p = 0 \<or> \<bar>p - previous_power s'\<bar> \<le> max_power_change_per_cycle ?c * (scale_of ?c (Some 2) False / dt ?c)"
    using pd_step_bounded [OF _ _ _ _ _ step] by (simp add: default_pd_def)
  ultimately show ?thesis by (simp add: step)
qed

lemma stale_pass_holds_command:
  assumes "ki c = 0" and "0 \<le> max_power_change_per_cycle c" and "0 < dt c"
    and "compute_pd_new_power c e el True m sat now s = (s', p)"
  shows "p = previous_power s' \<or> p = 0"
proof -
  let ?s3 = "derivative_step c e el True (integrate_error c e (reanchor c m sat now s))"
  have "pd_adjustment c e el True ?s3 = 0" using assms(1) by (simp add: pd_adjustment_def p_scale_of_def)
  moreover have "rate_limit c (scale_of c el True) q q = q" for q
    using assms(2,3) by (auto simp: rate_limit_def Let_def scale_of_def)
  ultimately show ?thesis
    using assms(4) direction_gate_cases(1) [of c "last_output_sign ?s3" e "previous_power ?s3"]
    by (auto simp: compute_pd_new_power_def Let_def)
qed

lemma apply_min_power_spec:
  "apply_min_power c p e =
    (if 0 < p \<and> p < min_charge_power c \<and> - e < min_charge_power c - deadband c then 0
     else if p < 0 \<and> - p < min_discharge_power c \<and> e < min_discharge_power c - deadband c then 0
     else if 0 < p then max p (min_charge_power c)
     else if p < 0 then min p (- min_discharge_power c)
     else 0)"
  by (auto simp: apply_min_power_def)

section \<open>The zero-cross hold over a run of cycles\<close>

text \<open>A cycle of the hold: last output sign, time, requested power, stale pass.\<close>

type_synonym zc_cycle = "int \<times> rat \<times> rat \<times> bool"

fun zc_next :: "rat list \<Rightarrow> rat option \<Rightarrow> zc_cycle \<Rightarrow> rat option" where
  "zc_next lat z (l, now, p, st) = snd (apply_zero_cross_hold lat l now z p st)"

fun zc_opposes :: "zc_cycle \<Rightarrow> bool" where
  "zc_opposes (l, now, p, st) = (l \<noteq> 0 \<and> sign_of p \<noteq> 0 \<and> sign_of p \<noteq> l)"

fun zc_keeps :: "zc_cycle \<Rightarrow> bool" where
  "zc_keeps (l, now, p, st) = (zc_opposes (l, now, p, st) \<or> st \<and> p = 0)"

fun zc_time :: "zc_cycle \<Rightarrow> rat" where "zc_time (l, now, p, st) = now"

lemma zc_armed_streak:
  "run (zc_next lat) None cs = Some t \<Longrightarrow>
    \<exists>pre c post. cs = pre @ c # post \<and> zc_time c = t \<and> zc_opposes c \<and> (\<forall>x\<in>set post. zc_keeps x)"
proof (induction cs arbitrary: t rule: rev_induct)
  case Nil
  then show ?case by simp
next
  case (snoc x cs)
  obtain l now p st where x: "x = (l, now, p, st)" by (cases x) auto
  let ?z = "run (zc_next lat) None cs"
  have step: "zc_next lat ?z x = Some t" using snoc.prems by (simp add: run_append)
  show ?case
  proof (cases "?z = Some t \<and> zc_keeps x")
    case True
    then obtain pre c post where "cs = pre @ c # post \<and> zc_time c = t \<and> zc_opposes c \<and> (\<forall>x\<in>set post. zc_keeps x)"
      using snoc.IH by blast
    with True show ?thesis
      by (intro exI [of _ pre] exI [of _ c] exI [of _ "post @ [x]"]) auto
  next
    case False
    then have "zc_opposes x \<and> zc_time x = t"
      using step unfolding x
      by (cases ?z) (auto simp: apply_zero_cross_hold_def Let_def split: if_splits)
    then show ?thesis by (intro exI [of _ cs] exI [of _ x] exI [of _ "[]"]) auto
  qed
qed

lemma zero_cross_window_pos: "5 \<le> zero_cross_window lat"
  by (simp add: zero_cross_window_def PD_ZERO_CROSS_MIN_HOLD_S_def)

text \<open>
  A command against the last direction leaves the hold only after an unbroken streak:
  some earlier cycle at least a whole window old asked for the opposite direction, and
  every cycle since asked for it too or was a stale pass over a zero command.
\<close>

theorem zero_cross_flip_needs_streak:
  assumes "zc_opposes (l, now, p, st)"
    and "fst (apply_zero_cross_hold lat l now (run (zc_next lat) None cs) p st) \<noteq> 0"
  shows "\<exists>pre c post. cs = pre @ c # post \<and> zc_opposes c \<and> (\<forall>x\<in>set post. zc_keeps x)
           \<and> zero_cross_window lat \<le> now - zc_time c"
proof -
  let ?z = "run (zc_next lat) None cs"
  have "p \<noteq> 0" using assms(1) by auto
  have "\<exists>t. ?z = Some t \<and> zero_cross_window lat \<le> now - t"
    using assms zero_cross_window_pos [of lat]
    by (cases ?z) (auto simp: apply_zero_cross_hold_def Let_def split: if_splits)
  then show ?thesis using zc_armed_streak [of lat cs] by metis
qed

lemma zero_cross_flip_needs_streak_witness:
  "(\<exists>pre c post. [(- 1, 0, 300, False), (- 1, 3, 0, True)] = pre @ c # post \<and> zc_opposes c
      \<and> (\<forall>x\<in>set post. zc_keeps x) \<and> zero_cross_window [3] \<le> 6 - zc_time c)
   \<and> fst (apply_zero_cross_hold [3] (- 1) 5 (run (zc_next [3]) None [(- 1, 0, 300, False), (- 1, 3, 0, True)]) 400 False) = 0"
proof
  show "\<exists>pre c post. [(- 1, 0, 300, False), (- 1, 3, 0, True)] = pre @ c # post \<and> zc_opposes c
      \<and> (\<forall>x\<in>set post. zc_keeps x) \<and> zero_cross_window [3] \<le> 6 - zc_time c"
    by (rule zero_cross_flip_needs_streak [where l = "- 1" and p = 400 and st = False]) code_simp+
qed code_simp

section \<open>The feedforward detector over a run of cycles\<close>

text \<open>A cycle of the detector: previous error, error, time.\<close>

type_synonym ff_cycle = "rat \<times> rat \<times> rat"

fun ff_fires :: "pd_config \<Rightarrow> ff_state \<Rightarrow> ff_cycle list \<Rightarrow> (rat \<times> int) list" where
  "ff_fires c s [] = []"
| "ff_fires c s ((prev_error, error, now) # xs) =
     (let (s', fired) = check_feedforward_step c prev_error error now s in
      (if fired then [(now, last_feedforward_sign s')] else []) @ ff_fires c s' xs)"

fun ff_spaced :: "rat \<times> int \<Rightarrow> rat \<times> int \<Rightarrow> bool" where
  "ff_spaced (t1, g1) (t2, g2) \<longleftrightarrow>
     FEEDFORWARD_COOLDOWN_S \<le> t2 - t1 \<and> (g1 \<noteq> g2 \<longrightarrow> FEEDFORWARD_PULSE_GUARD_S \<le> t2 - t1)"

definition last_fire :: "ff_state \<Rightarrow> (rat \<times> int) list" where
  "last_fire s = (case last_feedforward_monotonic s of None \<Rightarrow> [] | Some t \<Rightarrow> [(t, last_feedforward_sign s)])"

lemma last_fire_candidate [simp]: "last_fire (s\<lparr>step_candidate := x\<rparr>) = last_fire s"
  by (cases "last_feedforward_monotonic s") (auto simp: last_fire_def)

lemma arm_step_quiet:
  "arm_step c pe e now s = (s', fired) \<Longrightarrow> \<not> fired \<and> last_fire s' = last_fire s"
  by (auto simp: arm_step_def Let_def split: if_splits)

lemma check_feedforward_step_fires:
  assumes "check_feedforward_step c pe e now s = (s', fired)"
  shows "if fired
    then last_fire s' = [(now, last_feedforward_sign s')]
      \<and> (\<forall>x\<in>set (last_fire s). ff_spaced x (now, last_feedforward_sign s'))
      \<and> (\<exists>b j t. step_candidate s = Some (b, j, t) \<and> now - t \<le> FEEDFORWARD_CANDIDATE_MAX_AGE_S
           \<and> (0 < e - b) = (0 < j) \<and> FEEDFORWARD_CONFIRM_RATIO * \<bar>j\<bar> \<le> \<bar>e - b\<bar>)
    else last_fire s' = last_fire s"
proof (cases "step_candidate s")
  case None
  then have "(s', fired) = arm_step c pe e now (s\<lparr>step_candidate := None\<rparr>)"
    using assms by (simp add: check_feedforward_step_def)
  from arm_step_quiet [OF this [symmetric]] show ?thesis by simp
next
  case (Some cand)
  obtain b j t where cand: "cand = (b, j, t)" by (cases cand) auto
  show ?thesis
  proof (cases "now - t \<le> FEEDFORWARD_CANDIDATE_MAX_AGE_S \<and> (0 < e - b) = (0 < j)
      \<and> FEEDFORWARD_CONFIRM_RATIO * \<bar>j\<bar> \<le> \<bar>e - b\<bar>")
    case True
    then show ?thesis using assms Some cand
      by (cases "last_feedforward_monotonic s")
        (auto simp: check_feedforward_step_def Let_def last_fire_def split: if_splits)
  next
    case False
    then have "(s', fired) = arm_step c pe e now (s\<lparr>step_candidate := None\<rparr>)"
      using assms Some cand by (auto simp: check_feedforward_step_def Let_def)
    from arm_step_quiet [OF this [symmetric]] show ?thesis by simp
  qed
qed

lemma last_fire_short: "last_fire s = [] \<or> (\<exists>x. last_fire s = [x])"
  by (auto simp: last_fire_def split: option.splits)

text \<open>
  Over any run of cycles, consecutive fires of the feedforward (and the last one
  before the run) are at least the cooldown apart, and at least the pulse guard apart
  when they point in opposite directions.
\<close>

theorem feedforward_fires_spaced:
  "successively ff_spaced (last_fire s @ ff_fires c s xs)"
proof (induction xs arbitrary: s)
  case Nil
  then show ?case using last_fire_short [of s] by auto
next
  case (Cons x xs)
  obtain pe e now where x: "x = (pe, e, now)" by (cases x) auto
  obtain s' fired where step: "check_feedforward_step c pe e now s = (s', fired)" by fastforce
  note fires = check_feedforward_step_fires [OF step]
  show ?case
  proof (cases fired)
    case True
    with fires Cons.IH [of s'] last_fire_short [of s] show ?thesis
      by (auto simp: x step)
  next
    case False
    with fires Cons.IH [of s'] show ?thesis by (simp add: x step)
  qed
qed

text \<open>The error the first execution stores, with its sign reversed.\<close>

definition initial_previous_error :: "rat \<Rightarrow> rat \<Rightarrow> rat" where
  "initial_previous_error sensor_actual active_target = - (sensor_actual - active_target)"

text \<open>
  C16. Because the first execution stores the error with the opposite sign, a constant
  error of more than half the arming threshold looks like a step of twice its size: the
  next two cycles arm and confirm it and the feedforward fires without any load step.
\<close>

theorem constant_error_after_start_fires:
  assumes "max (5 * deadband c) FEEDFORWARD_STEP_FLOOR_W < 2 * \<bar>g - t\<bar>"
    and "step_candidate s = None" and "last_feedforward_monotonic s = None"
    and "t2 - t1 \<le> FEEDFORWARD_CANDIDATE_MAX_AGE_S"
  shows "ff_fires c s [(initial_previous_error g t, g - t, t1), (g - t, g - t, t2)] = [(t2, sign_of (g - t))]"
  using assms by (auto simp: initial_previous_error_def check_feedforward_step_def arm_step_def Let_def
      feedforward_consts sign_of_def)

lemma constant_error_after_start_fires_witness:
  "ff_fires (default_pd 2500 2500) \<lparr>step_candidate = None, last_feedforward_monotonic = None, last_feedforward_sign = 0\<rparr>
     [(initial_previous_error 250 0, 250 - 0, 10), (250 - 0, 250 - 0, 11)] = [(11, sign_of (250 - 0))]"
  by (rule constant_error_after_start_fires)
    (simp_all add: default_pd_def feedforward_consts)

section \<open>The clamped command\<close>

text \<open>
  The command that leaves the end of the cycle lies within the capacities of the
  available batteries, is 0 for a restricted operation, never exceeds the requested
  command nor changes its direction, and a charge keeps the projected grid import
  within the contracted power.
\<close>

theorem limit_command_safe:
  assumes "0 \<le> tc" and "0 \<le> td"
  shows "(let r = limit_command restricted tc td contracted g prev p in
     - td \<le> r \<and> r \<le> tc \<and> (restricted \<longrightarrow> r = 0)
     \<and> min p 0 \<le> r \<and> r \<le> max p 0
     \<and> (0 < contracted \<and> 0 < r \<longrightarrow> g + (r - prev) \<le> contracted))"
  using assms by (auto simp: limit_command_def clamp_to_available_def icp_clamp_def Let_def)

lemma limit_command_safe_witness:
  "limit_command False 2500 2500 4600 4000 500 1800 = 1100
   \<and> (let r = limit_command False 2500 2500 4600 4000 500 1800 in 4000 + (r - 500) \<le> 4600)"
  using limit_command_safe [of 2500 2500 False 4600 4000 500 1800]
  by (simp add: limit_command_def clamp_to_available_def icp_clamp_def Let_def)

end
