(* ===== verification/Fleet.thy ===== *)
theory Fleet
  imports Energy
begin

text \<open>
  The fleet as the guards, the charge order and the distribution see it: one record
  per coordinator with its last telemetry, and the controller's own fields. Readings
  are finite numbers; a key can be missing or hold \<open>None\<close>, and \<open>coordinator.data\<close>
  itself can be \<open>None\<close> or empty, which Python treats alike. The value that
  \<open>_battery_power_limit\<close> returns (modelled in \<open>Power_Limits\<close>) is a field here.
\<close>

type_synonym telemetry = "(string, rat option) dict option"

definition reading :: "telemetry \<Rightarrow> string \<Rightarrow> rat option" where
  "reading d key = (case d of None \<Rightarrow> None | Some kv \<Rightarrow> dict_get None kv key)"

definition has_data :: "telemetry \<Rightarrow> bool" where
  "has_data d = (case d of None \<Rightarrow> False | Some kv \<Rightarrow> kv \<noteq> [])"

text \<open>The same dictionary, as \<open>effective_total_discharging_energy\<close> reads it.\<close>

definition as_data :: "telemetry \<Rightarrow> data option" where
  "as_data d = map_option (map (\<lambda>(k, v). (k, case v of None \<Rightarrow> VNone | Some q \<Rightarrow> VFloat (Fin q)))) d"

record battery =
  name :: string
  is_available :: bool
  telemetry :: telemetry
  mppt_pv_connected :: bool
  dc_coupled :: bool
  battery_capacity_kwh :: rat
  max_soc :: rat
  charge_limit :: int
  discharge_limit :: int
  manual_owned :: bool

record fleet =
  coordinators :: "bat list"
  info :: "bat \<Rightarrow> battery"
  active_charge_batteries :: "bat list"
  active_discharge_batteries :: "bat list"

definition power_limit :: "fleet \<Rightarrow> bat \<Rightarrow> bool \<Rightarrow> int" where
  "power_limit fl b is_charging =
     (if is_charging then charge_limit (info fl b) else discharge_limit (info fl b))"

definition automatic_batteries :: "fleet \<Rightarrow> bat list" where
  "automatic_batteries fl = filter (\<lambda>b. \<not> manual_owned (info fl b)) (coordinators fl)"

text \<open>
  \<open>_coordinator_delivered_power\<close>: measured delivery of one battery, positive when charging.
\<close>

definition coordinator_delivered_power :: "battery \<Rightarrow> rat option" where
  "coordinator_delivered_power b =
     (if \<not> has_data (telemetry b) then None
      else (case reading (telemetry b) ''ac_power'' of
        Some ac \<Rightarrow> Some (- ac)
      | None \<Rightarrow> reading (telemetry b) ''battery_power''))"

text \<open>
  The discharge ladder's key: fullest first, with an edge of 5 points and 2.5 kWh for
  a battery already discharging.
\<close>

definition discharge_order_key :: "fleet \<Rightarrow> bat \<Rightarrow> rat \<times> rat" where
  "discharge_order_key fl b =
     (let d = telemetry (info fl b);
          soc = (case reading d ''battery_soc'' of None \<Rightarrow> 50 | Some s \<Rightarrow> s);
          act = (b \<in> set (active_discharge_batteries fl));
          effective_soc = soc + (if act then 5 else 0);
          energy = (case effective_total_discharging_energy (as_data d) of None \<Rightarrow> 0 | Some e \<Rightarrow> e)
      in (- effective_soc, energy - (if act then 5/2 else 0)))"

text \<open>\<open>battery_remaining_kwh\<close>: a rating of 0 falls back to the reported total energy, and a
  \<open>max_soc\<close> of 0 reads as 100.\<close>

definition battery_remaining_kwh :: "battery \<Rightarrow> rat option" where
  "battery_remaining_kwh b =
     (let capacity = (if battery_capacity_kwh b \<le> 0 \<and> has_data (telemetry b)
                      then (case reading (telemetry b) ''battery_total_energy'' of None \<Rightarrow> 0 | Some e \<Rightarrow> e)
                      else battery_capacity_kwh b)
      in if capacity = 0 then None
         else (case reading (telemetry b) ''battery_soc'' of
           None \<Rightarrow> None
         | Some soc \<Rightarrow>
             (let ceiling = (if max_soc b = 0 then 100 else max_soc b)
              in Some (max 0 (capacity * (ceiling - soc) / 100)))))"

lemma battery_remaining_kwh_nonneg: "battery_remaining_kwh b = Some r \<Longrightarrow> 0 \<le> r"
  by (auto simp: battery_remaining_kwh_def Let_def split: if_splits option.splits)

definition time_to_full_h :: "fleet \<Rightarrow> bat \<Rightarrow> rat" where
  "time_to_full_h fl b = (case battery_remaining_kwh (info fl b) of
     None \<Rightarrow> 0
   | Some remaining \<Rightarrow>
       (let limit = power_limit fl b True in
        if limit \<le> 0 then 0 else remaining / (of_int limit / 1000)))"

lemma time_to_full_h_nonneg: "0 \<le> time_to_full_h fl b"
  by (auto simp: time_to_full_h_def Let_def dest: battery_remaining_kwh_nonneg split: option.splits)

text \<open>Two batteries for the concrete inputs of the component theories.\<close>

definition example_battery :: "string \<Rightarrow> rat \<Rightarrow> int \<Rightarrow> rat \<Rightarrow> bool \<Rightarrow> battery" where
  "example_battery nm soc limit ac dc =
     \<lparr>name = nm, is_available = True,
      telemetry = Some [(''battery_soc'', Some soc), (''ac_power'', Some ac)],
      mppt_pv_connected = False, dc_coupled = dc, battery_capacity_kwh = 5, max_soc = 100,
      charge_limit = limit, discharge_limit = limit, manual_owned = False\<rparr>"

definition example_fleet :: fleet where
  "example_fleet = \<lparr>coordinators = [0, 1],
     info = (\<lambda>b. if b = 0 then example_battery ''Venus'' 60 2500 300 False
                  else example_battery ''Hybrid'' 40 5000 0 True),
     active_charge_batteries = [], active_discharge_batteries = []\<rparr>"

end
