(* ===== verification/Residual_Load.thy ===== *)
theory Residual_Load
  imports Fleet
begin

text \<open>
  \<open>control/residual_load.py\<close>: the load the batteries have to cover, reconstructed from the
  meter and every battery's own contribution, and the three guards that ride on it.
  The pipeline of the guards is a chain of stages that settle; the locales below hold
  the contract of a stage and of a chain.
\<close>

section \<open>The reconstruction\<close>

definition battery_ac_power_w :: "battery \<Rightarrow> rat option" where
  "battery_ac_power_w b =
     (if \<not> is_available b \<or> \<not> has_data (telemetry b) then None
      else (case reading (telemetry b) ''ac_delivered_power'' of
        Some delivered \<Rightarrow> Some (- delivered)
      | None \<Rightarrow> (case reading (telemetry b) ''ac_power'' of
          Some ac \<Rightarrow> Some ac
        | None \<Rightarrow> (case reading (telemetry b) ''battery_power'' of
            None \<Rightarrow> None
          | Some bp \<Rightarrow> if mppt_pv_connected b then None else Some (- bp)))))"

fun add_contributions :: "fleet \<Rightarrow> bat list \<Rightarrow> rat \<Rightarrow> rat option" where
  "add_contributions fl [] acc = Some acc"
| "add_contributions fl (b # bs) acc = (case battery_ac_power_w (info fl b) of
     None \<Rightarrow> None
   | Some contribution \<Rightarrow> add_contributions fl bs (acc + contribution))"

definition uncovered_load_w :: "fleet \<Rightarrow> rat option \<Rightarrow> rat option" where
  "uncovered_load_w fl grid_w = (case grid_w of
     None \<Rightarrow> None
   | Some g \<Rightarrow> if coordinators fl = [] then None else add_contributions fl (coordinators fl) g)"

record guard_ctx =
  gfleet :: fleet
  active_target_w :: rat
  guard_deadband :: rat
  primary_battery :: string
  primary_feedforward_enabled :: bool

definition residual_demand_w :: "guard_ctx \<Rightarrow> rat option \<Rightarrow> rat option" where
  "residual_demand_w x grid_w = (case uncovered_load_w (gfleet x) grid_w of
     None \<Rightarrow> None | Some u \<Rightarrow> Some (u - active_target_w x))"

section \<open>The primary battery and the feedforward\<close>

definition primary_coordinator :: "guard_ctx \<Rightarrow> bat option" where
  "primary_coordinator x =
     (let nm = py_strip (primary_battery x);
          batteries = automatic_batteries (gfleet x);
          named = (if nm = '''' then None else find (\<lambda>b. name (info (gfleet x) b) = nm) batteries)
      in case named of
           Some b \<Rightarrow> Some b
         | None \<Rightarrow>
             (let able = filter (\<lambda>b. 0 < power_limit (gfleet x) b False) batteries
              in if able = [] then None else Some (arg_min_list (discharge_order_key (gfleet x)) able)))"

definition feedforward_candidate_w :: "guard_ctx \<Rightarrow> rat option \<Rightarrow> rat" where
  "feedforward_candidate_w x grid_w = (case residual_demand_w x grid_w of
     None \<Rightarrow> 0
   | Some demand \<Rightarrow>
      if 0 < demand then (case primary_coordinator x of
          None \<Rightarrow> 0
        | Some primary \<Rightarrow>
            (let limit = power_limit (gfleet x) primary False in
             if limit \<le> 0 then 0 else - min demand (of_int limit)))
      else if demand < 0 then
        (let room = sum_list (map (\<lambda>b. power_limit (gfleet x) b True) (automatic_batteries (gfleet x)))
         in if room \<le> 0 then 0 else min (- demand) (of_int room))
      else 0)"

definition feedforward_w :: "guard_ctx \<Rightarrow> rat option \<Rightarrow> rat" where
  "feedforward_w x grid_w =
     (if primary_feedforward_enabled x then feedforward_candidate_w x grid_w else 0)"

definition apply_feedforward :: "guard_ctx \<Rightarrow> rat \<Rightarrow> rat option \<Rightarrow> rat" where
  "apply_feedforward x new_power grid_w =
     (let ffl = feedforward_w x grid_w in
      if ffl < 0 \<and> ffl < new_power then ffl
      else if 0 < ffl \<and> new_power < ffl then ffl
      else new_power)"

section \<open>The surplus guard and the discharge ceiling\<close>

definition SURPLUS_GUARD_HYSTERESIS_W :: rat where "SURPLUS_GUARD_HYSTERESIS_W = 100"
definition GUARD_PENDING_TOLERANCE_W :: rat where "GUARD_PENDING_TOLERANCE_W = 100"

definition surplus_blocks_discharge :: "guard_ctx \<Rightarrow> rat option \<Rightarrow> bool \<Rightarrow> bool" where
  "surplus_blocks_discharge x grid_w latched = (case residual_demand_w x grid_w of
     None \<Rightarrow> latched
   | Some demand \<Rightarrow>
      (let band = max (guard_deadband x) SURPLUS_GUARD_HYSTERESIS_W in
       if latched then \<not> 0 < demand else demand < - band))"

text \<open>Returns the command and the new latch.\<close>

definition apply_surplus_guard :: "guard_ctx \<Rightarrow> rat \<Rightarrow> rat option \<Rightarrow> bool \<Rightarrow> rat \<times> bool" where
  "apply_surplus_guard x new_power grid_w latched =
     (let blocked = surplus_blocks_discharge x grid_w latched in
      (if 0 \<le> new_power \<or> \<not> blocked then new_power else 0, blocked))"

definition apply_discharge_ceiling :: "guard_ctx \<Rightarrow> rat \<Rightarrow> rat option \<Rightarrow> rat" where
  "apply_discharge_ceiling x new_power grid_w =
     (if 0 \<le> new_power then new_power
      else (case residual_demand_w x grid_w of
        None \<Rightarrow> new_power
      | Some demand \<Rightarrow>
         if demand \<le> 0 then new_power
         else if - new_power \<le> demand + guard_deadband x then new_power
         else - demand))"

definition apply_guards :: "guard_ctx \<Rightarrow> rat \<Rightarrow> rat option \<Rightarrow> bool \<Rightarrow> rat \<times> bool" where
  "apply_guards x new_power grid_w latched =
     (let p1 = apply_feedforward x new_power grid_w;
          (p2, latched') = apply_surplus_guard x p1 grid_w latched
      in (apply_discharge_ceiling x p2 grid_w, latched'))"

definition guards_pending :: "guard_ctx \<Rightarrow> rat \<Rightarrow> rat option \<Rightarrow> bool \<Rightarrow> bool" where
  "guards_pending x standing grid_w latched =
     (GUARD_PENDING_TOLERANCE_W < \<bar>fst (apply_guards x standing grid_w latched) - standing\<bar>)"

section \<open>Stages that settle\<close>

text \<open>
  A stage of the pipeline settles when applying it to its own result changes nothing.
  A chain of two settles when the second stage never undoes what the first one asked.
\<close>

locale settling =
  fixes stage :: "'p \<Rightarrow> 'p"
  assumes settles: "stage (stage p) = stage p"
begin

lemma settles_pow: "0 < n \<Longrightarrow> (stage ^^ n) p = stage p"
proof (induction n)
  case 0
  then show ?case by simp
next
  case (Suc n)
  then show ?case by (cases n) (auto simp: settles)
qed

end

locale settling_chain = first: settling first_stage + second: settling second_stage
  for first_stage :: "'p \<Rightarrow> 'p" and second_stage :: "'p \<Rightarrow> 'p" +
  assumes keeps: "first_stage (second_stage (first_stage p)) = second_stage (first_stage p)"

sublocale settling_chain \<subseteq> chain: settling "\<lambda>p. second_stage (first_stage p)"
  by unfold_locales (simp add: keeps second.settles)

definition surplus_stage :: "guard_ctx \<Rightarrow> rat option \<Rightarrow> bool \<Rightarrow> rat \<Rightarrow> rat" where
  "surplus_stage x grid_w latched p = fst (apply_surplus_guard x p grid_w latched)"

lemma feedforward_w_bounds:
  "residual_demand_w x grid_w = None \<Longrightarrow> feedforward_w x grid_w = 0"
  "residual_demand_w x grid_w = Some d \<Longrightarrow> 0 \<le> d \<Longrightarrow> - d \<le> feedforward_w x grid_w \<and> feedforward_w x grid_w \<le> 0"
  "residual_demand_w x grid_w = Some d \<Longrightarrow> d \<le> 0 \<Longrightarrow> 0 \<le> feedforward_w x grid_w \<and> feedforward_w x grid_w \<le> - d"
  by (auto simp: feedforward_w_def feedforward_candidate_w_def Let_def split: option.splits)

lemma surplus_blocks_demand:
  "residual_demand_w x grid_w = Some d \<Longrightarrow> 0 < d \<Longrightarrow> \<not> surplus_blocks_discharge x grid_w latched"
  by (auto simp: surplus_blocks_discharge_def SURPLUS_GUARD_HYSTERESIS_W_def Let_def)

lemma surplus_blocks_stable:
  "surplus_blocks_discharge x grid_w (surplus_blocks_discharge x grid_w latched)
   = surplus_blocks_discharge x grid_w latched"
  by (cases "residual_demand_w x grid_w")
    (auto simp: surplus_blocks_discharge_def SURPLUS_GUARD_HYSTERESIS_W_def Let_def)

interpretation guarded: settling_chain "\<lambda>p. apply_feedforward x p grid_w" "surplus_stage x grid_w latched"
  for x grid_w latched
proof unfold_locales
  fix p
  show "apply_feedforward x (apply_feedforward x p grid_w) grid_w = apply_feedforward x p grid_w"
    by (auto simp: apply_feedforward_def Let_def)
  show "surplus_stage x grid_w latched (surplus_stage x grid_w latched p) = surplus_stage x grid_w latched p"
    by (auto simp: surplus_stage_def apply_surplus_guard_def Let_def)
  show "apply_feedforward x (surplus_stage x grid_w latched (apply_feedforward x p grid_w)) grid_w
    = surplus_stage x grid_w latched (apply_feedforward x p grid_w)"
  proof (cases "residual_demand_w x grid_w")
    case None
    then show ?thesis by (simp add: apply_feedforward_def feedforward_w_bounds)
  next
    case (Some d)
    show ?thesis
    proof (cases "0 < d")
      case True
      then show ?thesis using Some surplus_blocks_demand [OF Some]
        by (auto simp: surplus_stage_def apply_surplus_guard_def apply_feedforward_def Let_def)
    next
      case False
      then have "0 \<le> feedforward_w x grid_w" using feedforward_w_bounds(3) [OF Some] by simp
      then show ?thesis
        by (auto simp: surplus_stage_def apply_surplus_guard_def apply_feedforward_def Let_def)
    qed
  qed
qed

interpretation capped: settling_chain
  "\<lambda>p. surplus_stage x grid_w latched (apply_feedforward x p grid_w)"
  "\<lambda>p. apply_discharge_ceiling x p grid_w"
  for x grid_w latched
proof unfold_locales
  fix p
  show "apply_discharge_ceiling x (apply_discharge_ceiling x p grid_w) grid_w
    = apply_discharge_ceiling x p grid_w"
    by (auto simp: apply_discharge_ceiling_def split: option.splits if_splits)
  let ?q = "surplus_stage x grid_w latched (apply_feedforward x p grid_w)"
  show "surplus_stage x grid_w latched
      (apply_feedforward x (apply_discharge_ceiling x ?q grid_w) grid_w)
    = apply_discharge_ceiling x ?q grid_w"
  proof (cases "\<exists>d. residual_demand_w x grid_w = Some d \<and> 0 < d")
    case True
    then obtain d where d: "residual_demand_w x grid_w = Some d" "0 < d" by blast
    have id: "surplus_stage x grid_w latched r = r" for r
      using surplus_blocks_demand [OF d] by (simp add: surplus_stage_def apply_surplus_guard_def)
    have "- d \<le> feedforward_w x grid_w \<and> feedforward_w x grid_w \<le> 0"
      using feedforward_w_bounds(2) [OF d(1)] d(2) by simp
    then show ?thesis unfolding id using d
      by (auto simp: apply_discharge_ceiling_def apply_feedforward_def Let_def)
  next
    case False
    then have "apply_discharge_ceiling x r grid_w = r" for r
      by (auto simp: apply_discharge_ceiling_def split: option.splits)
    then show ?thesis using guarded.chain.settles by simp
  qed
qed

lemma apply_guards_stages:
  "apply_guards x p grid_w latched =
     (apply_discharge_ceiling x (surplus_stage x grid_w latched (apply_feedforward x p grid_w)) grid_w,
      surplus_blocks_discharge x grid_w latched)"
  by (simp add: apply_guards_def surplus_stage_def apply_surplus_guard_def Let_def)

lemma add_contributions_sum:
  "(\<forall>b\<in>set bs. battery_ac_power_w (info fl b) = Some (ac b)) \<Longrightarrow>
     add_contributions fl bs acc = Some (acc + sum_list (map ac bs))"
  by (induction bs arbitrary: acc) (auto simp: add.assoc)

lemma residual_demand_true_meter:
  assumes "coordinators (gfleet x) \<noteq> []"
    and "\<forall>b\<in>set (coordinators (gfleet x)). battery_ac_power_w (info (gfleet x) b) = Some (ac b)"
  shows "residual_demand_w x (Some (house - sum_list (map ac (coordinators (gfleet x)))))
    = Some (house - active_target_w x)"
  using assms add_contributions_sum [OF assms(2)]
  by (simp add: residual_demand_w_def uncovered_load_w_def)

section \<open>Properties\<close>

text \<open>
  C18. The guard pipeline settles: run again over the command it produced, with the same
  meter and the latch it left, it changes neither the command nor the latch, so
  \<open>guards_pending\<close> never asks twice for the same correction.
\<close>

theorem guards_settle:
  "(case apply_guards x p grid_w latched of (r, latched') \<Rightarrow>
     apply_guards x r grid_w latched' = (r, latched') \<and> \<not> guards_pending x r grid_w latched')"
  using capped.chain.settles [of x grid_w latched p]
  by (simp add: guards_pending_def apply_guards_stages surplus_blocks_stable surplus_stage_def
      apply_surplus_guard_def GUARD_PENDING_TOLERANCE_W_def Let_def)

text \<open>
  C19. When every battery is readable and the meter reads the house load less what the
  batteries deliver, a discharge that leaves the guards covers at most the load above the
  active target plus the deadband, where there is such a load. Where there is none it can only
  be the command that came in, unchanged and of any size, with the latch open and the surplus no
  larger than the band (the deadband or 100 W): see \<open>band_passes_discharge\<close>.
\<close>

theorem guards_discharge_within_house:
  assumes "coordinators (gfleet x) \<noteq> []"
    and "\<forall>b\<in>set (coordinators (gfleet x)). battery_ac_power_w (info (gfleet x) b) = Some (ac b)"
    and "0 \<le> guard_deadband x"
    and "grid = house - sum_list (map ac (coordinators (gfleet x)))"
    and "apply_guards x p (Some grid) latched = (r, latched')"
    and "r < 0"
  shows "(0 < house - active_target_w x \<and> - r \<le> house - active_target_w x + guard_deadband x)
    \<or> (- max (guard_deadband x) SURPLUS_GUARD_HYSTERESIS_W \<le> house - active_target_w x
        \<and> house - active_target_w x \<le> 0 \<and> \<not> latched \<and> r = p)"
proof -
  let ?d = "house - active_target_w x"
  have d: "residual_demand_w x (Some grid) = Some ?d"
    unfolding assms(4) by (rule residual_demand_true_meter [OF assms(1,2)])
  have r: "r = apply_discharge_ceiling x (surplus_stage x (Some grid) latched
      (apply_feedforward x p (Some grid))) (Some grid)"
    using assms(5) by (simp add: apply_guards_stages)
  show ?thesis
  proof (cases "0 < ?d")
    case True
    then show ?thesis using assms(3,6) d unfolding r
      by (auto simp: apply_discharge_ceiling_def split: if_splits)
  next
    case False
    then have "r = surplus_stage x (Some grid) latched (apply_feedforward x p (Some grid))"
      using d by (auto simp: r apply_discharge_ceiling_def)
    moreover from False have "0 \<le> feedforward_w x (Some grid)"
      using feedforward_w_bounds(3) [OF d] by simp
    ultimately show ?thesis using False assms(6) d
      by (auto simp: surplus_stage_def apply_surplus_guard_def surplus_blocks_discharge_def
          apply_feedforward_def Let_def split: if_splits)
  qed
qed

definition example_guard_ctx :: guard_ctx where
  "example_guard_ctx = \<lparr>gfleet = example_fleet, active_target_w = 0, guard_deadband = 40,
     primary_battery = ''Venus'', primary_feedforward_enabled = True\<rparr>"

lemma guards_discharge_within_house_witness:
  "apply_guards example_guard_ctx (- 912) (Some (500 - 300)) False = (- 500, False)
   \<and> (0 < 500 - active_target_w example_guard_ctx
        \<and> - (- 500) \<le> 500 - active_target_w example_guard_ctx + guard_deadband example_guard_ctx
      \<or> - max (guard_deadband example_guard_ctx) SURPLUS_GUARD_HYSTERESIS_W \<le> 500 - active_target_w example_guard_ctx
        \<and> 500 - active_target_w example_guard_ctx \<le> 0 \<and> \<not> False \<and> - 500 = - (912::rat))"
proof
  show run: "apply_guards example_guard_ctx (- 912) (Some (500 - 300)) False = (- 500, False)"
    by code_simp
  show "0 < 500 - active_target_w example_guard_ctx
        \<and> - (- 500) \<le> 500 - active_target_w example_guard_ctx + guard_deadband example_guard_ctx
      \<or> - max (guard_deadband example_guard_ctx) SURPLUS_GUARD_HYSTERESIS_W \<le> 500 - active_target_w example_guard_ctx
        \<and> 500 - active_target_w example_guard_ctx \<le> 0 \<and> \<not> False \<and> - 500 = - (912::rat)"
    by (rule guards_discharge_within_house [where ac = "\<lambda>b. if b = 0 then 300 else 0", OF _ _ _ _ run]) code_simp+
qed

text \<open>
  In the band neither the guard nor the ceiling acts: with a surplus of 50 W, a discharge of
  912 W passes when the latch is open and the feedforward off.
\<close>

lemma band_passes_discharge:
  "apply_guards (example_guard_ctx\<lparr>primary_feedforward_enabled := False\<rparr>) (- 912) (Some (- 50 - 300)) False = (- 912, False)
   \<and> residual_demand_w (example_guard_ctx\<lparr>primary_feedforward_enabled := False\<rparr>) (Some (- 50 - 300)) = Some (- 50)"
  by code_simp

text \<open>
  With the feedforward on and a readable demand, the command that leaves the guards
  serves it: a positive demand is discharged up to the rating of the primary battery,
  and a surplus is absorbed up to the room of the automatic batteries.
\<close>

theorem guards_serve_demand:
  assumes "primary_feedforward_enabled x" and "residual_demand_w x g = Some d"
    and "apply_guards x p g latched = (r, latched')"
    and "0 < d \<Longrightarrow> primary_coordinator x = Some b \<and> 0 < power_limit (gfleet x) b False"
    and "0 < room" and "room = sum_list (map (\<lambda>b. power_limit (gfleet x) b True) (automatic_batteries (gfleet x)))"
  shows "if 0 < d then r \<le> - min d (of_int (power_limit (gfleet x) b False))
    else min (- d) (of_int room) \<le> r \<or> d = 0"
proof -
  let ?ff = "feedforward_w x g"
  have r: "r = apply_discharge_ceiling x (surplus_stage x g latched (apply_feedforward x p g)) g"
    using assms(3) by (simp add: apply_guards_stages)
  consider "0 < d" | "d < 0" | "d = 0" by linarith
  then show ?thesis
  proof cases
    case 1
    then have "?ff = - min d (of_int (power_limit (gfleet x) b False))"
      using assms(1,2,4) by (simp add: feedforward_w_def feedforward_candidate_w_def)
    moreover have "surplus_stage x g latched q = q" for q
      using surplus_blocks_demand [OF assms(2) 1] by (simp add: surplus_stage_def apply_surplus_guard_def)
    ultimately show ?thesis using 1 assms(2,4) unfolding r
      by (auto simp: apply_feedforward_def apply_discharge_ceiling_def Let_def min_def)
  next
    case 2
    then have "?ff = min (- d) (of_int room)"
      using assms(1,2,5,6) by (simp add: feedforward_w_def feedforward_candidate_w_def)
    then show ?thesis using 2 assms(5) unfolding r
      by (auto simp: apply_feedforward_def apply_discharge_ceiling_def surplus_stage_def
          apply_surplus_guard_def Let_def)
  next
    case 3
    then show ?thesis by simp
  qed
qed

lemma guards_serve_demand_witness:
  "apply_guards example_guard_ctx 0 (Some 200) False = (- 500, False)
   \<and> (if (0::rat) < 500 then (- 500 :: rat) \<le> - min 500 (of_int (power_limit (gfleet example_guard_ctx) 0 False))
      else min (- 500) (of_int (7500 :: int)) \<le> (- 500 :: rat) \<or> (500 :: rat) = 0)"
proof
  show run: "apply_guards example_guard_ctx 0 (Some 200) False = (- 500, False)" by code_simp
  show "if (0::rat) < 500 then (- 500 :: rat) \<le> - min 500 (of_int (power_limit (gfleet example_guard_ctx) 0 False))
      else min (- 500) (of_int (7500 :: int)) \<le> (- 500 :: rat) \<or> (500 :: rat) = 0"
    by (rule guards_serve_demand [OF _ _ run]) code_simp+
qed

end
