(* ===== verification/Charge_Order.thy ===== *)
theory Charge_Order
  imports Fleet
begin

text \<open>
  \<open>control/charge_order.py\<close>: which battery is filled first, how a surplus is split, and
  the latched verdict on a day of scarce sun. The outlook, \<open>(surplus, dc_room)\<close> or \<open>None\<close>,
  comes from the forecast and the consumption tracker and is an input here.
\<close>

section \<open>Allocation weights\<close>

fun room_weights :: "fleet \<Rightarrow> bat list \<Rightarrow> (bat, rat) dict option" where
  "room_weights fl [] = Some []"
| "room_weights fl (b # bs) = (case battery_remaining_kwh (info fl b) of
     None \<Rightarrow> None
   | Some remaining \<Rightarrow> (case room_weights fl bs of
       None \<Rightarrow> None | Some ws \<Rightarrow> Some ((b, remaining * 1000) # ws)))"

definition charge_allocation_weights :: "fleet \<Rightarrow> bat list \<Rightarrow> (bat, rat) dict \<Rightarrow> (bat, rat) dict" where
  "charge_allocation_weights fl bs limits = (case room_weights fl bs of
     None \<Rightarrow> limits
   | Some weights \<Rightarrow> if sum_list (map snd weights) \<le> 0 then limits else weights)"

section \<open>Scarce sun\<close>

definition SCARCITY_HYSTERESIS_KWH :: rat where "SCARCITY_HYSTERESIS_KWH = 2"

definition scarce_solar_day :: "fleet \<Rightarrow> (rat \<times> rat) option \<Rightarrow> bool \<Rightarrow> bool" where
  "scarce_solar_day fl outlook scarce = (case outlook of
     None \<Rightarrow> if \<not> (\<exists>b\<in>set (coordinators fl). dc_coupled (info fl b)) then False else scarce
   | Some (surplus, dc_room) \<Rightarrow>
       if scarce then \<not> dc_room + SCARCITY_HYSTERESIS_KWH < surplus
       else surplus < dc_room - SCARCITY_HYSTERESIS_KWH)"

section \<open>The order\<close>

record order_ctx =
  ofleet :: fleet
  charge_priority :: string
  scarce :: bool

definition chosen :: "order_ctx \<Rightarrow> bat \<Rightarrow> nat" where
  "chosen x b = (if name (info (ofleet x) b) = py_strip (charge_priority x) then 0 else 1)"

definition head_start :: "order_ctx \<Rightarrow> bat \<Rightarrow> rat" where
  "head_start x b = (if b \<in> set (active_charge_batteries (ofleet x)) then 11/10 else 1)"

definition efficient :: "order_ctx \<Rightarrow> bat \<Rightarrow> nat" where
  "efficient x b = (if dc_coupled (info (ofleet x) b) then 0 else 1)"

definition claim :: "order_ctx \<Rightarrow> bat \<Rightarrow> rat" where
  "claim x b = (if scarce x
     then (case battery_remaining_kwh (info (ofleet x) b) of None \<Rightarrow> 0 | Some r \<Rightarrow> r) * head_start x b
     else time_to_full_h (ofleet x) b * head_start x b)"

definition charge_order :: "order_ctx \<Rightarrow> bat list \<Rightarrow> bat list" where
  "charge_order x bs =
     (if scarce x then sort_key (\<lambda>b. (chosen x b, efficient x b, - claim x b)) bs
      else sort_key (\<lambda>b. (chosen x b, - claim x b)) bs)"

section \<open>Lemmas\<close>

lemma charge_order_mset [simp]: "mset (charge_order x bs) = mset bs"
  by (simp add: charge_order_def)

lemma charge_order_set [simp]: "set (charge_order x bs) = set bs"
  by (metis charge_order_mset set_mset_mset)

lemma charge_order_length [simp]: "length (charge_order x bs) = length bs"
  by (metis charge_order_mset size_mset)

lemma room_weights_Some:
  "room_weights fl bs = Some ws \<Longrightarrow> map fst ws = bs
     \<and> (\<forall>b\<in>set bs. \<exists>r. battery_remaining_kwh (info fl b) = Some r \<and> 0 \<le> r)
     \<and> map snd ws = map (\<lambda>b. the (battery_remaining_kwh (info fl b)) * 1000) bs"
proof (induction bs arbitrary: ws)
  case Nil
  then show ?case by simp
next
  case (Cons b bs)
  then obtain r ws' where "battery_remaining_kwh (info fl b) = Some r" "room_weights fl bs = Some ws'"
    and "ws = (b, r * 1000) # ws'"
    by (auto split: option.splits)
  with Cons.IH [OF this(2)] show ?case by (auto dest: battery_remaining_kwh_nonneg)
qed

fun verdicts :: "fleet \<Rightarrow> bool \<Rightarrow> (rat \<times> rat) option list \<Rightarrow> bool list" where
  "verdicts fl v [] = [v]"
| "verdicts fl v (outlook # rest) = v # verdicts fl (scarce_solar_day fl outlook v) rest"

definition margin_in :: "rat \<Rightarrow> rat \<Rightarrow> (rat \<times> rat) option \<Rightarrow> bool" where
  "margin_in lo hi outlook = (case outlook of None \<Rightarrow> True | Some (s, r) \<Rightarrow> lo \<le> s - r \<and> s - r \<le> hi)"

lemma remdups_adj_verdicts_hd: "\<exists>ys. remdups_adj (verdicts fl v os) = v # ys"
  by (induction os arbitrary: v) (auto simp: remdups_adj_Cons split: list.splits)

lemma verdict_stays:
  assumes "\<exists>b\<in>set (coordinators fl). dc_coupled (info fl b)"
  shows "margin_in lo hi outlook \<Longrightarrow> - 2 \<le> lo \<Longrightarrow> \<not> scarce_solar_day fl outlook False"
    and "margin_in lo hi outlook \<Longrightarrow> hi \<le> 2 \<Longrightarrow> scarce_solar_day fl outlook True"
  using assms
  by (auto simp: scarce_solar_day_def margin_in_def SCARCITY_HYSTERESIS_KWH_def split: option.splits)

lemma verdicts_settled:
  assumes "\<exists>b\<in>set (coordinators fl). dc_coupled (info fl b)"
  shows "(\<forall>outlook\<in>set os. margin_in lo hi outlook) \<Longrightarrow> (if v then hi \<le> 2 else - 2 \<le> lo)
    \<Longrightarrow> remdups_adj (verdicts fl v os) = [v]"
proof (induction os)
  case Nil
  then show ?case by simp
next
  case (Cons outlook os)
  then have "scarce_solar_day fl outlook v = v"
    using verdict_stays [OF assms] by (cases v) auto
  with Cons show ?case by (cases os) auto
qed

section \<open>Properties\<close>

text \<open>
  The charge order is a permutation of the batteries in which the nominated one
  leads, on a scarce day the DC-coupled ones precede the others, and among equals the
  larger claim (room on a scarce day, hours to full otherwise, with the head start of a
  battery already charging) never comes after a smaller one.
\<close>

theorem charge_order_respects_claims:
  "mset (charge_order x bs) = mset bs
   \<and> sorted_wrt (\<lambda>a b. chosen x a \<le> chosen x b
        \<and> (chosen x a < chosen x b
           \<or> (if scarce x then efficient x a < efficient x b
                 \<or> efficient x a = efficient x b \<and> claim x b \<le> claim x a
              else claim x b \<le> claim x a)))
      (charge_order x bs)"
proof
  show "mset (charge_order x bs) = mset bs" by simp
  show "sorted_wrt (\<lambda>a b. chosen x a \<le> chosen x b
        \<and> (chosen x a < chosen x b
           \<or> (if scarce x then efficient x a < efficient x b
                 \<or> efficient x a = efficient x b \<and> claim x b \<le> claim x a
              else claim x b \<le> claim x a)))
      (charge_order x bs)"
  proof (cases "scarce x")
    case True
    have "sorted (map (\<lambda>b. (chosen x b, efficient x b, - claim x b)) (charge_order x bs))"
      by (simp add: charge_order_def True)
    then have "sorted_wrt (\<lambda>a b. (chosen x a, efficient x a, - claim x a) \<le> (chosen x b, efficient x b, - claim x b))
        (charge_order x bs)"
      by (simp only: sorted_map)
    then show ?thesis by (rule sorted_wrt_mono_rel [rotated]) (auto simp: True)
  next
    case False
    have "sorted (map (\<lambda>b. (chosen x b, - claim x b)) (charge_order x bs))"
      by (simp add: charge_order_def False)
    then have "sorted_wrt (\<lambda>a b. (chosen x a, - claim x a) \<le> (chosen x b, - claim x b)) (charge_order x bs)"
      by (simp only: sorted_map)
    then show ?thesis by (rule sorted_wrt_mono_rel [rotated]) (auto simp: False)
  qed
qed

text \<open>
  The verdict on scarce sun is latched: while the margin between the expected
  surplus and the DC room wanders inside any window of twice the hysteresis, the
  verdict changes at most once.
\<close>

theorem scarce_verdict_changes_once:
  assumes "\<exists>b\<in>set (coordinators fl). dc_coupled (info fl b)"
    and "\<forall>outlook\<in>set os. margin_in lo (lo + 2 * SCARCITY_HYSTERESIS_KWH) outlook"
  shows "length (remdups_adj (verdicts fl v os)) \<le> 2"
  using assms(2)
proof (induction os arbitrary: v)
  case Nil
  then show ?case by simp
next
  case (Cons outlook os)
  let ?v' = "scarce_solar_day fl outlook v"
  show ?case
  proof (cases "?v' = v")
    case True
    obtain ys where "remdups_adj (verdicts fl v os) = v # ys"
      using remdups_adj_verdicts_hd by blast
    moreover have "length (remdups_adj (verdicts fl v os)) \<le> 2" using Cons by simp
    ultimately show ?thesis by (simp add: True remdups_adj_Cons)
  next
    case False
    have margins: "margin_in lo (lo + 4) outlook" "\<forall>m\<in>set os. margin_in lo (lo + 4) m"
      using Cons.prems by (simp_all add: SCARCITY_HYSTERESIS_KWH_def)
    have "if ?v' then lo + 4 \<le> 2 else - 2 \<le> lo"
    proof -
      have "scarce_solar_day fl outlook True \<or> 2 < lo + 4"
        and "\<not> scarce_solar_day fl outlook False \<or> lo < - 2"
        using verdict_stays [OF assms(1) margins(1)] by linarith+
      then show ?thesis using False by (cases v) auto
    qed
    then have "remdups_adj (verdicts fl ?v' os) = [?v']"
      by (rule verdicts_settled [OF assms(1) margins(2)])
    then show ?thesis by (auto simp: remdups_adj_Cons)
  qed
qed

lemma scarce_verdict_changes_once_witness:
  "verdicts example_fleet False [Some (1, 2), Some (0, 5/2), None, Some (3, 2)] = [False, False, True, True, True]
   \<and> length (remdups_adj (verdicts example_fleet False [Some (1, 2), Some (0, 5/2), None, Some (3, 2)])) \<le> 2"
proof
  show "verdicts example_fleet False [Some (1, 2), Some (0, 5/2), None, Some (3, 2)] = [False, False, True, True, True]"
    by code_simp
  show "length (remdups_adj (verdicts example_fleet False [Some (1, 2), Some (0, 5/2), None, Some (3, 2)])) \<le> 2"
    by (rule scarce_verdict_changes_once [where lo = "- 5/2"]) code_simp+
qed

end
