(* ===== verification/Phase_Limiter.thy ===== *)
theory Phase_Limiter
  imports Fleet
begin

text \<open>
  \<open>control/phase_power_limit.py\<close>: the three-phase safety envelope. A phase's meter is
  normalised, the current without the batteries is reconstructed, and the plan of the
  distributor is scaled down to what each phase can carry; the overflow may move to
  healthy phases. One call sees one instant of the sensors, so the snapshots a call
  recomputes are those it starts with.
\<close>

section \<open>Reading a phase meter\<close>

datatype phase = L1 | L2 | L3

datatype reason = sensor_not_found | sensor_unavailable | sensor_not_numeric | sensor_invalid_unit
  | sensor_stale | disabled | not_configured | invalid_configuration

record sensor_state =
  raw_state :: pyval
  unit_of_measurement :: "string option"
  last_reported :: "rat option"

record phase_reading =
  value_a :: "rat option"
  reading_reason :: "reason option"
  age_s :: "rat option"

definition no_reading :: "reason \<Rightarrow> rat option \<Rightarrow> phase_reading" where
  "no_reading why age = \<lparr>value_a = None, reading_reason = Some why, age_s = age\<rparr>"

definition normalize_current_sensor_state ::
    "sensor_state option \<Rightarrow> bool \<Rightarrow> rat \<Rightarrow> rat \<Rightarrow> phase_reading" where
  "normalize_current_sensor_state st meter_inverted now max_age_s = (case st of
     None \<Rightarrow> no_reading sensor_not_found None
   | Some s \<Rightarrow>
      if raw_state s \<in> {VNone, VStr ''unknown'', VStr ''unavailable''}
      then no_reading sensor_unavailable None
      else (case finite_val (raw_state s) of
        None \<Rightarrow> no_reading sensor_not_numeric None
      | Some v0 \<Rightarrow>
         if unit_of_measurement s \<noteq> Some ''mA'' \<and> unit_of_measurement s \<noteq> Some ''A''
         then no_reading sensor_invalid_unit None
         else (let v = (if unit_of_measurement s = Some ''mA'' then v0 / 1000 else v0);
                   age = map_option (\<lambda>t. max 0 (now - t)) (last_reported s)
               in if (case age of None \<Rightarrow> False | Some a \<Rightarrow> max_age_s < a)
                  then no_reading sensor_stale age
                  else \<lparr>value_a = Some (if meter_inverted then - v else v), reading_reason = None,
                        age_s = age\<rparr>)))"

section \<open>Budgets\<close>

definition PHASE_NOMINAL_VOLTAGE_V :: rat where "PHASE_NOMINAL_VOLTAGE_V = 230"
definition PHASE_BATTERY_POWER_FACTOR :: rat where "PHASE_BATTERY_POWER_FACTOR = 9/10"
definition ROUNDING_W :: int where "ROUNDING_W = 5"

lemmas phase_consts = PHASE_NOMINAL_VOLTAGE_V_def PHASE_BATTERY_POWER_FACTOR_def ROUNDING_W_def

record budgets =
  base_a :: rat
  charge_budget_a :: rat
  discharge_budget_a :: rat

definition calculate_phase_budgets :: "rat \<Rightarrow> rat \<Rightarrow> rat \<Rightarrow> budgets" where
  "calculate_phase_budgets grid_a battery_current_a limit_a =
     (let base = grid_a - battery_current_a;
          limit = max 0 limit_a;
          battery_min_a = max (- limit) (- limit - base);
          battery_max_a = min limit (limit - base)
      in \<lparr>base_a = base, charge_budget_a = max 0 battery_max_a,
          discharge_budget_a = max 0 (- battery_min_a)\<rparr>)"

definition battery_current_from_power :: "rat \<Rightarrow> rat" where
  "battery_current_from_power watts =
     (let watts_per_amp = PHASE_NOMINAL_VOLTAGE_V * PHASE_BATTERY_POWER_FACTOR
      in if watts_per_amp \<le> 0 then 0 else watts / watts_per_amp)"

definition current_budget_to_power :: "rat \<Rightarrow> rat" where
  "current_budget_to_power budget_a =
     max 0 budget_a * PHASE_NOMINAL_VOLTAGE_V * PHASE_BATTERY_POWER_FACTOR"

definition round_down :: "rat \<Rightarrow> int" where
  "round_down v = (if v \<le> 0 then 0 else \<lfloor>(v + 1 / 1000000000) / of_int ROUNDING_W\<rfloor> * ROUNDING_W)"

section \<open>Snapshots\<close>

record snapshot =
  degraded :: bool
  snap_reason :: "reason option"
  charge_budget_w :: int
  discharge_budget_w :: int
  hold_discharge_w :: int

definition blank_snapshot :: snapshot where
  "blank_snapshot = \<lparr>degraded = False, snap_reason = None, charge_budget_w = 0,
     discharge_budget_w = 0, hold_discharge_w = 0\<rparr>"

text \<open>
  \<open>phase_snapshot\<close> of one phase: its sensor and fuse limit, the normalised reading, the
  measured battery power on the phase and the discharge held for it so far. The second
  component is the new held discharge.
\<close>

definition phase_snapshot ::
    "bool \<Rightarrow> bool \<Rightarrow> rat \<Rightarrow> phase_reading \<Rightarrow> rat \<Rightarrow> int option \<Rightarrow> snapshot \<times> int option" where
  "phase_snapshot enabled has_sensor limit r battery_power held =
     (if \<not> enabled then (blank_snapshot\<lparr>snap_reason := Some disabled\<rparr>, held)
      else if \<not> has_sensor \<and> limit \<le> 0 then (blank_snapshot\<lparr>snap_reason := Some not_configured\<rparr>, held)
      else if \<not> has_sensor \<or> limit \<le> 0
      then (blank_snapshot\<lparr>degraded := True, snap_reason := Some invalid_configuration\<rparr>, held)
      else (case value_a r of
        None \<Rightarrow> (blank_snapshot\<lparr>degraded := True, snap_reason := reading_reason r,
                  hold_discharge_w := (case held of None \<Rightarrow> 0 | Some h \<Rightarrow> h)\<rparr>, held)
      | Some v \<Rightarrow>
         (let b = calculate_phase_budgets v (battery_current_from_power battery_power) limit;
              cw = round_down (current_budget_to_power (charge_budget_a b));
              dw = round_down (current_budget_to_power (discharge_budget_a b))
          in (blank_snapshot\<lparr>charge_budget_w := cw, discharge_budget_w := dw\<rparr>,
              Some (round_down (min (max 0 (- battery_power)) (of_int dw)))))))"

definition phase_battery_power :: "(battery \<Rightarrow> phase option) \<Rightarrow> phase \<Rightarrow> battery list \<Rightarrow> rat" where
  "phase_battery_power battery_phase ph bs =
     sum_list (map (\<lambda>b. case coordinator_delivered_power b of None \<Rightarrow> 0 | Some p \<Rightarrow> p)
       (filter (\<lambda>b. battery_phase b = Some ph) bs))"

definition degraded_budget :: "snapshot \<Rightarrow> bool \<Rightarrow> int" where
  "degraded_budget s is_charging = (if is_charging then 0 else max 0 (hold_discharge_w s))"

definition group_budget :: "snapshot \<Rightarrow> bool \<Rightarrow> int \<Rightarrow> int" where
  "group_budget s is_charging requested_total =
     (if degraded s then degraded_budget s is_charging
      else if snap_reason s = Some not_configured then requested_total
      else if is_charging then charge_budget_w s else discharge_budget_w s)"

section \<open>Scaling a plan down\<close>

text \<open>Rows of the plan: battery, its own limit (the planned power), its allocation.\<close>

type_synonym row = "bat \<times> int \<times> int"

fun fill_pass :: "row list \<Rightarrow> int \<Rightarrow> row list \<times> int \<times> bool" where
  "fill_pass [] remaining = ([], remaining, False)"
| "fill_pass ((b, limit, alloc) # rows) remaining =
     (let fits = (ROUNDING_W \<le> limit - alloc \<and> ROUNDING_W \<le> remaining);
          remaining' = (if fits then remaining - ROUNDING_W else remaining);
          (rows', rest, changed) = fill_pass rows remaining'
      in ((b, limit, if fits then alloc + ROUNDING_W else alloc) # rows', rest, fits \<or> changed))"

lemma fill_pass_rest:
  "fill_pass rows r = (rows', r', ch) \<Longrightarrow> r' \<le> r \<and> (ch \<longrightarrow> r' < r \<and> ROUNDING_W \<le> r)"
proof (induction rows arbitrary: r rows' r' ch)
  case Nil
  then show ?case by simp
next
  case (Cons row rows)
  obtain b l a where row: "row = (b, l, a)" by (cases row) auto
  define fits where "fits = (ROUNDING_W \<le> l - a \<and> ROUNDING_W \<le> r)"
  define rem1 where "rem1 = (if fits then r - ROUNDING_W else r)"
  obtain rows1 r1 ch1 where rec: "fill_pass rows rem1 = (rows1, r1, ch1)" by (cases "fill_pass rows rem1") auto
  from Cons.IH [OF rec] have "r1 \<le> rem1" "ch1 \<longrightarrow> r1 < rem1 \<and> ROUNDING_W \<le> rem1" by auto
  moreover have "r' = r1" "ch = (fits \<or> ch1)"
    using Cons.prems rec by (auto simp: row fits_def rem1_def Let_def)
  ultimately show ?case by (auto simp: rem1_def fits_def ROUNDING_W_def split: if_splits)
qed

function fill_rows :: "row list \<Rightarrow> int \<Rightarrow> row list" where
  "fill_rows rows remaining =
     (if ROUNDING_W \<le> remaining
      then (let (rows', rest, changed) = fill_pass rows remaining in
        if changed then fill_rows rows' rest else rows')
      else rows)"
  by auto
termination
  by (relation "measure (\<lambda>(rows, r). nat r)") (auto dest: fill_pass_rest [OF sym] simp: ROUNDING_W_def)

declare fill_rows.simps [simp del]

definition cap_group_allocation :: "int \<Rightarrow> (bat, int) dict \<Rightarrow> (bat, int) dict" where
  "cap_group_allocation total0 requested =
     (let limits = map (\<lambda>(b, v). (b, round_down (of_int v))) requested;
          capacity = sum_list (map snd limits);
          total = min (max 0 total0) capacity
      in if total \<le> 0 \<or> capacity \<le> 0 then map (\<lambda>(b, _). (b, 0)) requested
         else (let rows = map (\<lambda>(b, l). (b, l, round_down (of_int (total * l) / of_int capacity))) limits;
                   remaining = total - sum_list (map (snd \<circ> snd) rows)
               in map (\<lambda>(b, _, a). (b, a)) (fill_rows rows remaining)))"

section \<open>The allocation\<close>

record limiter =
  battery_phase :: "bat \<Rightarrow> phase option"
  snapshots :: "phase \<Rightarrow> snapshot"
  individual_limit :: "bat \<Rightarrow> bool \<Rightarrow> int"

definition phase_total :: "limiter \<Rightarrow> phase \<Rightarrow> (bat, int) dict \<Rightarrow> int" where
  "phase_total lm ph alloc =
     sum_list (map snd (filter (\<lambda>(b, _). battery_phase lm b = Some ph) alloc))"

definition phase_request :: "limiter \<Rightarrow> phase \<Rightarrow> (bat, int) dict \<Rightarrow> (bat, int) dict" where
  "phase_request lm ph requested =
     map (\<lambda>(b, v). (b, max 0 v)) (filter (\<lambda>(b, _). battery_phase lm b = Some ph) requested)"

definition group_allocation :: "limiter \<Rightarrow> phase \<Rightarrow> bool \<Rightarrow> (bat, int) dict \<Rightarrow> (bat, int) dict" where
  "group_allocation lm ph is_charging requested =
     (let req = phase_request lm ph requested;
          requested_total = sum_list (map snd req);
          budget = group_budget (snapshots lm ph) is_charging requested_total
      in if req = [] then [] else cap_group_allocation (min requested_total budget) req)"

definition capped_plan :: "limiter \<Rightarrow> bool \<Rightarrow> (bat, int) dict \<Rightarrow> (bat, int) dict" where
  "capped_plan lm is_charging requested =
     map (\<lambda>(b, v). (b, case battery_phase lm b of
         None \<Rightarrow> max 0 v
       | Some ph \<Rightarrow> dict_get 0 (group_allocation lm ph is_charging requested) b)) requested"

definition phase_room :: "limiter \<Rightarrow> bool \<Rightarrow> bat \<Rightarrow> (bat, int) dict \<Rightarrow> int \<Rightarrow> int option" where
  "phase_room lm is_charging b alloc remaining = (case battery_phase lm b of
     None \<Rightarrow> Some remaining
   | Some ph \<Rightarrow>
      (let s = snapshots lm ph in
       if degraded s then None
       else if snap_reason s = Some not_configured then Some remaining
       else Some (round_down (of_int ((if is_charging then charge_budget_w s else discharge_budget_w s)
                                       - phase_total lm ph alloc)))))"

definition place_overflow :: "limiter \<Rightarrow> bool \<Rightarrow> (bat, int) dict \<times> int \<Rightarrow> bat \<Rightarrow> (bat, int) dict \<times> int" where
  "place_overflow lm is_charging st b = (case st of (alloc, remaining) \<Rightarrow>
     if remaining < ROUNDING_W then (alloc, remaining)
     else (case phase_room lm is_charging b alloc remaining of
         None \<Rightarrow> (alloc, remaining)
       | Some room \<Rightarrow>
          (let battery_room = round_down (of_int (max 0 (individual_limit lm b is_charging) - dict_get 0 alloc b));
               extra = min remaining (min room battery_room)
           in if extra \<le> 0 then (alloc, remaining)
              else (AList.update b (dict_get 0 alloc b + extra) alloc, remaining - extra))))"

text \<open>\<open>limit_allocation\<close>: the allocation and the list of active batteries it leaves.\<close>

definition limit_allocation ::
    "limiter \<Rightarrow> bool \<Rightarrow> bool \<Rightarrow> (bat, int) dict \<Rightarrow> bat list \<Rightarrow> (bat, int) dict" where
  "limit_allocation lm enabled is_charging requested available =
     (if \<not> enabled then map (\<lambda>(b, v). (b, max 0 v)) requested
      else (let plan = capped_plan lm is_charging requested;
                remaining = round_down (of_int (sum_list (map (\<lambda>(_, v). max 0 v) requested)
                                                 - sum_list (map snd plan)));
                extras = filter (\<lambda>b. b \<notin> fst ` set requested) (rev (remdups (rev available)));
                alloc = plan @ map (\<lambda>b. (b, 0)) extras
            in fst (run (place_overflow lm is_charging) (alloc, remaining) (map fst requested @ extras))))"

definition active_batteries :: "(bat, int) dict \<Rightarrow> bat list" where
  "active_batteries alloc = map fst (filter (\<lambda>(_, v). 0 < v) alloc)"

section \<open>A single command\<close>

text \<open>
  \<open>limit_single_command\<close>: the plan registered for the battery, the other automatic
  batteries' commanded power on the same phase.
\<close>

definition limit_single_command ::
    "limiter \<Rightarrow> bool \<Rightarrow> (bat, bool \<times> int) dict \<Rightarrow> rat \<Rightarrow> bat \<Rightarrow> rat \<Rightarrow> rat \<Rightarrow> int \<times> int" where
  "limit_single_command lm enabled planned other_power b charge_power discharge_power =
     (if \<not> enabled \<or> charge_power \<le> 0 \<and> discharge_power \<le> 0
      then (max 0 (py_trunc charge_power), max 0 (py_trunc discharge_power))
      else if 0 < charge_power \<and> 0 < discharge_power then (0, 0)
      else (let is_charging = (0 < charge_power);
                requested = (if is_charging then charge_power else discharge_power);
                directed = (\<lambda>v :: int. if is_charging then (v, 0) else (0, v));
                own_limit = round_down (of_int (max 0 (individual_limit lm b is_charging)));
                unlimited = directed (round_down (min requested (of_int own_limit)));
                fresh = (case battery_phase lm b of
                   None \<Rightarrow> unlimited
                 | Some ph \<Rightarrow>
                    if snap_reason (snapshots lm ph) = Some not_configured then unlimited
                    else (let budget = group_budget (snapshots lm ph) is_charging 0 in
                      directed (round_down (min requested
                        (min (max 0 (of_int budget - other_power)) (of_int own_limit))))))
        in case map_of planned b of
             Some (dir, v) \<Rightarrow>
               if dir = is_charging \<and> \<bar>of_int v - requested\<bar> < of_int ROUNDING_W then directed v
               else fresh
           | None \<Rightarrow> fresh))"

section \<open>Lemmas\<close>

lemma round_down_nonneg [simp]: "0 \<le> round_down v"
  by (auto simp: round_down_def ROUNDING_W_def)

lemma round_down_mono: "u \<le> v \<Longrightarrow> round_down u \<le> round_down v"
  by (auto simp: round_down_def ROUNDING_W_def intro!: floor_mono divide_right_mono)

lemma round_down_le: "0 \<le> v \<Longrightarrow> of_int (round_down v) \<le> v + 1 / 1000000000"
proof -
  have "of_int \<lfloor>(v + 1 / 1000000000) / 5\<rfloor> \<le> (v + 1 / 1000000000) / 5" by (rule of_int_floor_le)
  then show "0 \<le> v \<Longrightarrow> of_int (round_down v) \<le> v + 1 / 1000000000"
    by (auto simp: round_down_def ROUNDING_W_def)
qed

lemma round_down_int: "round_down (of_int k) \<le> max 0 k"
proof (cases "0 < k")
  case True
  then have "of_int (round_down (of_int k)) \<le> of_int k + (1 / 1000000000 :: rat)"
    using round_down_le [of "of_int k"] by simp
  then have "of_int (round_down (of_int k)) < (of_int (k + 1) :: rat)" by simp
  then have "round_down (of_int k) < k + 1" by (simp only: of_int_less_iff)
  then show ?thesis by simp
qed (simp add: round_down_def)

definition rows_ok :: "row list \<Rightarrow> bool" where
  "rows_ok rows \<longleftrightarrow> (\<forall>(b, l, a)\<in>set rows. 0 \<le> a \<and> a \<le> l)"

definition row_sum :: "row list \<Rightarrow> int" where
  "row_sum rows = sum_list (map (snd \<circ> snd) rows)"

definition row_caps :: "row list \<Rightarrow> (bat \<times> int) list" where
  "row_caps rows = map (\<lambda>(b, l, a). (b, l)) rows"

lemma fill_pass_spec:
  "fill_pass rows r = (rows', r', ch) \<Longrightarrow>
     row_caps rows' = row_caps rows \<and> row_sum rows' + r' = row_sum rows + r
     \<and> (rows_ok rows \<longrightarrow> rows_ok rows') \<and> (0 \<le> r \<longrightarrow> 0 \<le> r')"
proof (induction rows arbitrary: r rows' r' ch)
  case Nil
  then show ?case by simp
next
  case (Cons row rows)
  obtain b l a where row: "row = (b, l, a)" by (cases row) auto
  define fits where "fits = (ROUNDING_W \<le> l - a \<and> ROUNDING_W \<le> r)"
  define rem1 where "rem1 = (if fits then r - ROUNDING_W else r)"
  obtain rows1 r1 ch1 where rec: "fill_pass rows rem1 = (rows1, r1, ch1)" by (cases "fill_pass rows rem1") auto
  have res: "rows' = (b, l, if fits then a + ROUNDING_W else a) # rows1" "r' = r1"
    using Cons.prems rec by (auto simp: row fits_def rem1_def Let_def)
  from Cons.IH [OF rec] show ?case
    by (auto simp: res row rem1_def fits_def ROUNDING_W_def row_caps_def row_sum_def rows_ok_def
        split: if_splits)
qed

lemma fill_rows_spec:
  "0 \<le> r \<Longrightarrow> rows_ok rows \<Longrightarrow>
     row_caps (fill_rows rows r) = row_caps rows \<and> rows_ok (fill_rows rows r)
     \<and> row_sum (fill_rows rows r) \<le> row_sum rows + r"
proof (induction rows r rule: fill_rows.induct)
  case (1 rows r)
  show ?case
  proof (cases "ROUNDING_W \<le> r")
    case False
    then show ?thesis using 1 by (simp add: fill_rows.simps)
  next
    case True
    obtain rows' r' ch where pass: "fill_pass rows r = (rows', r', ch)" by (cases "fill_pass rows r") auto
    note spec = fill_pass_spec [OF pass]
    show ?thesis
    proof (cases ch)
      case ch: True
      then show ?thesis using 1 True pass spec by (subst (1 2 3) fill_rows.simps) auto
    next
      case False
      then show ?thesis using 1 True pass spec by (subst (1 2 3) fill_rows.simps) auto
    qed
  qed
qed

lemma sum_round_down_shares:
  assumes "\<forall>x\<in>set xs. 0 \<le> f x" and "length xs < 1000000000" and "sum_list (map f xs) = of_int t"
  shows "sum_list (map (\<lambda>x. round_down (f x)) xs) \<le> t"
proof -
  have len: "sum_list (map (\<lambda>x. of_int (round_down (f x)) :: rat) xs)
      \<le> sum_list (map f xs) + of_nat (length xs) / 1000000000"
    using assms(1)
  proof (induction xs)
    case (Cons x xs)
    have "of_int (round_down (f x)) \<le> f x + 1 / 1000000000" using Cons.prems by (intro round_down_le) simp
    moreover have "of_nat (length (x # xs)) / 1000000000 = (1 / 1000000000 :: rat) + of_nat (length xs) / 1000000000"
      by (simp add: add_divide_distrib)
    ultimately show ?case using Cons by (simp add: add_divide_distrib)
  qed simp
  have "of_nat (length xs) < (1000000000 :: rat)" using assms(2)
    by (metis of_nat_less_iff of_nat_numeral)
  then have "of_nat (length xs) / 1000000000 < (1 :: rat)" by simp
  with len have "of_int (sum_list (map (\<lambda>x. round_down (f x)) xs)) < (of_int (t + 1) :: rat)"
    unfolding assms(3) sum_list_of_int_map by simp
  then show ?thesis by (simp only: of_int_less_iff)
qed

lemma round_down_round_down: "round_down (of_int (round_down v)) = round_down v"
proof (cases "0 < v")
  case True
  define k where "k = \<lfloor>(v + 1 / 1000000000) / 5\<rfloor>"
  have rv: "round_down v = k * 5" using True by (simp add: round_down_def ROUNDING_W_def k_def)
  have "0 \<le> k" using True by (simp add: k_def)
  have "\<lfloor>(of_int (k * 5) + 1 / 1000000000) / 5 :: rat\<rfloor> = k"
    by (rule floor_unique) simp_all
  then have "round_down (of_int (k * 5)) = (if k = 0 then 0 else k * 5)"
    using \<open>0 \<le> k\<close> by (simp add: round_down_def ROUNDING_W_def)
  then show ?thesis unfolding rv by simp
qed (simp add: round_down_def)

lemma rows_match:
  assumes "row_caps rows = map (\<lambda>(b, v). (b, round_down (of_int v))) requested" and "rows_ok rows"
    and "\<forall>(b, v)\<in>set requested. 0 \<le> v"
  shows "list_all2 (\<lambda>(b, v) (b', a). b' = b \<and> 0 \<le> a \<and> a \<le> v) requested (map (\<lambda>(b, _, a). (b, a)) rows)"
  using assms
proof (induction requested arbitrary: rows)
  case Nil
  then show ?case by (simp add: row_caps_def)
next
  case (Cons x requested)
  obtain b v where x: "x = (b, v)" by (cases x) auto
  with Cons.prems(1) obtain a rows' where rows: "rows = (b, round_down (of_int v), a) # rows'"
    and caps: "row_caps rows' = map (\<lambda>(b, v). (b, round_down (of_int v))) requested"
    by (cases rows) (auto simp: row_caps_def)
  have "round_down (of_int v) \<le> v" using Cons.prems(3) round_down_int [of v] by (auto simp: x)
  with Cons.prems Cons.IH [OF caps] show ?case by (auto simp: rows x rows_ok_def)
qed

lemma cap_group_allocation_spec:
  assumes "\<forall>(b, v)\<in>set requested. 0 \<le> v" and "length requested < 1000000000"
  shows "map fst (cap_group_allocation t0 requested) = map fst requested"
    and "list_all2 (\<lambda>(b, v) (b', a). b' = b \<and> 0 \<le> a \<and> a \<le> v) requested (cap_group_allocation t0 requested)"
    and "sum_list (map snd (cap_group_allocation t0 requested)) \<le> max 0 t0"
proof -
  define limits where "limits = map (\<lambda>(b, v). (b, round_down (of_int v))) requested"
  define capacity where "capacity = sum_list (map snd limits)"
  define tot where "tot = min (max 0 t0) capacity"
  define share where "share = (\<lambda>l. of_int (tot * l) / (of_int capacity :: rat))"
  define rows where "rows = map (\<lambda>(b, l). (b, l, round_down (share l))) limits"
  have lim_pos: "\<forall>x\<in>set limits. 0 \<le> snd x" by (auto simp: limits_def)
  consider (zero) "tot \<le> 0 \<or> capacity \<le> 0" | (pos) "0 < tot" "0 < capacity" by linarith
  then have "list_all2 (\<lambda>(b, v) (b', a). b' = b \<and> 0 \<le> a \<and> a \<le> v) requested (cap_group_allocation t0 requested)
    \<and> sum_list (map snd (cap_group_allocation t0 requested)) \<le> max 0 t0"
  proof cases
    case zero
    then have "cap_group_allocation t0 requested = map (\<lambda>(b, _). (b, 0)) requested"
      by (simp add: cap_group_allocation_def Let_def flip: limits_def capacity_def tot_def)
    then show ?thesis using assms(1)
      by (auto simp: list_all2_map2 list_all2_same case_prod_unfold sum_list_0 comp_def)
  next
    case pos
    have eq: "cap_group_allocation t0 requested
        = map (\<lambda>(b, _, a). (b, a)) (fill_rows rows (tot - row_sum rows))"
      using pos by (simp add: cap_group_allocation_def Let_def row_sum_def rows_def share_def
          flip: limits_def capacity_def tot_def)
    have shares: "sum_list (map (\<lambda>x. share (snd x)) limits) = of_int tot"
    proof -
      have "sum_list (map (\<lambda>x. share (snd x)) limits)
          = of_int tot / of_int capacity * sum_list (map (\<lambda>x. of_int (snd x)) limits)"
        by (simp add: share_def sum_list_mult_map [symmetric])
      also have "sum_list (map (\<lambda>x. of_int (snd x) :: rat) limits) = of_int capacity"
        by (simp add: capacity_def sum_list_of_int_map)
      finally show ?thesis using pos by simp
    qed
    have "row_sum rows \<le> tot"
      using sum_round_down_shares [OF _ _ shares] lim_pos pos assms(2)
      by (simp add: row_sum_def rows_def share_def case_prod_unfold comp_def limits_def)
    moreover have "rows_ok rows"
    proof -
      have "round_down (share l) \<le> l" if "(b, l) \<in> set limits" for b l
      proof -
        have l: "0 \<le> l" "round_down (of_int l) = l"
          using that by (auto simp: limits_def round_down_round_down)
        have "tot * l \<le> capacity * l" using l(1) by (intro mult_right_mono) (simp_all add: tot_def)
        then have "(of_int (tot * l) :: rat) \<le> of_int (l * capacity)"
          unfolding of_int_le_iff by (simp add: mult.commute)
        then have "share l \<le> of_int l" using pos by (simp add: share_def pos_divide_le_eq)
        with round_down_mono show ?thesis using l(2) by metis
      qed
      then show ?thesis by (auto simp: rows_ok_def rows_def)
    qed
    ultimately have fill: "row_caps (fill_rows rows (tot - row_sum rows)) = row_caps rows"
      "rows_ok (fill_rows rows (tot - row_sum rows))" "row_sum (fill_rows rows (tot - row_sum rows)) \<le> tot"
      using fill_rows_spec [of "tot - row_sum rows" rows] by auto
    have "row_caps rows = map (\<lambda>(b, v). (b, round_down (of_int v))) requested"
      by (simp add: row_caps_def rows_def limits_def case_prod_unfold)
    from rows_match [OF fill(1) [unfolded this] fill(2) assms(1)] show ?thesis
      using fill(3) pos by (auto simp: eq row_sum_def tot_def comp_def case_prod_unfold)
  qed
  then show "list_all2 (\<lambda>(b, v) (b', a). b' = b \<and> 0 \<le> a \<and> a \<le> v) requested (cap_group_allocation t0 requested)"
    "sum_list (map snd (cap_group_allocation t0 requested)) \<le> max 0 t0" by blast+
  then show "map fst (cap_group_allocation t0 requested) = map fst requested"
  proof (induction rule: list_all2_induct)
  qed auto
qed

lemma sum_filter_update:
  assumes "distinct (map fst d)" and "c \<in> fst ` set d"
  shows "sum_list (map snd (filter (\<lambda>(b, _). P b) (AList.update c v d)))
    = sum_list (map snd (filter (\<lambda>(b, _). P b) d)) + (if P c then v - dict_get (0 :: int) d c else 0)"
  using assms
proof (induction d)
  case (Cons x d)
  obtain a w where x: "x = (a, w)" by (cases x) auto
  show ?case
  proof (cases "a = c")
    case True
    then show ?thesis by (simp add: x dict_get_def)
  next
    case False
    then have "c \<in> fst ` set d" using Cons.prems(2) by (auto simp: x)
    with Cons False show ?thesis by (simp add: x dict_get_def)
  qed
qed simp

lemma phase_total_update:
  "distinct (map fst d) \<Longrightarrow> c \<in> fst ` set d \<Longrightarrow>
   phase_total lm ph (AList.update c v d)
     = phase_total lm ph d + (if battery_phase lm c = Some ph then v - dict_get 0 d c else 0)"
  unfolding phase_total_def by (rule sum_filter_update)

lemma sum_update:
  "distinct (map fst d) \<Longrightarrow> c \<in> fst ` set d \<Longrightarrow>
   sum_list (map snd (AList.update c v d)) = sum_list (map snd d) + v - dict_get (0 :: int) d c"
  using sum_filter_update [of d c "\<lambda>_. True" v] by simp

definition constrained :: "snapshot \<Rightarrow> bool" where
  "constrained s \<longleftrightarrow> degraded s \<or> snap_reason s \<noteq> Some not_configured"

definition overflow_inv ::
    "limiter \<Rightarrow> bool \<Rightarrow> bat list \<Rightarrow> (bat \<Rightarrow> int) \<Rightarrow> int \<Rightarrow> (bat, int) dict \<times> int \<Rightarrow> bool" where
  "overflow_inv lm is_charging ks want tot st \<longleftrightarrow> (case st of (alloc, remaining) \<Rightarrow>
     map fst alloc = ks \<and> 0 \<le> remaining \<and> sum_list (map snd alloc) + remaining \<le> tot
     \<and> (\<forall>b\<in>set ks. 0 \<le> dict_get 0 alloc b
          \<and> dict_get 0 alloc b \<le> max (want b) (max 0 (individual_limit lm b is_charging)))
     \<and> (\<forall>ph. constrained (snapshots lm ph) \<longrightarrow>
          phase_total lm ph alloc \<le> group_budget (snapshots lm ph) is_charging 0))"

lemma phase_room_budget:
  assumes "phase_room lm ch b alloc remaining = Some room" and "battery_phase lm b = Some ph"
    and "constrained (snapshots lm ph)" and "0 < room"
  shows "phase_total lm ph alloc + room \<le> group_budget (snapshots lm ph) ch 0"
  using assms round_down_int [of "(if ch then charge_budget_w (snapshots lm ph)
      else discharge_budget_w (snapshots lm ph)) - phase_total lm ph alloc"]
  by (cases "degraded (snapshots lm ph)")
    (auto simp: phase_room_def Let_def constrained_def group_budget_def max_def split: if_splits)

lemma place_overflow_inv:
  assumes "overflow_inv lm ch ks want tot st" and "b \<in> set ks" and "distinct ks"
  shows "overflow_inv lm ch ks want tot (place_overflow lm ch st b)"
proof -
  obtain alloc remaining where st: "st = (alloc, remaining)" by (cases st) auto
  define broom where "broom = round_down (of_int (max 0 (individual_limit lm b ch) - dict_get 0 alloc b))"
  show ?thesis
  proof (cases "\<exists>room. phase_room lm ch b alloc remaining = Some room \<and> ROUNDING_W \<le> remaining
      \<and> 0 < min remaining (min room broom)")
    case False
    then have "place_overflow lm ch st b = st"
      by (auto simp: st place_overflow_def Let_def broom_def split: option.splits)
    then show ?thesis using assms(1) by simp
  next
    case True
    then obtain room where room: "phase_room lm ch b alloc remaining = Some room"
      and big: "ROUNDING_W \<le> remaining" and pos: "0 < min remaining (min room broom)" by blast
    define extra where "extra = min remaining (min room broom)"
    have next_st: "place_overflow lm ch st b
        = (AList.update b (dict_get 0 alloc b + extra) alloc, remaining - extra)"
    proof -
      have "\<not> extra \<le> 0" "\<not> remaining < ROUNDING_W" using pos big by (simp_all only: extra_def not_le not_less)
      then show ?thesis using room
        by (simp add: st place_overflow_def Let_def extra_def broom_def del: min_less_iff_conj)
    qed
    have inv: "map fst alloc = ks" "0 \<le> remaining" "sum_list (map snd alloc) + remaining \<le> tot"
      "\<forall>b\<in>set ks. 0 \<le> dict_get 0 alloc b
          \<and> dict_get 0 alloc b \<le> max (want b) (max 0 (individual_limit lm b ch))"
      "\<forall>ph. constrained (snapshots lm ph) \<longrightarrow> phase_total lm ph alloc \<le> group_budget (snapshots lm ph) ch 0"
      using assms(1) by (auto simp: overflow_inv_def st)
    have keys: "distinct (map fst alloc)" "b \<in> fst ` set alloc"
      using assms inv(1) by (auto simp flip: set_map)
    have own: "0 < extra" "extra \<le> remaining" "extra \<le> room"
      "dict_get 0 alloc b + extra \<le> max 0 (individual_limit lm b ch)"
      using pos round_down_int [of "max 0 (individual_limit lm b ch) - dict_get 0 alloc b"]
      by (auto simp: extra_def broom_def)
    have "phase_total lm ph (AList.update b (dict_get 0 alloc b + extra) alloc) \<le> group_budget (snapshots lm ph) ch 0"
      if "constrained (snapshots lm ph)" for ph
    proof (cases "battery_phase lm b = Some ph")
      case True
      then show ?thesis
        using phase_room_budget [OF room True that] own by (simp add: phase_total_update [OF keys])
    next
      case False
      then show ?thesis using inv(5) that by (simp add: phase_total_update [OF keys])
    qed
    moreover have "map fst (AList.update b (dict_get 0 alloc b + extra) alloc) = ks"
      using keys_update_mem [OF keys(2)] inv(1) by simp
    ultimately show ?thesis using inv own
      by (auto simp: overflow_inv_def next_st sum_update [OF keys] dict_get_update)
  qed
qed

interpretation overflow: invariant_machine "place_overflow lm ch" "\<lambda>st. overflow_inv lm ch ks want tot st \<and> distinct ks"
  "\<lambda>b. b \<in> set ks" for lm ch ks want tot
  by unfold_locales (auto intro: place_overflow_inv)


lemma map_dict_get_keys: "distinct (map fst d) \<Longrightarrow> map (dict_get z d) (map fst d) = map snd d"
  by (auto simp: dict_get_mem)

lemma dict_get_same_keys:
  "map fst d' = map fst d \<Longrightarrow> distinct (map fst d) \<Longrightarrow> i < length d
    \<Longrightarrow> dict_get z d' (fst (d ! i)) = snd (d' ! i)"
  by (metis dict_get_mem length_map nth_map nth_mem prod.collapse)

lemma phase_request_keys:
  "distinct (map fst requested) \<Longrightarrow> distinct (map fst (phase_request lm ph requested))"
  "fst ` set (phase_request lm ph requested) = {b \<in> fst ` set requested. battery_phase lm b = Some ph}"
  "length (phase_request lm ph requested) \<le> length requested"
  by (force simp: phase_request_def distinct_map_filter comp_def case_prod_unfold)+

lemma phase_request_get:
  "battery_phase lm b = Some ph \<Longrightarrow> dict_get 0 (phase_request lm ph requested) b = max 0 (dict_get 0 requested b)"
  by (induction requested) (auto simp: phase_request_def dict_get_def)

lemma group_allocation_spec:
  assumes "length requested < 1000000000" and "distinct (map fst requested)"
  shows "map fst (group_allocation lm ph ch requested) = map fst (phase_request lm ph requested)"
    and "sum_list (map snd (group_allocation lm ph ch requested)) \<le> sum_list (map snd (phase_request lm ph requested))"
    and "0 \<le> group_budget (snapshots lm ph) ch (sum_list (map snd (phase_request lm ph requested))) \<Longrightarrow>
      sum_list (map snd (group_allocation lm ph ch requested))
        \<le> group_budget (snapshots lm ph) ch (sum_list (map snd (phase_request lm ph requested)))"
    and "0 \<le> dict_get 0 (group_allocation lm ph ch requested) b
      \<and> dict_get 0 (group_allocation lm ph ch requested) b \<le> dict_get 0 (phase_request lm ph requested) b"
proof -
  let ?req = "phase_request lm ph requested"
  let ?t = "sum_list (map snd ?req)"
  have nonneg: "\<forall>(b, v)\<in>set ?req. 0 \<le> v" by (auto simp: phase_request_def)
  then have "0 \<le> ?t" by (intro sum_list_nonneg_map) auto
  have len: "length ?req < 1000000000" using assms(1) phase_request_keys(3) [of lm ph requested] by simp
  note spec = cap_group_allocation_spec [OF nonneg len, of "min ?t (group_budget (snapshots lm ph) ch ?t)"]
  have ga: "group_allocation lm ph ch requested
      = (if ?req = [] then [] else cap_group_allocation (min ?t (group_budget (snapshots lm ph) ch ?t)) ?req)"
    by (simp add: group_allocation_def Let_def)
  show keys: "map fst (group_allocation lm ph ch requested) = map fst ?req"
    using spec(1) by (auto simp: ga)
  show "sum_list (map snd (group_allocation lm ph ch requested)) \<le> ?t"
    using spec(3) \<open>0 \<le> ?t\<close> by (auto simp: ga)
  show "0 \<le> group_budget (snapshots lm ph) ch ?t \<Longrightarrow>
      sum_list (map snd (group_allocation lm ph ch requested)) \<le> group_budget (snapshots lm ph) ch ?t"
    using spec(3) by (auto simp: ga)
  show "0 \<le> dict_get 0 (group_allocation lm ph ch requested) b
      \<and> dict_get 0 (group_allocation lm ph ch requested) b \<le> dict_get 0 ?req b"
  proof (cases "b \<in> fst ` set ?req")
    case False
    moreover from this have "b \<notin> fst ` set (group_allocation lm ph ch requested)"
      using keys by (metis set_map)
    ultimately show ?thesis by (auto simp: dict_get_def map_of_eq_None_iff [THEN iffD2])
  next
    case True
    then obtain i where i: "i < length ?req" "b = fst (?req ! i)" by (metis imageE in_set_conv_nth)
    have dist: "distinct (map fst ?req)" by (rule phase_request_keys(1) [OF assms(2)])
    have "?req \<noteq> []" using i(1) by auto
    then have "(\<lambda>(b, v) (b', a). b' = b \<and> 0 \<le> a \<and> a \<le> v) (?req ! i) (group_allocation lm ph ch requested ! i)"
      using list_all2_nthD [OF spec(2) i(1)] by (simp add: ga)
    then show ?thesis
      using dict_get_same_keys [OF keys dist i(1), of 0] dict_get_same_keys [OF refl dist i(1), of 0]
      by (auto simp: i(2) case_prod_unfold)
  qed
qed

lemma map_snd_filter_case:
  "map (f ph) (map fst (filter (\<lambda>(b, _). bp b = Some ph) xs))
   = map snd (filter (\<lambda>(b, _). bp b = Some ph)
       (map (\<lambda>(b, v). (b, case bp b of None \<Rightarrow> g v | Some ph \<Rightarrow> f ph b)) xs))"
  by (induction xs) auto

lemma map_of_map_const: "map_of (map (\<lambda>b. (b, z)) xs) b = (if b \<in> set xs then Some z else None)"
  by (induction xs) auto

lemma capped_plan_spec:
  assumes "length requested < 1000000000" and "distinct (map fst requested)"
  shows "map fst (capped_plan lm ch requested) = map fst requested"
    and "\<And>b. b \<in> fst ` set requested \<Longrightarrow> 0 \<le> dict_get 0 (capped_plan lm ch requested) b
      \<and> dict_get 0 (capped_plan lm ch requested) b \<le> max 0 (dict_get 0 requested b)"
    and "phase_total lm ph (capped_plan lm ch requested) = sum_list (map snd (group_allocation lm ph ch requested))"
    and "sum_list (map snd (capped_plan lm ch requested)) \<le> sum_list (map (\<lambda>(_, v). max 0 v) requested)"
proof -
  have get: "dict_get 0 (capped_plan lm ch requested) b = (case battery_phase lm b of
         None \<Rightarrow> max 0 (dict_get 0 requested b)
       | Some ph \<Rightarrow> dict_get 0 (group_allocation lm ph ch requested) b)" if "b \<in> fst ` set requested" for b
  proof -
    from that obtain v where "(b, v) \<in> set requested" by auto
    moreover from this have "dict_get 0 requested b = v" using assms(2) by (simp add: dict_get_mem)
    ultimately have "(b, case battery_phase lm b of None \<Rightarrow> max 0 (dict_get 0 requested b)
       | Some ph \<Rightarrow> dict_get 0 (group_allocation lm ph ch requested) b) \<in> set (capped_plan lm ch requested)"
      by (force simp: capped_plan_def)
    moreover have "distinct (map fst (capped_plan lm ch requested))"
      using assms(2) by (simp add: capped_plan_def comp_def case_prod_unfold)
    ultimately show ?thesis by (simp add: dict_get_mem)
  qed
  show keys: "map fst (capped_plan lm ch requested) = map fst requested"
    by (simp add: capped_plan_def comp_def case_prod_unfold)
  have bound: "b \<in> fst ` set requested \<Longrightarrow> 0 \<le> dict_get 0 (capped_plan lm ch requested) b
      \<and> dict_get 0 (capped_plan lm ch requested) b \<le> max 0 (dict_get 0 requested b)" for b
  proof (cases "battery_phase lm b")
    case (Some ph)
    then show "b \<in> fst ` set requested \<Longrightarrow> ?thesis"
      using get [of b] group_allocation_spec(4) [OF assms, of lm ph ch b] phase_request_get [of lm b ph requested]
      by simp
  qed (use get [of b] in simp)
  then show "\<And>b. b \<in> fst ` set requested \<Longrightarrow> 0 \<le> dict_get 0 (capped_plan lm ch requested) b
      \<and> dict_get 0 (capped_plan lm ch requested) b \<le> max 0 (dict_get 0 requested b)" .
  show "phase_total lm ph (capped_plan lm ch requested) = sum_list (map snd (group_allocation lm ph ch requested))"
  proof -
    let ?ga = "group_allocation lm ph ch requested"
    have "map snd ?ga = map (dict_get 0 ?ga) (map fst ?ga)"
      using map_dict_get_keys [of ?ga 0] group_allocation_spec(1) [OF assms] phase_request_keys(1) [OF assms(2)]
      by simp
    also have "\<dots> = map (dict_get 0 ?ga) (map fst (filter (\<lambda>(b, _). battery_phase lm b = Some ph) requested))"
      unfolding group_allocation_spec(1) [OF assms] phase_request_def by (simp add: comp_def case_prod_unfold)
    also have "\<dots> = map snd (filter (\<lambda>(b, _). battery_phase lm b = Some ph) (capped_plan lm ch requested))"
      unfolding capped_plan_def by (rule map_snd_filter_case)
    finally show ?thesis by (simp add: phase_total_def)
  qed
  have "sum_list (map snd (capped_plan lm ch requested))
      = sum_list (map (\<lambda>(b, _). dict_get 0 (capped_plan lm ch requested) b) requested)"
  proof -
    have "map snd (capped_plan lm ch requested) = map (dict_get 0 (capped_plan lm ch requested)) (map fst requested)"
      using map_dict_get_keys [of "capped_plan lm ch requested" 0] keys assms(2) by simp
    then show ?thesis by (simp only: map_map comp_def case_prod_unfold)
  qed
  also have "\<dots> \<le> sum_list (map (\<lambda>(b, v). max 0 v) requested)"
    using bound dict_get_mem [OF assms(2)] by (intro sum_list_mono_map) fastforce
  finally show "sum_list (map snd (capped_plan lm ch requested)) \<le> sum_list (map (\<lambda>(_, v). max 0 v) requested)" .
qed


definition budgets_ok :: "limiter \<Rightarrow> bool" where
  "budgets_ok lm \<longleftrightarrow> (\<forall>ph. 0 \<le> charge_budget_w (snapshots lm ph) \<and> 0 \<le> discharge_budget_w (snapshots lm ph))"

lemma limit_allocation_inv:
  assumes "distinct (map fst requested)" and "length requested < 1000000000" and "budgets_ok lm"
    and "r = limit_allocation lm True ch requested available"
  shows "\<exists>ks r'. overflow_inv lm ch ks (\<lambda>b. max 0 (dict_get 0 requested b))
    (sum_list (map (\<lambda>(_, v). max 0 v) requested)) (r, r')"
proof -
  let ?S = "sum_list (map (\<lambda>(_, v). max 0 v) requested)"
  let ?want = "\<lambda>b. max 0 (dict_get 0 requested b)"
  define plan where "plan = capped_plan lm ch requested"
  define extras where "extras = filter (\<lambda>b. b \<notin> fst ` set requested) (rev (remdups (rev available)))"
  define alloc where "alloc = plan @ map (\<lambda>b. (b, 0 :: int)) extras"
  define remaining where "remaining = round_down (of_int (?S - sum_list (map snd plan)))"
  let ?ks = "map fst requested @ extras"
  note plan_spec = capped_plan_spec [OF assms(2,1), where lm = lm and ch = ch, folded plan_def]
  have r: "r = fst (run (place_overflow lm ch) (alloc, remaining) ?ks)"
    by (simp add: assms(4) limit_allocation_def Let_def plan_def extras_def alloc_def remaining_def)
  have ks: "distinct ?ks" using assms(1) by (auto simp: extras_def)
  have keys: "map fst alloc = ?ks" using plan_spec(1) by (simp add: alloc_def plan_def comp_def)
  have rem: "0 \<le> remaining" "sum_list (map snd plan) + remaining \<le> ?S"
    using round_down_int [of "?S - sum_list (map snd plan)"] plan_spec(4)
    by (auto simp: remaining_def plan_def)
  have totals: "phase_total lm ph alloc = phase_total lm ph plan" for ph
    by (simp add: phase_total_def alloc_def filter_map comp_def sum_list_0)
  have in_plan: "dict_get 0 alloc b = dict_get 0 plan b" if "b \<in> fst ` set requested" for b
  proof -
    have "b \<in> fst ` set plan" using that plan_spec(1) by (metis set_map)
    then obtain v where "map_of plan b = Some v" by (metis map_of_eq_None_iff not_None_eq)
    then show ?thesis by (simp add: alloc_def dict_get_def map_add_def)
  qed
  have extra: "dict_get 0 alloc b = 0" if "b \<notin> fst ` set requested" for b
  proof -
    have "map_of plan b = None" using that plan_spec(1) by (metis map_of_eq_None_iff set_map)
    then show ?thesis by (simp add: alloc_def dict_get_def map_add_def map_of_map_const)
  qed
  have bounds: "0 \<le> dict_get 0 alloc b \<and> dict_get 0 alloc b \<le> max (?want b) (max 0 (individual_limit lm b ch))" for b
    using plan_spec(2) [of b] in_plan [of b] extra [of b] by (cases "b \<in> fst ` set requested") auto
  have caps: "phase_total lm ph alloc \<le> group_budget (snapshots lm ph) ch 0"
    if "constrained (snapshots lm ph)" for ph
  proof -
    have const: "group_budget (snapshots lm ph) ch t = group_budget (snapshots lm ph) ch 0" for t
      using that by (auto simp: group_budget_def constrained_def)
    moreover have "0 \<le> group_budget (snapshots lm ph) ch 0"
      using assms(3) that by (auto simp: group_budget_def degraded_budget_def constrained_def budgets_ok_def)
    ultimately have "sum_list (map snd (group_allocation lm ph ch requested)) \<le> group_budget (snapshots lm ph) ch 0"
      using group_allocation_spec(3) [OF assms(2,1), of lm ph ch] by metis
    then show ?thesis using plan_spec(3) [of ph] totals by simp
  qed
  have "overflow_inv lm ch ?ks ?want ?S (alloc, remaining)"
    using keys rem bounds caps by (simp add: overflow_inv_def alloc_def comp_def sum_list_0)
  then have inv: "overflow_inv lm ch ?ks ?want ?S (run (place_overflow lm ch) (alloc, remaining) ?ks)"
    using overflow.run_inv [of lm ch ?ks ?want ?S "(alloc, remaining)" ?ks] ks by auto
  obtain r' where fin: "run (place_overflow lm ch) (alloc, remaining) ?ks = (r, r')"
    using r by (cases "run (place_overflow lm ch) (alloc, remaining) ?ks") auto
  then show ?thesis using inv by auto
qed

lemma limit_allocation_phase:
  assumes "distinct (map fst requested)" and "length requested < 1000000000" and "budgets_ok lm"
    and "constrained (snapshots lm ph)"
  shows "phase_total lm ph (limit_allocation lm True ch requested available) \<le> group_budget (snapshots lm ph) ch 0"
  using limit_allocation_inv [OF assms(1-3) refl] assms(4) by (auto simp: overflow_inv_def)

section \<open>Properties\<close>

text \<open>
  Whatever the plan, the limited allocation gives each protected phase at most its
  budget: a degraded phase charges nothing and discharges no more than it was last
  measured to, a healthy one stays within the budget of its direction. No battery gets
  more than it was planned or than its own limit, none a negative power, and the
  fleet no more than the whole plan.
\<close>

theorem limit_allocation_within_budgets:
  assumes "distinct (map fst requested)" and "length requested < 1000000000" and "budgets_ok lm"
    and "r = limit_allocation lm True ch requested available"
  shows "(\<forall>ph. constrained (snapshots lm ph) \<longrightarrow>
        phase_total lm ph r \<le> group_budget (snapshots lm ph) ch 0)
    \<and> (\<forall>b\<in>fst ` set r. 0 \<le> dict_get 0 r b
        \<and> dict_get 0 r b \<le> max (max 0 (dict_get 0 requested b)) (max 0 (individual_limit lm b ch)))
    \<and> sum_list (map snd r) \<le> sum_list (map (\<lambda>(_, v). max 0 v) requested)"
proof -
  obtain ks r' where "overflow_inv lm ch ks (\<lambda>b. max 0 (dict_get 0 requested b))
      (sum_list (map (\<lambda>(_, v). max 0 v) requested)) (r, r')"
    using limit_allocation_inv [OF assms] by blast
  moreover from this have "fst ` set r = set ks" by (auto simp: overflow_inv_def simp flip: set_map)
  ultimately show ?thesis by (auto simp: overflow_inv_def)
qed

definition example_limiter :: limiter where
  "example_limiter = \<lparr>battery_phase = (\<lambda>b. if b = 0 then Some L1 else if b = 1 then Some L2 else None),
     snapshots = (\<lambda>ph. case ph of
         L1 \<Rightarrow> blank_snapshot\<lparr>degraded := True, snap_reason := Some sensor_stale, hold_discharge_w := 400\<rparr>
       | L2 \<Rightarrow> blank_snapshot\<lparr>charge_budget_w := 1500, discharge_budget_w := 2000\<rparr>
       | L3 \<Rightarrow> blank_snapshot\<lparr>snap_reason := Some not_configured\<rparr>),
     individual_limit = (\<lambda>b is_charging. 2500)\<rparr>"

lemma limit_allocation_within_budgets_witness:
  "limit_allocation example_limiter True False [(0, 1000), (1, 1000)] [0, 1] = [(0, 400), (1, 1600)]
   \<and> phase_total example_limiter L1 [(0, 400), (1, 1600)] \<le> group_budget (snapshots example_limiter L1) False 0"
proof
  show run: "limit_allocation example_limiter True False [(0, 1000), (1, 1000)] [0, 1] = [(0, 400), (1, 1600)]"
    by code_simp
  have ok: "budgets_ok example_limiter"
    by (auto simp: budgets_ok_def example_limiter_def blank_snapshot_def split: phase.splits)
  show "phase_total example_limiter L1 [(0, 400), (1, 1600)] \<le> group_budget (snapshots example_limiter L1) False 0"
    by (rule limit_allocation_within_budgets [OF _ _ ok run [symmetric], THEN conjunct1, THEN spec, THEN mp])
      (simp_all add: constrained_def example_limiter_def blank_snapshot_def)
qed

text \<open>
  A battery that the plan did not select is activated by the overflow of a capped phase.
\<close>

lemma overflow_activates_unselected:
  "limit_allocation example_limiter True True [(0, 1000)] [0, 1] = [(0, 0), (1, 1000)]"
  by code_simp

lemma round_down_current:
  assumes "of_int p \<le> (of_int (round_down (current_budget_to_power budget)) :: rat)" and "0 \<le> budget"
  shows "battery_current_from_power (of_int p) \<le> budget + 1 / 207000000000"
proof -
  have "of_int p \<le> budget * 207 + 1 / 1000000000"
    using assms round_down_le [of "current_budget_to_power budget"]
    by (simp add: current_budget_to_power_def phase_consts)
  then show ?thesis by (simp add: battery_current_from_power_def phase_consts field_simps)
qed

text \<open>
  C25. Taken with the meter and the measured battery power of a healthy phase, the new
  allocation leaves the phase current inside its fuse (or no worse than it would be with
  the batteries off), and the batteries' own current inside the fuse as well, up to the
  tolerance of the rounding.
\<close>

theorem phase_current_within_fuse:
  assumes "distinct (map fst requested)" and "length requested < 1000000000"
    and "snapshots lm = (\<lambda>q. fst (phase_snapshot True (has_sensor q) (limit q) (meter q) (measured q) (held q)))"
    and "has_sensor ph" and "0 < limit ph" and "value_a (meter ph) = Some g"
    and "r = limit_allocation lm True ch requested available"
  shows "(let base = g - battery_current_from_power (measured ph);
              new = battery_current_from_power (of_int (phase_total lm ph r))
          in new \<le> limit ph + 1 / 207000000000
           \<and> (if ch then base + new \<le> max base (limit ph) + 1 / 207000000000
              else min base (- limit ph) - 1 / 207000000000 \<le> base - new))"
proof -
  let ?b = "calculate_phase_budgets g (battery_current_from_power (measured ph)) (limit ph)"
  let ?new = "battery_current_from_power (of_int (phase_total lm ph r))"
  have ok: "budgets_ok lm"
    unfolding budgets_ok_def assms(3)
    by (auto simp: phase_snapshot_def blank_snapshot_def Let_def split: option.splits)
  have snap: "snapshots lm ph = blank_snapshot\<lparr>
      charge_budget_w := round_down (current_budget_to_power (charge_budget_a ?b)),
      discharge_budget_w := round_down (current_budget_to_power (discharge_budget_a ?b))\<rparr>"
    using assms(4-6) by (simp add: assms(3) phase_snapshot_def Let_def)
  define budget where "budget = (if ch then charge_budget_a ?b else discharge_budget_a ?b)"
  have "phase_total lm ph r \<le> group_budget (snapshots lm ph) ch 0"
    unfolding assms(7) by (rule limit_allocation_phase [OF assms(1,2) ok])
      (simp add: snap constrained_def blank_snapshot_def)
  then have "phase_total lm ph r \<le> round_down (current_budget_to_power budget)"
    by (simp add: snap group_budget_def blank_snapshot_def budget_def split: if_splits)
  moreover have "0 \<le> budget" by (simp add: budget_def calculate_phase_budgets_def Let_def)
  ultimately have new: "?new \<le> budget + 1 / 207000000000" by (intro round_down_current) simp_all
  show ?thesis
  proof (cases ch)
    case True
    then show ?thesis using new assms(5)
      by (auto simp: Let_def budget_def calculate_phase_budgets_def max_def min_def split: if_splits)
  next
    case False
    then show ?thesis using new assms(5)
      by (auto simp: Let_def budget_def calculate_phase_budgets_def max_def min_def split: if_splits)
  qed
qed

definition metered_limiter :: limiter where
  "metered_limiter = example_limiter\<lparr>snapshots := (\<lambda>q. fst (phase_snapshot True True 16
     \<lparr>value_a = Some 12, reading_reason = None, age_s = Some 1\<rparr> 414 None))\<rparr>"

lemma phase_current_within_fuse_witness:
  "limit_allocation metered_limiter True True [(0, 2500)] [0] = [(0, 1240)]
   \<and> (let base = 12 - battery_current_from_power 414;
          new = battery_current_from_power (of_int (phase_total metered_limiter L1 [(0, 1240)]))
      in new \<le> 16 + 1 / 207000000000
       \<and> (if True then base + new \<le> max base 16 + 1 / 207000000000
          else min base (- 16) - 1 / 207000000000 \<le> base - new))"
proof
  show run: "limit_allocation metered_limiter True True [(0, 2500)] [0] = [(0, 1240)]" by code_simp
  show "let base = 12 - battery_current_from_power 414;
          new = battery_current_from_power (of_int (phase_total metered_limiter L1 [(0, 1240)]))
      in new \<le> 16 + 1 / 207000000000
       \<and> (if True then base + new \<le> max base 16 + 1 / 207000000000
          else min base (- 16) - 1 / 207000000000 \<le> base - new)"
    by (rule phase_current_within_fuse [where has_sensor = "\<lambda>_. True" and limit = "\<lambda>_. 16"
          and measured = "\<lambda>_. 414" and held = "\<lambda>_. None"
          and meter = "\<lambda>_. \<lparr>value_a = Some 12, reading_reason = None, age_s = Some 1\<rparr>", OF _ _ _ _ _ _ run [symmetric]])
      (simp_all add: metered_limiter_def)
qed

end
