(* ===== verification/Distribution.thy ===== *)
theory Distribution
  imports Power_Limits Residual_Load Charge_Order Phase_Limiter
begin

text \<open>
  \<open>control/power_distribution.py\<close>: how many batteries take part, with the hysteresis and
  the wall-clock holds of the selection, and how the power is shared among them. The
  result of \<open>_battery_power_limit\<close> for each battery is in the fleet record, the verdict
  on scarce sun and the lists of available batteries are inputs of the call.
\<close>

section \<open>Context\<close>

record dist_ctx =
  guards :: guard_ctx
  nominated :: string
  scarce_day :: bool
  system_limit :: "bool \<Rightarrow> int"
  phase_limiter :: "limiter option"
  available_for :: "bool \<Rightarrow> bat list"

definition fleet_of :: "dist_ctx \<Rightarrow> fleet" where
  "fleet_of x = gfleet (guards x)"

definition automatic :: "dist_ctx \<Rightarrow> bat list \<Rightarrow> bat list" where
  "automatic x bs = filter (\<lambda>b. \<not> manual_owned (info (fleet_of x) b)) bs"

definition clamp_request :: "dist_ctx \<Rightarrow> bool \<Rightarrow> rat \<Rightarrow> bat list \<Rightarrow> rat" where
  "clamp_request x is_charging req bs =
     clamp_to_system_capacity (\<lambda>b. manual_owned (info (fleet_of x) b))
       (\<lambda>b. power_limit (fleet_of x) b is_charging) (system_limit x is_charging) req bs"

section \<open>Order\<close>

definition ordered_batteries_for_operation :: "dist_ctx \<Rightarrow> bat list \<Rightarrow> bool \<Rightarrow> bat list" where
  "ordered_batteries_for_operation x available is_charging =
     (let bs = automatic x available in
      if is_charging
      then charge_order \<lparr>ofleet = fleet_of x, charge_priority = nominated x, scarce = scarce_day x\<rparr> bs
      else (let primary = primary_coordinator (guards x) in
        sort_key (\<lambda>b. (if Some b = primary then 0 else 1 :: nat, discharge_order_key (fleet_of x) b)) bs))"

section \<open>Sharing the power\<close>

definition round_to_5w :: "rat \<Rightarrow> int" where
  "round_to_5w v = py_round (v / 5) * 5"

text \<open>
  One pass of the allocation loop: the batteries whose share reaches their limit are
  capped and leave the list. Returns the capped shares, the power left and the batteries
  left. The loop is \<open>share_out\<close>; the caller rounds each share.
\<close>

fun cap_pass :: "(bat \<Rightarrow> int) \<Rightarrow> (bat \<Rightarrow> rat) \<Rightarrow> rat \<Rightarrow> bat list \<Rightarrow> rat \<Rightarrow> (bat \<times> rat) list \<times> rat \<times> bat list" where
  "cap_pass limits weights capacity [] r = ([], r, [])"
| "cap_pass limits weights capacity (c # cs) r =
     (if of_int (limits c) \<le> r * (weights c / capacity)
      then (let (al, r', rest) = cap_pass limits weights capacity cs (r - of_int (limits c))
            in ((c, of_int (limits c)) # al, r', rest))
      else (let (al, r', rest) = cap_pass limits weights capacity cs r in (al, r', c # rest)))"

lemma cap_pass_length:
  "cap_pass l w W cs r = (al, r', rest) \<Longrightarrow> length al + length rest = length cs"
  by (induction cs arbitrary: r al r' rest) (auto split: if_splits prod.splits)

function share_out :: "(bat \<Rightarrow> int) \<Rightarrow> (bat \<Rightarrow> rat) \<Rightarrow> bat list \<Rightarrow> rat \<Rightarrow> (bat \<times> rat) list" where
  "share_out limits weights bs r =
     (if 0 < r \<and> bs \<noteq> []
      then (let capacity = sum_list (map weights bs) in
        if capacity \<le> 0 then []
        else (let (al, r', rest) = cap_pass limits weights capacity bs r in
          if al = [] then map (\<lambda>c. (c, r * (weights c / capacity))) bs
          else al @ share_out limits weights rest r'))
      else [])"
  by auto
termination
  by (relation "measure (\<lambda>(l, w, bs, r). length bs)")
    (auto dest!: cap_pass_length [OF sym] simp: neq_Nil_conv)

declare share_out.simps [simp del]

definition limit_map :: "dist_ctx \<Rightarrow> bool \<Rightarrow> bat list \<Rightarrow> (bat, int) dict" where
  "limit_map x is_charging bs = map (\<lambda>b. (b, power_limit (fleet_of x) b is_charging)) bs"

definition share_weights :: "dist_ctx \<Rightarrow> bool \<Rightarrow> bat list \<Rightarrow> (bat, rat) dict" where
  "share_weights x is_charging bs =
     (let limits = map (\<lambda>(b, l). (b, of_int l)) (limit_map x is_charging bs)
      in if is_charging then charge_allocation_weights (fleet_of x) bs limits else limits)"

definition plan_shares :: "dist_ctx \<Rightarrow> rat \<Rightarrow> bat list \<Rightarrow> bool \<Rightarrow> (bat \<times> rat) list" where
  "plan_shares x total_power bs is_charging =
     (let total_capacity = sum_list (map snd (limit_map x is_charging bs));
          r = clamp_request x is_charging (min total_power (of_int total_capacity)) bs
      in share_out (\<lambda>b. power_limit (fleet_of x) b is_charging)
           (dict_get 0 (share_weights x is_charging bs)) bs r)"

definition plan_allocation :: "dist_ctx \<Rightarrow> rat \<Rightarrow> bat list \<Rightarrow> bool \<Rightarrow> (bat, int) dict" where
  "plan_allocation x total_power bs is_charging =
     (let shares = map (\<lambda>(c, s). (c, round_to_5w s)) (plan_shares x total_power bs is_charging)
      in shares @ map (\<lambda>c. (c, 0)) (filter (\<lambda>c. c \<notin> fst ` set shares) bs))"

definition distribute_power_by_limits :: "dist_ctx \<Rightarrow> rat \<Rightarrow> bat list \<Rightarrow> bool \<Rightarrow> (bat, int) dict" where
  "distribute_power_by_limits x total_power available is_charging =
     (let bs = automatic x available in
      if bs = [] then []
      else if sum_list (map snd (limit_map x is_charging bs)) \<le> 0 then map (\<lambda>c. (c, 0)) bs
      else (let allocation = plan_allocation x total_power bs is_charging in
        case phase_limiter x of
          None \<Rightarrow> allocation
        | Some lm \<Rightarrow> limit_allocation lm True is_charging allocation
            (ordered_batteries_for_operation x (available_for x is_charging) is_charging)))"

section \<open>Selecting the batteries\<close>

definition MULTI_BATTERY_DISCHARGE_CROSSOVER_W :: rat where "MULTI_BATTERY_DISCHARGE_CROSSOVER_W = 1500"
definition MULTI_BATTERY_CHARGE_CROSSOVER_W :: rat where "MULTI_BATTERY_CHARGE_CROSSOVER_W = 1750"
definition MULTI_BATTERY_HYSTERESIS_GAP :: rat where "MULTI_BATTERY_HYSTERESIS_GAP = 1/10"
definition MULTI_BATTERY_MIN_ACTIVATION :: rat where "MULTI_BATTERY_MIN_ACTIVATION = 1/2"
definition MULTI_BATTERY_MAX_ACTIVATION :: rat where "MULTI_BATTERY_MAX_ACTIVATION = 95/100"
definition MULTI_BATTERY_SELECTION_HOLD_SECONDS :: rat where "MULTI_BATTERY_SELECTION_HOLD_SECONDS = 120"

lemmas multi_battery_consts = MULTI_BATTERY_DISCHARGE_CROSSOVER_W_def MULTI_BATTERY_CHARGE_CROSSOVER_W_def
  MULTI_BATTERY_HYSTERESIS_GAP_def MULTI_BATTERY_MIN_ACTIVATION_def MULTI_BATTERY_MAX_ACTIVATION_def
  MULTI_BATTERY_SELECTION_HOLD_SECONDS_def

record sel_state =
  active_charge :: "bat list"
  active_discharge :: "bat list"
  charge_hold :: "(bat, rat) dict"
  discharge_hold :: "(bat, rat) dict"

definition activation :: "rat \<Rightarrow> int \<Rightarrow> rat" where
  "activation crossover_w limit =
     max MULTI_BATTERY_MIN_ACTIVATION (min MULTI_BATTERY_MAX_ACTIVATION (crossover_w / of_int limit))"

text \<open>The batteries selected so far and their combined capacity.\<close>

fun pick :: "(bat \<Rightarrow> int) \<Rightarrow> rat \<Rightarrow> rat \<Rightarrow> bat list \<times> int \<Rightarrow> bat list \<Rightarrow> bat list \<times> int" where
  "pick limits crossover_w total_power (selected, combined) [] = (selected, combined)"
| "pick limits crossover_w total_power (selected, combined) (b # bs) =
     (if limits b \<le> 0 then pick limits crossover_w total_power (selected, combined) bs
      else (let combined' = combined + limits b in
        if total_power \<le> of_int combined' * activation crossover_w (limits b)
        then (selected @ [b], combined')
        else pick limits crossover_w total_power (selected @ [b], combined') bs))"

text \<open>Case A: a previously active battery stays until the power is clearly lower.\<close>

definition keep_active ::
    "(bat \<Rightarrow> int) \<Rightarrow> rat \<Rightarrow> rat \<Rightarrow> bat list \<Rightarrow> bat list \<times> int \<Rightarrow> bat \<Rightarrow> bat list \<times> int" where
  "keep_active limits crossover_w total_power available st b = (case st of (selected, combined) \<Rightarrow>
     if b \<in> set selected \<or> b \<notin> set available \<or> limits b \<le> 0 then (selected, combined)
     else (let first_limit = (if selected = [] then limits b else limits (hd selected));
               deact_thr = max MULTI_BATTERY_MIN_ACTIVATION
                 (activation crossover_w first_limit - MULTI_BATTERY_HYSTERESIS_GAP)
           in if of_int combined * deact_thr < total_power then (selected @ [b], combined + limits b)
              else (selected, combined)))"

text \<open>Case B: a newly added battery is dropped again near the threshold.\<close>

definition drop_fresh ::
    "(bat \<Rightarrow> int) \<Rightarrow> rat \<Rightarrow> rat \<Rightarrow> bat list \<Rightarrow> bat list \<times> int \<Rightarrow> bat list \<times> int" where
  "drop_fresh limits crossover_w total_power previous st = (case st of (selected, combined) \<Rightarrow>
     if 1 < length selected \<and> List.last selected \<notin> set previous
     then (let last_limit = limits (List.last selected);
               without_last = combined - last_limit;
               prev_limit = limits (List.last (butlast selected));
               thr = min (activation crossover_w prev_limit + MULTI_BATTERY_HYSTERESIS_GAP)
                       MULTI_BATTERY_MAX_ACTIVATION
           in if total_power \<le> of_int without_last * thr
              then (butlast selected, without_last) else (selected, combined))
     else (selected, combined))"

definition settle_selection ::
    "(bat \<Rightarrow> int) \<Rightarrow> rat \<Rightarrow> rat \<Rightarrow> bat list \<Rightarrow> bat list \<Rightarrow> bat list \<times> int \<Rightarrow> bat list \<times> int" where
  "settle_selection limits crossover_w total_power available previous st =
     (if previous = [] then st
      else drop_fresh limits crossover_w total_power previous
             (run (keep_active limits crossover_w total_power available) st previous))"

definition refresh_holds :: "rat \<Rightarrow> bat list \<Rightarrow> (bat, rat) dict \<Rightarrow> (bat, rat) dict" where
  "refresh_holds now selected holds =
     (if 1 < length selected
      then run (\<lambda>h b. AList.update b (now + MULTI_BATTERY_SELECTION_HOLD_SECONDS) h) holds selected
      else holds)"

definition hold_over :: "rat \<Rightarrow> (bat, rat) dict \<Rightarrow> bat list \<Rightarrow> bat list \<Rightarrow> bat \<Rightarrow> bat list" where
  "hold_over now holds available selected b =
     (if b \<notin> set selected \<and> b \<in> set available \<and> now < dict_get 0 holds b
      then selected @ [b] else selected)"

definition purge_holds :: "rat \<Rightarrow> bat list \<Rightarrow> (bat, rat) dict \<Rightarrow> (bat, rat) dict" where
  "purge_holds now selected holds = filter (\<lambda>(b, t). now < t \<and> b \<in> set selected) holds"

definition store_selection :: "bool \<Rightarrow> bat list \<Rightarrow> (bat, rat) dict \<Rightarrow> sel_state" where
  "store_selection is_charging selected holds =
     (if is_charging
      then \<lparr>active_charge = selected, active_discharge = [], charge_hold = holds, discharge_hold = []\<rparr>
      else \<lparr>active_charge = [], active_discharge = selected, charge_hold = [], discharge_hold = holds\<rparr>)"

definition with_active :: "dist_ctx \<Rightarrow> sel_state \<Rightarrow> dist_ctx" where
  "with_active x s = x\<lparr>guards := (guards x)\<lparr>gfleet := (fleet_of x)\<lparr>
     active_charge_batteries := active_charge s, active_discharge_batteries := active_discharge s\<rparr>\<rparr>\<rparr>"

definition selected_batteries ::
    "dist_ctx \<Rightarrow> sel_state \<Rightarrow> rat \<Rightarrow> bat list \<Rightarrow> bool \<Rightarrow> bat list \<times> int" where
  "selected_batteries x s power_req bs is_charging =
     (let limits = (\<lambda>b. power_limit (fleet_of x) b is_charging);
          crossover_w = (if is_charging then MULTI_BATTERY_CHARGE_CROSSOVER_W
                         else MULTI_BATTERY_DISCHARGE_CROSSOVER_W);
          previous = (if is_charging then active_charge s else active_discharge s)
      in settle_selection limits crossover_w power_req bs previous
           (pick limits crossover_w power_req ([], 0)
             (ordered_batteries_for_operation (with_active x s) bs is_charging)))"

definition select_batteries_for_operation ::
    "dist_ctx \<Rightarrow> rat \<Rightarrow> sel_state \<Rightarrow> rat \<Rightarrow> bat list \<Rightarrow> bool \<Rightarrow> bat list \<times> sel_state" where
  "select_batteries_for_operation x now s total_power available is_charging =
     (let bs = automatic x available in
      if total_power \<le> 0
      then ([], \<lparr>active_charge = [], active_discharge = [], charge_hold = [], discharge_hold = []\<rparr>)
      else if length bs \<le> 1 then (bs, store_selection is_charging bs [])
      else (let selected0 = fst (selected_batteries x s (clamp_request x is_charging total_power bs) bs is_charging);
                previous = (if is_charging then active_charge s else active_discharge s);
                holds = refresh_holds now selected0 (if is_charging then charge_hold s else discharge_hold s);
                selected = run (hold_over now holds bs) selected0 previous
            in (selected, store_selection is_charging selected (purge_holds now selected holds))))"

section \<open>Lemmas on the sharing\<close>

lemma cap_pass_spec:
  assumes "cap_pass l w W cs r = (al, r', rest)" and "0 \<le> r" and "0 < W"
    and "\<And>c. c \<in> set cs \<Longrightarrow> 0 \<le> l c \<and> 0 \<le> w c \<and> w c \<le> W"
  shows "0 \<le> r' \<and> r' = r - sum_list (map snd al) \<and> mset (map fst al @ rest) = mset cs
    \<and> (\<forall>(c, s)\<in>set al. s = of_int (l c))
    \<and> (al = [] \<longrightarrow> (\<forall>c\<in>set cs. r * (w c / W) < of_int (l c)))"
  using assms
proof (induction cs arbitrary: r al r' rest)
  case Nil
  then show ?case by simp
next
  case (Cons c cs)
  show ?case
  proof (cases "of_int (l c) \<le> r * (w c / W)")
    case True
    have "w c / W \<le> 1" using Cons.prems(3,4) by simp
    then have "r * (w c / W) \<le> r * 1" using Cons.prems(2) by (intro mult_left_mono) auto
    then have r1: "0 \<le> r - of_int (l c)" using True by simp
    obtain al1 where al: "cap_pass l w W cs (r - of_int (l c)) = (al1, r', rest)" "al = (c, of_int (l c)) # al1"
      using Cons.prems(1) True by (auto split: prod.splits)
    show ?thesis using Cons.IH [OF al(1) r1 Cons.prems(3)] Cons.prems(4) by (auto simp: al(2))
  next
    case False
    then obtain rest1 where rest: "cap_pass l w W cs r = (al, r', rest1)" "rest = c # rest1"
      using Cons.prems(1) by (auto split: prod.splits)
    show ?thesis using Cons.IH [OF rest(1) Cons.prems(2,3)] Cons.prems(4) False by (auto simp: rest(2))
  qed
qed

lemma share_out_spec:
  assumes "\<And>c. c \<in> set bs \<Longrightarrow> 0 \<le> l c \<and> 0 \<le> w c" and "0 \<le> r" and "distinct bs"
  shows "distinct (map fst (share_out l w bs r)) \<and> fst ` set (share_out l w bs r) \<subseteq> set bs
    \<and> (\<forall>(c, s)\<in>set (share_out l w bs r). 0 \<le> s \<and> s \<le> of_int (l c))
    \<and> sum_list (map snd (share_out l w bs r)) \<le> r
    \<and> ((\<forall>c\<in>set bs. 0 < l c \<longrightarrow> 0 < w c) \<and> r \<le> of_int (sum_list (map l bs))
        \<longrightarrow> sum_list (map snd (share_out l w bs r)) = r)"
  using assms
proof (induction l w bs r rule: share_out.induct)
  case (1 l w bs r)
  define W where "W = sum_list (map w bs)"
  have wW: "w c \<le> W" if "c \<in> set bs" for c
    unfolding W_def using 1(2) that by (intro member_le_sum_list_map) auto
  show ?case
  proof (cases "0 < r \<and> bs \<noteq> []")
    case False
    then have "share_out l w bs r = []" by (subst share_out.simps) auto
    then show ?thesis using False 1(3) by (auto simp: not_less)
  next
    case act: True
    show ?thesis
    proof (cases "W \<le> 0")
      case True
      then have "share_out l w bs r = []" by (subst share_out.simps) (auto simp: W_def Let_def)
      moreover have "\<not> ((\<forall>c\<in>set bs. 0 < l c \<longrightarrow> 0 < w c) \<and> r \<le> of_int (sum_list (map l bs)))"
      proof
        assume asm: "(\<forall>c\<in>set bs. 0 < l c \<longrightarrow> 0 < w c) \<and> r \<le> of_int (sum_list (map l bs))"
        have "l c = 0" if "c \<in> set bs" for c
          using wW [OF that] 1(2) [OF that] \<open>W \<le> 0\<close> asm that by force
        then have "sum_list (map l bs) = sum_list (map (\<lambda>_. 0) bs)"
          by (intro arg_cong [where f = sum_list] map_cong) auto
        then show False using asm act by (simp add: sum_list_0)
      qed
      ultimately show ?thesis using act by auto
    next
      case False
      obtain al r' rest where pass: "cap_pass l w W bs r = (al, r', rest)" by (cases "cap_pass l w W bs r") auto
      have W: "0 < W" using False by simp
      note spec = cap_pass_spec [OF pass 1(3) W]
      show ?thesis
      proof (cases "al = []")
        case True
        have eq: "share_out l w bs r = map (\<lambda>c. (c, r * (w c / W))) bs"
          using act False True pass by (subst share_out.simps) (simp add: Let_def W_def)
        have sum: "sum_list (map (\<lambda>c. r * (w c / W)) bs) = r"
        proof -
          have "sum_list (map (\<lambda>c. (r / W) * w c) bs) = r / W * W" unfolding W_def by (rule sum_list_mult_map)
          then show ?thesis using W by (simp add: mult.commute)
        qed
        have "\<forall>c\<in>set bs. r * (w c / W) < of_int (l c)" using spec 1(2) wW True by auto
        then show ?thesis using 1(2,3,4) W sum
          by (auto simp: eq comp_def intro: less_imp_le)
      next
        case capped: False
        have eq: "share_out l w bs r = al @ share_out l w rest r'"
          using act False capped pass by (subst share_out.simps) (simp add: Let_def W_def)
        have sp: "0 \<le> r'" "r' = r - sum_list (map snd al)" "mset (map fst al @ rest) = mset bs"
          "\<forall>(c, s)\<in>set al. s = of_int (l c)"
          using spec 1(2) wW by auto
        have dist: "distinct (map fst al @ rest)" using sp(3) 1(4) by (metis mset_eq_imp_distinct_iff)
        have sets: "fst ` set al \<union> set rest = set bs" using sp(3) by (metis mset_eq_setD set_append set_map)
        have IH: "distinct (map fst (share_out l w rest r')) \<and> fst ` set (share_out l w rest r') \<subseteq> set rest
            \<and> (\<forall>(c, s)\<in>set (share_out l w rest r'). 0 \<le> s \<and> s \<le> of_int (l c))
            \<and> sum_list (map snd (share_out l w rest r')) \<le> r'
            \<and> ((\<forall>c\<in>set rest. 0 < l c \<longrightarrow> 0 < w c) \<and> r' \<le> of_int (sum_list (map l rest))
                \<longrightarrow> sum_list (map snd (share_out l w rest r')) = r')"
          by (rule 1(1) [OF act W_def False pass [symmetric] refl refl capped]) (use 1(2) sets sp(1) dist in auto)
        have caps: "sum_list (map snd al) = of_int (sum_list (map l (map fst al)))"
          using sp(4) by (auto simp: comp_def case_prod_unfold simp flip: sum_list_of_int_map intro!: arg_cong [where f = sum_list])
        have total: "sum_list (map l bs) = sum_list (map l (map fst al)) + sum_list (map l rest)"
          using sp(3) by (metis map_append mset_map sum_list_append sum_mset_sum_list)
        let ?sh = "share_out l w rest r'"
        have "distinct (map fst (al @ ?sh))" using IH dist by auto
        moreover have "fst ` set (al @ ?sh) \<subseteq> set bs" using IH sets by auto
        moreover have "\<forall>(c, s)\<in>set (al @ ?sh). 0 \<le> s \<and> s \<le> of_int (l c)"
        proof -
          have "0 \<le> l c" if "(c, s) \<in> set al" for c s
          proof -
            have "c \<in> fst ` set al" using that by force
            then show ?thesis using sets 1(2) by blast
          qed
          then show ?thesis using IH sp(4) by auto
        qed
        moreover have "sum_list (map snd (al @ ?sh)) \<le> r" using IH sp(2) by simp
        moreover have "sum_list (map snd (al @ ?sh)) = r"
          if "(\<forall>c\<in>set bs. 0 < l c \<longrightarrow> 0 < w c) \<and> r \<le> of_int (sum_list (map l bs))"
        proof -
          have "r' \<le> of_int (sum_list (map l rest))" using that sp(2) caps total by simp
          moreover have "\<forall>c\<in>set rest. 0 < l c \<longrightarrow> 0 < w c" using that sets by blast
          ultimately show ?thesis using IH sp(2) by simp
        qed
        ultimately show ?thesis unfolding eq by blast
      qed
    qed
  qed
qed

lemma round_to_5w_bounds:
  "of_int (round_to_5w v) \<le> v + 5/2" "v - 5/2 \<le> of_int (round_to_5w v)" "0 \<le> v \<Longrightarrow> 0 \<le> round_to_5w v"
  using py_round_upper [of "v / 5"] py_round_lower [of "v / 5"] py_round_nonneg [of "v / 5"]
  by (auto simp: round_to_5w_def)

lemma round_to_5w_sum:
  "\<bar>of_int (sum_list (map (round_to_5w \<circ> snd) xs)) - sum_list (map snd xs)\<bar> \<le> 5/2 * of_nat (length xs)"
proof (induction xs)
  case (Cons x xs)
  let ?a = "of_int (round_to_5w (snd x)) - snd x"
  let ?b = "of_int (sum_list (map (round_to_5w \<circ> snd) xs)) - sum_list (map snd xs)"
  have "\<bar>?a\<bar> \<le> 5/2" using round_to_5w_bounds(1,2) [of "snd x"] unfolding abs_le_iff by linarith
  moreover have "\<bar>?a + ?b\<bar> \<le> \<bar>?a\<bar> + \<bar>?b\<bar>" by (rule abs_triangle_ineq)
  moreover have "5/2 * of_nat (length (x # xs)) = (5/2 :: rat) + 5/2 * of_nat (length xs)" by simp
  moreover have "of_int (sum_list (map (round_to_5w \<circ> snd) (x # xs))) - sum_list (map snd (x # xs)) = ?a + ?b"
    by simp
  ultimately show ?case using Cons.IH by linarith
qed simp

lemma limit_map_get: "b \<in> set bs \<Longrightarrow> dict_get 0 (limit_map x ch bs) b = power_limit (fleet_of x) b ch"
  by (induction bs) (auto simp: limit_map_def dict_get_def)

lemma share_weights_nonneg:
  assumes "\<And>b. 0 \<le> power_limit (fleet_of x) b ch"
  shows "0 \<le> dict_get 0 (share_weights x ch bs) b"
proof -
  let ?lims = "map (\<lambda>(b, l). (b, of_int l :: rat)) (limit_map x ch bs)"
  have lims: "0 \<le> dict_get 0 ?lims b"
    using assms by (induction bs) (auto simp: limit_map_def dict_get_def)
  have "0 \<le> dict_get 0 ws b" if "room_weights (fleet_of x) bs = Some ws" for ws
    using that
  proof (induction bs arbitrary: ws)
    case (Cons c bs)
    then show ?case by (fastforce simp: dict_get_def dest!: battery_remaining_kwh_nonneg split: option.splits if_splits)
  qed (simp add: dict_get_def)
  with lims show ?thesis
    by (auto simp: share_weights_def Let_def charge_allocation_weights_def split: option.splits)
qed

lemma discharge_weights: "b \<in> set bs \<Longrightarrow> dict_get 0 (share_weights x False bs) b = of_int (power_limit (fleet_of x) b False)"
  by (induction bs) (auto simp: share_weights_def limit_map_def dict_get_def)

lemma clamp_request_bounds:
  assumes "\<And>b. 0 \<le> power_limit (fleet_of x) b ch" and "0 \<le> req"
  shows "0 \<le> clamp_request x ch req bs \<and> clamp_request x ch req bs \<le> req
    \<and> clamp_request x ch req bs \<le> of_int (sum_list (map (\<lambda>b. power_limit (fleet_of x) b ch) (automatic x bs)))"
  using assms effective_system_capacity_nonneg [of "\<lambda>b. power_limit (fleet_of x) b ch"]
  by (auto simp: clamp_request_def clamp_to_system_capacity_def effective_system_capacity_def automatic_def Let_def)

lemma plan_shares_spec:
  assumes "distinct bs" and "\<And>b. 0 \<le> power_limit (fleet_of x) b ch" and "0 \<le> req"
    and "\<forall>b\<in>set bs. 0 < power_limit (fleet_of x) b ch \<longrightarrow> 0 < dict_get 0 (share_weights x ch bs) b"
  shows "distinct (map fst (plan_shares x req bs ch)) \<and> fst ` set (plan_shares x req bs ch) \<subseteq> set bs
    \<and> (\<forall>(c, s)\<in>set (plan_shares x req bs ch). 0 \<le> s \<and> s \<le> of_int (power_limit (fleet_of x) c ch))
    \<and> sum_list (map snd (plan_shares x req bs ch))
        = clamp_request x ch (min req (of_int (sum_list (map snd (limit_map x ch bs))))) bs"
proof -
  let ?cap = "sum_list (map (\<lambda>b. power_limit (fleet_of x) b ch) bs)"
  have cap: "sum_list (map snd (limit_map x ch bs)) = ?cap" by (simp add: limit_map_def comp_def)
  have "0 \<le> ?cap" using assms(2) by (intro sum_list_nonneg_map) auto
  then have r: "0 \<le> clamp_request x ch (min req (of_int ?cap)) bs"
    "clamp_request x ch (min req (of_int ?cap)) bs \<le> of_int ?cap"
    using clamp_request_bounds [OF assms(2), of "min req (of_int ?cap)" bs] assms(3) by auto
  show ?thesis
    using share_out_spec [of bs "\<lambda>b. power_limit (fleet_of x) b ch" "dict_get 0 (share_weights x ch bs)"
        "clamp_request x ch (min req (of_int ?cap)) bs"]
      assms(1,2,4) share_weights_nonneg [OF assms(2)] r
    by (simp add: plan_shares_def cap Let_def)
qed

text \<open>
  C26. Without the phase limiter, the distribution delivers the request, clamped to what
  the batteries and the system can do, up to 2.5 W of rounding per battery, and gives no
  battery a negative power nor more than its limit plus that rounding. On a charge this
  needs every battery with a limit to carry some weight.
\<close>

theorem distribution_delivers_request:
  assumes "phase_limiter x = None" and "distinct available" and "0 \<le> req"
    and "\<And>b. 0 \<le> power_limit (fleet_of x) b ch"
    and "ch \<Longrightarrow> \<forall>b\<in>set (automatic x available). 0 < power_limit (fleet_of x) b ch \<longrightarrow>
          0 < dict_get 0 (share_weights x ch (automatic x available)) b"
    and "r = distribute_power_by_limits x req available ch"
  shows "set (map fst r) = set (automatic x available) \<and> distinct (map fst r)
    \<and> (\<forall>(b, v)\<in>set r. 0 \<le> v \<and> of_int v \<le> of_int (power_limit (fleet_of x) b ch) + (5/2 :: rat))
    \<and> \<bar>of_int (sum_list (map snd r))
        - clamp_request x ch (min req (of_int (sum_list (map snd (limit_map x ch (automatic x available))))))
            (automatic x available)\<bar>
      \<le> 5/2 * of_nat (length (automatic x available))"
proof -
  let ?bs = "automatic x available"
  let ?lim = "\<lambda>b. power_limit (fleet_of x) b ch"
  let ?req = "clamp_request x ch (min req (of_int (sum_list (map snd (limit_map x ch ?bs))))) ?bs"
  let ?shares = "plan_shares x req ?bs ch"
  have bs: "distinct ?bs" using assms(2) by (simp add: automatic_def)
  have w: "\<forall>b\<in>set ?bs. 0 < ?lim b \<longrightarrow> 0 < dict_get 0 (share_weights x ch ?bs) b"
    using assms(5) discharge_weights by (cases ch) auto
  have lims: "sum_list (map snd (limit_map x ch ?bs)) = sum_list (map ?lim ?bs)"
    by (simp add: limit_map_def comp_def)
  note spec = plan_shares_spec [OF bs assms(4,3) w]
  consider (empty) "?bs = []" | (zero) "?bs \<noteq> []" "sum_list (map ?lim ?bs) \<le> 0"
    | (plan) "?bs \<noteq> []" "0 < sum_list (map ?lim ?bs)" by linarith
  then show ?thesis
  proof cases
    case empty
    then show ?thesis using clamp_request_bounds [OF assms(4), of "min req 0" "[]"] assms(3,6)
      by (simp add: distribute_power_by_limits_def limit_map_def automatic_def min_def split: if_splits)
  next
    case zero
    then have "r = map (\<lambda>c. (c, 0)) ?bs"
      using assms(6) by (simp add: distribute_power_by_limits_def lims Let_def)
    moreover have "0 \<le> sum_list (map ?lim ?bs)" using assms(4) by (intro sum_list_nonneg_map) auto
    moreover have "?req = 0"
      using clamp_request_bounds [OF assms(4), of "min req 0" ?bs] assms(3) zero \<open>0 \<le> sum_list (map ?lim ?bs)\<close>
      by (simp add: lims)
    ultimately show ?thesis using bs assms(4) by (auto simp: comp_def sum_list_0)
  next
    case plan
    define zeros where "zeros = filter (\<lambda>c. c \<notin> fst ` set ?shares) ?bs"
    have r: "r = map (\<lambda>(c, s). (c, round_to_5w s)) ?shares @ map (\<lambda>c. (c, 0)) zeros"
      using assms(1,6) plan
      by (simp add: distribute_power_by_limits_def lims Let_def plan_allocation_def zeros_def image_image
          case_prod_unfold)
    have keys: "map fst r = map fst ?shares @ zeros" by (simp add: r comp_def case_prod_unfold)
    have "card (set (map fst ?shares)) \<le> card (set ?bs)" using spec by (intro card_mono) auto
    moreover have "distinct (map fst ?shares)" using spec by blast
    ultimately have "length ?shares \<le> length ?bs" using bs by (simp only: distinct_card length_map)
    then have "5/2 * of_nat (length ?shares) \<le> (5/2 * of_nat (length ?bs) :: rat)" by simp
    moreover have "sum_list (map snd r) = sum_list (map (round_to_5w \<circ> snd) ?shares)"
      by (simp add: r comp_def case_prod_unfold sum_list_0)
    moreover note round_to_5w_sum [of ?shares]
    ultimately have "\<bar>of_int (sum_list (map snd r)) - ?req\<bar> \<le> 5/2 * of_nat (length ?bs)"
      using spec by simp
    moreover have "set (map fst r) = set ?bs" "distinct (map fst r)"
      using spec bs by (auto simp: keys zeros_def)
    moreover have "\<forall>(b, v)\<in>set r. 0 \<le> v \<and> of_int v \<le> of_int (?lim b) + (5/2 :: rat)"
    proof -
      have "0 \<le> round_to_5w s \<and> of_int (round_to_5w s) \<le> of_int (?lim c) + (5/2 :: rat)"
        if "(c, s) \<in> set ?shares" for c s
      proof -
        have "0 \<le> s \<and> s \<le> of_int (?lim c)" using spec that by auto
        then show ?thesis using round_to_5w_bounds [of s] by auto
      qed
      then show ?thesis using assms(4) by (auto simp: r)
    qed
    ultimately show ?thesis by blast
  qed
qed

section \<open>Lemmas on the selection\<close>

lemma drop_fresh_subset: "set (fst (drop_fresh l cw t p st)) \<subseteq> set (fst st)"
  by (auto simp: drop_fresh_def Let_def split: prod.splits dest: in_set_butlastD)

definition carries :: "(bat \<Rightarrow> int) \<Rightarrow> bat list \<times> int \<Rightarrow> bool" where
  "carries l st \<longleftrightarrow> distinct (fst st) \<and> snd st = sum_list (map l (fst st)) \<and> (\<forall>b\<in>set (fst st). 0 < l b)"

lemma activation_bounds: "1/2 \<le> activation cw k" "activation cw k \<le> 95/100"
  by (auto simp: activation_def multi_battery_consts max_def min_def)

lemma carries_nonneg: "carries l st \<Longrightarrow> 0 \<le> snd st"
  by (auto simp: carries_def intro!: sum_list_nonneg_map)

lemma pick_spec:
  assumes "carries l (sel, comb)" and "distinct (sel @ bs)" and "0 \<le> t"
  shows "carries l (pick l cw t (sel, comb) bs)
    \<and> set (fst (pick l cw t (sel, comb) bs)) \<subseteq> set sel \<union> set bs
    \<and> (t \<le> of_int (snd (pick l cw t (sel, comb) bs))
       \<or> snd (pick l cw t (sel, comb) bs) = comb + sum_list (map (\<lambda>b. max 0 (l b)) bs))"
  using assms
proof (induction bs arbitrary: sel comb)
  case Nil
  then show ?case by simp
next
  case (Cons b bs)
  show ?case
  proof (cases "l b \<le> 0")
    case True
    then show ?thesis using Cons by auto
  next
    case False
    let ?c = "comb + l b"
    have inv: "carries l (sel @ [b], ?c)" using Cons.prems False by (auto simp: carries_def)
    show ?thesis
    proof (cases "t \<le> of_int ?c * activation cw (l b)")
      case True
      have "0 \<le> ?c" using carries_nonneg [OF inv] by simp
      then have "of_int ?c * activation cw (l b) \<le> of_int ?c * 1"
        using activation_bounds [of cw "l b"] by (intro mult_left_mono) auto
      then have "t \<le> of_int ?c" using True by simp
      then show ?thesis using True False inv by (auto simp: Let_def)
    next
      case more: False
      have "distinct ((sel @ [b]) @ bs)" using Cons.prems(2) by simp
      from Cons.IH [OF inv this Cons.prems(3)] show ?thesis using False more by (auto simp: Let_def)
    qed
  qed
qed

lemma keep_active_spec:
  assumes "carries l st"
  shows "carries l (keep_active l cw t av st b) \<and> set (fst (keep_active l cw t av st b)) \<subseteq> set (fst st) \<union> set av
    \<and> snd st \<le> snd (keep_active l cw t av st b)"
  using assms by (auto simp: keep_active_def carries_def Let_def split: prod.splits)

lemma run_keep_active_spec:
  "carries l st \<Longrightarrow> carries l (run (keep_active l cw t av) st ps)
    \<and> set (fst (run (keep_active l cw t av) st ps)) \<subseteq> set (fst st) \<union> set av
    \<and> snd st \<le> snd (run (keep_active l cw t av) st ps)"
proof (induction ps arbitrary: st)
  case (Cons p ps)
  note k = keep_active_spec [OF Cons.prems, of cw t av p]
  from k Cons.IH [of "keep_active l cw t av st p"] show ?case by auto
qed simp

lemma drop_fresh_spec:
  assumes "carries l st" and "t \<le> of_int (snd st)"
  shows "carries l (drop_fresh l cw t ps st) \<and> t \<le> of_int (snd (drop_fresh l cw t ps st))"
proof -
  obtain sel comb where st: "st = (sel, comb)" by (cases st) auto
  let ?thr = "min (activation cw (l (List.last (butlast sel))) + MULTI_BATTERY_HYSTERESIS_GAP)
                MULTI_BATTERY_MAX_ACTIVATION"
  let ?less = "comb - l (List.last sel)"
  show ?thesis
  proof (cases "1 < length sel \<and> List.last sel \<notin> set ps \<and> t \<le> of_int ?less * ?thr")
    case False
    then show ?thesis using assms by (auto simp: drop_fresh_def st Let_def)
  next
    case True
    then have eq: "drop_fresh l cw t ps st = (butlast sel, ?less)"
      by (auto simp: drop_fresh_def st Let_def)
    have split: "sel = butlast sel @ [List.last sel]" using True by (intro append_butlast_last_id [symmetric]) auto
    have "carries l (butlast sel @ [List.last sel], comb)" using assms(1) split by (simp add: st)
    then have inv: "carries l (butlast sel, ?less)" by (auto simp: carries_def)
    have "?thr \<le> 1" by (simp add: multi_battery_consts)
    then have "of_int ?less * ?thr \<le> of_int ?less * 1"
      using carries_nonneg [OF inv] by (intro mult_left_mono) auto
    then show ?thesis using True inv by (simp add: eq)
  qed
qed

lemma settle_selection_spec:
  assumes "carries l st" and "t \<le> of_int (snd st)"
  shows "carries l (settle_selection l cw t av ps st) \<and> t \<le> of_int (snd (settle_selection l cw t av ps st))
    \<and> set (fst (settle_selection l cw t av ps st)) \<subseteq> set (fst st) \<union> set av"
proof -
  let ?k = "run (keep_active l cw t av) st ps"
  have k: "carries l ?k" "set (fst ?k) \<subseteq> set (fst st) \<union> set av" "t \<le> of_int (snd ?k)"
    using run_keep_active_spec [OF assms(1), of cw t av ps] assms(2) by auto
  then show ?thesis
    using drop_fresh_spec [OF k(1,3), of cw ps] drop_fresh_subset [of l cw t ps ?k] assms
    by (auto simp: settle_selection_def)
qed

lemma run_hold_over_spec:
  "set sel \<subseteq> set (run (hold_over now h av) sel ps)
    \<and> set (run (hold_over now h av) sel ps) \<subseteq> set sel \<union> set av
    \<and> (distinct sel \<longrightarrow> distinct (run (hold_over now h av) sel ps))
    \<and> (\<forall>b\<in>set ps. b \<in> set av \<and> now < dict_get 0 h b \<longrightarrow> b \<in> set (run (hold_over now h av) sel ps))"
proof (induction ps arbitrary: sel)
  case (Cons p ps)
  have "set sel \<subseteq> set (hold_over now h av sel p)" "set (hold_over now h av sel p) \<subseteq> set sel \<union> set av"
    "distinct sel \<longrightarrow> distinct (hold_over now h av sel p)"
    "p \<in> set av \<and> now < dict_get 0 h p \<longrightarrow> p \<in> set (hold_over now h av sel p)"
    by (auto simp: hold_over_def)
  with Cons.IH [of "hold_over now h av sel p"] show ?case by (simp; blast)
qed simp

lemma sum_distinct_subset_le:
  "distinct xs \<Longrightarrow> set xs \<subseteq> set ys \<Longrightarrow> (\<And>b. 0 \<le> (f b :: int)) \<Longrightarrow> sum_list (map f xs) \<le> sum_list (map f (remdups ys))"
  by (simp add: sum_list_distinct_conv_sum_set sum_mono2)


lemma with_active_simps [simp]:
  "info (fleet_of (with_active x s)) = info (fleet_of x)"
  "automatic (with_active x s) bs = automatic x bs"
  by (auto simp: with_active_def fleet_of_def automatic_def)

lemma automatic_idem [simp]: "automatic x (automatic x bs) = automatic x bs"
  by (simp add: automatic_def)

lemma sum_list_mset_eq:
  "mset xs = mset ys \<Longrightarrow> sum_list (map f xs) = (sum_list (map f ys) :: 'b :: comm_monoid_add)"
  by (metis mset_map sum_mset_sum_list)

lemma ordered_mset: "mset (ordered_batteries_for_operation x bs ch) = mset (automatic x bs)"
  by (simp add: ordered_batteries_for_operation_def Let_def)

definition holds_of :: "bool \<Rightarrow> sel_state \<Rightarrow> (bat, rat) dict" where
  "holds_of ch s = (if ch then charge_hold s else discharge_hold s)"

definition active_of :: "bool \<Rightarrow> sel_state \<Rightarrow> bat list" where
  "active_of ch s = (if ch then active_charge s else active_discharge s)"

definition first_choice :: "dist_ctx \<Rightarrow> sel_state \<Rightarrow> rat \<Rightarrow> bat list \<Rightarrow> bool \<Rightarrow> bat list" where
  "first_choice x s req available ch =
     fst (selected_batteries x s (clamp_request x ch req (automatic x available)) (automatic x available) ch)"

lemma select_split:
  assumes "0 < req" and "1 < length (automatic x available)"
  shows "select_batteries_for_operation x now s req available ch =
    (let sel0 = first_choice x s req available ch;
         h = refresh_holds now sel0 (holds_of ch s);
         sel = run (hold_over now h (automatic x available)) sel0 (active_of ch s)
     in (sel, store_selection ch sel (purge_holds now sel h)))"
  using assms by (simp add: select_batteries_for_operation_def first_choice_def holds_of_def active_of_def Let_def)

text \<open>
  The selection is made of distinct automatic batteries and, whatever the
  thresholds, the hysteresis and the holds decide, their limits together carry the
  clamped request.
\<close>

theorem selection_carries_request:
  assumes "distinct available" and "\<And>b. 0 \<le> power_limit (fleet_of x) b ch" and "0 < req"
    and "select_batteries_for_operation x now s req available ch = (sel, s')"
  shows "distinct sel \<and> set sel \<subseteq> set (automatic x available)
    \<and> clamp_request x ch req (automatic x available)
        \<le> of_int (sum_list (map (\<lambda>b. power_limit (fleet_of x) b ch) sel))"
proof -
  let ?bs = "automatic x available"
  let ?lim = "\<lambda>b. power_limit (fleet_of x) b ch"
  let ?t = "clamp_request x ch req ?bs"
  have bs: "distinct ?bs" using assms(1) by (simp add: automatic_def)
  have t: "0 \<le> ?t" "?t \<le> of_int (sum_list (map ?lim ?bs))"
    using clamp_request_bounds [OF assms(2), of req ?bs] assms(3) by auto
  show ?thesis
  proof (cases "length ?bs \<le> 1")
    case True
    then show ?thesis using assms(3,4) bs t by (auto simp: select_batteries_for_operation_def Let_def)
  next
    case False
    let ?prev = "if ch then active_charge s else active_discharge s"
    let ?cw = "if ch then MULTI_BATTERY_CHARGE_CROSSOVER_W else MULTI_BATTERY_DISCHARGE_CROSSOVER_W"
    let ?ord = "ordered_batteries_for_operation (with_active x s) ?bs ch"
    let ?picked = "pick ?lim ?cw ?t ([], 0) ?ord"
    let ?sel0 = "settle_selection ?lim ?cw ?t ?bs ?prev ?picked"
    have ord: "mset ?ord = mset ?bs" by (simp add: ordered_mset)
    then have ord_set: "set ?ord = set ?bs" and "distinct ?ord"
      using bs mset_eq_imp_distinct_iff by (auto dest: mset_eq_setD)
    moreover have "sum_list (map (\<lambda>b. max 0 (?lim b)) ?ord) = sum_list (map ?lim ?bs)"
      using sum_list_mset_eq [OF ord, of ?lim] assms(2) by (simp add: max.absorb2)
    ultimately have "carries ?lim ?picked" "set (fst ?picked) \<subseteq> set ?bs" "?t \<le> of_int (snd ?picked)"
      using pick_spec [of ?lim "[]" 0 ?ord ?t ?cw] t by (auto simp: carries_def)
    then have sel0: "carries ?lim ?sel0" "?t \<le> of_int (snd ?sel0)" "set (fst ?sel0) \<subseteq> set ?bs"
      using settle_selection_spec [of ?lim ?picked ?t ?cw ?bs ?prev] by auto
    let ?h = "refresh_holds now (first_choice x s req available ch) (holds_of ch s)"
    have fc: "first_choice x s req available ch = fst ?sel0"
      unfolding first_choice_def selected_batteries_def Let_def by (rule refl)
    have len: "1 < length ?bs" using False by linarith
    have sel: "sel = run (hold_over now ?h ?bs) (fst ?sel0) (active_of ch s)"
      using assms(4) unfolding select_split [OF assms(3) len] Let_def fc by (rule Pair_inject) (rule sym)
    have sub: "set (fst ?sel0) \<subseteq> set sel" "set sel \<subseteq> set ?bs" "distinct sel"
      using run_hold_over_spec [of "fst ?sel0" now ?h ?bs "active_of ch s"] sel0(1,3)
      unfolding sel carries_def by blast+
    have "sum_list (map ?lim (fst ?sel0)) \<le> sum_list (map ?lim sel)"
      using sum_distinct_subset_le [of "fst ?sel0" sel ?lim] sel0(1) sub assms(2)
      by (simp add: carries_def distinct_remdups_id)
    then have "?t \<le> of_int (sum_list (map ?lim sel))"
      using sel0(1,2) by (simp add: carries_def)
    then show ?thesis using sub by blast
  qed
qed

type_synonym sel_call = "dist_ctx \<times> rat \<times> rat \<times> bat list"

fun sel_step :: "bool \<Rightarrow> sel_state \<Rightarrow> sel_call \<Rightarrow> sel_state" where
  "sel_step ch s (x, now, req, available) = snd (select_batteries_for_operation x now s req available ch)"

text \<open>A call that keeps battery \<open>b\<close> wanted before time \<open>until\<close>.\<close>

fun wants :: "bat \<Rightarrow> rat \<Rightarrow> sel_call \<Rightarrow> bool" where
  "wants b until (x, now, req, available) \<longleftrightarrow> until - MULTI_BATTERY_SELECTION_HOLD_SECONDS \<le> now \<and> now < until
     \<and> 0 < req \<and> b \<in> set (automatic x available) \<and> 1 < length (automatic x available)"

definition held :: "bool \<Rightarrow> bat \<Rightarrow> rat \<Rightarrow> sel_state \<Rightarrow> bool" where
  "held ch b until s \<longleftrightarrow> b \<in> set (active_of ch s) \<and> until \<le> dict_get 0 (holds_of ch s) b
     \<and> distinct (map fst (holds_of ch s))"

lemma dict_get_purge:
  "distinct (map fst h) \<Longrightarrow> now < dict_get 0 h b \<Longrightarrow> b \<in> set sel
    \<Longrightarrow> dict_get 0 (purge_holds now sel h) b = dict_get 0 h b"
proof (induction h)
  case (Cons e h)
  obtain c t where e: "e = (c, t)" by (cases e) auto
  show ?case
  proof (cases "c = b")
    case True
    then show ?thesis using Cons.prems by (simp add: e purge_holds_def dict_get_def)
  next
    case False
    then show ?thesis using Cons by (auto simp: e purge_holds_def dict_get_def)
  qed
qed (simp add: dict_get_def purge_holds_def)

lemma run_update_holds:
  "distinct (map fst h) \<Longrightarrow> distinct (map fst (run (\<lambda>h b. AList.update b v h) h bs))
    \<and> dict_get 0 (run (\<lambda>h b. AList.update b v h) h bs) c = (if c \<in> set bs then v else dict_get 0 h c)"
  by (induction bs arbitrary: h) (auto simp: dict_get_update distinct_keys_update)

lemma refresh_holds_spec:
  "distinct (map fst h) \<Longrightarrow> distinct (map fst (refresh_holds now sel h))
    \<and> (dict_get 0 (refresh_holds now sel h) c = dict_get 0 h c
       \<or> dict_get 0 (refresh_holds now sel h) c = now + MULTI_BATTERY_SELECTION_HOLD_SECONDS)
    \<and> (1 < length sel \<and> c \<in> set sel \<longrightarrow>
        dict_get 0 (refresh_holds now sel h) c = now + MULTI_BATTERY_SELECTION_HOLD_SECONDS)"
  using run_update_holds [of h "now + MULTI_BATTERY_SELECTION_HOLD_SECONDS" sel c]
  by (auto simp: refresh_holds_def)


lemma keys_purge: "distinct (map fst h) \<Longrightarrow> distinct (map fst (purge_holds now sel h))"
  by (auto simp: purge_holds_def distinct_map_filter)

lemma store_selection_of [simp]:
  "active_of ch (store_selection ch sel h) = sel" "holds_of ch (store_selection ch sel h) = h"
  by (auto simp: active_of_def holds_of_def store_selection_def)

lemma refresh_holds_until:
  assumes "distinct (map fst h)" and "until \<le> dict_get 0 h b \<or> 1 < length sel \<and> b \<in> set sel"
    and "until - MULTI_BATTERY_SELECTION_HOLD_SECONDS \<le> now"
  shows "until \<le> dict_get 0 (refresh_holds now sel h) b"
  using refresh_holds_spec [OF assms(1), of now sel b] assms(2,3) by auto

lemma held_call:
  assumes "wants b until (x, now, req, available)" and "distinct (map fst (holds_of ch s))"
    and "held ch b until s
      \<or> 1 < length (first_choice x s req available ch) \<and> b \<in> set (first_choice x s req available ch)"
  shows "b \<in> set (fst (select_batteries_for_operation x now s req available ch))
    \<and> held ch b until (snd (select_batteries_for_operation x now s req available ch))"
proof -
  have req: "0 < req" and len: "1 < length (automatic x available)" and mem: "b \<in> set (automatic x available)"
    and time: "until - MULTI_BATTERY_SELECTION_HOLD_SECONDS \<le> now" "now < until"
    using assms(1) by auto
  let ?chosen = "first_choice x s req available ch"
  let ?h = "refresh_holds now ?chosen (holds_of ch s)"
  let ?sel = "run (hold_over now ?h (automatic x available)) ?chosen (active_of ch s)"
  have eq: "select_batteries_for_operation x now s req available ch
      = (?sel, store_selection ch ?sel (purge_holds now ?sel ?h))"
    by (simp only: select_split [OF req len] Let_def)
  have "until \<le> dict_get 0 ?h b"
    using refresh_holds_until [OF assms(2) _ time(1), where b = b and sel = ?chosen] assms(3) by (auto simp: held_def)
  then have h: "until \<le> dict_get 0 ?h b" "now < dict_get 0 ?h b" using time(2) by auto
  have sel: "b \<in> set ?sel"
    using run_hold_over_spec [of ?chosen now ?h "automatic x available" "active_of ch s"] assms(3) mem h(2)
    unfolding held_def by blast
  have dist: "distinct (map fst ?h)" using refresh_holds_spec [OF assms(2)] by blast
  have "held ch b until (store_selection ch ?sel (purge_holds now ?sel ?h))"
    using sel h(1) dict_get_purge [OF dist h(2) sel] keys_purge [OF dist] by (simp add: held_def)
  then show ?thesis using sel by (simp add: eq)
qed

interpretation held: invariant_machine "sel_step ch" "held ch b until" "wants b until" for ch b until
proof
  fix s e
  assume "held ch b until s" and "wants b until e"
  then show "held ch b until (sel_step ch s e)"
    using held_call [of b until _ _ _ _ ch s] by (cases e) (auto simp: held_def)
qed

text \<open>
  A battery that a call selects as part of a split stays selected by every later call
  of the next 120 seconds that still has power to share in the same direction and still
  offers it among several batteries, whatever those calls decide about the others.
\<close>

theorem split_lasts_its_hold:
  assumes "distinct (map fst (holds_of ch s))" and "0 < req"
    and "1 < length (first_choice x s req available ch)" and "b \<in> set (first_choice x s req available ch)"
    and "b \<in> set (automatic x available)" and "1 < length (automatic x available)"
    and "until = now + MULTI_BATTERY_SELECTION_HOLD_SECONDS"
    and "\<And>c. c \<in> set later \<Longrightarrow> wants b until c" and "wants b until (x', now', req', available')"
  shows "b \<in> set (fst (select_batteries_for_operation x' now'
      (run (sel_step ch) s ((x, now, req, available) # later)) req' available' ch))"
proof -
  have "wants b until (x, now, req, available)"
    using assms(2,5,6,7) by (simp add: multi_battery_consts)
  then have "held ch b until (sel_step ch s (x, now, req, available))"
    using held_call [of b until x now req available ch s] assms(1,3,4) by simp
  then have "held ch b until (run (sel_step ch) s ((x, now, req, available) # later))"
    using held.run_inv [of ch b until _ later] assms(8) by simp
  then show ?thesis using held_call [OF assms(9)] by (simp add: held_def)
qed

definition example_dist :: dist_ctx where
  "example_dist = \<lparr>guards = example_guard_ctx\<lparr>primary_battery := []\<rparr>, nominated = [], scarce_day = False,
     system_limit = (\<lambda>_. 0), phase_limiter = None, available_for = (\<lambda>_. [0, 1])\<rparr>"

definition idle_selection :: sel_state where
  "idle_selection = \<lparr>active_charge = [], active_discharge = [], charge_hold = [], discharge_hold = []\<rparr>"

lemma example_limits_nonneg: "0 \<le> power_limit (fleet_of example_dist) b ch"
  by (simp add: power_limit_def fleet_of_def example_dist_def example_guard_ctx_def example_fleet_def
      example_battery_def)

lemma distribution_delivers_request_witness:
  "distribute_power_by_limits example_dist 1000 [0, 1] False = [(0, 335), (1, 665)]
   \<and> of_int 665 \<le> of_int (power_limit (fleet_of example_dist) 1 False) + (5/2 :: rat)"
proof
  show run: "distribute_power_by_limits example_dist 1000 [0, 1] False = [(0, 335), (1, 665)]" by code_simp
  show "of_int 665 \<le> of_int (power_limit (fleet_of example_dist) 1 False) + (5/2 :: rat)"
    using distribution_delivers_request [OF _ _ _ example_limits_nonneg _ run [symmetric]]
    by (simp add: example_dist_def)
qed

text \<open>The rounding to the nearest 5 W can pass the limit of a battery.\<close>

lemma rounding_passes_limit:
  "let x = example_dist\<lparr>guards := (guards example_dist)\<lparr>gfleet :=
         example_fleet\<lparr>info := (\<lambda>b. (example_battery ''Venus'' 60 2500 0 False)\<lparr>discharge_limit := 998\<rparr>)\<rparr>\<rparr>\<rparr>
   in distribute_power_by_limits x 2500 [0] False = [(0, 1000)] \<and> power_limit (fleet_of x) 0 False = 998"
  by code_simp

lemma selection_carries_request_witness:
  "fst (select_batteries_for_operation example_dist 0 idle_selection 1000 [0, 1] False) = [0]
   \<and> fst (select_batteries_for_operation example_dist 0 idle_selection 2000 [0, 1] False) = [0, 1]
   \<and> clamp_request example_dist False 2000 (automatic example_dist [0, 1])
        \<le> of_int (sum_list (map (\<lambda>b. power_limit (fleet_of example_dist) b False) [0, 1]))"
proof -
  have one: "fst (select_batteries_for_operation example_dist 0 idle_selection 1000 [0, 1] False) = [0]"
    and two: "fst (select_batteries_for_operation example_dist 0 idle_selection 2000 [0, 1] False) = [0, 1]"
    by code_simp+
  show ?thesis
    using one two selection_carries_request [of "[0, 1]" example_dist False 2000 0 idle_selection "[0, 1]"]
    by (cases "select_batteries_for_operation example_dist 0 idle_selection 2000 [0, 1] False")
      (auto simp: example_limits_nonneg)
qed

lemma split_lasts_its_hold_witness:
  "1 \<in> set (fst (select_batteries_for_operation example_dist 100
      (run (sel_step False) idle_selection [(example_dist, 0, 2000, [0, 1]), (example_dist, 50, 300, [0, 1])])
      200 [0, 1] False))"
proof -
  have "first_choice example_dist idle_selection 2000 [0, 1] False = [0, 1]"
    and "automatic example_dist [0, 1] = [0, 1]"
    by code_simp+
  then show ?thesis
    by (intro split_lasts_its_hold [where until = 120])
      (auto simp: multi_battery_consts idle_selection_def holds_of_def)
qed

end
