(* ===== verification/Control_Cycle.thy ===== *)
theory Control_Cycle
  imports PD_Control Blockers Distribution
begin

text \<open>
  The control cycle of \<open>_run_control_cycle\<close> from the idling of capacity protection on, when the
  readings are in and the target is set: the idling, the deadband and the release of load
  sharing in it, the first execution, and the regular cycle: the control law, the guards, the
  holds, the restrictions, the clamps, the distribution and the state it leaves. The readings
  of a cycle are a record, the writes to the batteries its result.
\<close>

section \<open>Inputs and state\<close>

record cycle_in =
  sensor_actual :: rat
  sensor_filtered :: rat
  target :: rat
  utc_now :: rat
  monotonic_now :: rat
  has_new_control_sample :: bool
  stale_safety_recalc :: bool
  no_pd_mode_enabled :: bool
  sensor_elapsed_s :: "rat option"
  measured_power :: "rat option"
  backcalc_saturated :: bool
  actuator_latencies :: "rat list"
  max_contracted_power :: rat
  gates :: gate_state
  price_based_discharge_blocked :: bool
  ev_pause_active :: bool
  ev_charging_active :: bool
  solar_surplus_discharge_blocked :: bool
  force_idle :: bool
  blocked_active_changed :: bool
  phase_safety_pending :: bool
  dist :: dist_ctx

record cycle_state =
  first_execution :: bool
  pd :: pd_state
  ff :: ff_state
  zero_cross_since :: "rat option"
  relay_shutoff_since :: "rat option"
  surplus_guard_latched :: bool
  last_error_sign :: int
  selection :: sel_state

definition error_of :: "cycle_in \<Rightarrow> rat" where
  "error_of i = sensor_actual i - target i"

section \<open>From the error to the shaped command\<close>

definition law :: "pd_config \<Rightarrow> cycle_in \<Rightarrow> cycle_state \<Rightarrow> cycle_state \<times> rat" where
  "law c i s =
     (let error = error_of i; p = pd s in
      if \<not> has_new_control_sample i then (s, previous_power p)
      else if no_pd_mode_enabled i
      then (s, compute_no_pd_new_power (measured_power i) (previous_power p) error)
      else (let (ff', fired) = (if stale_safety_recalc i then (ff s, False)
                  else check_feedforward_step c (previous_error p) error (monotonic_now i) (ff s));
                s1 = s\<lparr>ff := ff'\<rparr>
            in if fired
               then (s1\<lparr>pd := p\<lparr>previous_error := error, derivative_filtered := 0\<rparr>\<rparr>,
                     direction_gate c (last_output_sign p) error
                       (compute_no_pd_new_power (measured_power i) (previous_power p) error))
               else (let (p', new_power) = compute_pd_new_power c error (sensor_elapsed_s i)
                            (stale_safety_recalc i) (measured_power i) (backcalc_saturated i) (utc_now i) p
                     in (s1\<lparr>pd := p'\<rparr>, new_power))))"

definition shape :: "pd_config \<Rightarrow> cycle_in \<Rightarrow> cycle_state \<Rightarrow> rat \<Rightarrow> cycle_state \<times> rat" where
  "shape c i s p0 =
     (let error = error_of i;
          (p1, latch) = apply_guards (guards (dist i)) p0 (Some (sensor_actual i)) (surplus_guard_latched s);
          (p2, zc) = apply_zero_cross_hold (actuator_latencies i) (last_output_sign (pd s)) (utc_now i)
             (zero_cross_since s) p1 (stale_safety_recalc i);
          p3 = apply_min_power c p2 error;
          (p4, relay) = apply_relay_dwell c (previous_power (pd s)) (zc \<noteq> None) (utc_now i)
             (relay_shutoff_since s) p3 error (stale_safety_recalc i)
      in (s\<lparr>surplus_guard_latched := latch, zero_cross_since := zc, relay_shutoff_since := relay\<rparr>, p4))"

section \<open>Restrictions\<close>

text \<open>The command and \<open>operation_restricted\<close>.\<close>

definition restrict_command :: "cycle_in \<Rightarrow> rat \<Rightarrow> rat \<times> bool" where
  "restrict_command i p =
     (let is_charging = 0 < p in
      if \<not> is_operation_allowed (gates i) is_charging then (0, True)
      else if price_based_discharge_blocked i \<and> \<not> is_charging then (0, True)
      else if ev_pause_active i then (0, True)
      else if ev_charging_active i \<and> p < 0 then (0, True)
      else if solar_surplus_discharge_blocked i \<and> p < 0 then (0, True)
      else (p, False))"

definition capacity :: "cycle_in \<Rightarrow> bat list \<Rightarrow> bool \<Rightarrow> rat" where
  "capacity i available is_charging =
     (if available = [] then 0
      else of_int (effective_system_capacity (\<lambda>b. manual_owned (info (fleet_of (dist i)) b))
             (\<lambda>b. power_limit (fleet_of (dist i)) b is_charging) (system_limit (dist i) is_charging) available))"

section \<open>The end of the cycle\<close>

definition OSCILLATION_THRESHOLD :: nat where "OSCILLATION_THRESHOLD = 3"

definition detect_oscillation :: "pd_config \<Rightarrow> rat \<Rightarrow> cycle_state \<Rightarrow> cycle_state" where
  "detect_oscillation c error s =
     (if deadband c < \<bar>error\<bar>
      then (let sgn_now = sign_of error; p = pd s in
        s\<lparr>last_error_sign := sgn_now,
          pd := (if sgn_now \<noteq> 0 \<and> last_error_sign s \<noteq> 0
                 then (if sgn_now \<noteq> last_error_sign s
                       then (let n = Suc (sign_changes p) in
                         if OSCILLATION_THRESHOLD \<le> n
                         then p\<lparr>error_integral := 0, previous_error := 0, sign_changes := 0\<rparr>
                         else p\<lparr>sign_changes := n\<rparr>)
                       else p\<lparr>sign_changes := 0\<rparr>)
                 else p)\<rparr>)
      else s\<lparr>pd := (pd s)\<lparr>sign_changes := 0\<rparr>\<rparr>)"

definition finish_cycle :: "pd_config \<Rightarrow> cycle_in \<Rightarrow> bool \<Rightarrow> rat \<Rightarrow> cycle_state \<Rightarrow> cycle_state" where
  "finish_cycle c i restricted new_power s =
     (let s1 = s\<lparr>pd := (pd s)\<lparr>previous_power := new_power\<rparr>\<rparr> in
      if restricted then s1
      else (let s2 = detect_oscillation c (error_of i) s1 in
        s2\<lparr>pd := (pd s2)\<lparr>previous_error := error_of i,
             last_output_sign := (if sign_of new_power \<noteq> 0 then sign_of new_power
                                  else last_output_sign (pd s2))\<rparr>\<rparr>))"

text \<open>
  A write is \<open>_set_battery_power(coordinator, charge, discharge)\<close>: first the batteries with
  an allocation, then 0 W for every other coordinator.
\<close>

type_synonym battery_write = "bat \<times> int \<times> int"

definition writes_of :: "bat list \<Rightarrow> bool \<Rightarrow> (bat, int) dict \<Rightarrow> battery_write list" where
  "writes_of all_batteries is_charging allocation =
     (let allotted = filter (\<lambda>(b, v). 0 < v) allocation
      in map (\<lambda>(b, v). if is_charging then (b, v, 0) else (b, 0, v)) allotted
         @ map (\<lambda>b. (b, 0, 0)) (filter (\<lambda>b. b \<notin> fst ` set allotted) all_batteries))"

text \<open>
  The clamped command of a cycle: the state so far, \<open>operation_restricted\<close>, \<open>is_charging\<close>,
  the batteries available for it and the power.
\<close>

definition command :: "pd_config \<Rightarrow> cycle_in \<Rightarrow> cycle_state \<Rightarrow> cycle_state \<times> bool \<times> bool \<times> rat" where
  "command c i s =
     (let (s1, p0) = law c i s;
          (s2, p4) = shape c i s1 p0;
          (p5, restricted) = restrict_command i p4;
          is_charging = (0 < p5);
          available = available_for (dist i) is_charging
      in (s2, restricted, is_charging,
          limit_command restricted (capacity i available True) (capacity i available False)
            (max_contracted_power i) (sensor_filtered i) (previous_power (pd s2)) p5))"

definition control_cycle :: "pd_config \<Rightarrow> cycle_in \<Rightarrow> cycle_state \<Rightarrow> cycle_state \<times> battery_write list" where
  "control_cycle c i s =
     (let (s2, restricted, is_charging, p6) = command c i s;
          available = available_for (dist i) is_charging;
          all_batteries = coordinators (fleet_of (dist i))
      in if available = []
         then (s2\<lparr>pd := (pd s2)\<lparr>previous_power := 0\<rparr>,
                  selection := (selection s2)\<lparr>active_charge := [], active_discharge := []\<rparr>\<rparr>,
               map (\<lambda>b. (b, 0, 0)) all_batteries)
         else (let (selected, sel') = select_batteries_for_operation (dist i) (monotonic_now i) (selection s2)
                      \<bar>p6\<bar> available is_charging;
                   allocation = distribute_power_by_limits (dist i) \<bar>p6\<bar> selected is_charging;
                   assigned = of_int (sum_list (map snd allocation));
                   final_power = (if phase_limiter (dist i) \<noteq> None
                                  then (if is_charging then assigned else - assigned) else p6)
               in (finish_cycle c i restricted final_power (s2\<lparr>selection := sel'\<rparr>),
                   writes_of all_batteries is_charging allocation)))"

section \<open>The cycles that end early\<close>

text \<open>Every battery is stopped: \<open>_set_battery_power(coordinator, 0, 0)\<close>.\<close>

definition all_stopped :: "cycle_in \<Rightarrow> battery_write list" where
  "all_stopped i = map (\<lambda>b. (b, 0, 0)) (coordinators (fleet_of (dist i)))"

definition no_active :: "cycle_state \<Rightarrow> cycle_state" where
  "no_active s = s\<lparr>selection := (selection s)\<lparr>active_charge := [], active_discharge := []\<rparr>\<rparr>"

text \<open>Capacity protection conserves what is left.\<close>

definition idle_cycle :: "cycle_in \<Rightarrow> cycle_state \<Rightarrow> cycle_state \<times> battery_write list" where
  "idle_cycle i s =
     (no_active (s\<lparr>pd := (pd s)\<lparr>previous_power := 0, previous_error := 0, last_output_sign := 0, sign_changes := 0\<rparr>\<rparr>),
      all_stopped i)"

text \<open>\<open>_rebalance_expired_load_sharing_hold\<close>: batteries whose hold is over leave a shared command.\<close>

definition rebalance_hold :: "cycle_in \<Rightarrow> cycle_state \<Rightarrow> cycle_state \<times> battery_write list" where
  "rebalance_hold i s =
     (let power = previous_power (pd s); is_charging = (0 < power); sel = selection s;
          active = automatic (dist i) (if is_charging then active_charge sel else active_discharge sel);
          sel1 = (if is_charging then sel\<lparr>active_charge := active\<rparr> else sel\<lparr>active_discharge := active\<rparr>);
          hold_until = (if is_charging then charge_hold sel else discharge_hold sel);
          available = available_for (dist i) is_charging
      in if power = 0 then (s, [])
         else if length active \<le> 1 \<or> \<not> list_ex (\<lambda>b. dict_get 0 hold_until b \<le> monotonic_now i) active \<or> available = []
         then (s\<lparr>selection := sel1\<rparr>, [])
         else (let (selected, sel2) = select_batteries_for_operation (dist i) (monotonic_now i) sel1 \<bar>power\<bar> available is_charging;
                   allocation = distribute_power_by_limits (dist i) \<bar>power\<bar> selected is_charging;
                   assigned = of_int (sum_list (map snd allocation))
               in if set selected = set active then (s\<lparr>selection := sel2\<rparr>, [])
                  else (s\<lparr>selection := sel2, pd := (pd s)\<lparr>previous_power :=
                            (if phase_limiter (dist i) \<noteq> None then (if is_charging then assigned else - assigned) else power)\<rparr>\<rparr>,
                        writes_of (automatic (dist i) (coordinators (fleet_of (dist i)))) is_charging allocation)))"

text \<open>The meter is near the target and nothing else asks for a new command.\<close>

definition near_target :: "pd_config \<Rightarrow> cycle_in \<Rightarrow> cycle_state \<Rightarrow> bool" where
  "near_target c i s \<longleftrightarrow> \<not> first_execution s \<and> \<not> blocked_active_changed i \<and> \<not> phase_safety_pending i \<and> \<bar>error_of i\<bar> < deadband c"

definition in_deadband :: "pd_config \<Rightarrow> cycle_in \<Rightarrow> cycle_state \<Rightarrow> bool" where
  "in_deadband c i s \<longleftrightarrow> near_target c i s
     \<and> \<not> guards_pending (guards (dist i)) (previous_power (pd s)) (Some (sensor_actual i)) (surplus_guard_latched s)"

definition deadband_cycle :: "pd_config \<Rightarrow> cycle_in \<Rightarrow> cycle_state \<Rightarrow> cycle_state \<times> battery_write list" where
  "deadband_cycle c i s =
     (let p = pd s;
          p1 = (if 0 < ki c \<and> error_integral p \<noteq> 0 then p\<lparr>error_integral := 0, sign_changes := 0\<rparr> else p)
      in rebalance_hold i (s\<lparr>pd := p1\<lparr>previous_error := error_of i, derivative_filtered := 0\<rparr>, zero_cross_since := None\<rparr>))"

section \<open>The first execution\<close>

text \<open>The first command answers the error in full; a forbidden one starts at 0 W.\<close>

definition first_limited :: "cycle_in \<Rightarrow> rat" where
  "first_limited i =
     (let power = - error_of i; is_charging = (0 < power); limit = capacity i (available_for (dist i) is_charging) is_charging
      in if is_charging \<and> limit < power then limit
         else if power \<noteq> 0 \<and> \<not> is_charging \<and> limit < \<bar>power\<bar> then - limit
         else power)"

definition first_cycle :: "cycle_in \<Rightarrow> cycle_state \<Rightarrow> cycle_state \<times> battery_write list" where
  "first_cycle i s =
     (let power = - error_of i; is_charging = (0 < power);
          s1 = s\<lparr>first_execution := False, pd := (pd s)\<lparr>previous_power := power, derivative_filtered := 0\<rparr>\<rparr>;
          clean = (pd s1)\<lparr>error_integral := 0, previous_error := power, sign_changes := 0\<rparr>
      in if \<not> is_operation_allowed (gates i) is_charging \<or> \<not> is_charging \<and> price_based_discharge_blocked i
         then (no_active (s1\<lparr>pd := clean\<lparr>previous_power := 0, last_output_sign := 0\<rparr>\<rparr>), all_stopped i)
         else if available_for (dist i) is_charging = [] then (no_active s1, [])
         else (let limited = first_limited i;
                   (selected, sel') = select_batteries_for_operation (dist i) (monotonic_now i) (selection s1) \<bar>limited\<bar>
                      (available_for (dist i) is_charging) is_charging;
                   allocation = distribute_power_by_limits (dist i) \<bar>limited\<bar> selected is_charging;
                   assigned = of_int (sum_list (map snd allocation));
                   final_power = (if phase_limiter (dist i) \<noteq> None
                                  then (if is_charging then assigned else - assigned) else limited)
               in (s1\<lparr>selection := sel', pd := clean\<lparr>previous_power := final_power, last_output_sign := sign_of final_power\<rparr>\<rparr>,
                   writes_of (coordinators (fleet_of (dist i))) is_charging allocation)))"

section \<open>The cycle\<close>

text \<open>
  The guards are asked only near the target, last of the conditions of the deadband, and
  asking them moves their latch.
\<close>

definition cycle_body :: "pd_config \<Rightarrow> cycle_in \<Rightarrow> cycle_state \<Rightarrow> cycle_state \<times> battery_write list" where
  "cycle_body c i s =
     (let asked = (if near_target c i s
                   then s\<lparr>surplus_guard_latched := snd (apply_guards (guards (dist i)) (previous_power (pd s))
                            (Some (sensor_actual i)) (surplus_guard_latched s))\<rparr>
                   else s)
      in if force_idle i then idle_cycle i s
         else if in_deadband c i s then deadband_cycle c i asked
         else if coordinators (fleet_of (dist i)) = [] then (asked, [])
         else if first_execution s then first_cycle i asked
         else control_cycle c i asked)"

section \<open>Lemmas\<close>

lemma restrict_command_cases:
  "restrict_command i p = (0, True) \<or>
   restrict_command i p = (p, False) \<and> is_operation_allowed (gates i) (0 < p) \<and> \<not> ev_pause_active i
     \<and> (0 < p \<or> \<not> price_based_discharge_blocked i)
     \<and> (p < 0 \<longrightarrow> \<not> ev_charging_active i \<and> \<not> solar_surplus_discharge_blocked i)"
  by (auto simp: restrict_command_def Let_def)

lemma limit_command_sign:
  "0 \<le> tc \<Longrightarrow> 0 \<le> td \<Longrightarrow> min p 0 \<le> limit_command restricted tc td contracted g prev p
    \<and> limit_command restricted tc td contracted g prev p \<le> max p 0"
  by (auto simp: limit_command_def clamp_to_available_def icp_clamp_def Let_def)

lemma capacity_nonneg: "(\<And>b d. 0 \<le> power_limit (fleet_of (dist i)) b d) \<Longrightarrow> 0 \<le> capacity i av ch"
  by (auto simp: capacity_def intro!: effective_system_capacity_nonneg)

lemma command_direction:
  assumes "\<And>b d. 0 \<le> power_limit (fleet_of (dist i)) b d" and "command c i s = (s2, restricted, ch, p6)"
  shows "(ch \<longrightarrow> is_operation_allowed (gates i) True \<and> \<not> ev_pause_active i)
    \<and> (\<not> ch \<and> p6 \<noteq> 0 \<longrightarrow> is_operation_allowed (gates i) False \<and> \<not> ev_pause_active i
        \<and> \<not> price_based_discharge_blocked i \<and> \<not> ev_charging_active i \<and> \<not> solar_surplus_discharge_blocked i)"
proof -
  obtain s1 p0 where l: "law c i s = (s1, p0)" by fastforce
  obtain s2' p4 where sh: "shape c i s1 p0 = (s2', p4)" by fastforce
  obtain p5 restr where r: "restrict_command i p4 = (p5, restr)" by fastforce
  have ch: "ch = (0 < p5)" and p6: "p6 = limit_command restr (capacity i (available_for (dist i) ch) True)
      (capacity i (available_for (dist i) ch) False) (max_contracted_power i) (sensor_filtered i)
      (previous_power (pd s2')) p5"
    using assms(2) by (auto simp: command_def l sh r Let_def)
  have "min p5 0 \<le> p6 \<and> p6 \<le> max p5 0"
    unfolding p6 by (intro limit_command_sign capacity_nonneg assms(1))
  then show ?thesis using restrict_command_cases [of i p4] r ch by auto
qed

lemma select_nothing: "fst (select_batteries_for_operation x now s 0 available ch) = []"
  by (simp add: select_batteries_for_operation_def)

lemma distribute_nothing: "distribute_power_by_limits x req [] ch = []"
  by (simp add: distribute_power_by_limits_def automatic_def)

lemma writes_of_spec:
  "(b, u, d) \<in> set (writes_of bs ch allocation) \<Longrightarrow>
     0 \<le> u \<and> 0 \<le> d \<and> (u \<noteq> 0 \<longrightarrow> ch \<and> allocation \<noteq> []) \<and> (d \<noteq> 0 \<longrightarrow> \<not> ch \<and> allocation \<noteq> [])"
  by (cases "allocation = []") (auto simp: writes_of_def split: if_splits)

lemma law_signs:
  "sign_changes (pd (fst (law c i s))) \<le> sign_changes (pd s)
   \<and> last_output_sign (pd (fst (law c i s))) = last_output_sign (pd s)
   \<and> last_error_sign (fst (law c i s)) = last_error_sign s"
proof -
  have "sign_changes (fst (compute_pd_new_power c e el st m sat now p)) \<le> sign_changes p
    \<and> last_output_sign (fst (compute_pd_new_power c e el st m sat now p)) = last_output_sign p"
    for e el st m sat now p
  proof -
    have "sign_changes (reanchor c m sat now p) = sign_changes p"
      by (auto simp: reanchor_def Let_def split: option.splits)
    moreover have "sign_changes (integrate_error c e q) \<le> sign_changes q" for q
      by (auto simp: integrate_error_def Let_def)
    moreover have "sign_changes (derivative_step c e el st q) = sign_changes q" for q
      by (auto simp: derivative_step_def Let_def)
    ultimately show ?thesis by (simp add: compute_pd_new_power_def Let_def) metis
  qed
  then show ?thesis by (auto simp: law_def Let_def case_prod_unfold)
qed

lemma shape_pd: "pd (fst (shape c i s p)) = pd s" "last_error_sign (fst (shape c i s p)) = last_error_sign s"
  by (auto simp: shape_def Let_def case_prod_unfold)

definition cycle_inv :: "cycle_state \<Rightarrow> bool" where
  "cycle_inv s \<longleftrightarrow> sign_changes (pd s) < OSCILLATION_THRESHOLD
     \<and> last_output_sign (pd s) \<in> {- 1, 0, 1} \<and> last_error_sign s \<in> {- 1, 0, 1}"

lemma sign_of_values: "sign_of x \<in> {- 1, 0, 1}"
  by (simp add: sign_of_def)

lemma detect_oscillation_inv:
  "cycle_inv s \<Longrightarrow> cycle_inv (detect_oscillation c e s)"
  using sign_of_values [of e]
  by (auto simp: cycle_inv_def detect_oscillation_def OSCILLATION_THRESHOLD_def Let_def)

lemma finish_cycle_inv:
  assumes "cycle_inv s"
  shows "cycle_inv (finish_cycle c i restricted p s)"
proof -
  have "cycle_inv (s\<lparr>pd := (pd s)\<lparr>previous_power := p\<rparr>\<rparr>)" using assms by (simp add: cycle_inv_def)
  from detect_oscillation_inv [OF this] this show ?thesis using sign_of_values [of p]
    by (auto simp: finish_cycle_def cycle_inv_def Let_def)
qed

lemma command_inv:
  assumes "cycle_inv s"
  shows "cycle_inv (fst (command c i s))"
  using assms law_signs [of c i s] shape_pd [of c i "fst (law c i s)" "snd (law c i s)"]
  by (auto simp: command_def cycle_inv_def Let_def case_prod_unfold)

lemma control_cycle_inv:
  assumes "cycle_inv s"
  shows "cycle_inv (fst (control_cycle c i s))"
proof -
  obtain s2 restricted ch p6 where cmd: "command c i s = (s2, restricted, ch, p6)" by (metis prod_cases4)
  have "cycle_inv s2" using command_inv [OF assms, of c i] by (simp add: cmd)
  moreover from this have "cycle_inv (s2\<lparr>selection := sel\<rparr>)"
    and "cycle_inv (s2\<lparr>pd := (pd s2)\<lparr>previous_power := 0\<rparr>, selection := sel\<rparr>)" for sel
    by (simp_all add: cycle_inv_def)
  ultimately show ?thesis
    by (auto simp: control_cycle_def cmd Let_def case_prod_unfold intro!: finish_cycle_inv)
qed

lemma early_cycles_inv:
  assumes "cycle_inv s"
  shows "cycle_inv (fst (idle_cycle i s))" "cycle_inv (fst (deadband_cycle c i s))" "cycle_inv (fst (first_cycle i s))"
  using assms sign_of_values
  by (auto simp: idle_cycle_def deadband_cycle_def rebalance_hold_def first_cycle_def no_active_def cycle_inv_def
      OSCILLATION_THRESHOLD_def Let_def case_prod_unfold)

definition cycle_step :: "pd_config \<Rightarrow> cycle_state \<Rightarrow> cycle_in \<Rightarrow> cycle_state" where
  "cycle_step c s i = fst (cycle_body c i s)"

interpretation cycle: invariant_machine "cycle_step c" cycle_inv "\<lambda>_. True" for c
proof
  fix s i
  assume s: "cycle_inv s"
  have "cycle_inv (s\<lparr>surplus_guard_latched := l\<rparr>)" for l using s by (simp add: cycle_inv_def)
  then show "cycle_inv (cycle_step c s i)"
    using s by (simp add: cycle_step_def cycle_body_def early_cycles_inv control_cycle_inv)
qed

section \<open>What is written\<close>

text \<open>The writes of one direction: what is not zero goes that way.\<close>

definition one_way :: "bool \<Rightarrow> battery_write list \<Rightarrow> bool" where
  "one_way is_charging ws = list_all (\<lambda>(b, u, d). 0 \<le> u \<and> 0 \<le> d \<and> (u = 0 \<or> d = 0)
     \<and> (u \<noteq> 0 \<longrightarrow> is_charging) \<and> (d \<noteq> 0 \<longrightarrow> \<not> is_charging)) ws"

lemma one_way_simps [simp]: "one_way ch []" "one_way ch (all_stopped i)" "one_way ch (writes_of bs ch allocation)"
  using writes_of_spec [of _ _ _ bs ch allocation] by (force simp: one_way_def all_stopped_def list_all_iff)+

lemma rebalance_one_way:
  "one_way (0 < previous_power (pd s)) (snd (rebalance_hold i s))" "previous_power (pd s) = 0 \<Longrightarrow> snd (rebalance_hold i s) = []"
  by (simp_all add: rebalance_hold_def Let_def case_prod_unfold)

lemma first_one_way:
  "one_way (0 < - error_of i) (snd (first_cycle i s))"
  "\<not> is_operation_allowed (gates i) (0 < - error_of i) \<or> \<not> 0 < - error_of i \<and> price_based_discharge_blocked i
     \<Longrightarrow> snd (first_cycle i s) = all_stopped i"
  by (auto simp: first_cycle_def Let_def case_prod_unfold)

lemma first_writes:
  assumes "(b, u, d) \<in> set (snd (first_cycle i s))"
  shows "0 \<le> u \<and> 0 \<le> d \<and> (u = 0 \<or> d = 0) \<and> (0 < u \<longrightarrow> is_operation_allowed (gates i) True)
    \<and> (0 < d \<longrightarrow> is_operation_allowed (gates i) False \<and> \<not> price_based_discharge_blocked i)"
proof (cases "\<not> is_operation_allowed (gates i) (0 < - error_of i) \<or> \<not> 0 < - error_of i \<and> price_based_discharge_blocked i")
  case True
  then show ?thesis using assms first_one_way(2) [OF True, of s] by (auto simp: all_stopped_def)
next
  case False
  have "0 \<le> u \<and> 0 \<le> d \<and> (u = 0 \<or> d = 0) \<and> (u \<noteq> 0 \<longrightarrow> 0 < - error_of i) \<and> (d \<noteq> 0 \<longrightarrow> \<not> 0 < - error_of i)"
    using first_one_way(1) [of i s] assms by (auto simp: one_way_def list_all_iff)
  then show ?thesis using False by (cases "0 < - error_of i") auto
qed

lemma control_cycle_writes:
  assumes "\<And>b d. 0 \<le> power_limit (fleet_of (dist i)) b d"
    and "(b, charge, discharge) \<in> set (snd (control_cycle c i s))"
  shows "0 \<le> charge \<and> 0 \<le> discharge \<and> (charge = 0 \<or> discharge = 0)
    \<and> (0 < charge \<longrightarrow> is_operation_allowed (gates i) True \<and> \<not> ev_pause_active i)
    \<and> (0 < discharge \<longrightarrow> is_operation_allowed (gates i) False \<and> \<not> ev_pause_active i
        \<and> \<not> price_based_discharge_blocked i \<and> \<not> ev_charging_active i \<and> \<not> solar_surplus_discharge_blocked i)"
proof -
  obtain s2 restricted ch p6 where cmd: "command c i s = (s2, restricted, ch, p6)" by (metis prod_cases4)
  note dir = command_direction [OF assms(1) cmd]
  show ?thesis
  proof (cases "available_for (dist i) ch = []")
    case True
    then show ?thesis using assms(2) by (auto simp: control_cycle_def cmd)
  next
    case False
    let ?sel = "fst (select_batteries_for_operation (dist i) (monotonic_now i) (selection s2) \<bar>p6\<bar>
        (available_for (dist i) ch) ch)"
    let ?alloc = "distribute_power_by_limits (dist i) \<bar>p6\<bar> ?sel ch"
    have w: "(b, charge, discharge) \<in> set (writes_of (coordinators (fleet_of (dist i))) ch ?alloc)"
      using assms(2) False by (simp add: control_cycle_def cmd Let_def case_prod_unfold)
    have "?alloc \<noteq> [] \<Longrightarrow> p6 \<noteq> 0" using select_nothing distribute_nothing by fastforce
    then show ?thesis using writes_of_spec [OF w] dir by auto
  qed
qed

section \<open>Properties\<close>

text \<open>
  C31. A cycle never drives a battery in a direction that is not allowed. No battery is written
  both a charge and a discharge. Whatever the control law, the guards and the holds ask for, a
  cycle outside the deadband writes a charge only if charging is allowed, and a discharge only
  if discharging is allowed and no price block holds; any but the first execution also writes
  neither while the vehicle pause holds, and no discharge while a vehicle charges or the
  solar-surplus block holds (the first execution does not ask for these three). A cycle in the
  deadband writes only in the direction of the command in force, and an idling one nothing but
  zeros.
\<close>

theorem cycle_respects_restrictions:
  assumes "\<And>b d. 0 \<le> power_limit (fleet_of (dist i)) b d"
    and "(b, charge, discharge) \<in> set (snd (cycle_body c i s))"
  shows "0 \<le> charge \<and> 0 \<le> discharge \<and> (charge = 0 \<or> discharge = 0)
    \<and> (force_idle i \<longrightarrow> charge = 0 \<and> discharge = 0)
    \<and> (if in_deadband c i s
       then (0 < charge \<longrightarrow> 0 < previous_power (pd s)) \<and> (0 < discharge \<longrightarrow> previous_power (pd s) < 0)
       else (0 < charge \<longrightarrow> is_operation_allowed (gates i) True \<and> (first_execution s \<or> \<not> ev_pause_active i))
        \<and> (0 < discharge \<longrightarrow> is_operation_allowed (gates i) False \<and> \<not> price_based_discharge_blocked i
            \<and> (first_execution s \<or> \<not> ev_pause_active i \<and> \<not> ev_charging_active i \<and> \<not> solar_surplus_discharge_blocked i)))"
proof -
  define asked where "asked = (if near_target c i s
      then s\<lparr>surplus_guard_latched := snd (apply_guards (guards (dist i)) (previous_power (pd s))
               (Some (sensor_actual i)) (surplus_guard_latched s))\<rparr> else s)"
  have w: "(b, charge, discharge) \<in> set (snd (if force_idle i then idle_cycle i s
      else if in_deadband c i s then deadband_cycle c i asked else if coordinators (fleet_of (dist i)) = [] then (asked, [])
      else if first_execution s then first_cycle i asked else control_cycle c i asked))"
    using assms(2) by (simp only: cycle_body_def Let_def asked_def)
  show ?thesis
  proof (cases "force_idle i")
    case True
    then show ?thesis using w by (auto simp: idle_cycle_def all_stopped_def)
  next
    case awake: False
    show ?thesis
    proof (cases "in_deadband c i s")
      case True
      then obtain s' where s': "(b, charge, discharge) \<in> set (snd (rebalance_hold i s'))" "previous_power (pd s') = previous_power (pd s)"
        using w awake unfolding deadband_cycle_def Let_def by (auto simp: asked_def)
      then show ?thesis using True awake rebalance_one_way(1) [of s' i] rebalance_one_way(2) [of s' i]
        by (auto simp: one_way_def list_all_iff)
    next
      case False
      then show ?thesis using w awake first_writes [of b charge discharge i asked] control_cycle_writes [OF assms(1), of b charge discharge c asked]
        by (cases "first_execution s") (auto split: if_splits)
    qed
  qed
qed

definition example_cycle :: cycle_in where
  "example_cycle = \<lparr>sensor_actual = 500, sensor_filtered = 500, target = 0, utc_now = 100, monotonic_now = 100,
     has_new_control_sample = True, stale_safety_recalc = False, no_pd_mode_enabled = False,
     sensor_elapsed_s = Some 2, measured_power = None, backcalc_saturated = False, actuator_latencies = [3],
     max_contracted_power = 0, gates = empty_gates, price_based_discharge_blocked = False,
     ev_pause_active = False, ev_charging_active = False, solar_surplus_discharge_blocked = False,
     force_idle = False, blocked_active_changed = False, phase_safety_pending = False,
     dist = example_dist\<rparr>"

definition initial_cycle_state :: cycle_state where
  "initial_cycle_state = \<lparr>first_execution = True, pd = initial_pd_state,
     ff = \<lparr>step_candidate = None, last_feedforward_monotonic = None, last_feedforward_sign = 0\<rparr>,
     zero_cross_since = None, relay_shutoff_since = None, surplus_guard_latched = False,
     last_error_sign = 0, selection = idle_selection\<rparr>"

definition running_cycle_state :: cycle_state where
  "running_cycle_state = initial_cycle_state\<lparr>first_execution := False\<rparr>"

lemma cycle_respects_restrictions_witness:
  "snd (cycle_body (default_pd 7500 7500) example_cycle running_cycle_state) = [(0, 0, 800), (1, 0, 0)]
   \<and> is_operation_allowed (gates example_cycle) False"
proof
  show run: "snd (cycle_body (default_pd 7500 7500) example_cycle running_cycle_state) = [(0, 0, 800), (1, 0, 0)]"
    by code_simp
  have quiet: "\<not> in_deadband (default_pd 7500 7500) example_cycle running_cycle_state" by code_simp
  have limits: "0 \<le> power_limit (fleet_of (dist example_cycle)) b d" for b d
    using example_limits_nonneg by (simp add: example_cycle_def)
  have "(0, 0, 800) \<in> set (snd (cycle_body (default_pd 7500 7500) example_cycle running_cycle_state))"
    unfolding run by simp
  from cycle_respects_restrictions [OF limits this] show "is_operation_allowed (gates example_cycle) False"
    by (simp only: quiet if_False zero_less_numeral simp_thms)
qed

text \<open>
  The first execution does not ask for the solar-surplus block: the same reading is answered
  with a discharge there, and with none a cycle later.
\<close>

lemma first_execution_ignores_the_surplus_block:
  "snd (cycle_body (default_pd 7500 7500) (example_cycle\<lparr>solar_surplus_discharge_blocked := True\<rparr>) initial_cycle_state)
     = [(0, 0, 500), (1, 0, 0)]
   \<and> snd (cycle_body (default_pd 7500 7500) (example_cycle\<lparr>solar_surplus_discharge_blocked := True\<rparr>) running_cycle_state)
     = [(0, 0, 0), (1, 0, 0)]"
  by code_simp

text \<open>
  Over any run of cycles the oscillation counter stays below its threshold and the
  direction memories stay signs: whatever happened before, the third consecutive change
  of sign resets the controller instead of being counted.
\<close>

theorem oscillation_counter_bounded:
  "(let s = run (cycle_step c) initial_cycle_state inputs in
     sign_changes (pd s) < OSCILLATION_THRESHOLD
     \<and> last_output_sign (pd s) \<in> {- 1, 0, 1} \<and> last_error_sign s \<in> {- 1, 0, 1})"
proof -
  have "cycle_inv initial_cycle_state"
    by (simp add: cycle_inv_def initial_cycle_state_def initial_pd_state_def OSCILLATION_THRESHOLD_def)
  then have "cycle_inv (run (cycle_step c) initial_cycle_state inputs)" by (rule cycle.run_inv) simp
  then show ?thesis by (simp add: cycle_inv_def Let_def)
qed

end
