(* ===== verification/Non_Responsive.thy ===== *)
theory Non_Responsive
  imports Py_Prelude
begin

text \<open>
  \<open>tracking/non_responsive_tracker.py\<close>: batteries that take a command and deliver nothing
  are excluded for a flat cooldown, after one round of grace, and reported when the spell
  lasts. The tracker is a map from batteries to their records; times are in seconds and
  each call reads the clock once.
\<close>

section \<open>State\<close>

record nr_config =
  fail_threshold :: nat
  cooldown_min :: rat

record nr_info =
  fail_count :: nat
  excluded_at :: "rat option"
  wake_used :: bool
  degraded_since :: "rat option"
  fail_reason :: "string option"
  retry_attempted :: bool
  wake_attempted :: bool
  repair_raised :: bool

type_synonym tracker = "bat \<Rightarrow> nr_info option"

datatype outcome = Wake | Excluded

definition NON_DELIVERY_REPAIR_AFTER_S :: rat where "NON_DELIVERY_REPAIR_AFTER_S = 30 * 60"

definition new_info :: nr_info where
  "new_info = \<lparr>fail_count = 0, excluded_at = None, wake_used = False, degraded_since = None,
     fail_reason = None, retry_attempted = False, wake_attempted = False, repair_raised = False\<rparr>"

section \<open>Operations\<close>

definition last_reason :: "tracker \<Rightarrow> bat \<Rightarrow> string \<Rightarrow> string" where
  "last_reason tr b dflt = (case tr b of
     None \<Rightarrow> dflt
   | Some ri \<Rightarrow> (case fail_reason ri of None \<Rightarrow> dflt | Some r \<Rightarrow> if r = [] then dflt else r))"

definition is_excluded :: "nr_config \<Rightarrow> rat \<Rightarrow> tracker \<Rightarrow> bat \<Rightarrow> bool \<times> tracker" where
  "is_excluded c now tr b = (case tr b of
     None \<Rightarrow> (False, tr)
   | Some ri \<Rightarrow> (case excluded_at ri of
       None \<Rightarrow> (False, tr)
     | Some t \<Rightarrow>
        if cooldown_min c \<le> (now - t) / 60
        then (False, tr(b \<mapsto> ri\<lparr>excluded_at := None, fail_count := 0, wake_used := False\<rparr>))
        else (True, tr)))"

definition record_fail ::
    "nr_config \<Rightarrow> rat \<Rightarrow> tracker \<Rightarrow> bat \<Rightarrow> string \<Rightarrow> bool \<Rightarrow> bool \<Rightarrow> outcome option \<times> tracker" where
  "record_fail c now tr b why retry allow_wake_grace =
     (let ri0 = (case tr b of None \<Rightarrow> new_info | Some i \<Rightarrow> i);
          ri = ri0\<lparr>fail_count := Suc (fail_count ri0), fail_reason := Some why, retry_attempted := retry\<rparr>
      in if fail_threshold c \<le> fail_count ri \<and> excluded_at ri = None
         then (if allow_wake_grace \<and> \<not> wake_used ri
               then (Some Wake, tr(b \<mapsto> ri\<lparr>wake_used := True, fail_count := 0\<rparr>))
               else (Some Excluded, tr(b \<mapsto> ri\<lparr>excluded_at := Some now,
                       degraded_since := (case degraded_since ri of None \<Rightarrow> Some now | Some t \<Rightarrow> Some t)\<rparr>)))
         else (None, tr(b \<mapsto> ri)))"

definition record_non_delivery ::
    "nr_config \<Rightarrow> rat \<Rightarrow> tracker \<Rightarrow> bat \<Rightarrow> string \<Rightarrow> bool \<Rightarrow> outcome option \<times> tracker" where
  "record_non_delivery c now tr b why retry = record_fail c now tr b why retry True"

definition record_comm_failure ::
    "nr_config \<Rightarrow> rat \<Rightarrow> tracker \<Rightarrow> bat \<Rightarrow> string \<Rightarrow> bool \<Rightarrow> bool \<times> tracker" where
  "record_comm_failure c now tr b why retry =
     (let (out, tr') = record_fail c now tr b why retry False in (out = Some Excluded, tr'))"

definition set_wake_attempted :: "tracker \<Rightarrow> bat \<Rightarrow> bool \<Rightarrow> tracker" where
  "set_wake_attempted tr b v = (case tr b of
     None \<Rightarrow> tr | Some ri \<Rightarrow> tr(b \<mapsto> ri\<lparr>wake_attempted := v\<rparr>))"

definition clear_battery :: "tracker \<Rightarrow> bat \<Rightarrow> bool \<Rightarrow> tracker" where
  "clear_battery tr b delivering = (case tr b of
     None \<Rightarrow> tr
   | Some ri \<Rightarrow> tr(b \<mapsto> ri\<lparr>degraded_since := (if delivering then None else degraded_since ri),
        fail_count := 0, excluded_at := None, fail_reason := None, retry_attempted := False,
        wake_attempted := False, wake_used := False\<rparr>))"

definition excluded_now :: "nr_config \<Rightarrow> rat \<Rightarrow> tracker \<Rightarrow> bat list \<Rightarrow> bat list" where
  "excluded_now c now tr bs = filter (\<lambda>b. case tr b of
     None \<Rightarrow> False
   | Some ri \<Rightarrow> (case excluded_at ri of None \<Rightarrow> False | Some t \<Rightarrow> (now - t) / 60 < cooldown_min c)) bs"

text \<open>\<open>update_repairs\<close>: after the call exactly the stuck batteries have their Repair raised.\<close>

definition stuck :: "rat \<Rightarrow> nr_info \<Rightarrow> bool" where
  "stuck now ri = (case degraded_since ri of
     None \<Rightarrow> False | Some since \<Rightarrow> NON_DELIVERY_REPAIR_AFTER_S \<le> now - since)"

definition update_repairs :: "rat \<Rightarrow> tracker \<Rightarrow> tracker" where
  "update_repairs now tr = (\<lambda>b. map_option (\<lambda>ri.
     if stuck now ri = repair_raised ri then ri else ri\<lparr>repair_raised := stuck now ri\<rparr>) (tr b))"

section \<open>Runs of one battery\<close>

datatype nr_event = Failure rat string bool bool | Query rat | Clear bool | Nudge bool

fun nr_step :: "nr_config \<Rightarrow> bat \<Rightarrow> tracker \<Rightarrow> nr_event \<Rightarrow> tracker" where
  "nr_step c b tr (Failure now why retry grace) = snd (record_fail c now tr b why retry grace)"
| "nr_step c b tr (Query now) = snd (is_excluded c now tr b)"
| "nr_step c b tr (Clear delivering) = clear_battery tr b delivering"
| "nr_step c b tr (Nudge v) = set_wake_attempted tr b v"

text \<open>Failures since the last time the battery was cleared.\<close>

fun streak :: "nat \<Rightarrow> nr_event list \<Rightarrow> nat" where
  "streak n [] = n"
| "streak n (Failure now why retry grace # es) = streak (Suc n) es"
| "streak n (Clear delivering # es) = streak 0 es"
| "streak n (_ # es) = streak n es"

lemma streak_append: "streak n (xs @ ys) = streak (streak n xs) ys"
  by (induction n xs rule: streak.induct) auto

definition streak_inv :: "nr_config \<Rightarrow> bat \<Rightarrow> nat \<Rightarrow> tracker \<Rightarrow> bool" where
  "streak_inv c b n tr \<longleftrightarrow> (case tr b of
     None \<Rightarrow> True
   | Some ri \<Rightarrow> fail_count ri + (if wake_used ri then fail_threshold c else 0) \<le> n)"

lemma streak_inv_step:
  "streak_inv c b n tr \<Longrightarrow> streak_inv c b (streak n [e]) (nr_step c b tr e)"
  by (cases e; cases "tr b")
    (auto simp: streak_inv_def record_fail_def is_excluded_def clear_battery_def set_wake_attempted_def
      new_info_def Let_def split: option.splits if_splits)

lemma streak_inv_run:
  "streak_inv c b n tr \<Longrightarrow> streak_inv c b (streak n es) (run (nr_step c b) tr es)"
proof (induction es arbitrary: n tr)
  case (Cons e es)
  show ?case
    using Cons.IH [OF streak_inv_step [OF Cons.prems, of e]] streak_append [of n "[e]" es] by simp
qed simp

definition spell_inv :: "bat \<Rightarrow> rat \<Rightarrow> tracker \<Rightarrow> bool" where
  "spell_inv b t0 tr \<longleftrightarrow> (\<exists>ri t. tr b = Some ri \<and> degraded_since ri = Some t \<and> t \<le> t0)"

interpretation spell: invariant_machine "nr_step c b" "spell_inv b t0" "\<lambda>e. e \<noteq> Clear True" for c b t0
proof
  fix tr e
  assume "spell_inv b t0 tr" and "e \<noteq> Clear True"
  then show "spell_inv b t0 (nr_step c b tr e)"
    by (cases e) (auto simp: spell_inv_def record_fail_def is_excluded_def clear_battery_def
        set_wake_attempted_def Let_def split: option.splits if_splits)
qed

section \<open>Properties\<close>

text \<open>
  A battery is excluded only after an unbroken streak of failures since it was last
  cleared: at least the threshold, and twice the threshold when the failure that excludes
  it is a non-delivery, which first gets its round of grace.
\<close>

theorem exclusion_needs_streak:
  assumes "fst (record_fail c now (run (nr_step c b) Map.empty es) b why retry grace) = Some Excluded"
  shows "(if grace then 2 * fail_threshold c else fail_threshold c) \<le> Suc (streak 0 es)"
proof -
  have "streak_inv c b (streak 0 es) (run (nr_step c b) Map.empty es)"
    by (rule streak_inv_run) (simp add: streak_inv_def)
  then show ?thesis using assms
    by (cases "run (nr_step c b) Map.empty es b")
      (auto simp: streak_inv_def record_fail_def new_info_def Let_def split: if_splits)
qed

lemma exclusion_needs_streak_witness:
  "fst (record_fail \<lparr>fail_threshold = 2, cooldown_min = 5\<rparr> 9
      (run (nr_step \<lparr>fail_threshold = 2, cooldown_min = 5\<rparr> 7) Map.empty
        [Failure 1 ''non_delivery'' False True, Failure 2 ''non_delivery'' False True,
         Failure 3 ''non_delivery'' False True]) 7 ''non_delivery'' False True) = Some Excluded
   \<and> 2 * 2 \<le> Suc (streak 0 [Failure 1 ''non_delivery'' False True, Failure 2 ''non_delivery'' False True,
         Failure 3 ''non_delivery'' False True])"
  (is "fst (record_fail ?c 9 (run (nr_step ?c 7) Map.empty ?es) 7 _ False True) = _ \<and> _")
proof
  show run: "fst (record_fail ?c 9 (run (nr_step ?c 7) Map.empty ?es) 7 ''non_delivery'' False True) = Some Excluded"
    by code_simp
  show "2 * 2 \<le> Suc (streak 0 ?es)" using exclusion_needs_streak [OF run] by simp
qed

text \<open>
  The Repair is timed from the spell, not from the episode: once a battery has been
  excluded, no retry, cooldown, failure or direction flip postpones it. Unless the battery
  is cleared as delivering, its Repair is raised by every update half an hour later.
\<close>

theorem repair_survives_episodes:
  assumes "record_fail c t0 tr b why retry grace = (Some Excluded, tr')"
    and "tr b = None \<or> (\<exists>ri. tr b = Some ri \<and> (case degraded_since ri of None \<Rightarrow> True | Some t \<Rightarrow> t \<le> t0))"
    and "\<And>e. e \<in> set es \<Longrightarrow> e \<noteq> Clear True"
    and "t0 + NON_DELIVERY_REPAIR_AFTER_S \<le> now"
  shows "\<exists>ri. update_repairs now (run (nr_step c b) tr' es) b = Some ri \<and> repair_raised ri"
proof -
  have "spell_inv b t0 tr'"
    using assms(1,2)
    by (auto simp: spell_inv_def record_fail_def new_info_def Let_def split: option.splits if_splits)
  then have "spell_inv b t0 (run (nr_step c b) tr' es)" using assms(3) by (rule spell.run_inv)
  then obtain ri t where ri: "run (nr_step c b) tr' es b = Some ri" "degraded_since ri = Some t" "t \<le> t0"
    by (auto simp: spell_inv_def)
  then have "stuck now ri" using assms(4) by (simp add: stuck_def)
  then show ?thesis by (cases "repair_raised ri") (simp_all add: update_repairs_def ri(1))
qed

lemma repair_survives_episodes_witness:
  "\<exists>ri. update_repairs 2000 (run (nr_step \<lparr>fail_threshold = 1, cooldown_min = 5\<rparr> 3)
      (snd (record_fail \<lparr>fail_threshold = 1, cooldown_min = 5\<rparr> 100 Map.empty 3 ''ack_mismatch'' True False))
      [Query 500, Clear False]) 3 = Some ri \<and> repair_raised ri"
proof -
  have "record_fail \<lparr>fail_threshold = 1, cooldown_min = 5\<rparr> 100 Map.empty 3 ''ack_mismatch'' True False
      = (Some Excluded, snd (record_fail \<lparr>fail_threshold = 1, cooldown_min = 5\<rparr> 100 Map.empty 3 ''ack_mismatch'' True False))"
    by (simp add: record_fail_def new_info_def)
  then show ?thesis
    by (rule repair_survives_episodes) (auto simp: NON_DELIVERY_REPAIR_AFTER_S_def)
qed

end
