(* ===== verification/Charge_Limits.thy ===== *)
theory Charge_Limits
  imports Pack_Soc Time_Slots Blockers "HOL-Library.Sublist"
begin

text \<open>
  Which batteries may take part in a charge or a discharge: the SOC ceilings and floors
  with their overrides, the charge hysteresis and the re-entry latch at the minimum SOC,
  and the two places of \<open>__init__.py\<close> that keep them: the refresh of the blockers
  (\<open>_refresh_battery_charge_limit_blocks\<close>, \<open>_refresh_battery_discharge_limit_blocks\<close>)
  and the selection for dispatch (\<open>_get_available_batteries\<close>). Both step the same latch.
  SOC values and limits are finite numbers; a SOC that is not a number makes a comparison
  raise \<open>TypeError\<close>. The answers of the top-charge manager are fields of the battery.
\<close>

section \<open>Data\<close>

record limit_ctx =
  slot_order :: "bat list"
  weekly_active :: bool
  charge_delay_enabled :: bool
  charge_delay_unlocked :: bool
  balance_overrides_delay :: bool
  grid_charging_active :: bool
  predictive_charge_target_soc :: "(bat, rat) dict option"

record bat_limits =
  label :: string
  tele :: "data option"
  manual_mode :: bool
  reachable :: bool
  non_responsive :: bool
  backup_active :: bool
  rs485_user_disabled :: bool
  manual_slot_owned :: bool
  configured_max_soc :: rat
  configured_min_soc :: rat
  enable_charge_hysteresis :: bool
  charge_hysteresis_percent :: rat
  charge_slot :: "time_slot option"
  discharge_slot :: "time_slot option"
  recal_override :: bool
  bms_charge_due :: bool
  bms_retry_pending :: bool
  battery_full :: bool

record soc_latch =
  hysteresis_active :: bool
  hysteresis_base_soc :: "rat option"
  min_soc_latched :: bool

definition fresh_latch :: soc_latch where
  "fresh_latch = \<lparr>hysteresis_active = False, hysteresis_base_soc = None, min_soc_latched = False\<rparr>"

definition NORMAL_BALANCE_PAUSE_CELL_VOLTAGE :: rat where
  "NORMAL_BALANCE_PAUSE_CELL_VOLTAGE = 18/5"

definition NORMAL_BALANCE_RECAL_RETRY_CELL_VOLTAGE :: rat where
  "NORMAL_BALANCE_RECAL_RETRY_CELL_VOLTAGE = 357/100"

definition DISCHARGE_MIN_SOC_REENTRY_MARGIN :: rat where
  "DISCHARGE_MIN_SOC_REENTRY_MARGIN = 2"

text \<open>\<open>coordinator.data.get("battery_soc", 0)\<close>; \<open>None\<close> is a value that is not a number.\<close>

definition soc_reading :: "data option \<Rightarrow> rat option" where
  "soc_reading od = (case od of
     None \<Rightarrow> Some 0
   | Some d \<Rightarrow> (case map_of d ''battery_soc'' of
       None \<Rightarrow> Some 0
     | Some v \<Rightarrow> (if is_number v then (case py_float v of Inr (Fin q) \<Rightarrow> Some q | _ \<Rightarrow> None) else None)))"

section \<open>Ceilings and floors\<close>

definition weekly_full_charge_unlocked :: "limit_ctx \<Rightarrow> bool" where
  "weekly_full_charge_unlocked x = (weekly_active x
     \<and> (\<not> charge_delay_enabled x \<or> charge_delay_unlocked x \<or> balance_overrides_delay x))"

definition charge_ceiling_soc :: "limit_ctx \<Rightarrow> bat_limits \<Rightarrow> rat" where
  "charge_ceiling_soc x v = (if weekly_active x then 100 else configured_max_soc v)"

text \<open>\<open>max(12, min(100, int(value)))\<close>, where \<open>int\<close> may reject the value.\<close>

definition slot_soc_value :: "pyval \<Rightarrow> py_error + int option" where
  "slot_soc_value val = (if val = VNone then Inr None
     else (case py_int val of
         Inr k \<Rightarrow> Inr (Some (max 12 (min 100 k)))
       | Inl OverflowError \<Rightarrow> Inl OverflowError
       | Inl _ \<Rightarrow> Inr None))"

definition slot_charge_soc_max :: "limit_ctx \<Rightarrow> bat \<Rightarrow> bat_limits \<Rightarrow> py_error + int option" where
  "slot_charge_soc_max x c v = (case charge_slot v of
     None \<Rightarrow> Inr None
   | Some slot \<Rightarrow> (if \<not> soc_override_enabled slot then Inr None
       else slot_soc_value (soc_max (slot_battery_limits (slot_order x) slot c))))"

datatype ceiling_source = PredictiveTarget | WeeklyFullCharge | SlotSocOverride | MaxSoc

definition effective_charge_max_soc ::
    "limit_ctx \<Rightarrow> bat \<Rightarrow> bat_limits \<Rightarrow> bool \<Rightarrow> bool \<Rightarrow> py_error + rat \<times> ceiling_source" where
  "effective_charge_max_soc x c v weekly_100_unlocked ignore_predictive_target =
     and_then (slot_charge_soc_max x c v) (\<lambda>slot_cap.
       (let ceiling = (case slot_cap of
              Some k \<Rightarrow> if weekly_active x then charge_ceiling_soc x v else min (charge_ceiling_soc x v) (of_int k)
            | None \<Rightarrow> charge_ceiling_soc x v);
            per_battery_target = (if grid_charging_active x \<and> \<not> ignore_predictive_target
              then (case predictive_charge_target_soc x of None \<Rightarrow> None | Some d \<Rightarrow> map_of d c) else None)
        in Inr (case per_battery_target of
             Some t \<Rightarrow> (min ceiling t, PredictiveTarget)
           | None \<Rightarrow> if weekly_100_unlocked then (100, WeeklyFullCharge)
               else (case slot_cap of Some k \<Rightarrow> (of_int k, SlotSocOverride)
                 | None \<Rightarrow> (configured_max_soc v, MaxSoc)))))"

definition effective_discharge_min_soc ::
    "limit_ctx \<Rightarrow> bat \<Rightarrow> bat_limits \<Rightarrow> py_error + rat \<times> bool" where
  "effective_discharge_min_soc x c v =
     (let dflt = (configured_min_soc v, False) in
      case discharge_slot v of
        None \<Rightarrow> Inr dflt
      | Some slot \<Rightarrow> (if \<not> soc_override_enabled slot then Inr dflt
          else and_then (slot_soc_value (soc_min (slot_battery_limits (slot_order x) slot c)))
            (\<lambda>r. Inr (case r of None \<Rightarrow> dflt | Some k \<Rightarrow> (of_int k, True)))))"

section \<open>The charge hysteresis\<close>

definition release_latch :: "soc_latch \<Rightarrow> soc_latch" where
  "release_latch h = h\<lparr>hysteresis_active := False, hysteresis_base_soc := None\<rparr>"

definition arm_latch :: "rat option \<Rightarrow> soc_latch \<Rightarrow> soc_latch" where
  "arm_latch soc h = h\<lparr>hysteresis_active := True,
     hysteresis_base_soc := (case hysteresis_base_soc h of None \<Rightarrow> soc | Some b \<Rightarrow> Some b)\<rparr>"

definition drop_stale :: "bat_limits \<Rightarrow> soc_latch \<Rightarrow> soc_latch" where
  "drop_stale v h = (case hysteresis_base_soc h of
     None \<Rightarrow> h | Some b \<Rightarrow> if b < configured_max_soc v then release_latch h else h)"

definition taper_at_top :: "bat_limits \<Rightarrow> rat \<Rightarrow> bool" where
  "taper_at_top v effective_max_soc = (100 \<le> effective_max_soc \<and>
     (case control_vmax (tele v) of None \<Rightarrow> False
      | Some vmax \<Rightarrow> pf_le (Fin NORMAL_BALANCE_PAUSE_CELL_VOLTAGE) vmax))"

text \<open>\<open>_should_charge_to_bms_cutoff\<close> is false below an effective ceiling of 100.\<close>

definition charge_to_bms :: "bat_limits \<Rightarrow> rat \<Rightarrow> bool" where
  "charge_to_bms v effective_max_soc = (100 \<le> effective_max_soc \<and> bms_charge_due v)"

text \<open>
  The two copies of the latch step. They differ in what counts as the top and in the base
  of the threshold: \<open>_get_available_batteries\<close> treats a base of 0 as no base.
\<close>

definition refresh_hysteresis :: "bat_limits \<Rightarrow> rat \<Rightarrow> rat \<Rightarrow> rat \<Rightarrow> soc_latch \<Rightarrow> soc_latch" where
  "refresh_hysteresis v eff ceiling_soc soc h =
     (let h1 = drop_stale v h;
          h2 = (if configured_max_soc v \<le> ceiling_soc \<or> battery_full v \<or> taper_at_top v eff
                then arm_latch (Some soc) h1 else h1);
          base = (case hysteresis_base_soc h2 of Some b \<Rightarrow> b | None \<Rightarrow> configured_max_soc v)
      in if soc < base - charge_hysteresis_percent v then release_latch h2 else h2)"

definition dispatch_hysteresis :: "bat_limits \<Rightarrow> rat \<Rightarrow> rat \<Rightarrow> rat \<Rightarrow> soc_latch \<Rightarrow> soc_latch" where
  "dispatch_hysteresis v eff ceiling_soc soc h =
     (let h1 = drop_stale v h;
          h2 = (if configured_max_soc v \<le> ceiling_soc \<or> taper_at_top v eff
                then arm_latch (Some soc) h1 else h1);
          base = (case hysteresis_base_soc h2 of
              Some b \<Rightarrow> if b = 0 then configured_max_soc v else b | None \<Rightarrow> configured_max_soc v)
      in if soc < base - charge_hysteresis_percent v then release_latch h2 else h2)"

section \<open>Selection for dispatch\<close>

definition charge_candidate ::
    "limit_ctx \<Rightarrow> bool \<Rightarrow> bat \<Rightarrow> bat_limits \<Rightarrow> soc_latch \<Rightarrow> py_error + soc_latch \<times> bool" where
  "charge_candidate x ignore_predictive_target c v h =
     (let unlocked = weekly_full_charge_unlocked x;
          current_soc = soc_reading (tele v);
          ceiling_soc = soc_vs_ceiling (tele v) current_soc
      in and_then (effective_charge_max_soc x c v unlocked ignore_predictive_target) (\<lambda>(eff, source).
         and_then
           (if \<not> enable_charge_hysteresis v then Inr h
            else if unlocked \<or> recal_override v \<or> charge_to_bms v eff then Inr (release_latch h)
            else (case (ceiling_soc, current_soc) of
                (Some cs, Some s) \<Rightarrow> Inr (dispatch_hysteresis v eff cs s h)
              | _ \<Rightarrow> Inl TypeError))
           (\<lambda>h1. if enable_charge_hysteresis v \<and> hysteresis_active h1 then Inr (h1, False)
                 else if battery_full v \<and> \<not> recal_override v \<and> \<not> charge_to_bms v eff
                 then Inr (if enable_charge_hysteresis v then arm_latch current_soc h1 else h1, False)
                 else (case ceiling_soc of
                     None \<Rightarrow> Inl TypeError
                   | Some cs \<Rightarrow> Inr (h1, cs < eff \<or> charge_to_bms v eff)))))"

definition discharge_candidate :: "bat_limits \<Rightarrow> soc_latch \<Rightarrow> py_error + soc_latch \<times> bool" where
  "discharge_candidate v h = (case soc_vs_floor (tele v) (soc_reading (tele v)) of
     None \<Rightarrow> Inl TypeError
   | Some floor_soc \<Rightarrow>
      (let latched = (if floor_soc \<le> configured_min_soc v then True
             else if configured_min_soc v + DISCHARGE_MIN_SOC_REENTRY_MARGIN \<le> floor_soc then False
             else min_soc_latched h)
       in Inr (h\<lparr>min_soc_latched := latched\<rparr>, configured_min_soc v < floor_soc \<and> \<not> latched)))"

definition in_play :: "bat_limits \<Rightarrow> bool" where
  "in_play v = (tele v \<noteq> None \<and> \<not> manual_mode v \<and> reachable v \<and> \<not> non_responsive v
     \<and> \<not> backup_active v \<and> \<not> rs485_user_disabled v \<and> \<not> manual_slot_owned v)"

definition operation_blocked :: "gate_state \<Rightarrow> bool \<Rightarrow> bool \<Rightarrow> bat \<Rightarrow> bool" where
  "operation_blocked gates is_charging protection_discharge c =
     (if is_charging then get_charge_blockers gates (Some c) \<noteq> []
      else is_discharge_blocked gates (Some c) protection_discharge)"

record query =
  for_charging :: bool
  include_operation_blocks :: bool
  protection_discharge :: bool
  ignore_predictive_target :: bool

definition candidate :: "limit_ctx \<Rightarrow> gate_state \<Rightarrow> query \<Rightarrow> bat \<Rightarrow> bat_limits \<Rightarrow> soc_latch
    \<Rightarrow> py_error + soc_latch \<times> bool" where
  "candidate x gates q c v h =
     (if \<not> in_play v then Inr (h, False)
      else if include_operation_blocks q \<and> operation_blocked gates (for_charging q) (protection_discharge q) c
      then Inr (h, False)
      else if for_charging q then charge_candidate x (ignore_predictive_target q) c v h
      else discharge_candidate v h)"

fun get_available_batteries :: "limit_ctx \<Rightarrow> gate_state \<Rightarrow> query \<Rightarrow> (bat \<Rightarrow> bat_limits)
    \<Rightarrow> bat list \<Rightarrow> (bat \<Rightarrow> soc_latch) \<Rightarrow> py_error + (bat \<Rightarrow> soc_latch) \<times> bat list" where
  "get_available_batteries x gates q view [] st = Inr (st, [])"
| "get_available_batteries x gates q view (c # cs) st =
     and_then (candidate x gates q c (view c) (st c)) (\<lambda>(h, available).
     and_then (get_available_batteries x gates q view cs (st(c := h))) (\<lambda>(st', rest).
       Inr (st', if available then c # rest else rest)))"

section \<open>The blockers of the limits\<close>

type_synonym block_details = "(string, pyval) dict"

record charge_verdict =
  max_soc_block :: "block_details option"
  hysteresis_block :: "block_details option"
  retry_block :: "block_details option"
  solar_only_note :: "(pyval \<times> rat) option"

definition no_limit_blocks :: charge_verdict where
  "no_limit_blocks = \<lparr>max_soc_block = None, hysteresis_block = None, retry_block = None, solar_only_note = None\<rparr>"

definition num :: "rat \<Rightarrow> pyval" where "num q = VFloat (Fin q)"

primrec source_name :: "ceiling_source \<Rightarrow> string" where
  "source_name PredictiveTarget = ''predictive_target''"
| "source_name WeeklyFullCharge = ''weekly_full_charge''"
| "source_name SlotSocOverride = ''slot_soc_override''"
| "source_name MaxSoc = ''max_soc''"

text \<open>The raw value of the SOC, as the details of a block report it.\<close>

definition soc_value :: "data option \<Rightarrow> pyval" where
  "soc_value od = (case od of None \<Rightarrow> VInt 0 | Some d \<Rightarrow> dict_get (VInt 0) d ''battery_soc'')"

definition max_soc_details :: "bat_limits \<Rightarrow> rat \<Rightarrow> ceiling_source \<Rightarrow> block_details" where
  "max_soc_details v eff source =
     [(''battery'', VStr (label v)), (''soc'', soc_value (tele v)), (''max_soc'', num (configured_max_soc v)),
      (''effective_max_soc'', num eff), (''source'', VStr (source_name source)),
      (''bms_cutoff'', VBool (battery_full v))]"

definition hysteresis_details :: "bat_limits \<Rightarrow> rat \<Rightarrow> block_details" where
  "hysteresis_details v base =
     [(''battery'', VStr (label v)), (''soc'', soc_value (tele v)), (''max_soc'', num (configured_max_soc v)),
      (''threshold'', num (base - charge_hysteresis_percent v)), (''base_soc'', num base),
      (''hysteresis_percent'', num (charge_hysteresis_percent v)), (''bms_cutoff'', VBool (battery_full v))]"

definition retry_details :: "bat_limits \<Rightarrow> block_details" where
  "retry_details v =
     [(''battery'', VStr (label v)), (''state'', VStr ''waiting_for_relaxation''),
      (''retry_voltage'', num NORMAL_BALANCE_RECAL_RETRY_CELL_VOLTAGE), (''soc'', soc_value (tele v))]"

definition charge_limit_verdict ::
    "limit_ctx \<Rightarrow> bat \<Rightarrow> bat_limits \<Rightarrow> soc_latch \<Rightarrow> py_error + soc_latch \<times> charge_verdict" where
  "charge_limit_verdict x c v h =
     (let unlocked = weekly_full_charge_unlocked x;
          current_soc = soc_reading (tele v)
      in if manual_mode v \<or> tele v = None then Inr (h, no_limit_blocks)
         else if bms_retry_pending v
         then Inr (release_latch h, no_limit_blocks\<lparr>retry_block := Some (retry_details v)\<rparr>)
         else if unlocked then Inr (release_latch h, no_limit_blocks)
         else and_then (effective_charge_max_soc x c v unlocked False) (\<lambda>(eff, source).
           if charge_to_bms v eff then Inr (release_latch h, no_limit_blocks)
           else if recal_override v then Inr (release_latch h, no_limit_blocks)
           else (case soc_vs_ceiling (tele v) current_soc of
             None \<Rightarrow> Inl TypeError
           | Some cs \<Rightarrow> and_then (effective_charge_max_soc x c v unlocked True) (\<lambda>(solar_eff, _).
               (let solar_only = (source = PredictiveTarget \<and> \<not> battery_full v \<and> eff \<le> cs \<and> cs < solar_eff);
                    at_ceiling = ((eff \<le> cs \<and> \<not> solar_only) \<or> battery_full v);
                    w0 = no_limit_blocks\<lparr>
                      max_soc_block := (if at_ceiling then Some (max_soc_details v eff source) else None)\<rparr>
                in if \<not> enable_charge_hysteresis v
                   then Inr (h, w0\<lparr>max_soc_block := (if at_ceiling then Some (max_soc_details v eff source
                          @ (if Some cs \<noteq> current_soc then [(''min_pack_soc'', num cs)] else [])) else None),
                        solar_only_note := (if solar_only then Some (soc_value (tele v), eff) else None)\<rparr>)
                   else (case current_soc of
                     None \<Rightarrow> Inl TypeError
                   | Some s \<Rightarrow>
                      (let h' = refresh_hysteresis v eff cs s h;
                           base = (case hysteresis_base_soc h' of Some b \<Rightarrow> b | None \<Rightarrow> configured_max_soc v);
                           w1 = w0\<lparr>solar_only_note := (if solar_only then Some (soc_value (tele v), eff) else None)\<rparr>
                       in Inr (h', if hysteresis_active h'
                            then w1\<lparr>hysteresis_block := Some (hysteresis_details v base)\<rparr>
                            else w1\<lparr>max_soc_block := (if at_ceiling then Some (max_soc_details v eff source
                                @ (if cs \<noteq> s then [(''min_pack_soc'', num cs)] else [])) else None)\<rparr>))))))))"

definition put_block :: "bool \<Rightarrow> string \<Rightarrow> string \<Rightarrow> rat \<Rightarrow> bat \<Rightarrow> block_details option \<Rightarrow> gate_state \<Rightarrow> gate_state" where
  "put_block is_charging source rsn now c od gates = (case od of
     None \<Rightarrow> remove_operation_block is_charging source (Some c) gates
   | Some d \<Rightarrow> set_operation_block is_charging source rsn (Some d) (Some c) now gates)"

record limit_state =
  latches :: "bat \<Rightarrow> soc_latch"
  limit_gates :: gate_state
  solar_only_batteries :: "(string, pyval \<times> rat) dict"

definition publish_verdict :: "rat \<Rightarrow> bat \<Rightarrow> bat_limits \<Rightarrow> soc_latch \<Rightarrow> charge_verdict \<Rightarrow> limit_state \<Rightarrow> limit_state" where
  "publish_verdict now c v h w st =
     st\<lparr>latches := (latches st)(c := h),
        solar_only_batteries := (case solar_only_note w of
            None \<Rightarrow> AList.delete (label v) (solar_only_batteries st)
          | Some n \<Rightarrow> AList.update (label v) n (AList.delete (label v) (solar_only_batteries st))),
        limit_gates := put_block True ''charge_hysteresis'' ''hysteresis'' now c (hysteresis_block w)
          (put_block True ''max_soc'' ''max_soc'' now c (max_soc_block w)
            (put_block True ''bms_cutoff_retry'' ''bms_cutoff_retry'' now c (retry_block w) (limit_gates st)))\<rparr>"

fun refresh_battery_charge_limit_blocks :: "limit_ctx \<Rightarrow> (bat \<Rightarrow> bat_limits) \<Rightarrow> rat \<Rightarrow> bat list
    \<Rightarrow> limit_state \<Rightarrow> py_error + limit_state" where
  "refresh_battery_charge_limit_blocks x view now [] st = Inr st"
| "refresh_battery_charge_limit_blocks x view now (c # cs) st =
     and_then (charge_limit_verdict x c (view c) (latches st c)) (\<lambda>(h, w).
       refresh_battery_charge_limit_blocks x view now cs (publish_verdict now c (view c) h w st))"

definition min_soc_verdict :: "limit_ctx \<Rightarrow> bat \<Rightarrow> bat_limits \<Rightarrow> py_error + block_details option" where
  "min_soc_verdict x c v =
     (if manual_mode v \<or> tele v = None then Inr None
      else and_then (effective_discharge_min_soc x c v) (\<lambda>(effective_min_soc, from_slot).
        (case soc_vs_floor (tele v) (soc_reading (tele v)) of
           None \<Rightarrow> Inl TypeError
         | Some floor_soc \<Rightarrow> Inr (if floor_soc \<le> effective_min_soc
             then Some ([(''battery'', VStr (label v)), (''soc'', soc_value (tele v)),
                (''min_soc'', num (configured_min_soc v)), (''effective_min_soc'', num effective_min_soc),
                (''source'', VStr (if from_slot then ''slot_soc_override'' else ''min_soc''))]
                @ (if Some floor_soc \<noteq> soc_reading (tele v) then [(''max_pack_soc'', num floor_soc)] else []))
             else None))))"

fun refresh_battery_discharge_limit_blocks :: "limit_ctx \<Rightarrow> (bat \<Rightarrow> bat_limits) \<Rightarrow> rat \<Rightarrow> bat list
    \<Rightarrow> gate_state \<Rightarrow> py_error + gate_state" where
  "refresh_battery_discharge_limit_blocks x view now [] gates = Inr gates"
| "refresh_battery_discharge_limit_blocks x view now (c # cs) gates =
     and_then (min_soc_verdict x c (view c)) (\<lambda>od.
       refresh_battery_discharge_limit_blocks x view now cs
         (put_block False ''min_soc'' ''min_soc'' now c od gates))"

section \<open>Lemmas\<close>

named_theorems latch_ops \<open>the fields of a latch after one of its operations\<close>

lemma release_latch_fields [latch_ops]:
  "hysteresis_active (release_latch h) = False" "hysteresis_base_soc (release_latch h) = None"
  by (simp_all add: release_latch_def)

lemma arm_latch_fields [latch_ops]:
  "hysteresis_active (arm_latch s h) = True"
  "hysteresis_base_soc (arm_latch s h) = (case hysteresis_base_soc h of None \<Rightarrow> s | Some b \<Rightarrow> Some b)"
  by (simp_all add: arm_latch_def)

lemma drop_stale_keeps:
  "hysteresis_base_soc h = Some b \<Longrightarrow> configured_max_soc v \<le> b \<Longrightarrow> drop_stale v h = h"
  by (simp add: drop_stale_def)

lemma arm_latch_same: "hysteresis_active h \<Longrightarrow> hysteresis_base_soc h = Some b \<Longrightarrow> arm_latch s h = h"
  by (simp add: arm_latch_def)

text \<open>A latch with a base at or above the ceiling is kept by both copies while the SOC is near it.\<close>

lemma refresh_hysteresis_holds:
  assumes "hysteresis_active h" "hysteresis_base_soc h = Some b" "configured_max_soc v \<le> b"
    and "b - charge_hysteresis_percent v \<le> s"
  shows "refresh_hysteresis v eff cs s h = h"
  using assms by (auto simp: refresh_hysteresis_def drop_stale_keeps arm_latch_same Let_def)

lemma dispatch_hysteresis_holds:
  assumes "hysteresis_active h" "hysteresis_base_soc h = Some b" "configured_max_soc v \<le> b" "b \<noteq> 0"
    and "b - charge_hysteresis_percent v \<le> s"
  shows "dispatch_hysteresis v eff cs s h = h"
  using assms by (auto simp: dispatch_hysteresis_def drop_stale_keeps arm_latch_same Let_def)

lemma dispatch_follows_refresh:
  fixes v eff cs s h
  defines "h1 \<equiv> refresh_hysteresis v eff cs s h"
  assumes pct: "0 \<le> charge_hysteresis_percent v" and nz: "s \<noteq> 0" "hysteresis_base_soc h \<noteq> Some 0"
    and act: "hysteresis_active h1"
  shows "hysteresis_active (dispatch_hysteresis v eff cs s h1) \<or> battery_full v"
  using assms unfolding h1_def
  by (auto simp: refresh_hysteresis_def dispatch_hysteresis_def drop_stale_def latch_ops Let_def split: option.splits if_splits)

definition limit_blocked :: "charge_verdict \<Rightarrow> bool" where
  "limit_blocked w = (max_soc_block w \<noteq> None \<or> hysteresis_block w \<noteq> None)"

lemma soc_vs_ceiling_Some: "\<exists>cs. soc_vs_ceiling od (Some s) = Some cs"
  by (simp add: soc_vs_ceiling_def Let_def)

lemma effective_raises_alike:
  "effective_charge_max_soc x c v u ign = Inr r \<Longrightarrow> \<exists>r'. effective_charge_max_soc x c v u' ign' = Inr r'"
  by (cases "slot_charge_soc_max x c v") (auto simp: effective_charge_max_soc_def Let_def)

lemma verdict_cases:
  assumes v: "charge_limit_verdict x c v h = Inr (h1, w)" "in_play v" "soc_reading (tele v) = Some s"
    "soc_vs_ceiling (tele v) (Some s) = Some cs"
    and mode: "\<not> weekly_full_charge_unlocked x" "\<not> bms_retry_pending v" "\<not> recal_override v"
    and eff: "effective_charge_max_soc x c v False False = Inr (eff, source)"
  shows "if charge_to_bms v eff then h1 = release_latch h \<and> \<not> limit_blocked w
         else (h1 = (if enable_charge_hysteresis v then refresh_hysteresis v eff cs s h else h)
           \<and> (limit_blocked w \<longleftrightarrow> battery_full v \<or> (enable_charge_hysteresis v \<and> hysteresis_active h1)
                \<or> (eff \<le> cs \<and> solar_only_note w = None)))"
proof -
  obtain eff' src' where eff': "effective_charge_max_soc x c v False True = Inr (eff', src')"
    using effective_raises_alike [OF eff] by (metis surj_pair)
  have ip: "\<not> manual_mode v" "tele v \<noteq> None" using v(2) by (auto simp: in_play_def)
  show ?thesis using v(1)
    by (auto simp: charge_limit_verdict_def ip v(3,4) mode eff eff' no_limit_blocks_def limit_blocked_def Let_def
        split: if_splits)
qed

lemma candidate_cases:
  assumes "soc_reading (tele v) = Some s" "soc_vs_ceiling (tele v) (Some s) = Some cs"
    and mode: "\<not> weekly_full_charge_unlocked x" "\<not> recal_override v"
    and eff: "effective_charge_max_soc x c v False ign = Inr (eff, source)"
  shows "\<exists>h2. charge_candidate x ign c v h =
     (let hd = (if \<not> enable_charge_hysteresis v then h else if charge_to_bms v eff then release_latch h
                else dispatch_hysteresis v eff cs s h) in
      Inr (h2, \<not> (enable_charge_hysteresis v \<and> hysteresis_active hd) \<and> 
         (charge_to_bms v eff \<or> (\<not> battery_full v \<and> cs < eff))))
    \<and> (enable_charge_hysteresis v \<and> \<not> charge_to_bms v eff \<and> hysteresis_active (dispatch_hysteresis v eff cs s h)
         \<longrightarrow> h2 = dispatch_hysteresis v eff cs s h)"
  using assms by (auto simp: charge_candidate_def Let_def latch_ops)

lemma charge_copies_agree_core:
  assumes "charge_limit_verdict x c v h = Inr (h1, w)" and "in_play v"
    and "\<not> weekly_full_charge_unlocked x" and "\<not> bms_retry_pending v" and "\<not> recal_override v"
    and soc: "soc_reading (tele v) = Some s" "s \<noteq> 0" and "hysteresis_base_soc h \<noteq> Some 0"
    and "0 \<le> charge_hysteresis_percent v"
  shows "\<exists>h2 a. charge_candidate x False c v h1 = Inr (h2, a) \<and>
     (if limit_blocked w then \<not> a
      else a \<or> solar_only_note w \<noteq> None
        \<or> (enable_charge_hysteresis v \<and> \<not> hysteresis_active h1 \<and> hysteresis_active h2))"
proof -
  obtain cs where cs: "soc_vs_ceiling (tele v) (Some s) = Some cs" using soc_vs_ceiling_Some by blast
  obtain eff source where eff: "effective_charge_max_soc x c v False False = Inr (eff, source)"
    using assms(1-4) by (cases "effective_charge_max_soc x c v False False")
      (auto simp: charge_limit_verdict_def in_play_def Let_def)
  note vc = verdict_cases [OF assms(1,2) soc(1) cs assms(3-5) eff]
  note dr = dispatch_follows_refresh [where v = v and eff = eff and cs = cs and s = s and h = h]
  obtain h2 where h2: "charge_candidate x False c v h1 =
     (let hd = (if \<not> enable_charge_hysteresis v then h1 else if charge_to_bms v eff then release_latch h1
                else dispatch_hysteresis v eff cs s h1) in
      Inr (h2, \<not> (enable_charge_hysteresis v \<and> hysteresis_active hd) \<and> 
         (charge_to_bms v eff \<or> (\<not> battery_full v \<and> cs < eff))))"
    "enable_charge_hysteresis v \<and> \<not> charge_to_bms v eff \<and> hysteresis_active (dispatch_hysteresis v eff cs s h1)
         \<longrightarrow> h2 = dispatch_hysteresis v eff cs s h1"
    using candidate_cases [OF soc(1) cs assms(3,5) eff, of h1] by blast
  show ?thesis
  proof (cases "charge_to_bms v eff")
    case True
    then show ?thesis using vc h2 by (auto simp: Let_def latch_ops)
  next
    case False
    then show ?thesis using vc h2 dr assms(7,8,9) by (auto simp: Let_def split: if_splits)
  qed
qed

text \<open>
  Two consequences of comparing with the configured maximum. A latch armed by the cell
  voltage below that maximum is taken for a stale one and dropped as soon as the voltage
  relaxes, whatever the hysteresis band. And a slot that raises the ceiling above it has
  no effect with the hysteresis enabled, because the latch is armed at the maximum.
\<close>

lemma early_latch_dropped:
  assumes "hysteresis_base_soc h = Some b" "b < configured_max_soc v" "cs < configured_max_soc v"
    "\<not> taper_at_top v eff" "\<not> battery_full v"
  shows "\<not> hysteresis_active (dispatch_hysteresis v eff cs s h) \<and> \<not> hysteresis_active (refresh_hysteresis v eff cs s h)"
  using assms by (auto simp: dispatch_hysteresis_def refresh_hysteresis_def drop_stale_def latch_ops Let_def)

lemma raised_ceiling_has_no_effect:
  assumes "configured_max_soc v \<le> cs" "hysteresis_base_soc h = None" "0 \<le> charge_hysteresis_percent v" "s \<noteq> 0"
  shows "hysteresis_active (dispatch_hysteresis v eff cs s h)"
  using assms by (auto simp: dispatch_hysteresis_def drop_stale_def latch_ops Let_def)

section \<open>Runs\<close>

datatype limit_event =
    Refresh limit_ctx bat_limits
  | DispatchCharge limit_ctx bool bat_limits
  | DispatchDischarge bat_limits

definition keep_latch :: "soc_latch \<Rightarrow> py_error + soc_latch \<times> 'a \<Rightarrow> soc_latch" where
  "keep_latch h r = (case r of Inl _ \<Rightarrow> h | Inr (h', _) \<Rightarrow> h')"

primrec latch_step :: "bat \<Rightarrow> soc_latch \<Rightarrow> limit_event \<Rightarrow> soc_latch" where
  "latch_step c h (Refresh x v) = keep_latch h (charge_limit_verdict x c v h)"
| "latch_step c h (DispatchCharge x ign v) = keep_latch h (charge_candidate x ign c v h)"
| "latch_step c h (DispatchDischarge v) = keep_latch h (discharge_candidate v h)"

text \<open>An ordinary cycle in which the SOC has not fallen through the hysteresis band below \<open>b\<close>.\<close>

definition in_band :: "rat \<Rightarrow> limit_ctx \<Rightarrow> bat_limits \<Rightarrow> bool" where
  "in_band b x v = (\<not> weekly_full_charge_unlocked x \<and> \<not> recal_override v \<and> \<not> bms_charge_due v
     \<and> \<not> bms_retry_pending v \<and> enable_charge_hysteresis v \<and> configured_max_soc v \<le> b
     \<and> (case soc_reading (tele v) of None \<Rightarrow> True | Some s \<Rightarrow> b - charge_hysteresis_percent v \<le> s))"

primrec near_top :: "rat \<Rightarrow> limit_event \<Rightarrow> bool" where
  "near_top b (Refresh x v) = in_band b x v"
| "near_top b (DispatchCharge x ign v) = in_band b x v"
| "near_top b (DispatchDischarge v) = True"

definition latched_at :: "rat \<Rightarrow> soc_latch \<Rightarrow> bool" where
  "latched_at b h = (hysteresis_active h \<and> hysteresis_base_soc h = Some b \<and> b \<noteq> 0)"

lemma charge_candidate_latched:
  "latched_at b h \<Longrightarrow> in_band b x v \<Longrightarrow>
     (case charge_candidate x ign c v h of Inl _ \<Rightarrow> True | Inr (h', a) \<Rightarrow> h' = h \<and> \<not> a)"
  by (auto simp: charge_candidate_def in_band_def latched_at_def charge_to_bms_def dispatch_hysteresis_holds
      and_then_def Let_def split: sum.splits option.splits)

lemma verdict_latched:
  "latched_at b h \<Longrightarrow> in_band b x v \<Longrightarrow> keep_latch h (charge_limit_verdict x c v h) = h"
  by (auto simp: charge_limit_verdict_def in_band_def latched_at_def charge_to_bms_def refresh_hysteresis_holds
      and_then_def keep_latch_def Let_def split: sum.splits option.splits)

lemma discharge_keeps_hysteresis:
  "discharge_candidate v h = Inr (h', a) \<Longrightarrow>
     hysteresis_active h' = hysteresis_active h \<and> hysteresis_base_soc h' = hysteresis_base_soc h"
  by (auto simp: discharge_candidate_def Let_def split: option.splits)

interpretation hyst: invariant_machine "latch_step c" "latched_at b" "near_top b" for b c
proof
  fix h :: soc_latch and e
  assume inv: "latched_at b h" and e: "near_top b e"
  show "latched_at b (latch_step c h e)"
  proof (cases e)
    case (Refresh x v)
    then show ?thesis using verdict_latched inv e by simp
  next
    case (DispatchCharge x ign v)
    then show ?thesis using charge_candidate_latched [OF inv, of x v ign c] inv e
      by (auto simp: keep_latch_def split: sum.splits)
  next
    case (DispatchDischarge v)
    then show ?thesis using discharge_keeps_hysteresis [of v h] inv
      by (auto simp: keep_latch_def latched_at_def split: sum.splits)
  qed
qed

lemma latch_ops_min_soc [latch_ops]:
  "min_soc_latched (release_latch h) = min_soc_latched h" "min_soc_latched (arm_latch s h) = min_soc_latched h"
  by (simp_all add: release_latch_def arm_latch_def)

lemma refresh_keeps_min_soc [latch_ops]: "min_soc_latched (refresh_hysteresis v e cs s h) = min_soc_latched h"
  by (auto simp: refresh_hysteresis_def drop_stale_def latch_ops Let_def split: option.splits)

lemma dispatch_keeps_min_soc [latch_ops]: "min_soc_latched (dispatch_hysteresis v e cs s h) = min_soc_latched h"
  by (auto simp: dispatch_hysteresis_def drop_stale_def latch_ops Let_def split: option.splits)

lemma verdict_keeps_min_soc: "min_soc_latched (keep_latch h (charge_limit_verdict x c v h)) = min_soc_latched h"
  by (auto simp: charge_limit_verdict_def and_then_def keep_latch_def latch_ops Let_def split: sum.splits option.splits)

lemma charge_candidate_keeps_min_soc: "min_soc_latched (keep_latch h (charge_candidate x ign c v h)) = min_soc_latched h"
  by (auto simp: charge_candidate_def and_then_def keep_latch_def latch_ops Let_def split: sum.splits option.splits)

definition below_reentry :: "bat_limits \<Rightarrow> bool" where
  "below_reentry v = (case soc_vs_floor (tele v) (soc_reading (tele v)) of
     None \<Rightarrow> True | Some f \<Rightarrow> f < configured_min_soc v + DISCHARGE_MIN_SOC_REENTRY_MARGIN)"

primrec low_event :: "limit_event \<Rightarrow> bool" where
  "low_event (Refresh x v) = True"
| "low_event (DispatchCharge x ign v) = True"
| "low_event (DispatchDischarge v) = below_reentry v"

lemma discharge_latched:
  "min_soc_latched h \<Longrightarrow> below_reentry v \<Longrightarrow>
     (case discharge_candidate v h of Inl _ \<Rightarrow> True | Inr (h', a) \<Rightarrow> min_soc_latched h' \<and> \<not> a)"
  by (auto simp: discharge_candidate_def below_reentry_def Let_def split: option.splits)

interpretation floor_latch: invariant_machine "latch_step c" min_soc_latched low_event for c
proof
  fix h :: soc_latch and e
  assume inv: "min_soc_latched h" and e: "low_event e"
  show "min_soc_latched (latch_step c h e)"
  proof (cases e)
    case (DispatchDischarge v)
    then show ?thesis using discharge_latched [OF inv, of v] inv e by (auto simp: keep_latch_def split: sum.splits)
  qed (simp_all add: inv verdict_keeps_min_soc charge_candidate_keeps_min_soc)
qed

section \<open>The selected batteries\<close>

definition within_limits :: "limit_ctx \<Rightarrow> query \<Rightarrow> bat \<Rightarrow> bat_limits \<Rightarrow> bool" where
  "within_limits x q c v =
     (let soc = soc_reading (tele v) in
      if for_charging q
      then (case (soc_vs_ceiling (tele v) soc,
              effective_charge_max_soc x c v (weekly_full_charge_unlocked x) (ignore_predictive_target q)) of
          (Some cs, Inr (eff, _)) \<Rightarrow> cs < eff \<or> charge_to_bms v eff
        | _ \<Rightarrow> False)
      else (case soc_vs_floor (tele v) soc of Some fs \<Rightarrow> configured_min_soc v < fs | None \<Rightarrow> False))"

lemma candidate_within_limits:
  "candidate x gates q c v h = Inr (h', True) \<Longrightarrow> in_play v
     \<and> \<not> (include_operation_blocks q \<and> operation_blocked gates (for_charging q) (protection_discharge q) c)
     \<and> within_limits x q c v"
  by (auto simp: candidate_def charge_candidate_def discharge_candidate_def within_limits_def and_then_def Let_def
      split: if_splits sum.splits option.splits prod.splits)

lemma available_pointwise:
  assumes "get_available_batteries x gates q view cs st = Inr (st', av)" and "distinct cs"
  shows "subseq av cs \<and> (\<forall>c. c \<notin> set cs \<longrightarrow> st' c = st c)
     \<and> (\<forall>c \<in> set cs. candidate x gates q c (view c) (st c) = Inr (st' c, c \<in> set av))"
  using assms
proof (induction cs arbitrary: st st' av)
  case Nil
  then show ?case by simp
next
  case (Cons c cs)
  then obtain h a rest where h: "candidate x gates q c (view c) (st c) = Inr (h, a)"
    and r: "get_available_batteries x gates q view cs (st(c := h)) = Inr (st', rest)"
    and av: "av = (if a then c # rest else rest)"
    by (auto simp: and_then_eq_Inr)
  have IH: "subseq rest cs" "\<And>d. d \<notin> set cs \<Longrightarrow> st' d = (st(c := h)) d"
    "\<And>d. d \<in> set cs \<Longrightarrow> candidate x gates q d (view d) ((st(c := h)) d) = Inr (st' d, d \<in> set rest)"
    using Cons.IH [OF r] Cons.prems(2) by auto
  have "c \<notin> set rest" using IH(1) Cons.prems(2) by (auto dest: list_emb_set)
  moreover have "candidate x gates q d (view d) (st d) = Inr (st' d, d \<in> set rest) \<and> d \<noteq> c" if "d \<in> set cs" for d
    using IH(3) [OF that] that Cons.prems(2) by (metis distinct.simps(2) fun_upd_apply)
  ultimately show ?case using IH(1,2) Cons.prems(2) h av by auto
qed


definition example_bat :: "rat \<Rightarrow> bat_limits" where
  "example_bat soc = \<lparr>label = ''Venus'', tele = Some [(''battery_soc'', VFloat (Fin soc))], manual_mode = False,
     reachable = True, non_responsive = False, backup_active = False, rs485_user_disabled = False,
     manual_slot_owned = False, configured_max_soc = 90, configured_min_soc = 12,
     enable_charge_hysteresis = True, charge_hysteresis_percent = 5, charge_slot = None, discharge_slot = None,
     recal_override = False, bms_charge_due = False, bms_retry_pending = False, battery_full = False\<rparr>"

definition example_ctx :: limit_ctx where
  "example_ctx = \<lparr>slot_order = [0, 1], weekly_active = False, charge_delay_enabled = False,
     charge_delay_unlocked = False, balance_overrides_delay = False, grid_charging_active = False,
     predictive_charge_target_soc = None\<rparr>"

definition full_latch :: soc_latch where
  "full_latch = fresh_latch\<lparr>hysteresis_active := True, hysteresis_base_soc := Some 90\<rparr>"

section \<open>Properties\<close>

text \<open>
  The two copies of the charge limits agree. After the refresh has stepped the latch
  of a battery and published its verdict, the selection for dispatch rejects the battery
  whenever a SOC or hysteresis block is set; without one it accepts the battery, unless
  only solar surplus may charge it or this very call arms the latch again.
\<close>

theorem charge_copies_agree:
  assumes "charge_limit_verdict x c v h = Inr (h1, w)" and "in_play v"
    and "\<not> weekly_full_charge_unlocked x" and "\<not> bms_retry_pending v" and "\<not> recal_override v"
    and soc: "soc_reading (tele v) = Some s" "s \<noteq> 0" and "hysteresis_base_soc h \<noteq> Some 0"
    and "0 \<le> charge_hysteresis_percent v"
  shows "\<exists>h2 a. charge_candidate x False c v h1 = Inr (h2, a) \<and>
     (if limit_blocked w then \<not> a
      else a \<or> solar_only_note w \<noteq> None
        \<or> (enable_charge_hysteresis v \<and> \<not> hysteresis_active h1 \<and> hysteresis_active h2))"
  by (rule charge_copies_agree_core [OF assms])

lemma charge_copies_agree_witness:
  "\<not> snd (projr (charge_candidate example_ctx False 0 (example_bat 92)
     (fst (projr (charge_limit_verdict example_ctx 0 (example_bat 92) fresh_latch)))))"
proof -
  let ?r = "charge_limit_verdict example_ctx 0 (example_bat 92) fresh_latch"
  have side: "in_play (example_bat 92)" "\<not> weekly_full_charge_unlocked example_ctx"
    "\<not> bms_retry_pending (example_bat 92)" "\<not> recal_override (example_bat 92)"
    "soc_reading (tele (example_bat 92)) = Some 92" "(92 :: rat) \<noteq> 0" "hysteresis_base_soc fresh_latch \<noteq> Some 0"
    "0 \<le> charge_hysteresis_percent (example_bat 92)"
    by code_simp+
  have "\<not> isl ?r" and blocked: "limit_blocked (snd (projr ?r))" by code_simp+
  then have "?r = Inr (fst (projr ?r), snd (projr ?r))" by simp
  from charge_copies_agree [OF this side] blocked show ?thesis by auto
qed

text \<open>
  The charge hysteresis holds: once latched at a SOC no lower than the configured
  maximum, no interleaving of refreshes and selections makes the battery a candidate for
  charging before its SOC has fallen through the hysteresis band.
\<close>

theorem charge_hysteresis_holds:
  assumes "latched_at b h" and "list_all (near_top b) es" and "in_band b x v"
  shows "(case charge_candidate x ign c v (run (latch_step c) h es) of Inl _ \<Rightarrow> True | Inr (_, a) \<Rightarrow> \<not> a)"
proof -
  have "latched_at b (run (latch_step c) h es)"
    using assms(1,2) by (intro hyst.run_inv) (auto simp: list_all_iff)
  from charge_candidate_latched [OF this assms(3), of ign c] show ?thesis
    by (auto split: sum.splits)
qed

lemma charge_hysteresis_holds_witness:
  "charge_candidate example_ctx False 0 (example_bat 86) (run (latch_step 0) full_latch
     [Refresh example_ctx (example_bat 89), DispatchCharge example_ctx False (example_bat 87)])
   = Inr (full_latch, False)"
proof -
  let ?es = "[Refresh example_ctx (example_bat 89), DispatchCharge example_ctx False (example_bat 87)]"
  have "latched_at 90 full_latch" "list_all (near_top 90) ?es" "in_band 90 example_ctx (example_bat 86)"
    by code_simp+
  note charge_hysteresis_holds [OF this, of False 0]
  moreover have "fst (projr (charge_candidate example_ctx False 0 (example_bat 86) (run (latch_step 0) full_latch ?es)))
     = full_latch \<and> isl (charge_candidate example_ctx False 0 (example_bat 86) (run (latch_step 0) full_latch ?es)) = False"
    by code_simp
  ultimately show ?thesis
    by (auto split: sum.splits)
qed

text \<open>
  The re-entry latch: after a battery has been seen at its minimum SOC, it is not a
  candidate for discharging, whatever refreshes and selections follow, until its SOC has
  recovered by the re-entry margin.
\<close>

theorem min_soc_reentry_holds:
  assumes "soc_vs_floor (tele v0) (soc_reading (tele v0)) = Some f" and "f \<le> configured_min_soc v0"
    and "list_all low_event es" and "below_reentry v"
  shows "(case discharge_candidate v (run (latch_step c) h (DispatchDischarge v0 # es)) of
     Inl _ \<Rightarrow> True | Inr (_, a) \<Rightarrow> \<not> a)"
proof -
  have "min_soc_latched (latch_step c h (DispatchDischarge v0))"
    using assms(1,2) by (simp add: keep_latch_def discharge_candidate_def)
  then have "min_soc_latched (run (latch_step c) h (DispatchDischarge v0 # es))"
    using assms(3) by (auto simp: list_all_iff intro!: floor_latch.run_inv)
  from discharge_latched [OF this assms(4)] show ?thesis by (auto split: sum.splits)
qed

lemma min_soc_reentry_holds_witness:
  "snd (projr (discharge_candidate (example_bat 13)
     (run (latch_step 0) fresh_latch [DispatchDischarge (example_bat 12), DispatchDischarge (example_bat 13)]))) = False"
proof -
  let ?r = "discharge_candidate (example_bat 13)
     (run (latch_step 0) fresh_latch [DispatchDischarge (example_bat 12), DispatchDischarge (example_bat 13)])"
  have "soc_vs_floor (tele (example_bat 12)) (soc_reading (tele (example_bat 12))) = Some 12"
    "(12 :: rat) \<le> configured_min_soc (example_bat 12)" "list_all low_event [DispatchDischarge (example_bat 13)]"
    "below_reentry (example_bat 13)" by code_simp+
  note min_soc_reentry_holds [OF this, of 0 fresh_latch]
  moreover have "\<not> isl ?r" by code_simp
  ultimately show ?thesis by (auto split: sum.splits)
qed

text \<open>
  The selection returns, in fleet order, exactly the batteries whose own test
  succeeds: each is reachable, under automatic control and unblocked, and its SOC is
  inside the limits of the direction; and each battery's latch is stepped by its own test
  only.
\<close>

theorem available_batteries_eligible:
  assumes "get_available_batteries x gates q view cs st = Inr (st', av)" and "distinct cs"
  shows "subseq av cs
     \<and> list_all (\<lambda>c. candidate x gates q c (view c) (st c) = Inr (st' c, c \<in> set av)) cs
     \<and> list_all (\<lambda>c. in_play (view c) \<and> within_limits x q c (view c)
         \<and> \<not> (include_operation_blocks q \<and> operation_blocked gates (for_charging q) (protection_discharge q) c)) av"
proof -
  note pw = available_pointwise [OF assms]
  have sub: "subseq av cs" using pw by blast
  have step: "candidate x gates q c (view c) (st c) = Inr (st' c, c \<in> set av)" if "c \<in> set cs" for c
    using pw that by blast
  have "candidate x gates q c (view c) (st c) = Inr (st' c, True)" if "c \<in> set av" for c
    using step [of c] that sub by (auto dest: list_emb_set)
  note ok = candidate_within_limits [OF this]
  show ?thesis
    using sub step ok unfolding list_all_iff by blast
qed

definition discharge_query :: query where
  "discharge_query = \<lparr>for_charging = False, include_operation_blocks = True, protection_discharge = False,
     ignore_predictive_target = False\<rparr>"

definition example_view :: "bat \<Rightarrow> bat_limits" where
  "example_view c = (if c = 0 then example_bat 12 else example_bat 60)"

lemma available_batteries_eligible_witness:
  "map_option snd (case get_available_batteries example_ctx empty_gates discharge_query example_view [0, 1] (\<lambda>_. fresh_latch)
     of Inr r \<Rightarrow> Some r | Inl _ \<Rightarrow> None) = Some [1]
   \<and> in_play (example_view 1)"
proof -
  let ?r = "get_available_batteries example_ctx empty_gates discharge_query example_view [0, 1] (\<lambda>_. fresh_latch)"
  have "snd (projr ?r) = [1]" and "\<not> isl ?r" by code_simp+
  then have r: "?r = Inr (fst (projr ?r), [1])" by (metis sum.collapse(2) prod.collapse)
  show ?thesis
  proof
    show "map_option snd (case ?r of Inr r \<Rightarrow> Some r | Inl _ \<Rightarrow> None) = Some [1]" by (subst r) simp
    have "distinct [0, 1 :: bat]" by simp
    from available_batteries_eligible [OF r this] show "in_play (example_view 1)"
      by (simp only: list.pred_inject)
  qed
qed

end
