(* ===== verification/Top_Charge.thy ===== *)
theory Top_Charge
  imports Power_Limits Charge_Limits
begin

text \<open>
  The end of a charge: the debounced detection of a BMS cutoff
  (\<open>control/weekly_full_charge.py\<close>, \<open>tick_bms_cutoff\<close> and \<open>is_battery_full\<close>) and the
  top-of-charge manager (\<open>control/max_soc_charge.py\<close>): the retry after a provisional cutoff
  of coupled packs, the SOC recalibration with its single retry, the taper latch, and the
  measurement of the cell delta. The dictionaries of the controller are keyed by battery,
  so one battery's entries are one record; a missing entry is the default of \<open>get\<close>.
  Telemetry values are numbers; a missing or rejected value is \<open>None\<close>.
\<close>

section \<open>Data\<close>

definition NORMAL_BALANCE_RECAL_CUTOFF_CYCLES :: nat where "NORMAL_BALANCE_RECAL_CUTOFF_CYCLES = 5"

definition NORMAL_BALANCE_RECAL_CUTOFF_POWER_W :: rat where "NORMAL_BALANCE_RECAL_CUTOFF_POWER_W = 10"

definition NORMAL_BALANCE_RECAL_SOC_THRESHOLD :: rat where "NORMAL_BALANCE_RECAL_SOC_THRESHOLD = 99"

definition NORMAL_BALANCE_RECAL_INVERTER_STANDBY :: int where "NORMAL_BALANCE_RECAL_INVERTER_STANDBY = 1"

definition NORMAL_BALANCE_MEASURE_WAIT_SECONDS :: rat where "NORMAL_BALANCE_MEASURE_WAIT_SECONDS = 60"

record top_in =
  battery_data :: "data option"
  manual_owner :: bool
  taper_enabled :: bool
  uses_bms_cutoff_at_top :: bool
  is_zendure :: bool
  commanded_charge_power :: rat
  weekly_unlocked :: bool
  now_utc :: rat

datatype measurement_state = MeasurementPending | MeasurementDone

datatype measure_phase = WaitMeasure | Measured

datatype retry_verdict = RetryPending | RetryActive

record top_state =
  bms_cutoff_count :: nat
  bms_accept_count :: nat
  voltage_tapered :: bool
  bms_cutoff_active :: bool
  cutoff_measurement :: "measurement_state option"
  retry_pending :: bool
  retry_active :: bool
  retry_accept_count :: nat
  recal_override_on :: bool
  recal_cutoff_count :: "nat option"
  recal_latched :: bool
  recal_retry_pending :: bool
  recal_retry_active :: bool
  recal_first_cutoff_voltage :: "rat option"
  recal_accept_count :: nat
  phase :: "measure_phase option"
  measure_started :: "rat option"
  last_delta_v :: "rat option"

definition fresh_top :: top_state where
  "fresh_top = \<lparr>bms_cutoff_count = 0, bms_accept_count = 0, voltage_tapered = False, bms_cutoff_active = False,
     cutoff_measurement = None, retry_pending = False, retry_active = False, retry_accept_count = 0,
     recal_override_on = False, recal_cutoff_count = None, recal_latched = False, recal_retry_pending = False,
     recal_retry_active = False, recal_first_cutoff_voltage = None, recal_accept_count = 0,
     phase = None, measure_started = None, last_delta_v = None\<rparr>"

definition num_of :: "top_in \<Rightarrow> string \<Rightarrow> rat option" where
  "num_of i key = (case battery_data i of
     None \<Rightarrow> None
   | Some d \<Rightarrow> (case map_of d key of None \<Rightarrow> None | Some v \<Rightarrow> finite_val v))"

definition no_data :: "top_in \<Rightarrow> bool" where
  "no_data i = (case battery_data i of None \<Rightarrow> True | Some d \<Rightarrow> d = [])"

definition qualified_vmax :: "top_in \<Rightarrow> rat option" where
  "qualified_vmax i = (case control_vmax (battery_data i) of Some (Fin q) \<Rightarrow> Some q | _ \<Rightarrow> None)"

definition at_least :: "rat option \<Rightarrow> rat \<Rightarrow> bool" where
  "at_least v bound = (case v of None \<Rightarrow> False | Some q \<Rightarrow> bound \<le> q)"

definition exceeds :: "rat option \<Rightarrow> rat \<Rightarrow> bool" where
  "exceeds v bound = (case v of None \<Rightarrow> False | Some q \<Rightarrow> bound < q)"

definition at_most :: "rat option \<Rightarrow> rat \<Rightarrow> bool" where
  "at_most v bound = (case v of None \<Rightarrow> False | Some q \<Rightarrow> q \<le> bound)"

section \<open>The debounced cutoff\<close>

definition bms_cutoff_confirmed :: "top_state \<Rightarrow> bool" where
  "bms_cutoff_confirmed s = (NORMAL_BALANCE_RECAL_CUTOFF_CYCLES \<le> bms_cutoff_count s)"

definition clear_bms_cutoff_retry_state :: "top_state \<Rightarrow> top_state" where
  "clear_bms_cutoff_retry_state s = s\<lparr>retry_pending := False, retry_active := False, retry_accept_count := 0\<rparr>"

definition tick_bms_cutoff_retry_acceptance :: "top_in \<Rightarrow> top_state \<Rightarrow> top_state" where
  "tick_bms_cutoff_retry_acceptance i s =
     (if \<not> retry_active s then s
      else if manual_owner i then s\<lparr>retry_accept_count := 0\<rparr>
      else if exceeds (num_of i ''battery_power'') NORMAL_BALANCE_RECAL_CUTOFF_POWER_W
              \<and> NORMAL_BALANCE_RECAL_CUTOFF_POWER_W < commanded_charge_power i
      then (let n = Suc (retry_accept_count s) in
            if NORMAL_BALANCE_RECAL_CUTOFF_CYCLES \<le> n
            then s\<lparr>retry_active := False, retry_accept_count := 0, bms_cutoff_count := 0\<rparr>
            else s\<lparr>retry_accept_count := n\<rparr>)
      else s\<lparr>retry_accept_count := 0\<rparr>)"

text \<open>The sample of \<open>tick_bms_cutoff\<close>: a commanded charge that the battery refuses.\<close>

definition top_soc :: "top_in \<Rightarrow> rat" where
  "top_soc i = (case num_of i ''battery_soc'' of None \<Rightarrow> 0 | Some q \<Rightarrow> q)"

definition refuses_charge :: "top_in \<Rightarrow> bool" where
  "refuses_charge i =
     (at_most (num_of i ''battery_power'') NORMAL_BALANCE_RECAL_CUTOFF_POWER_W
      \<and> NORMAL_BALANCE_RECAL_CUTOFF_POWER_W < commanded_charge_power i
      \<and> (num_of i ''inverter_state'' = Some (of_int NORMAL_BALANCE_RECAL_INVERTER_STANDBY)
         \<or> (is_zendure i \<and> num_of i ''inverter_state'' = None \<and> 99 \<le> top_soc i)))"

definition near_full :: "top_in \<Rightarrow> bool" where
  "near_full i = (99 \<le> top_soc i \<or> at_least (qualified_vmax i) NORMAL_BALANCE_TAPER_CELL_VOLTAGE)"

definition count_cutoff :: "top_in \<Rightarrow> top_state \<Rightarrow> top_state" where
  "count_cutoff i s =
     (if manual_owner i then s
      else if no_data i then s\<lparr>bms_cutoff_count := 0\<rparr>
      else if near_full i
      then (if refuses_charge i
            then s\<lparr>bms_accept_count := 0, bms_cutoff_count := Suc (bms_cutoff_count s)\<rparr>
            else if exceeds (num_of i ''battery_power'') NORMAL_BALANCE_RECAL_CUTOFF_POWER_W
            then (let accepts = Suc (bms_accept_count s) in
                  if accepts < NORMAL_BALANCE_RECAL_CUTOFF_CYCLES then s\<lparr>bms_accept_count := accepts\<rparr>
                  else s\<lparr>bms_accept_count := 0, bms_cutoff_count := 0\<rparr>)
            else s)
      else s\<lparr>bms_cutoff_count := 0, bms_accept_count := 0\<rparr>)"

definition tick_bms_cutoff :: "top_in \<Rightarrow> top_state \<Rightarrow> top_state" where
  "tick_bms_cutoff i s = count_cutoff i (tick_bms_cutoff_retry_acceptance i s)"

definition prepare_bms_cutoff_retry :: "top_in \<Rightarrow> top_state \<Rightarrow> top_state \<times> retry_verdict option" where
  "prepare_bms_cutoff_retry i s =
     (let soc = num_of i ''battery_soc''; vmax = num_of i ''max_cell_voltage'';
          relaxed = at_most vmax NORMAL_BALANCE_RECAL_RETRY_CELL_VOLTAGE;
          opened = s\<lparr>retry_pending := False, retry_active := True, bms_cutoff_count := 0\<rparr>
      in if \<not> uses_bms_cutoff_at_top i \<or> \<not> taper_enabled i \<or> no_data i then (s, None)
         else if cutoff_measurement s \<noteq> None then (clear_bms_cutoff_retry_state s, None)
         else if retry_pending s
         then (if exceeds (num_of i ''battery_power'') NORMAL_BALANCE_RECAL_CUTOFF_POWER_W
               then (s\<lparr>retry_pending := False\<rparr>, None)
               else if at_least soc 100 then (s\<lparr>retry_pending := False\<rparr>, None)
               else if relaxed then (opened, Some RetryActive)
               else (s, Some RetryPending))
         else if retry_active s
         then (if vmax \<noteq> None \<and> \<not> at_least vmax NORMAL_BALANCE_TAPER_CELL_VOLTAGE
               then (clear_bms_cutoff_retry_state s, None)
               else if bms_cutoff_confirmed s
               then ((clear_bms_cutoff_retry_state s)\<lparr>cutoff_measurement := Some MeasurementPending\<rparr>, None)
               else (s, Some RetryActive))
         else if \<not> bms_cutoff_confirmed s then (s, None)
         else if soc = None \<or> at_least soc 100 then (s, None)
         else if relaxed then (opened, Some RetryActive)
         else (s\<lparr>retry_pending := True\<rparr>, Some RetryPending))"

definition should_charge_to_bms_cutoff :: "top_in \<Rightarrow> rat option \<Rightarrow> top_state \<Rightarrow> top_state \<times> bool" where
  "should_charge_to_bms_cutoff i effective_max_soc s =
     (if \<not> uses_bms_cutoff_at_top i \<or> \<not> taper_enabled i then (s, False)
      else if effective_max_soc \<noteq> None \<and> \<not> at_least effective_max_soc 100 then (s, False)
      else if cutoff_measurement s \<noteq> None then (s, False)
      else (let (s', r) = prepare_bms_cutoff_retry i s in
        (s', if r = Some RetryPending then False
             else if r = Some RetryActive then True
             else if bms_cutoff_confirmed s' then False
             else if bms_cutoff_active s' then True
             else at_least (num_of i ''max_cell_voltage'') NORMAL_BALANCE_PAUSE_CELL_VOLTAGE)))"

definition is_battery_full :: "top_in \<Rightarrow> top_state \<Rightarrow> top_state \<times> bool" where
  "is_battery_full i s =
     (if manual_owner i then (s, False)
      else if no_data i then (s, False)
      else (let soc = (case soc_vs_ceiling (battery_data i) (Some (top_soc i)) of None \<Rightarrow> 0 | Some q \<Rightarrow> q);
                (s1, r) = prepare_bms_cutoff_retry i s
            in if r \<noteq> None then (s1, False)
               else if 100 \<le> soc
               then (let (s2, due) = should_charge_to_bms_cutoff i (Some 100) s1 in (s2, \<not> due))
               else (s1, bms_cutoff_confirmed s1)))"

section \<open>SOC recalibration\<close>

definition bms_cut_signature :: "top_in \<Rightarrow> bool" where
  "bms_cut_signature i =
     (at_most (num_of i ''battery_power'') NORMAL_BALANCE_RECAL_CUTOFF_POWER_W
      \<and> NORMAL_BALANCE_RECAL_CUTOFF_POWER_W < commanded_charge_power i
      \<and> (case num_of i ''inverter_state'' of
           None \<Rightarrow> False | Some q \<Rightarrow> py_trunc q = NORMAL_BALANCE_RECAL_INVERTER_STANDBY))"

definition recal_accept_sustained :: "top_in \<Rightarrow> top_state \<Rightarrow> top_state \<times> bool" where
  "recal_accept_sustained i s =
     (if bms_cut_signature i then (s\<lparr>recal_accept_count := 0\<rparr>, False)
      else if \<not> exceeds (num_of i ''battery_power'') NORMAL_BALANCE_RECAL_CUTOFF_POWER_W then (s, False)
      else (let n = Suc (recal_accept_count s) in
        if NORMAL_BALANCE_RECAL_CUTOFF_CYCLES \<le> n then (s\<lparr>recal_accept_count := 0\<rparr>, True)
        else (s\<lparr>recal_accept_count := n\<rparr>, False)))"

definition count_of :: "nat option \<Rightarrow> nat" where
  "count_of c = (case c of None \<Rightarrow> 0 | Some n \<Rightarrow> n)"

text \<open>The branch with the retry open: only a second confirmed refusal ends it.\<close>

definition recal_retry_step :: "top_in \<Rightarrow> top_state \<Rightarrow> top_state \<times> bool" where
  "recal_retry_step i s =
     (let soc = num_of i ''battery_soc'' in
      if soc = None \<or> at_least soc 100
      then (s\<lparr>recal_retry_active := False, recal_cutoff_count := None\<rparr>, False)
      else (let (s1, sustained) = recal_accept_sustained i s in
        if bms_cut_signature i
        then (let n = Suc (count_of (recal_cutoff_count s1)) in
              if NORMAL_BALANCE_RECAL_CUTOFF_CYCLES \<le> n
              then (s1\<lparr>recal_retry_active := False, recal_cutoff_count := None\<rparr>, False)
              else (s1\<lparr>recal_cutoff_count := Some n\<rparr>, True))
        else ((if sustained then s1\<lparr>recal_cutoff_count := None\<rparr> else s1), True)))"

text \<open>The first attempt, before any confirmed refusal.\<close>

definition recal_first_step :: "top_in \<Rightarrow> rat \<Rightarrow> top_state \<Rightarrow> top_state \<times> bool" where
  "recal_first_step i vmax s =
     (let soc = num_of i ''battery_soc'' in
      if soc = None \<or> at_least soc NORMAL_BALANCE_RECAL_SOC_THRESHOLD
      then (s\<lparr>recal_cutoff_count := None, recal_first_cutoff_voltage := None\<rparr>, False)
      else if recal_latched s then (s, False)
      else (let (s1, sustained) = recal_accept_sustained i s in
        if bms_cut_signature i
        then (let n = Suc (count_of (recal_cutoff_count s1));
                  v = (case recal_first_cutoff_voltage s1 of None \<Rightarrow> vmax | Some u \<Rightarrow> max u vmax)
              in if NORMAL_BALANCE_RECAL_CUTOFF_CYCLES \<le> n
                 then (s1\<lparr>recal_latched := True, recal_cutoff_count := None, recal_first_cutoff_voltage := Some v,
                          recal_retry_pending := (if NORMAL_BALANCE_PAUSE_CELL_VOLTAGE < v \<and> \<not> at_least soc 100
                            then True else recal_retry_pending s1)\<rparr>, False)
                 else (s1\<lparr>recal_cutoff_count := Some n, recal_first_cutoff_voltage := Some v\<rparr>, True))
        else ((if sustained then s1\<lparr>recal_cutoff_count := None, recal_first_cutoff_voltage := None\<rparr> else s1), True)))"

definition compute_recal_override :: "top_in \<Rightarrow> rat \<Rightarrow> top_state \<Rightarrow> top_state \<times> bool" where
  "compute_recal_override i vmax s =
     (let soc = num_of i ''battery_soc'' in
      if recal_retry_pending s
      then (if soc = None \<or> at_least soc 100 then (s\<lparr>recal_retry_pending := False\<rparr>, False)
            else if NORMAL_BALANCE_RECAL_RETRY_CELL_VOLTAGE < vmax then (s, False)
            else recal_retry_step i (s\<lparr>recal_retry_pending := False, recal_retry_active := True,
                                       recal_cutoff_count := None\<rparr>))
      else if recal_retry_active s then recal_retry_step i s
      else recal_first_step i vmax s)"

definition clear_recal_state :: "top_state \<Rightarrow> top_state" where
  "clear_recal_state s = s\<lparr>recal_override_on := False, recal_cutoff_count := None, recal_latched := False,
     recal_retry_pending := False, recal_retry_active := False, recal_first_cutoff_voltage := None,
     recal_accept_count := 0\<rparr>"

section \<open>The refresh of the top-of-charge state\<close>

definition taper_applies_to :: "top_in \<Rightarrow> bool" where
  "taper_applies_to i = (\<not> manual_owner i \<and> taper_enabled i)"

definition zone_active :: "top_in \<Rightarrow> bool" where
  "zone_active i = (taper_applies_to i \<and> at_least (qualified_vmax i) NORMAL_BALANCE_TAPER_CELL_VOLTAGE)"

definition drop_top_latches :: "top_state \<Rightarrow> top_state" where
  "drop_top_latches s = (clear_bms_cutoff_retry_state s)\<lparr>voltage_tapered := False, bms_cutoff_active := False,
     cutoff_measurement := None\<rparr>"

text \<open>Coupled packs, whose BMS owns the cutoff.\<close>

definition refresh_coupled :: "top_in \<Rightarrow> top_state \<Rightarrow> top_state" where
  "refresh_coupled i s0 =
     (let (s, r) = prepare_bms_cutoff_retry i (clear_recal_state s0); confirmed = bms_cutoff_confirmed s in
      if r = Some RetryPending then s\<lparr>bms_cutoff_active := False, cutoff_measurement := None\<rparr>
      else if cutoff_measurement s \<noteq> None
      then (clear_bms_cutoff_retry_state s)\<lparr>bms_cutoff_active := False\<rparr>
      else (let s1 = (if confirmed
                then s\<lparr>bms_cutoff_active := False, cutoff_measurement := Some MeasurementPending\<rparr>
                else s)
            in s1\<lparr>bms_cutoff_active := (if \<not> zone_active i \<or> confirmed then False
                 else r = Some RetryActive \<or> bms_cutoff_active s1
                   \<or> at_least (qualified_vmax i) NORMAL_BALANCE_PAUSE_CELL_VOLTAGE)\<rparr>))"

text \<open>All other batteries: the measurement request of an early cutoff, and the recalibration.\<close>

definition request_measurement :: "top_in \<Rightarrow> top_state \<Rightarrow> measurement_state option" where
  "request_measurement i s =
     (let in_zone = zone_active i; vmax = qualified_vmax i;
          status = (if cutoff_measurement s = Some MeasurementDone \<and> \<not> in_zone then None
                    else cutoff_measurement s)
      in if bms_cutoff_confirmed s \<and> status = None \<and> vmax \<noteq> None
            \<and> \<not> at_least vmax NORMAL_BALANCE_PAUSE_CELL_VOLTAGE
            \<and> (in_zone \<or> voltage_tapered s) \<and> \<not> recal_retry_pending s \<and> \<not> recal_retry_active s
         then Some MeasurementPending else status)"

definition recal_started :: "top_in \<Rightarrow> top_state \<Rightarrow> bool" where
  "recal_started i s = (qualified_vmax i \<noteq> None \<and> zone_active i
     \<and> (at_least (qualified_vmax i) NORMAL_BALANCE_PAUSE_CELL_VOLTAGE \<or> bms_cut_signature i \<or> recal_override_on s
        \<or> recal_cutoff_count s \<noteq> None \<or> recal_latched s \<or> recal_retry_pending s \<or> recal_retry_active s))"

definition refresh_single :: "top_in \<Rightarrow> top_state \<Rightarrow> top_state" where
  "refresh_single i s =
     (let s1 = s\<lparr>cutoff_measurement := request_measurement i s\<rparr>;
          (s2, override) = (if \<not> weekly_unlocked i \<and> recal_started i s1
             then compute_recal_override i (case qualified_vmax i of None \<Rightarrow> 0 | Some v \<Rightarrow> v) s1 else (s1, False))
      in s2\<lparr>recal_override_on := override\<rparr>)"

definition update_zone :: "top_in \<Rightarrow> top_state \<Rightarrow> top_state" where
  "update_zone i s =
     (if zone_active i then s\<lparr>voltage_tapered := True\<rparr>
      else clear_recal_state (if at_least (qualified_vmax i) NORMAL_BALANCE_TAPER_EXIT_CELL_VOLTAGE then s
        else s\<lparr>voltage_tapered := False\<rparr>))"

definition refresh_top :: "top_in \<Rightarrow> top_state \<Rightarrow> top_state" where
  "refresh_top i s =
     (if manual_owner i then s
      else if \<not> taper_applies_to i then clear_recal_state (drop_top_latches s)
      else if no_data i then (drop_top_latches s)\<lparr>recal_override_on := False\<rparr>
      else if uses_bms_cutoff_at_top i then refresh_coupled i (update_zone i s)
      else refresh_single i (update_zone i s))"

definition reset_for_new_day :: "top_state \<Rightarrow> top_state" where
  "reset_for_new_day s = s\<lparr>voltage_tapered := False, phase := None, measure_started := None, last_delta_v := None,
     recal_override_on := False, recal_cutoff_count := None, recal_latched := False, recal_retry_pending := False,
     recal_retry_active := False, recal_first_cutoff_voltage := None\<rparr>"

text \<open>The fleet: every battery's record, the date of the last reset and the blockers.\<close>

record top_fleet =
  tops :: "bat \<Rightarrow> top_state"
  normal_balance_date :: int
  top_gates :: gate_state

definition reset_if_new_day :: "int \<Rightarrow> top_fleet \<Rightarrow> top_fleet" where
  "reset_if_new_day today st =
     (if today = normal_balance_date st then st
      else st\<lparr>normal_balance_date := today, tops := (\<lambda>c. reset_for_new_day (tops st c))\<rparr>)"

definition refresh_blocks_of :: "(bat \<Rightarrow> top_in) \<Rightarrow> top_fleet \<Rightarrow> bat \<Rightarrow> top_fleet" where
  "refresh_blocks_of view st c =
     st\<lparr>tops := (tops st)(c := refresh_top (view c) (tops st c)),
        top_gates := (if manual_owner (view c)
          then remove_operation_block True ''charge_hysteresis'' (Some c)
            (remove_operation_block True ''max_soc'' (Some c) (top_gates st))
          else top_gates st)\<rparr>"

definition refresh_blocks :: "int \<Rightarrow> (bat \<Rightarrow> top_in) \<Rightarrow> bat list \<Rightarrow> top_fleet \<Rightarrow> top_fleet" where
  "refresh_blocks today view cs st = foldl (refresh_blocks_of view) (reset_if_new_day today st) cs"

section \<open>The measurement of the cell delta\<close>

datatype measure_action = NoAction | HoldIdle | ReleaseIdle

definition round4 :: "rat \<Rightarrow> rat" where
  "round4 q = of_int (py_round (q * 10000)) / 10000"

definition post_bms_measurement :: "top_state \<Rightarrow> bool" where
  "post_bms_measurement s = (cutoff_measurement s = Some MeasurementPending)"

definition end_phase :: "top_state \<Rightarrow> top_state" where
  "end_phase s = s\<lparr>phase := None, measure_started := None\<rparr>"

text \<open>The first two loops: whether the battery is being measured, and its phase.\<close>

definition enter_phase :: "top_in \<Rightarrow> top_state \<Rightarrow> top_state \<times> bool" where
  "enter_phase i s =
     (let post = post_bms_measurement s;
          idle = (if manual_owner i then (s, False) else (end_phase s, False))
      in if battery_data i = None \<or> \<not> taper_applies_to i then idle
         else if (uses_bms_cutoff_at_top i \<or> weekly_unlocked i \<or> recal_override_on s) \<and> \<not> post
         then (end_phase s, False)
         else if phase s \<noteq> None then (s, True)
         else (case num_of i ''max_cell_voltage'' of
             None \<Rightarrow> idle
           | Some vmax \<Rightarrow> (if post \<or> NORMAL_BALANCE_PAUSE_CELL_VOLTAGE \<le> vmax
               then (s\<lparr>phase := Some WaitMeasure, measure_started := Some (now_utc i)\<rparr>, True)
               else idle)))"

text \<open>
  The third loop. A recorded measurement is the cell delta with the kind of the trigger;
  \<open>HoldIdle\<close> writes 0 W past the limit blockers, \<open>ReleaseIdle\<close> ends the phase with 0 W.
\<close>

definition finish_wait :: "top_in \<Rightarrow> rat \<Rightarrow> top_state \<Rightarrow> top_state \<times> (rat \<times> bool) option" where
  "finish_wait i delta s =
     (let started = (case measure_started s of None \<Rightarrow> now_utc i | Some t \<Rightarrow> t);
          s1 = s\<lparr>measure_started := Some started\<rparr>
      in if NORMAL_BALANCE_MEASURE_WAIT_SECONDS \<le> now_utc i - started
         then (s1\<lparr>last_delta_v := Some delta, phase := Some Measured,
                 cutoff_measurement := (if post_bms_measurement s1 then Some MeasurementDone
                   else cutoff_measurement s1)\<rparr>,
               Some (delta, post_bms_measurement s1))
         else (s1, None))"

definition handle_measurement :: "top_in \<Rightarrow> top_state
    \<Rightarrow> top_state \<times> measure_action \<times> (rat \<times> bool) option" where
  "handle_measurement i s0 =
     (let (s, measuring) = enter_phase i s0 in
      if \<not> measuring then (s, NoAction, None)
      else (case (num_of i ''max_cell_voltage'', num_of i ''min_cell_voltage'') of
          (Some vmax, Some vmin) \<Rightarrow>
            (let (s2, rec) = (if phase s = Some WaitMeasure then finish_wait i (round4 (vmax - vmin)) s else (s, None))
             in if phase s2 = Some Measured \<and> vmax < NORMAL_BALANCE_PAUSE_CELL_VOLTAGE
                then (end_phase s2, ReleaseIdle, rec)
                else (s2, HoldIdle, rec))
        | _ \<Rightarrow> (end_phase s, NoAction, None)))"

text \<open>Leaving automatic control: \<open>_reset_battery_ownership_state\<close>.\<close>

definition reset_ownership :: "top_state \<Rightarrow> top_state" where
  "reset_ownership s = (clear_bms_cutoff_retry_state s)\<lparr>bms_cutoff_active := False, cutoff_measurement := None,
     bms_cutoff_count := 0\<rparr>"

section \<open>Runs\<close>

datatype top_event =
    Tick top_in
  | QueryFull top_in
  | QueryDue top_in "rat option"
  | RefreshTop top_in
  | Measure top_in
  | NewDay
  | LeaveAutomatic

primrec top_step :: "top_state \<Rightarrow> top_event \<Rightarrow> top_state" where
  "top_step s (Tick i) = tick_bms_cutoff i s"
| "top_step s (QueryFull i) = fst (is_battery_full i s)"
| "top_step s (QueryDue i eff) = fst (should_charge_to_bms_cutoff i eff s)"
| "top_step s (RefreshTop i) = refresh_top i s"
| "top_step s (Measure i) = fst (handle_measurement i s)"
| "top_step s NewDay = reset_for_new_day s"
| "top_step s LeaveAutomatic = reset_ownership s"

primrec refusal :: "top_event \<Rightarrow> bool" where
  "refusal (Tick i) = (\<not> manual_owner i \<and> \<not> no_data i \<and> near_full i \<and> refuses_charge i)"
| "refusal (QueryFull i) = False"
| "refusal (QueryDue i eff) = False"
| "refusal (RefreshTop i) = False"
| "refusal (Measure i) = False"
| "refusal NewDay = False"
| "refusal LeaveAutomatic = False"

definition retry_opened :: "top_state \<Rightarrow> top_state \<Rightarrow> nat" where
  "retry_opened s s' = (if \<not> retry_active s \<and> retry_active s' then 1 else 0)"

text \<open>Five refusals are banked in the counter, or in a pending retry.\<close>

definition banked :: "top_state \<Rightarrow> nat" where
  "banked s = max (bms_cutoff_count s) (if retry_pending s then NORMAL_BALANCE_RECAL_CUTOFF_CYCLES else 0)"

named_theorems meter \<open>what an operation pays out of the banked refusals\<close>

lemmas top_consts = NORMAL_BALANCE_RECAL_CUTOFF_CYCLES_def bms_cutoff_confirmed_def

definition pays :: "top_state \<Rightarrow> top_state \<Rightarrow> nat \<Rightarrow> bool" where
  "pays s s' c = (banked s' + NORMAL_BALANCE_RECAL_CUTOFF_CYCLES * retry_opened s s' \<le> banked s + c)"

lemma pays_trans: "pays s t 0 \<Longrightarrow> pays t u 0 \<Longrightarrow> pays s u 0"
  by (auto simp: pays_def retry_opened_def split: if_splits)

lemma pays_refl [meter]: "pays s s 0"
  by (simp add: pays_def retry_opened_def)

text \<open>An update of the other fields, or a clearing of these, pays nothing.\<close>

lemma pays_less [meter]:
  "bms_cutoff_count s' \<le> bms_cutoff_count s \<Longrightarrow> (retry_pending s' \<Longrightarrow> retry_pending s)
    \<Longrightarrow> (retry_active s' \<Longrightarrow> retry_active s) \<Longrightarrow> pays s s' 0"
  by (auto simp: pays_def retry_opened_def banked_def)

lemma prepare_pays [meter]: "pays s (fst (prepare_bms_cutoff_retry i s)) 0"
  by (auto simp: prepare_bms_cutoff_retry_def clear_bms_cutoff_retry_state_def pays_def retry_opened_def banked_def
      top_consts Let_def)

lemma due_pays [meter]: "pays s (fst (should_charge_to_bms_cutoff i eff s)) 0"
  using prepare_pays [of s i] by (auto simp: should_charge_to_bms_cutoff_def Let_def case_prod_unfold meter)

lemma full_pays [meter]: "pays s (fst (is_battery_full i s)) 0"
proof -
  let ?s1 = "fst (prepare_bms_cutoff_retry i s)"
  have "pays s (fst (should_charge_to_bms_cutoff i (Some 100) ?s1)) 0"
    using prepare_pays due_pays by (rule pays_trans)
  then show ?thesis using prepare_pays [of s i]
    by (auto simp: is_battery_full_def Let_def case_prod_unfold meter)
qed

lemma accept_pays [meter]: "pays s (tick_bms_cutoff_retry_acceptance i s) 0"
  by (auto simp: tick_bms_cutoff_retry_acceptance_def Let_def intro!: meter)

lemma recal_accept_fields:
  "bms_cutoff_count (fst (recal_accept_sustained i s)) = bms_cutoff_count s"
  "retry_pending (fst (recal_accept_sustained i s)) = retry_pending s"
  "retry_active (fst (recal_accept_sustained i s)) = retry_active s"
  "recal_latched (fst (recal_accept_sustained i s)) = recal_latched s"
  "recal_retry_pending (fst (recal_accept_sustained i s)) = recal_retry_pending s"
  "recal_retry_active (fst (recal_accept_sustained i s)) = recal_retry_active s"
  by (auto simp: recal_accept_sustained_def Let_def)

lemma recal_override_fields:
  "bms_cutoff_count (fst (compute_recal_override i v s)) = bms_cutoff_count s"
  "retry_pending (fst (compute_recal_override i v s)) = retry_pending s"
  "retry_active (fst (compute_recal_override i v s)) = retry_active s"
  by (auto simp: compute_recal_override_def recal_retry_step_def recal_first_step_def recal_accept_fields Let_def
      case_prod_unfold)

lemma refresh_coupled_pays: "pays s (refresh_coupled i s) 0"
proof -
  let ?s1 = "fst (prepare_bms_cutoff_retry i (clear_recal_state s))"
  have "pays s (clear_recal_state s) 0" by (rule pays_less) (auto simp: clear_recal_state_def)
  then have "pays s ?s1 0" using prepare_pays by (rule pays_trans)
  moreover have "pays ?s1 (refresh_coupled i s) 0"
    by (rule pays_less) (auto simp: refresh_coupled_def clear_bms_cutoff_retry_state_def Let_def case_prod_unfold split: if_splits)
  ultimately show ?thesis by (rule pays_trans)
qed

lemma refresh_single_pays: "pays s (refresh_single i s) 0"
  by (rule pays_less) (auto simp: refresh_single_def recal_override_fields Let_def case_prod_unfold split: if_splits)

lemma refresh_top_pays [meter]: "pays s (refresh_top i s) 0"
proof (cases "manual_owner i \<or> \<not> taper_applies_to i \<or> no_data i")
  case True
  then show ?thesis
    by (intro pays_less) (auto simp: refresh_top_def drop_top_latches_def clear_recal_state_def clear_bms_cutoff_retry_state_def split: if_splits)
next
  case False
  have "pays s (update_zone i s) 0" by (rule pays_less) (auto simp: update_zone_def clear_recal_state_def split: if_splits)
  then show ?thesis
    using False refresh_coupled_pays refresh_single_pays by (auto simp: refresh_top_def intro: pays_trans)
qed

text \<open>The measurement touches neither the retry nor the recalibration.\<close>

definition measure_frame :: "top_state \<Rightarrow> nat \<times> bool \<times> bool \<times> bool \<times> bool \<times> bool" where
  "measure_frame s = (bms_cutoff_count s, retry_pending s, retry_active s, recal_latched s,
     recal_retry_pending s, recal_retry_active s)"

lemma enter_phase_frame: "measure_frame (fst (enter_phase i s)) = measure_frame s"
  by (auto simp: enter_phase_def end_phase_def measure_frame_def Let_def split: option.splits)

lemma finish_wait_frame: "measure_frame (fst (finish_wait i d s)) = measure_frame s"
  by (auto simp: finish_wait_def measure_frame_def Let_def)

lemma end_phase_frame: "measure_frame (end_phase s) = measure_frame s"
  by (simp add: end_phase_def measure_frame_def)

lemma handle_measurement_frame: "measure_frame (fst (handle_measurement i s)) = measure_frame s"
  by (auto simp: handle_measurement_def Let_def case_prod_unfold enter_phase_frame finish_wait_frame end_phase_frame
      split: option.splits)

lemmas measurement_fields = handle_measurement_frame [unfolded measure_frame_def prod.inject]

lemma count_pays: "pays s (count_cutoff i s) (if refusal (Tick i) then 1 else 0)"
  by (auto simp: count_cutoff_def pays_def retry_opened_def banked_def Let_def)

lemma tick_pays: "pays s (tick_bms_cutoff i s) (if refusal (Tick i) then 1 else 0)"
  using accept_pays [of s i] count_pays [of "tick_bms_cutoff_retry_acceptance i s" i]
  by (auto simp: tick_bms_cutoff_def pays_def retry_opened_def split: if_splits)

interpretation retries: metered_machine top_step "\<lambda>_. True" "\<lambda>_. True" banked retry_opened
  NORMAL_BALANCE_RECAL_CUTOFF_CYCLES "\<lambda>e. if refusal e then 1 else 0"
proof
  fix s :: top_state and e
  have "pays s (top_step s e) (if refusal e then 1 else 0)"
  proof (cases e)
    case (Tick i)
    then show ?thesis using tick_pays [of s i] by simp
  next
    case (Measure i)
    then show ?thesis using measurement_fields [of i s] by (auto intro!: pays_less)
  qed (auto simp: reset_for_new_day_def reset_ownership_def clear_bms_cutoff_retry_state_def intro!: meter)
  then show "banked (top_step s e) + NORMAL_BALANCE_RECAL_CUTOFF_CYCLES * retry_opened s (top_step s e)
      \<le> banked s + (if refusal e then 1 else 0)" by (simp add: pays_def)
qed simp


section \<open>One retry per recalibration session\<close>

primrec ends_session :: "top_event \<Rightarrow> bool" where
  "ends_session (Tick i) = False"
| "ends_session (QueryFull i) = False"
| "ends_session (QueryDue i eff) = False"
| "ends_session (RefreshTop i) = (\<not> manual_owner i \<and> \<not> (taper_enabled i \<and> no_data i)
     \<and> (\<not> zone_active i \<or> uses_bms_cutoff_at_top i))"
| "ends_session (Measure i) = False"
| "ends_session NewDay = True"
| "ends_session LeaveAutomatic = False"

definition recal_retry_opened :: "top_state \<Rightarrow> top_state \<Rightarrow> nat" where
  "recal_retry_opened s s' = (if \<not> recal_retry_active s \<and> recal_retry_active s' then 1 else 0)"

definition recal_credit :: "top_state \<Rightarrow> nat" where
  "recal_credit s = (if recal_latched s \<and> \<not> recal_retry_pending s then 0 else 1)"

definition recal_inv :: "top_state \<Rightarrow> bool" where
  "recal_inv s = (recal_retry_pending s \<longrightarrow> recal_latched s)"

lemma recal_override_pays:
  "recal_inv s \<Longrightarrow> recal_inv (fst (compute_recal_override i v s))
    \<and> recal_credit (fst (compute_recal_override i v s)) + recal_retry_opened s (fst (compute_recal_override i v s))
      \<le> recal_credit s"
  by (auto simp: compute_recal_override_def recal_retry_step_def recal_first_step_def recal_accept_fields Let_def
      case_prod_unfold recal_inv_def recal_credit_def recal_retry_opened_def)

lemma recal_same:
  assumes "recal_latched s' = recal_latched s" "recal_retry_pending s' = recal_retry_pending s"
    "recal_retry_active s' = recal_retry_active s"
  shows "recal_inv s' = recal_inv s" "recal_credit s' = recal_credit s" "recal_retry_opened s s' = 0"
    "recal_retry_opened s' t = recal_retry_opened s t" "recal_retry_opened t s' = recal_retry_opened t s"
  using assms by (auto simp: recal_inv_def recal_credit_def recal_retry_opened_def)

lemma prepare_keeps_recal:
  "recal_latched (fst (prepare_bms_cutoff_retry i s)) = recal_latched s"
  "recal_retry_pending (fst (prepare_bms_cutoff_retry i s)) = recal_retry_pending s"
  "recal_retry_active (fst (prepare_bms_cutoff_retry i s)) = recal_retry_active s"
  by (auto simp: prepare_bms_cutoff_retry_def clear_bms_cutoff_retry_state_def Let_def)

lemma due_keeps_recal:
  "recal_latched (fst (should_charge_to_bms_cutoff i eff s)) = recal_latched s"
  "recal_retry_pending (fst (should_charge_to_bms_cutoff i eff s)) = recal_retry_pending s"
  "recal_retry_active (fst (should_charge_to_bms_cutoff i eff s)) = recal_retry_active s"
  by (auto simp: should_charge_to_bms_cutoff_def Let_def case_prod_unfold prepare_keeps_recal)

lemma full_keeps_recal:
  "recal_latched (fst (is_battery_full i s)) = recal_latched s"
  "recal_retry_pending (fst (is_battery_full i s)) = recal_retry_pending s"
  "recal_retry_active (fst (is_battery_full i s)) = recal_retry_active s"
  by (auto simp: is_battery_full_def Let_def case_prod_unfold prepare_keeps_recal due_keeps_recal)

lemma tick_keeps_recal:
  "recal_latched (tick_bms_cutoff i s) = recal_latched s"
  "recal_retry_pending (tick_bms_cutoff i s) = recal_retry_pending s"
  "recal_retry_active (tick_bms_cutoff i s) = recal_retry_active s"
  by (auto simp: tick_bms_cutoff_def count_cutoff_def tick_bms_cutoff_retry_acceptance_def Let_def)

lemma ownership_keeps_recal:
  "recal_latched (reset_ownership s) = recal_latched s"
  "recal_retry_pending (reset_ownership s) = recal_retry_pending s"
  "recal_retry_active (reset_ownership s) = recal_retry_active s"
  by (auto simp: reset_ownership_def clear_bms_cutoff_retry_state_def)

lemma refresh_single_pays_recal:
  assumes "recal_inv s"
  shows "recal_inv (refresh_single i s)
    \<and> recal_credit (refresh_single i s) + recal_retry_opened s (refresh_single i s) \<le> recal_credit s"
proof -
  let ?s1 = "s\<lparr>cutoff_measurement := request_measurement i s\<rparr>"
  let ?v = "case qualified_vmax i of None \<Rightarrow> 0 | Some v \<Rightarrow> v"
  let ?s2 = "fst (compute_recal_override i ?v ?s1)"
  have same: "recal_inv ?s1 = recal_inv s" "recal_credit ?s1 = recal_credit s"
    "recal_retry_opened ?s1 t = recal_retry_opened s t" for t
    by (simp_all add: recal_inv_def recal_credit_def recal_retry_opened_def)
  have "recal_inv ?s1" using assms same by simp
  note pays = recal_override_pays [OF this, of i ?v, unfolded same]
  have keep: "recal_inv (t\<lparr>recal_override_on := b\<rparr>) = recal_inv t" "recal_credit (t\<lparr>recal_override_on := b\<rparr>) = recal_credit t"
    "recal_retry_opened s (t\<lparr>recal_override_on := b\<rparr>) = recal_retry_opened s t" for t b
    by (simp_all add: recal_inv_def recal_credit_def recal_retry_opened_def)
  have idle: "recal_inv ?s1" "recal_credit ?s1 + recal_retry_opened s ?s1 \<le> recal_credit s"
    using assms same by (simp_all add: recal_retry_opened_def)
  show ?thesis
  proof (cases "\<not> weekly_unlocked i \<and> recal_started i ?s1")
    case True
    then show ?thesis using pays by (simp add: refresh_single_def Let_def case_prod_unfold keep)
  next
    case False
    then have "refresh_single i s = ?s1\<lparr>recal_override_on := False\<rparr>"
      by (auto simp: refresh_single_def Let_def)
    then show ?thesis using idle by (simp add: keep)
  qed
qed

lemma refresh_coupled_recal:
  "recal_latched (refresh_coupled i s) = False \<and> recal_retry_pending (refresh_coupled i s) = False
    \<and> recal_retry_active (refresh_coupled i s) = False"
  by (auto simp: refresh_coupled_def clear_bms_cutoff_retry_state_def Let_def case_prod_unfold prepare_keeps_recal
      clear_recal_state_def)


lemma update_zone_pays_recal:
  "recal_inv s \<Longrightarrow> recal_inv (update_zone i s)
    \<and> (zone_active i \<longrightarrow> recal_credit (update_zone i s) = recal_credit s)
    \<and> recal_credit (update_zone i s) \<le> 1 \<and> recal_retry_opened s (update_zone i s) = 0
    \<and> (recal_retry_active (update_zone i s) \<longrightarrow> recal_retry_active s)
    \<and> (zone_active i \<longrightarrow> recal_retry_active (update_zone i s) = recal_retry_active s)
    \<and> (\<not> zone_active i \<longrightarrow> \<not> recal_retry_active (update_zone i s) \<and> recal_credit (update_zone i s) = 1)"
  by (auto simp: update_zone_def clear_recal_state_def recal_inv_def recal_credit_def recal_retry_opened_def)

interpretation recal: metered_machine top_step recal_inv "\<lambda>_. True" recal_credit recal_retry_opened
  1 "\<lambda>e. if ends_session e then 1 else 0"
proof -
  have step: "recal_inv (top_step s e) \<and>
      recal_credit (top_step s e) + recal_retry_opened s (top_step s e) \<le> recal_credit s + (if ends_session e then 1 else 0)"
    if inv: "recal_inv s" for s e
  proof (cases e)
    case (Tick i)
    then show ?thesis using inv recal_same [OF tick_keeps_recal [of i s]] by (simp add: recal_retry_opened_def)
  next
    case (QueryFull i)
    then show ?thesis using inv recal_same [OF full_keeps_recal [of i s]] by simp
  next
    case (QueryDue i eff)
    then show ?thesis using inv recal_same [OF due_keeps_recal [of i eff s]] by simp
  next
    case (Measure i)
    have "recal_latched (fst (handle_measurement i s)) = recal_latched s"
      "recal_retry_pending (fst (handle_measurement i s)) = recal_retry_pending s"
      "recal_retry_active (fst (handle_measurement i s)) = recal_retry_active s"
      using measurement_fields [of i s] by auto
    then show ?thesis using inv recal_same [of "fst (handle_measurement i s)" s] Measure by simp
  next
    case NewDay
    then show ?thesis using inv
      by (simp add: reset_for_new_day_def recal_inv_def recal_credit_def recal_retry_opened_def)
  next
    case LeaveAutomatic
    then show ?thesis using inv recal_same [OF ownership_keeps_recal [of s]] by simp
  next
    case (RefreshTop i)
    let ?u = "update_zone i s"
    note z = update_zone_pays_recal [OF inv, of i]
    show ?thesis
    proof (cases "manual_owner i \<or> \<not> taper_enabled i \<or> no_data i")
      case True
      then show ?thesis using inv
        by (auto simp: RefreshTop refresh_top_def taper_applies_to_def zone_active_def drop_top_latches_def
            clear_recal_state_def clear_bms_cutoff_retry_state_def recal_inv_def recal_credit_def recal_retry_opened_def)
    next
      case False
      then have eq: "top_step s e = (if uses_bms_cutoff_at_top i then refresh_coupled i ?u else refresh_single i ?u)"
        by (simp add: RefreshTop refresh_top_def taper_applies_to_def)
      have "recal_retry_opened s (refresh_single i ?u) = recal_retry_opened ?u (refresh_single i ?u)
          \<or> \<not> zone_active i"
        using z by (auto simp: recal_retry_opened_def)
      then show ?thesis
        using False refresh_single_pays_recal [of ?u i] refresh_coupled_recal [of i ?u] z
        unfolding eq
        by (auto simp: RefreshTop recal_inv_def recal_credit_def recal_retry_opened_def split: if_splits)
    qed
  qed
  show "metered_machine top_step recal_inv (\<lambda>_. True) recal_credit recal_retry_opened 1
      (\<lambda>e. if ends_session e then 1 else 0)"
    using step by unfold_locales auto
qed


section \<open>The answers for the charge limits\<close>

definition top_answers :: "top_in \<Rightarrow> top_state \<Rightarrow> bat_limits \<Rightarrow> bat_limits" where
  "top_answers i s v = v\<lparr>recal_override := recal_override_on s, bms_retry_pending := retry_pending s,
     battery_full := snd (is_battery_full i s), bms_charge_due := snd (should_charge_to_bms_cutoff i (Some 100) s)\<rparr>"

text \<open>After the final refusal the battery is full, and no longer a candidate for charging.\<close>

lemma final_cutoff_is_full:
  assumes "\<not> manual_owner i" "\<not> no_data i" "cutoff_measurement s \<noteq> None" "bms_cutoff_confirmed s"
  shows "snd (is_battery_full i s) \<and> \<not> snd (should_charge_to_bms_cutoff i eff s)"
proof -
  have "snd (prepare_bms_cutoff_retry i s) = None" using assms(3) by (simp add: prepare_bms_cutoff_retry_def Let_def)
  moreover have "cutoff_measurement (fst (prepare_bms_cutoff_retry i s)) \<noteq> None"
    "bms_cutoff_confirmed (fst (prepare_bms_cutoff_retry i s))"
    using assms(3,4)
    by (auto simp: prepare_bms_cutoff_retry_def clear_bms_cutoff_retry_state_def bms_cutoff_confirmed_def Let_def)
  moreover have "\<not> snd (should_charge_to_bms_cutoff i e t)" if "cutoff_measurement t \<noteq> None" for e t
    using that by (auto simp: should_charge_to_bms_cutoff_def)
  ultimately show ?thesis using assms by (auto simp: is_battery_full_def Let_def case_prod_unfold)
qed

lemma final_cutoff_rests:
  assumes "\<not> manual_owner i" "\<not> no_data i" "cutoff_measurement s \<noteq> None" "bms_cutoff_confirmed s"
    and "\<not> recal_override_on s"
  shows "(case charge_candidate x ign c (top_answers i s v) h of Inl _ \<Rightarrow> True | Inr (_, a) \<Rightarrow> \<not> a)"
  using assms(5) final_cutoff_is_full [OF assms(1-4)]
  by (auto simp: charge_candidate_def top_answers_def charge_to_bms_def and_then_def Let_def split: sum.splits option.splits)

section \<open>Properties\<close>

text \<open>
  A provisional cutoff is retried only for its evidence: in any interleaving of
  control ticks, completion and eligibility queries, refreshes, measurements, day changes
  and hand-overs to manual control, every retry that opens has cost five samples of a
  commanded and refused charge of its own, over and above those in the cutoff counter.
\<close>

theorem retries_cost_refusals:
  "5 * metered top_step retry_opened fresh_top es + bms_cutoff_count (run top_step fresh_top es)
     \<le> length (filter refusal es)"
proof -
  have "banked fresh_top = 0" by (simp add: banked_def fresh_top_def)
  then have "banked (run top_step fresh_top es) + 5 * metered top_step retry_opened fresh_top es
      \<le> length (filter refusal es)"
    using retries.run_pays [where s = fresh_top and es = es]
    by (simp add: sum_list_count NORMAL_BALANCE_RECAL_CUTOFF_CYCLES_def)
  then show ?thesis by (simp add: banked_def)
qed

text \<open>
  The SOC recalibration makes one retry per session: in any such interleaving the
  retry windows that open number at most one more than the events that end a session, a
  refresh outside the top zone or for a battery whose BMS owns the cutoff, and a new day.
\<close>

theorem one_recal_retry_per_session:
  "metered top_step recal_retry_opened fresh_top es \<le> Suc (length (filter ends_session es))"
proof -
  have "recal_inv fresh_top" "recal_credit fresh_top = 1"
    by (simp_all add: recal_inv_def recal_credit_def fresh_top_def)
  then show ?thesis using recal.run_pays [where s = fresh_top and es = es] by (simp add: sum_list_count)
qed

end
