(* ===== verification/Price_Base.thy ===== *)
theory Price_Base
  imports Py_Prelude
begin

text \<open>
  What the pricing modules share: the price slots of \<open>pricing/__init__.py\<close>, the battery
  snapshots of \<open>pricing/curtailment.py\<close>, and the guards against values that are no finite
  numbers. Naive local times are seconds since a local midnight.
\<close>

type_synonym time = rat

record price_slot =
  slot_start :: time
  slot_end :: time
  slot_price :: pyfloat

text \<open>A price slot whose price is a finite number.\<close>

record tariff_slot =
  t_start :: time
  t_end :: time
  t_price :: rat

record snapshot =
  snap_name :: string
  soc_pct :: pyval
  capacity_kwh :: pyval
  max_soc_pct :: pyval
  floor_soc_pct :: pyval
  max_discharge_power_w :: pyval
  eligible :: bool
  can_discharge :: bool

definition CHARGE_EFFICIENCY :: rat where "CHARGE_EFFICIENCY = 85/100"

text \<open>\<open>_positive\<close>: a finite number floored at zero, and zero for anything else.\<close>

definition positive :: "pyval \<Rightarrow> rat" where
  "positive v = (case finite_val v of None \<Rightarrow> 0 | Some q \<Rightarrow> max 0 q)"

definition hours_between :: "time \<Rightarrow> time \<Rightarrow> rat" where
  "hours_between a b = max 0 ((b - a) / 3600)"

lemma positive_nonneg [simp]: "0 \<le> positive v"
  by (simp add: positive_def split: option.split)

lemma hours_between_nonneg [simp]: "0 \<le> hours_between a b"
  by (simp add: hours_between_def)

text \<open>Two lists of numbers compared element by element, and their sums.\<close>

lemma sum_list_all2_le: "list_all2 (\<le>) xs (ys :: rat list) \<Longrightarrow> sum_list xs \<le> sum_list ys"
  by (induction xs ys rule: list_all2_induct) (auto intro: add_mono)

lemma filter_sum_le:
  "(\<And>x. x \<in> set xs \<Longrightarrow> 0 \<le> f x) \<Longrightarrow> sum_list (map f (filter P xs)) \<le> (sum_list (map f xs) :: rat)"
  by (induction xs) (auto simp: add_increasing)

lemma filter_sum_mono:
  "(\<And>x. x \<in> set xs \<Longrightarrow> 0 \<le> f x) \<Longrightarrow> (\<And>x. P x \<Longrightarrow> Q x) \<Longrightarrow>
     sum_list (map f (filter P xs)) \<le> (sum_list (map f (filter Q xs)) :: rat)"
  by (induction xs) (auto simp: add_increasing)

text \<open>Sorting pairs by a key of one component sorts that component.\<close>

lemma map_insort_key: "map f (insort_key (\<lambda>x. g (f x)) x xs) = insort_key g (f x) (map f xs)"
  by (induction xs) auto

lemma map_sort_key: "map f (sort_key (\<lambda>x. g (f x)) xs) = sort_key g (map f xs)"
  by (induction xs) (auto simp: map_insort_key)

text \<open>Keys that survive a filter which may transform, and a sort.\<close>

lemma distinct_map_option_filter:
  "distinct (map g xs) \<Longrightarrow> (\<And>x y. f x = Some y \<Longrightarrow> h y = g x) \<Longrightarrow> distinct (map h (List.map_filter f xs))"
proof (induction xs)
  case (Cons x xs)
  have "g x \<notin> h ` set (List.map_filter f xs)"
  proof
    assume "g x \<in> h ` set (List.map_filter f xs)"
    then obtain y z where "z \<in> set xs" "f z = Some y" "g x = h y" by (auto simp: List.map_filter_def)
    then show False using Cons.prems by (metis distinct.simps(2) imageI list.map(2) list.set_map)
  qed
  then show ?case using Cons by (auto simp: List.map_filter_simps split: option.split)
qed (simp add: List.map_filter_simps)

lemma distinct_sort_key: "distinct (map g (sort_key f xs)) = distinct (map g xs)"
  by (metis mset_eq_imp_distinct_iff mset_map mset_sort)

end
