(* ===== verification/Reserve.thy ===== *)
theory Reserve
  imports Price_Base
begin

text \<open>
  The price-aware discharge reserve of \<open>pricing/discharge_reserve.py\<close>: the expected
  consumption of a price slot from the learned quarter-hour profile, the net demand, the
  claims of the dearest hours on the stored energy, and the credit for sun that reaches
  the battery before a claim.
\<close>

definition EPSILON :: rat where "EPSILON = 1 / 1000000000"

section \<open>Consumption of a slot\<close>

text \<open>
  The profile has 96 quarter-hour bins a day; \<open>q\<close> numbers the quarters from the epoch. The
  dated form wins where it has values for the date.
\<close>

definition bin_value :: "(int, pyval list) dict \<Rightarrow> pyval list \<Rightarrow> int \<Rightarrow> rat" where
  "bin_value dated flat q =
     (let values = (case map_of dated (q div 96) of None \<Rightarrow> flat | Some vs \<Rightarrow> vs); index = nat (q mod 96)
      in if index < length values then positive (values ! index) else 0)"

text \<open>The loop \<open>while cursor < end\<close>: each step ends at the next quarter or at the slot's end.\<close>

partial_function (option) walk_bins :: "(int \<Rightarrow> rat) \<Rightarrow> time \<Rightarrow> time \<Rightarrow> rat \<Rightarrow> rat option" where
  "walk_bins val finish cursor acc =
     (if cursor < finish
      then (let q = \<lfloor>cursor / 900\<rfloor>; step_end = min finish (of_int (q + 1) * 900)
            in walk_bins val finish step_end (acc + val q * ((step_end - cursor) / 900)))
      else Some acc)"

definition slot_consumption :: "(int \<Rightarrow> rat) \<Rightarrow> time \<Rightarrow> time \<Rightarrow> rat option" where
  "slot_consumption val start finish = (if finish \<le> start then Some 0 else walk_bins val finish start 0)"

definition consumption_by_slot :: "price_slot list \<Rightarrow> (int, pyval list) dict \<Rightarrow> pyval list
    \<Rightarrow> (price_slot, rat option) dict" where
  "consumption_by_slot price_slots intervals_by_date flat =
     (let dated = filter (\<lambda>(_, vs). vs \<noteq> []) intervals_by_date in
      if price_slots = [] \<or> (dated = [] \<and> flat = []) then []
      else fold (\<lambda>s d. AList.update s (slot_consumption (bin_value dated flat) (slot_start s) (slot_end s)) d)
             price_slots [])"

definition net_demand_by_slot :: "(price_slot, pyval) dict \<Rightarrow> (price_slot, pyval) dict \<Rightarrow> (price_slot, rat) dict" where
  "net_demand_by_slot consumption solar =
     map (\<lambda>(s, v). (s, max 0 (positive v - positive (dict_get (VFloat (Fin 0)) solar s)))) consumption"

section \<open>Slots and plan\<close>

record reserve_slot =
  rs_start :: time
  rs_end :: time
  rs_price :: rat
  net_demand_kwh :: rat
  expected_surplus_kwh :: rat

definition build_reserve_slots :: "price_slot list \<Rightarrow> (price_slot, pyval) dict \<Rightarrow> (price_slot, pyval) dict
    \<Rightarrow> reserve_slot list" where
  "build_reserve_slots price_slots demand_by_slot surplus_by_slot =
     sort_key rs_start (List.map_filter (\<lambda>s. case slot_price s of
         Fin p \<Rightarrow> Some \<lparr>rs_start = slot_start s, rs_end = slot_end s, rs_price = p,
           net_demand_kwh = positive (dict_get (VFloat (Fin 0)) demand_by_slot s),
           expected_surplus_kwh = positive (dict_get (VFloat (Fin 0)) surplus_by_slot s)\<rparr>
       | _ \<Rightarrow> None) price_slots)"

datatype reserve_reason = NoSlots | NoPrice | NoDemand | NoUsableEnergy | NoCapacity
  | NothingDearer | PvCoversIt | Reserved

section \<open>Claims\<close>

fun claim_dearest :: "rat \<Rightarrow> rat \<Rightarrow> reserve_slot list \<Rightarrow> (reserve_slot \<times> rat) list" where
  "claim_dearest available claimed [] = []"
| "claim_dearest available claimed (s # ss) =
     (if available - EPSILON \<le> claimed then []
      else (let amount = min (net_demand_kwh s) (available - claimed) in
        if amount \<le> EPSILON then claim_dearest available claimed ss
        else (s, amount) # claim_dearest available (claimed + amount) ss))"

definition claims_of :: "rat \<Rightarrow> reserve_slot list \<Rightarrow> (reserve_slot \<times> rat) list" where
  "claims_of available candidates =
     sort_key (\<lambda>(s, _). rs_start s)
       (claim_dearest available 0 (sort_key (\<lambda>s. (- rs_price s, rs_start s)) candidates))"

section \<open>Credit for the sun\<close>

text \<open>
  The inner \<open>while\<close>: the claims that start no later than the slot draw on the stored sun.
  A settled claim is its amount and its credit; the rest is still pending.
\<close>

fun settle :: "time \<Rightarrow> (reserve_slot \<times> rat) list \<Rightarrow> rat
    \<Rightarrow> (rat \<times> rat) list \<times> (reserve_slot \<times> rat) list \<times> rat" where
  "settle t [] stored = ([], [], stored)"
| "settle t ((c, amount) # cs) stored =
     (if rs_start c \<le> t
      then (let credit = min amount stored; (settled, rest, stored') = settle t cs (stored - credit)
            in ((amount, credit) # settled, rest, stored'))
      else ([], (c, amount) # cs, stored))"

fun sweep :: "rat \<Rightarrow> reserve_slot list \<Rightarrow> (reserve_slot \<times> rat) list \<Rightarrow> rat \<Rightarrow> rat
    \<Rightarrow> (rat \<times> rat) list \<times> (reserve_slot \<times> rat) list" where
  "sweep cap_kwh [] pending room stored = ([], pending)"
| "sweep cap_kwh (s # ss) pending room stored =
     (let (settled, rest, stored1) = settle (rs_start s) pending stored;
          room1 = min cap_kwh (room + max 0 (net_demand_kwh s));
          absorbed = min (max 0 (expected_surplus_kwh s)) room1;
          (settled', rest') = sweep cap_kwh ss rest (room1 - absorbed) (stored1 + absorbed)
      in (settled @ settled', rest'))"

text \<open>
  \<open>_reserve_after_pv\<close>: the reserve is what the settled claims still need after their
  credit; a claim left pending would have no credit and add nothing.
\<close>

definition reserve_after_pv :: "reserve_slot list \<Rightarrow> time \<Rightarrow> (reserve_slot \<times> rat) list \<Rightarrow> rat \<Rightarrow> rat
    \<Rightarrow> rat \<times> rat list" where
  "reserve_after_pv slots now claims free_space available =
     (let room = max 0 free_space;
          (settled, pending) = sweep (room + max 0 available) (filter (\<lambda>s. now \<le> rs_start s) slots) claims room 0
      in (max 0 (sum_list (map (\<lambda>(amount, credit). amount - credit) settled)),
          map snd settled @ map (\<lambda>_. 0) pending))"

record reserve_outcome =
  out_reserve :: rat
  out_claims :: "reserve_slot list"
  out_reason :: reserve_reason
  threshold_price :: "rat option"
  claimed_kwh :: rat
  pv_credit_kwh :: rat
  horizon_demand_kwh :: rat
  horizon_surplus_kwh :: rat
  claim_breakdown :: "(reserve_slot \<times> rat \<times> rat) list"

definition no_reserve :: "reserve_reason \<Rightarrow> reserve_outcome" where
  "no_reserve r = \<lparr>out_reserve = 0, out_claims = [], out_reason = r, threshold_price = None, claimed_kwh = 0,
     pv_credit_kwh = 0, horizon_demand_kwh = 0, horizon_surplus_kwh = 0, claim_breakdown = []\<rparr>"

definition candidates_of :: "reserve_slot list \<Rightarrow> time \<Rightarrow> rat \<Rightarrow> reserve_slot list" where
  "candidates_of slots now threshold =
     filter (\<lambda>s. now \<le> rs_start s \<and> EPSILON < net_demand_kwh s \<and> threshold < rs_price s) slots"

definition reserve_kwh_at :: "reserve_slot list \<Rightarrow> rat \<Rightarrow> time \<Rightarrow> pyval \<Rightarrow> rat \<Rightarrow> rat \<Rightarrow> reserve_outcome" where
  "reserve_kwh_at slots min_saving now current_price available free_space =
     (if available \<le> EPSILON then no_reserve NoUsableEnergy
      else (case finite_val current_price of
        None \<Rightarrow> no_reserve NoPrice
      | Some price \<Rightarrow>
         (let threshold = price + max 0 min_saving;
              future = filter (\<lambda>s. now \<le> rs_start s) slots;
              base = (no_reserve NothingDearer)\<lparr>threshold_price := Some threshold,
                horizon_demand_kwh := sum_list (map (\<lambda>s. max 0 (net_demand_kwh s)) future),
                horizon_surplus_kwh := sum_list (map (\<lambda>s. max 0 (expected_surplus_kwh s)) future)\<rparr>;
              candidates = candidates_of slots now threshold
          in if candidates = [] then base
             else (let claims = claims_of available candidates;
                       (reserve, credits) = reserve_after_pv slots now claims free_space available;
                       audit = base\<lparr>claimed_kwh := sum_list (map snd claims), pv_credit_kwh := sum_list credits,
                         claim_breakdown := map (\<lambda>((s, amount), credit). (s, amount, credit)) (zip claims credits)\<rparr>
                   in if reserve \<le> EPSILON then audit\<lparr>out_reason := PvCoversIt\<rparr>
                      else audit\<lparr>out_reserve := reserve, out_claims := map fst claims, out_reason := Reserved\<rparr>))))"

section \<open>The plan\<close>

text \<open>
  A plan that has slots is recomputed in every control cycle with the live price, energy
  and space; the other statuses of \<open>plan_discharge_reserve\<close> carry no slots.
\<close>

definition plan_discharge_reserve :: "price_slot list \<Rightarrow> (price_slot, pyval) dict \<Rightarrow> (price_slot, pyval) dict
    \<Rightarrow> pyval \<Rightarrow> pyval \<Rightarrow> pyval \<Rightarrow> pyval \<Rightarrow> pyval \<Rightarrow> time \<Rightarrow> reserve_slot list \<times> reserve_outcome" where
  "plan_discharge_reserve price_slots demand_by_slot surplus_by_slot usable total_capacity free_space
      current_price min_saving now =
     (if positive total_capacity \<le> EPSILON then ([], no_reserve NoCapacity)
      else (let slots = build_reserve_slots price_slots demand_by_slot surplus_by_slot in
        if slots = [] then ([], no_reserve NoSlots)
        else if list_all (\<lambda>s. net_demand_kwh s \<le> EPSILON) slots then (slots, no_reserve NoDemand)
        else (slots, reserve_kwh_at slots (positive min_saving) now current_price (positive usable)
               (positive free_space))))"

definition reserve_soc_pct :: "pyval \<Rightarrow> pyval \<Rightarrow> rat" where
  "reserve_soc_pct reserve total_capacity =
     (let capacity = positive total_capacity in
      if capacity \<le> EPSILON then 0 else max 0 (min 100 (100 * positive reserve / capacity)))"

definition free_space_kwh :: "snapshot list \<Rightarrow> rat" where
  "free_space_kwh snapshots = sum_list (map (\<lambda>s.
     max 0 (positive (capacity_kwh s) * (positive (max_soc_pct s) - positive (soc_pct s)) / 100))
     (filter eligible snapshots))"

definition eligible_capacity_kwh :: "snapshot list \<Rightarrow> rat" where
  "eligible_capacity_kwh snapshots =
     sum_list (map (\<lambda>s. positive (capacity_kwh s)) (filter (\<lambda>s. eligible s \<and> can_discharge s) snapshots))"

definition usable_energy_kwh :: "snapshot list \<Rightarrow> rat" where
  "usable_energy_kwh snapshots = sum_list (map (\<lambda>s.
     max 0 (positive (capacity_kwh s) * (positive (soc_pct s) - positive (floor_soc_pct s)) / 100))
     (filter (\<lambda>s. eligible s \<and> can_discharge s) snapshots))"

section \<open>The walk over the bins\<close>

text \<open>The energy of the profile up to a time, with the fraction of the running quarter.\<close>

definition energy_until :: "(int \<Rightarrow> rat) \<Rightarrow> time \<Rightarrow> rat" where
  "energy_until val t = (let q = \<lfloor>t / 900\<rfloor> in sum val {0..<q} + val q * (t / 900 - of_int q))"

lemma energy_until_step:
  fixes c e :: time
  assumes "0 \<le> c" "c \<le> e" "e \<le> of_int (\<lfloor>c / 900\<rfloor> + 1) * 900"
  shows "energy_until val e = energy_until val c + val \<lfloor>c / 900\<rfloor> * ((e - c) / 900)"
proof -
  let ?q = "\<lfloor>c / 900\<rfloor>"
  have q0: "0 \<le> ?q" using assms(1) by simp
  show ?thesis
  proof (cases "e = of_int (?q + 1) * 900")
    case True
    then have ediv: "e / 900 = of_int (?q + 1)" by simp
    then have fl: "\<lfloor>e / 900\<rfloor> = ?q + 1" by (metis floor_of_int)
    have "{0..<?q + 1} = insert ?q {0..<?q}" using q0 by auto
    then have E: "energy_until val e = sum val {0..<?q} + val ?q"
      unfolding energy_until_def Let_def fl unfolding ediv by simp
    have D: "(e - c) / 900 = of_int ?q + 1 - c / 900" using ediv by (simp add: diff_divide_distrib)
    show ?thesis unfolding E D unfolding energy_until_def Let_def by (simp add: algebra_simps)
  next
    case False
    then have lt: "e / 900 < of_int (?q + 1)" using assms(3) by (simp add: divide_less_eq)
    moreover have "of_int ?q \<le> e / 900"
      using assms(2) by (meson divide_right_mono of_int_floor_le order_trans zero_le_numeral)
    ultimately have "\<lfloor>e / 900\<rfloor> = ?q" by (simp add: floor_eq_iff)
    then show ?thesis by (simp add: energy_until_def Let_def algebra_simps diff_divide_distrib)
  qed
qed

lemma walk_bins_returns:
  assumes "0 \<le> cursor" "cursor \<le> finish"
  shows "walk_bins val finish cursor acc = Some (acc + (energy_until val finish - energy_until val cursor))"
  using assms
proof (induction "nat (\<lceil>finish / 900\<rceil> - \<lfloor>cursor / 900\<rfloor>)" arbitrary: cursor acc rule: less_induct)
  case less
  show ?case
  proof (cases "cursor < finish")
    case False
    then have "cursor = finish" using less.prems by simp
    then show ?thesis by (simp add: walk_bins.simps)
  next
    case True
    let ?q = "\<lfloor>cursor / 900\<rfloor>"
    let ?step = "min finish (of_int (?q + 1) * 900)"
    have above: "cursor < of_int (?q + 1) * 900"
      using floor_correct [of "cursor / 900"] by (simp add: divide_less_eq)
    have step: "cursor < ?step" "?step \<le> finish" "?step \<le> of_int (?q + 1) * 900" using True above by auto
    have "energy_until val ?step = energy_until val cursor + val ?q * ((?step - cursor) / 900)"
      using step less.prems by (intro energy_until_step) auto
    moreover have "walk_bins val finish ?step a = Some (a + (energy_until val finish - energy_until val ?step))" for a
    proof (cases "?step = finish")
      case True
      then show ?thesis by (simp add: walk_bins.simps)
    next
      case False
      then have eq: "?step = of_int (?q + 1) * 900" and lt: "of_int (?q + 1) * 900 < finish" by auto
      have "\<lfloor>?step / 900\<rfloor> = ?q + 1" unfolding eq by (metis floor_of_int nonzero_mult_div_cancel_right zero_neq_numeral)
      moreover have "of_int (?q + 1) < finish / 900" using lt by (simp add: less_divide_eq)
      then have "?q + 1 < \<lceil>finish / 900\<rceil>" by (simp add: less_ceiling_iff)
      ultimately show ?thesis using step less.prems by (intro less.hyps) auto
    qed
    ultimately show ?thesis using True by (subst walk_bins.simps) (simp add: Let_def)
  qed
qed

section \<open>The claims\<close>

lemma claim_dearest_step:
  fixes x :: reserve_slot and av cl :: rat
  defines "a \<equiv> min (net_demand_kwh x) (av - cl)"
  shows "claim_dearest av cl (x # xs) =
    (if av - EPSILON \<le> cl then [] else if a \<le> EPSILON then claim_dearest av cl xs
     else (x, a) # claim_dearest av (cl + a) xs)"
  by (simp only: claim_dearest.simps Let_def a_def)

lemma claim_dearest_bounds:
  "sum_list (map snd (claim_dearest av cl ss)) \<le> max 0 (av - cl)
   \<and> (\<forall>(s, a) \<in> set (claim_dearest av cl ss). s \<in> set ss \<and> 0 < a \<and> a \<le> net_demand_kwh s)"
proof (induction av cl ss rule: claim_dearest.induct)
  case (2 av cl s ss)
  let ?a = "min (net_demand_kwh s) (av - cl)"
  show ?case
  proof (cases "av - EPSILON \<le> cl \<or> ?a \<le> EPSILON")
    case True
    show ?thesis
    proof (cases "av - EPSILON \<le> cl")
      case True
      then show ?thesis by simp
    next
      case False
      then have small: "?a \<le> EPSILON" using \<open>av - EPSILON \<le> cl \<or> ?a \<le> EPSILON\<close> by simp
      have eq: "claim_dearest av cl (s # ss) = claim_dearest av cl ss"
        by (simp only: claim_dearest_step False small if_False if_True)
      show ?thesis using 2(1) [OF False refl small] unfolding eq by auto
    qed
  next
    case False
    then have "EPSILON < ?a" by auto
    then have a: "0 < ?a" by (auto simp: EPSILON_def intro: order_less_trans [rotated])
    have n: "\<not> av - EPSILON \<le> cl" "\<not> ?a \<le> EPSILON" using False by auto
    have eq: "claim_dearest av cl (s # ss) = (s, ?a) # claim_dearest av (cl + ?a) ss"
      by (simp only: claim_dearest_step n if_False)
    have "?a \<le> av - cl" by simp
    have "b \<le> av - cl \<Longrightarrow> 0 < b \<Longrightarrow> max 0 (av - (cl + b)) + b \<le> max 0 (av - cl)" for b by simp
    from this [OF \<open>?a \<le> av - cl\<close> a] have le: "max 0 (av - (cl + ?a)) + ?a \<le> max 0 (av - cl)" .
    note IH = 2(2) [OF n(1) refl n(2)]
    show ?thesis
    proof (intro conjI)
      have "sum_list (map snd (claim_dearest av cl (s # ss)))
          = ?a + sum_list (map snd (claim_dearest av (cl + ?a) ss))" by (simp only: eq list.map sum_list.Cons snd_conv)
      then show "sum_list (map snd (claim_dearest av cl (s # ss))) \<le> max 0 (av - cl)"
        using IH le by linarith
      have "?a \<le> net_demand_kwh s" by simp
      then show "\<forall>(t, b) \<in> set (claim_dearest av cl (s # ss)). t \<in> set (s # ss) \<and> 0 < b \<and> b \<le> net_demand_kwh t"
        using IH a unfolding eq by (simp only: list.set) blast
    qed
  qed
qed simp

text \<open>Along the order of the candidates a claim is whole before the next one begins.\<close>

lemma claim_dearest_whole:
  assumes "sorted_wrt R ss" and "\<And>s. R s s" and "\<And>s. s \<in> set ss \<Longrightarrow> EPSILON < net_demand_kwh s"
    and "(c, a) \<in> set (claim_dearest av cl ss)" and "s \<in> set ss" and "\<not> R c s"
  shows "(s, net_demand_kwh s) \<in> set (claim_dearest av cl ss)"
  using assms
proof (induction av cl ss rule: claim_dearest.induct)
  case (2 av cl x xs)
  note prems = 2(3-8)
  let ?a = "min (net_demand_kwh x) (av - cl)"
  have room: "cl < av - EPSILON" using prems(4) by (auto split: if_splits)
  have big: "EPSILON < ?a" using room prems(3) [of x] by simp
  then have eq: "claim_dearest av cl (x # xs) = (x, ?a) # claim_dearest av (cl + ?a) xs"
    by (simp only: claim_dearest_step room [unfolded not_le [symmetric]] big [unfolded not_le [symmetric]] if_False)
  have whole: "?a = net_demand_kwh x" if "claim_dearest av (cl + ?a) xs \<noteq> []"
  proof (rule ccontr)
    assume "?a \<noteq> net_demand_kwh x"
    then have "cl + ?a = av" by (auto simp: min_def split: if_splits)
    then show False using that by (cases xs) (auto simp: EPSILON_def)
  qed
  show ?case
  proof (cases "c = x \<and> a = ?a")
    case True
    then show ?thesis using prems(1,2,5,6) by (auto simp: eq)
  next
    case False
    then have tl: "(c, a) \<in> set (claim_dearest av (cl + ?a) xs)" using prems(4) unfolding eq by auto
    show ?thesis
    proof (cases "s = x")
      case True
      have "claim_dearest av (cl + ?a) xs \<noteq> []" using tl by (metis empty_iff empty_set)
      from whole [OF this] show ?thesis unfolding eq True by simp
    next
      case False
      have "(s, net_demand_kwh s) \<in> set (claim_dearest av (cl + ?a) xs)"
      proof (rule 2(2) [OF _ refl _ _ prems(2) _ tl _ prems(6)])
        show "sorted_wrt R xs" using prems(1) by simp
        show "EPSILON < net_demand_kwh t" if "t \<in> set xs" for t using prems(3) that by simp
        show "s \<in> set xs" using prems(5) False by simp
      qed (use room big in \<open>simp_all only: not_le\<close>)
      then show ?thesis unfolding eq by simp
    qed
  qed
qed simp


section \<open>The credit\<close>

definition surplus_before :: "time \<Rightarrow> reserve_slot list \<Rightarrow> rat" where
  "surplus_before t slots = sum_list (map (\<lambda>s. max 0 (expected_surplus_kwh s)) (filter (\<lambda>s. rs_start s < t) slots))"

text \<open>A settled list against its claims: the credits due up to a time, and their bounds.\<close>

definition credit_until :: "time \<Rightarrow> (reserve_slot \<times> rat) list \<Rightarrow> rat list \<Rightarrow> rat" where
  "credit_until t claims credits =
     sum_list (map snd (filter (\<lambda>((c, _), _). rs_start c \<le> t) (zip claims credits)))"

lemma settle_spec:
  assumes "settle t pending stored = (settled, rest, stored')" and "0 \<le> stored"
    and "\<forall>(c, a) \<in> set pending. 0 < a"
  shows "\<exists>done. pending = done @ rest \<and> map fst settled = map snd done
    \<and> list_all (\<lambda>(a, c). 0 \<le> c \<and> c \<le> a) settled \<and> sum_list (map snd settled) + stored' = stored \<and> 0 \<le> stored'
    \<and> done = takeWhile (\<lambda>(c, _). rs_start c \<le> t) pending"
  using assms
proof (induction t pending stored arbitrary: settled rest stored' rule: settle.induct)
  case (1 t stored)
  then show ?case by simp
next
  case (2 t c a cs stored)
  show ?case
  proof (cases "rs_start c \<le> t")
    case False
    then show ?thesis using 2(2,3) by auto
  next
    case True
    let ?cr = "min a stored"
    obtain settled1 where st: "settle t cs (stored - ?cr) = (settled1, rest, stored')" and s1: "settled = (a, ?cr) # settled1"
      using 2(2) True by (auto simp: Let_def case_prod_unfold) (metis prod.collapse)
    have "0 \<le> stored - ?cr" by simp
    from 2(1) [OF True refl st this] 2(4) obtain done1 where d: "cs = done1 @ rest" "map fst settled1 = map snd done1"
      "list_all (\<lambda>(a, c). 0 \<le> c \<and> c \<le> a) settled1" "sum_list (map snd settled1) + stored' = stored - ?cr" "0 \<le> stored'"
      "done1 = takeWhile (\<lambda>(c, _). rs_start c \<le> t) cs" by auto
    show ?thesis using d True 2(3,4) s1 by (intro exI [of _ "(c, a) # done1"]) auto
  qed
qed


lemma credit_until_append:
  "length cs = length xs \<Longrightarrow> credit_until t (xs @ ys) (cs @ ds) = credit_until t xs cs + credit_until t ys ds"
  by (simp add: credit_until_def)

lemma credit_until_le_sum:
  "length cs = length xs \<Longrightarrow> list_all ((\<le>) 0) cs \<Longrightarrow> credit_until t xs cs \<le> sum_list cs"
  by (induction cs xs rule: list_induct2) (auto simp: credit_until_def)

lemma credit_until_early:
  "list_all (\<lambda>(c, _). t < rs_start c) xs \<Longrightarrow> credit_until t xs cs = 0"
proof (induction xs arbitrary: cs)
  case (Cons x xs)
  then show ?case by (cases cs) (auto simp: credit_until_def)
qed (simp add: credit_until_def)

lemma surplus_before_nonneg: "0 \<le> surplus_before t ss"
  by (auto simp: surplus_before_def intro!: sum_list_nonneg_map)

lemma sorted_dropWhile_late:
  "sorted (map f xs) \<Longrightarrow> xs = takeWhile (\<lambda>x. f x \<le> t) xs @ rest \<Longrightarrow> list_all (\<lambda>x. t < (f x :: 'b :: linorder)) rest"
proof (induction xs)
  case (Cons x xs)
  then show ?case by (cases "f x \<le> t") (force simp: list_all_iff)+
qed simp

lemma sweep_spec:
  assumes "sweep cap_kwh ss pending room stored = (settled, rest)" "0 \<le> stored" "0 \<le> room" "0 \<le> cap_kwh"
    and "\<forall>(c, a) \<in> set pending. 0 < a" and "sorted (map rs_start ss)" and "sorted (map (rs_start \<circ> fst) pending)"
  shows "\<exists>done. pending = done @ rest \<and> map fst settled = map snd done
    \<and> list_all (\<lambda>(a, c). 0 \<le> c \<and> c \<le> a) settled
    \<and> (\<forall>t. credit_until t done (map snd settled) \<le> stored + surplus_before t ss)
    \<and> (\<forall>s \<in> set ss. list_all (\<lambda>(c, _). rs_start s < rs_start c) rest)"
  using assms
proof (induction cap_kwh ss pending room stored arbitrary: settled rest rule: sweep.induct)
  case (1 cap_kwh pending room stored)
  then show ?case by (auto simp: credit_until_def surplus_before_def)
next
  case (2 cap_kwh s ss pending room stored)
  obtain settled1 rest1 stored1 where st: "settle (rs_start s) pending stored = (settled1, rest1, stored1)"
    by (metis prod_cases3)
  define room1 where "room1 = min cap_kwh (room + max 0 (net_demand_kwh s))"
  define absorbed where "absorbed = min (max 0 (expected_surplus_kwh s)) room1"
  obtain settled2 where sw: "sweep cap_kwh ss rest1 (room1 - absorbed) (stored1 + absorbed) = (settled2, rest)"
    and settled: "settled = settled1 @ settled2"
    using 2(2) by (auto simp: st Let_def case_prod_unfold room1_def absorbed_def) (metis prod.collapse)
  have ab: "0 \<le> absorbed" "absorbed \<le> max 0 (expected_surplus_kwh s)" "0 \<le> room1 - absorbed"
    using 2(4,5) by (auto simp: absorbed_def room1_def)
  from settle_spec [OF st 2(3,6)] obtain done1 where d1: "pending = done1 @ rest1" "map fst settled1 = map snd done1"
    "list_all (\<lambda>(a, c). 0 \<le> c \<and> c \<le> a) settled1" "sum_list (map snd settled1) + stored1 = stored" "0 \<le> stored1"
    "done1 = takeWhile (\<lambda>(c, _). rs_start c \<le> rs_start s) pending" by blast
  have late: "list_all (\<lambda>x. rs_start s < (rs_start \<circ> fst) x) rest1"
    using d1(1,6) by (intro sorted_dropWhile_late [OF 2(8)]) (simp add: case_prod_unfold comp_def)
  have pos1: "\<forall>(c, a) \<in> set rest1. 0 < a" and sorted1: "sorted (map (rs_start \<circ> fst) rest1)"
    using 2(6,8) d1(1) by (auto simp: sorted_append comp_def)
  have "0 \<le> stored1 + absorbed" "sorted (map rs_start ss)" using ab d1(5) 2(7) by auto
  from 2(1) [OF st [symmetric] refl refl refl, folded room1_def, OF refl, folded absorbed_def, OF sw this(1) ab(3) 2(5) pos1 this(2) sorted1]
  obtain done2 where d2: "rest1 = done2 @ rest" "map fst settled2 = map snd done2"
    "list_all (\<lambda>(a, c). 0 \<le> c \<and> c \<le> a) settled2"
    "\<And>t. credit_until t done2 (map snd settled2) \<le> stored1 + absorbed + surplus_before t ss"
    "\<forall>s \<in> set ss. list_all (\<lambda>(c, _). rs_start s < rs_start c) rest" by auto
  have credits1: "credit_until t done1 (map snd settled1) \<le> stored - stored1" for t
  proof -
    have "length (map snd settled1) = length done1" using d1(2) by (metis length_map)
    moreover have "list_all ((\<le>) 0) (map snd settled1)" using d1(3) by (auto simp: list_all_iff)
    ultimately have "credit_until t done1 (map snd settled1) \<le> sum_list (map snd settled1)"
      by (rule credit_until_le_sum)
    then show ?thesis using d1(4) by linarith
  qed
  have "credit_until t (done1 @ done2) (map snd settled) \<le> stored + surplus_before t (s # ss)" for t
  proof -
    have split: "credit_until t (done1 @ done2) (map snd settled)
        = credit_until t done1 (map snd settled1) + credit_until t done2 (map snd settled2)"
      unfolding settled map_append using d1(2) by (intro credit_until_append) (metis length_map)
    show ?thesis
    proof (cases "rs_start s < t")
      case True
      then have "surplus_before t (s # ss) = max 0 (expected_surplus_kwh s) + surplus_before t ss"
        by (simp add: surplus_before_def)
      then show ?thesis using split credits1 [of t] d2(4) [of t] ab(2) by linarith
    next
      case False
      then have "credit_until t done2 (map snd settled2) = 0"
      proof (intro credit_until_early)
        have "t < rs_start c" if "(c, a) \<in> set done2" for c a
        proof -
          from late d2(1) that have "rs_start s < (rs_start \<circ> fst) (c, a)"
            unfolding list_all_iff by (metis UnI1 set_append)
          then show ?thesis using False by simp
        qed
        then show "list_all (\<lambda>(c, _). t < rs_start c) done2" by (auto simp: list_all_iff)
      qed
      then show ?thesis using split credits1 [of t] d1(5) surplus_before_nonneg [of t "s # ss"] by linarith
    qed
  qed
  moreover have "list_all (\<lambda>(c, _). rs_start s < rs_start c) rest"
  proof -
    from late d2(1) have "(rs_start \<circ> fst) x > rs_start s" if "x \<in> set rest" for x
      using that unfolding list_all_iff by (metis UnI2 set_append)
    then show ?thesis by (force simp: list_all_iff)
  qed
  moreover have "pending = (done1 @ done2) @ rest" using d1(1) d2(1) by simp
  moreover have "map fst settled = map snd (done1 @ done2)" using d1(2) d2(2) by (simp add: settled)
  moreover have "list_all (\<lambda>(a, c). 0 \<le> c \<and> c \<le> a) settled" using d1(3) d2(3) by (simp add: settled)
  ultimately show ?case using d2(5) by (simp only: list.set ball_simps) blast
qed


lemma claims_of_spec:
  assumes "0 \<le> available"
  shows "sum_list (map snd (claims_of available cands)) \<le> available"
    and "(c, a) \<in> set (claims_of available cands) \<Longrightarrow> c \<in> set cands \<and> 0 < a \<and> a \<le> net_demand_kwh c"
    and "sorted (map (rs_start \<circ> fst) (claims_of available cands))"
    and "(c, a) \<in> set (claims_of available cands) \<Longrightarrow> s \<in> set cands \<Longrightarrow> rs_price c < rs_price s
      \<Longrightarrow> (\<And>d. d \<in> set cands \<Longrightarrow> EPSILON < net_demand_kwh d)
      \<Longrightarrow> (s, net_demand_kwh s) \<in> set (claims_of available cands)"
proof -
  let ?key = "\<lambda>s. (- rs_price s, rs_start s)"
  let ?sorted = "sort_key ?key cands"
  let ?raw = "claim_dearest available 0 ?sorted"
  note b = claim_dearest_bounds [of available 0 ?sorted]
  show "sum_list (map snd (claims_of available cands)) \<le> available"
    using b assms by (simp add: claims_of_def sum_list_sort_key)
  show "c \<in> set cands \<and> 0 < a \<and> a \<le> net_demand_kwh c" if "(c, a) \<in> set (claims_of available cands)"
    using b that by (auto simp: claims_of_def)
  show "sorted (map (rs_start \<circ> fst) (claims_of available cands))"
    unfolding claims_of_def by (simp add: comp_def case_prod_unfold)
  show "(s, net_demand_kwh s) \<in> set (claims_of available cands)"
    if c: "(c, a) \<in> set (claims_of available cands)" and s: "s \<in> set cands" "rs_price c < rs_price s"
      and d: "\<And>d. d \<in> set cands \<Longrightarrow> EPSILON < net_demand_kwh d"
  proof -
    have "sorted_wrt (\<lambda>x y. ?key x \<le> ?key y) ?sorted" using sorted_sort_key [of ?key cands] by (simp add: sorted_map)
    then have "(s, net_demand_kwh s) \<in> set ?raw"
      using c s d by (intro claim_dearest_whole [where R = "\<lambda>x y. ?key x \<le> ?key y" and c = c and a = a])
        (auto simp: claims_of_def)
    then show ?thesis by (simp add: claims_of_def)
  qed
qed

lemma reserve_after_pv_spec:
  assumes "reserve_after_pv slots now claims free_space available = (reserve, credits)"
    and "sorted (map rs_start slots)" and "sorted (map (rs_start \<circ> fst) claims)"
    and "\<And>c a. (c, a) \<in> set claims \<Longrightarrow> c \<in> set slots \<and> now \<le> rs_start c \<and> 0 < a"
  shows "length credits = length claims \<and> list_all (\<lambda>((_, a), c). 0 \<le> c \<and> c \<le> a) (zip claims credits)
    \<and> reserve = sum_list (map snd claims) - sum_list credits \<and> 0 \<le> reserve
    \<and> (\<forall>t. credit_until t claims credits \<le> surplus_before t (filter (\<lambda>s. now \<le> rs_start s) slots))"
proof -
  let ?future = "filter (\<lambda>s. now \<le> rs_start s) slots"
  let ?room = "max 0 free_space"
  obtain settled rest where sw: "sweep (?room + max 0 available) ?future claims ?room 0 = (settled, rest)" by fastforce
  have "sorted (map rs_start ?future)" using assms(2) by (rule sorted_filter)
  from sweep_spec [OF sw _ _ _ _ this assms(3)] assms(4)
  obtain dns where d: "claims = dns @ rest" "map fst settled = map snd dns"
    "list_all (\<lambda>(a, c). 0 \<le> c \<and> c \<le> a) settled"
    "\<And>t. credit_until t dns (map snd settled) \<le> 0 + surplus_before t ?future"
    "\<And>s. s \<in> set ?future \<Longrightarrow> list_all (\<lambda>(c, _). rs_start s < rs_start c) rest" by fastforce
  have "rest = []"
  proof (rule ccontr)
    assume "rest \<noteq> []"
    then obtain c a where ca: "(c, a) \<in> set rest" by (cases rest) auto
    then have "c \<in> set ?future" using assms(4) d(1) by auto
    then show False using d(5) [of c] ca by (force simp: list_all_iff)
  qed
  then have dn: "dns = claims" using d(1) by simp
  have cr: "credits = map snd settled" and rv: "reserve = max 0 (sum_list (map (\<lambda>(amount, credit). amount - credit) settled))"
    using assms(1) sw \<open>rest = []\<close> by (auto simp: reserve_after_pv_def Let_def)
  have diff: "sum_list (map (\<lambda>(amount, credit). amount - credit) settled)
      = sum_list (map fst settled) - (sum_list (map snd settled) :: rat)"
    by (induction settled) auto
  have nn: "0 \<le> sum_list (map (\<lambda>(amount, credit). amount - credit) settled)"
    using d(3) by (intro sum_list_nonneg_map) (auto simp: list_all_iff)
  have z: "zip claims credits = zip claims (map snd settled)" by (simp add: cr)
  have len: "length settled = length claims" using d(2) dn by (metis length_map)
  have "list_all (\<lambda>((_, a), c). 0 \<le> c \<and> c \<le> a) (zip claims (map snd settled))"
    using d(2,3) unfolding dn
  proof (induction settled arbitrary: claims)
    case (Cons x xs)
    then show ?case by (cases claims) auto
  qed simp
  then show ?thesis using d(2,4) dn len diff nn cr rv z by auto
qed


section \<open>Properties\<close>

lemma build_reserve_slots_sorted: "sorted (map rs_start (build_reserve_slots ps d u))"
  by (simp add: build_reserve_slots_def)

definition credits_by :: "time \<Rightarrow> (reserve_slot \<times> rat \<times> rat) list \<Rightarrow> rat" where
  "credits_by t breakdown = sum_list (map (\<lambda>(_, _, credit). credit) (filter (\<lambda>(s, _, _). rs_start s \<le> t) breakdown))"

lemma credits_by_breakdown:
  "credits_by t (map (\<lambda>((s, amount), credit). (s, amount, credit)) (zip claims credits)) = credit_until t claims credits"
proof -
  have "credits_by t (map (\<lambda>((s, amount), credit). (s, amount, credit)) zs)
      = sum_list (map snd (filter (\<lambda>((c, _), _). rs_start c \<le> t) zs))" for zs
    by (induction zs) (auto simp: credits_by_def)
  then show ?thesis by (simp add: credit_until_def)
qed

text \<open>The meaning of an outcome, with its audit trail.\<close>

definition claims_ok :: "reserve_slot list \<Rightarrow> time \<Rightarrow> (reserve_slot \<times> rat \<times> rat) list \<Rightarrow> bool" where
  "claims_ok slots now breakdown = list_all (\<lambda>(s, a, c). s \<in> set slots \<and> now \<le> rs_start s
     \<and> 0 < a \<and> a \<le> net_demand_kwh s \<and> 0 \<le> c \<and> c \<le> a) breakdown"

text \<open>Every slot dearer than a claimed one, if it has demand, is claimed for all of it.\<close>

definition dearest_first :: "reserve_slot list \<Rightarrow> time \<Rightarrow> (reserve_slot \<times> rat \<times> rat) list \<Rightarrow> bool" where
  "dearest_first slots now breakdown = list_all (\<lambda>(s, _, _). list_all (\<lambda>d.
     if now \<le> rs_start d \<and> EPSILON < net_demand_kwh d \<and> rs_price s < rs_price d
     then list_ex (\<lambda>(s', a, _). s' = d \<and> a = net_demand_kwh d) breakdown else True) slots) breakdown"

definition sound_outcome :: "reserve_slot list \<Rightarrow> time \<Rightarrow> rat \<Rightarrow> reserve_outcome \<Rightarrow> bool" where
  "sound_outcome slots now available r =
     (0 \<le> out_reserve r \<and> claimed_kwh r \<le> available
      \<and> (out_reserve r = 0 \<or> out_reserve r = claimed_kwh r - pv_credit_kwh r)
      \<and> claimed_kwh r = sum_list (map (\<lambda>(_, a, _). a) (claim_breakdown r))
      \<and> pv_credit_kwh r = sum_list (map (\<lambda>(_, _, c). c) (claim_breakdown r))
      \<and> claims_ok slots now (claim_breakdown r) \<and> dearest_first slots now (claim_breakdown r))"

lemma no_reserve_sound: "0 \<le> available \<Longrightarrow> sound_outcome slots now available (no_reserve x)
    \<and> credits_by t (claim_breakdown (no_reserve x)) = 0"
  by (simp add: sound_outcome_def claims_ok_def dearest_first_def no_reserve_def credits_by_def)

lemma map_unzip: "length xs = length ys \<Longrightarrow> map (\<lambda>((s, a), c). a) (zip xs ys) = map snd xs"
  "length xs = length ys \<Longrightarrow> map (\<lambda>((s, a), c). c) (zip xs ys) = ys"
  by (induction xs ys rule: list_induct2) auto

lemma reserve_kwh_at_sound:
  assumes "sorted (map rs_start slots)" and "0 \<le> available"
  shows "sound_outcome slots now available (reserve_kwh_at slots ms now price available space)
    \<and> credits_by t (claim_breakdown (reserve_kwh_at slots ms now price available space))
        \<le> surplus_before t (filter (\<lambda>s. now \<le> rs_start s) slots)"
proof (cases "available \<le> EPSILON \<or> finite_val price = None")
  case True
  then show ?thesis using no_reserve_sound [OF assms(2)] surplus_before_nonneg
    by (auto simp: reserve_kwh_at_def)
next
  case False
  then obtain p where p: "finite_val price = Some p" and big: "\<not> available \<le> EPSILON" by auto
  let ?cands = "candidates_of slots now (p + max 0 ms)"
  let ?claims = "claims_of available ?cands"
  obtain reserve credits where rc: "reserve_after_pv slots now ?claims space available = (reserve, credits)" by fastforce
  define bd where "bd = map (\<lambda>((s, amount), credit). (s, amount, credit)) (zip ?claims credits)"
  have cand: "d \<in> set ?cands \<longleftrightarrow> d \<in> set slots \<and> now \<le> rs_start d \<and> EPSILON < net_demand_kwh d \<and> p + max 0 ms < rs_price d" for d
    by (auto simp: candidates_of_def)
  note cs = claims_of_spec [where cands = ?cands, OF assms(2)]
  have mem: "c \<in> set slots \<and> now \<le> rs_start c \<and> 0 < a" if "(c, a) \<in> set ?claims" for c a
    using cs(2) [OF that] cand by auto
  note pv = reserve_after_pv_spec [OF rc assms(1) cs(3) mem]
  have sums: "sum_list (map (\<lambda>(_, a, _). a) bd) = sum_list (map snd ?claims)"
      "sum_list (map (\<lambda>(_, _, c). c) bd) = sum_list credits"
    using pv map_unzip [of ?claims credits] by (simp_all add: bd_def comp_def case_prod_unfold)
  have each: "claims_ok slots now bd"
    using pv mem cs(2) by (fastforce simp: bd_def claims_ok_def list_all_iff dest: set_zip_leftD)
  have first: "list_ex (\<lambda>(s', a, _). s' = d \<and> a = net_demand_kwh d) bd"
    if "(s, a, c) \<in> set bd" "d \<in> set slots" "now \<le> rs_start d" "EPSILON < net_demand_kwh d" "rs_price s < rs_price d" for s a c d
  proof -
    have s: "(s, a) \<in> set ?claims" using that(1) by (auto simp: bd_def dest: set_zip_leftD)
    then have "p + max 0 ms < rs_price s" using cs(2) cand by blast
    then have "d \<in> set ?cands" using that cand by auto
    then have "(d, net_demand_kwh d) \<in> set ?claims" using cs(4) [OF s _ that(5)] cand by blast
    then obtain k where k: "k < length ?claims" "?claims ! k = (d, net_demand_kwh d)" by (auto simp: in_set_conv_nth)
    then have "((d, net_demand_kwh d), credits ! k) \<in> set (zip ?claims credits)"
      using pv by (auto simp: in_set_zip)
    then show ?thesis by (force simp: bd_def list_ex_iff)
  qed
  have common: "sound_outcome slots now available (r\<lparr>claimed_kwh := sum_list (map snd ?claims),
      pv_credit_kwh := sum_list credits, claim_breakdown := bd, out_reserve := v\<rparr>)"
    if v: "v = 0 \<or> v = reserve" for v and r :: reserve_outcome
  proof -
    have "0 \<le> v" and "v = 0 \<or> v = sum_list (map snd ?claims) - sum_list credits" using v pv by auto
    moreover have "dearest_first slots now bd"
      unfolding dearest_first_def list_all_iff using first by (smt (verit) case_prodI2)
    ultimately show ?thesis using cs(1) sums each unfolding sound_outcome_def by simp
  qed
  show ?thesis
  proof (cases "?cands = []")
    case True
    then show ?thesis using no_reserve_sound [OF assms(2)] surplus_before_nonneg big p
      by (auto simp: reserve_kwh_at_def Let_def sound_outcome_def claims_ok_def dearest_first_def credits_by_def no_reserve_def)
  next
    case False
    let ?r = "reserve_kwh_at slots ms now price available space"
    have bd: "claim_breakdown ?r = bd" using big p False rc by (simp add: bd_def reserve_kwh_at_def Let_def)
    have "?r = ?r\<lparr>claimed_kwh := sum_list (map snd ?claims), pv_credit_kwh := sum_list credits,
        claim_breakdown := bd, out_reserve := out_reserve ?r\<rparr> \<and> (out_reserve ?r = 0 \<or> out_reserve ?r = reserve)"
      using big p False rc by (simp add: bd_def reserve_kwh_at_def no_reserve_def Let_def)
    then have "sound_outcome slots now available ?r" using common by metis
    then show ?thesis using pv unfolding bd bd_def credits_by_breakdown by blast
  qed
qed


lemma plan_slots_sorted:
  "plan_discharge_reserve prices demand surplus usable capacity space price saving now = (slots, r)
    \<Longrightarrow> sorted (map rs_start slots)"
  by (auto simp: plan_discharge_reserve_def Let_def build_reserve_slots_sorted split: if_splits)

text \<open>
  C39. The reserve is sound, whatever the forecasts and prices hold: it claims no more
  than the stored energy, each claim is of a coming slot and within its demand, a slot is
  claimed only once every dearer slot with demand is claimed in full, and the reserve is
  exactly what the claims leave after the credited sun. The sun credited to the claims up
  to a time never exceeds the surplus expected strictly before it: no kWh is spent twice.
\<close>

theorem reserve_is_sound:
  "(case plan_discharge_reserve prices demand surplus usable capacity space price saving now of (slots, r) \<Rightarrow>
     sound_outcome slots now (positive usable) r
     \<and> credits_by t (claim_breakdown r) \<le> surplus_before t (filter (\<lambda>s. now \<le> rs_start s) slots))"
proof -
  obtain slots r where pl: "plan_discharge_reserve prices demand surplus usable capacity space price saving now = (slots, r)"
    by fastforce
  have "r = no_reserve NoCapacity \<or> r = no_reserve NoSlots \<or> r = no_reserve NoDemand
      \<or> r = reserve_kwh_at slots (positive saving) now price (positive usable) (positive space)"
    using pl by (auto simp: plan_discharge_reserve_def Let_def split: if_splits)
  then show ?thesis
    using no_reserve_sound [OF positive_nonneg] surplus_before_nonneg
      reserve_kwh_at_sound [OF plan_slots_sorted [OF pl] positive_nonneg] unfolding pl by auto
qed

text \<open>
  C40. The walk over the profile always returns, and the tariff's slot lengths do not
  matter: the consumption of a slot is the sum over any two parts of it.
\<close>

theorem consumption_walk_returns_and_splits:
  assumes "0 \<le> a" and "a \<le> b" and "b \<le> c"
  shows "\<exists>x y. slot_consumption val a b = Some x \<and> slot_consumption val b c = Some y
    \<and> slot_consumption val a c = Some (x + y)"
proof -
  have "slot_consumption val s f = Some (energy_until val f - energy_until val s)" if "0 \<le> s" "s \<le> f" for s f
    using walk_bins_returns [OF that, of val 0] that by (auto simp: slot_consumption_def)
  then show ?thesis using assms by auto
qed

lemma consumption_walk_returns_and_splits_witness:
  "slot_consumption (bin_value [] [VFloat (Fin 1), VFloat (Fin 1), VFloat (Fin 1), VFloat (Fin 1), VFloat (Fin 1)])
     600 4500 = Some (13 / 3)"
proof -
  let ?v = "bin_value [] [VFloat (Fin 1), VFloat (Fin 1), VFloat (Fin 1), VFloat (Fin 1), VFloat (Fin 1)]"
  have le: "(0::rat) \<le> 600" "(600::rat) \<le> 1800" "(1800::rat) \<le> 4500" by simp_all
  have step: "walk_bins ?v finish cursor acc = (if cursor < finish
      then walk_bins ?v finish (min finish (of_int (\<lfloor>cursor / 900\<rfloor> + 1) * 900))
        (acc + ?v \<lfloor>cursor / 900\<rfloor> * ((min finish (of_int (\<lfloor>cursor / 900\<rfloor> + 1) * 900) - cursor) / 900))
      else Some acc)" for finish cursor acc
    by (subst walk_bins.simps) (simp add: Let_def)
  have quarter: "?v 0 = 1" "?v 1 = 1" "?v 2 = 1" "?v 3 = 1" "?v 4 = 1" by code_simp+
  have "slot_consumption ?v 600 1800 = Some (4 / 3)"
    by (simp add: slot_consumption_def step [of _ 600] step [of _ 900] step [of _ 1800] quarter min_def)
  moreover have "slot_consumption ?v 1800 4500 = Some 3"
    by (simp add: slot_consumption_def step [of _ 1800] step [of _ 2700] step [of _ 3600] step [of _ 4500] quarter min_def)
  ultimately have parts: "slot_consumption ?v 600 1800 = Some (4 / 3)" "slot_consumption ?v 1800 4500 = Some 3" by blast+
  obtain x y where "slot_consumption ?v 600 1800 = Some x" "slot_consumption ?v 1800 4500 = Some y"
    "slot_consumption ?v 600 4500 = Some (x + y)"
    using consumption_walk_returns_and_splits [OF le(1) le(2) le(3), of ?v] by blast
  with parts show ?thesis by (simp only: option.inject)
qed

end
