(* ===== verification/Price_Slots.thy ===== *)
theory Price_Slots
  imports Price_Base
begin

text \<open>
  The slot selection and charging-time arithmetic of \<open>pricing/calculations.py\<close>: the
  cheapest hours, one-hour blocks of finer tariffs, the price ceilings, and the two
  price parsers that need no clock arithmetic of Home Assistant. Prices are finite.
\<close>

section \<open>Charging time\<close>

definition calculate_charging_hours_needed :: "rat \<Rightarrow> rat \<Rightarrow> rat \<Rightarrow> rat" where
  "calculate_charging_hours_needed deficit max_contracted max_charge =
     (let kw = min max_contracted max_charge / 1000 in
      if kw \<le> 0 then 1 else of_int \<lceil>deficit / (kw * CHARGE_EFFICIENCY) * 2\<rceil> / 2)"

definition calculate_exact_charging_hours_needed :: "rat \<Rightarrow> rat \<Rightarrow> rat \<Rightarrow> rat" where
  "calculate_exact_charging_hours_needed energy max_contracted max_charge =
     (let kw = min max_contracted max_charge / 1000 in
      if energy \<le> 0 \<or> kw \<le> 0 then 0 else energy / (kw * CHARGE_EFFICIENCY))"

definition calculate_planned_grid_charge_kwh :: "rat \<Rightarrow> rat \<Rightarrow> rat" where
  "calculate_planned_grid_charge_kwh deficit headroom = min (max 0 headroom) (max 0 deficit)"

section \<open>One-hour blocks\<close>

text \<open>Windows are lists of indices into the slots sorted by their start.\<close>

definition consecutive :: "tariff_slot list \<Rightarrow> nat list \<Rightarrow> bool" where
  "consecutive ss cand = list_all (\<lambda>j. \<bar>t_start (ss ! (cand ! (j + 1))) - t_end (ss ! (cand ! j))\<bar> < 60)
     [0..<length cand - 1]"

definition window_avg :: "tariff_slot list \<Rightarrow> nat \<Rightarrow> nat list \<Rightarrow> rat" where
  "window_avg ss w cand = sum_list (map (\<lambda>i. t_price (ss ! i)) cand) / of_nat w"

definition better_window :: "tariff_slot list \<Rightarrow> nat \<Rightarrow> nat list \<Rightarrow> nat list option \<Rightarrow> nat list option" where
  "better_window ss w cand best =
     (if \<not> consecutive ss cand then best
      else case best of
        None \<Rightarrow> Some cand
      | Some b \<Rightarrow>
         (if window_avg ss w cand < window_avg ss w b
             \<or> (window_avg ss w cand = window_avg ss w b \<and> t_start (ss ! hd cand) < t_start (ss ! hd b))
          then Some cand else best))"

definition find_cheapest_window :: "tariff_slot list \<Rightarrow> nat list \<Rightarrow> nat \<Rightarrow> nat list option" where
  "find_cheapest_window ss available w =
     fold (\<lambda>i. better_window ss w (take w (drop i available))) [0..<Suc (length available) - w] None"

text \<open>One round: the cheapest window, or the cheapest single slots where none is consecutive.\<close>

definition take_window :: "tariff_slot list \<Rightarrow> nat \<Rightarrow> nat list \<times> nat list \<Rightarrow> nat list \<times> nat list" where
  "take_window ss w st =
     (let (selected, available) = st;
          window = (case find_cheapest_window ss available w of
              Some win \<Rightarrow> win
            | None \<Rightarrow> take w (sort_key (\<lambda>i. t_price (ss ! i)) available))
      in (selected @ window, fold remove1 window available))"

definition block_size :: "rat \<Rightarrow> nat" where
  "block_size slot_duration = nat (max 1 (py_round (1 / slot_duration)))"

definition remainder_slots :: "rat \<Rightarrow> rat \<Rightarrow> nat" where
  "remainder_slots hours slot_duration = nat (py_round ((hours - of_int (py_trunc hours)) / slot_duration))"

definition selected_blocks :: "tariff_slot list \<Rightarrow> rat \<Rightarrow> rat \<Rightarrow> nat list" where
  "selected_blocks ss hours slot_duration =
     (let (selected, available) = (take_window ss (block_size slot_duration) ^^ nat (py_trunc hours)) ([], [0..<length ss]);
          left_over = remainder_slots hours slot_duration
      in if 0 < left_over \<and> available \<noteq> [] then fst (take_window ss left_over (selected, available)) else selected)"

text \<open>\<open>None\<close> is the \<open>ZeroDivisionError\<close> of a slot that lasts no time.\<close>

definition select_cheapest_blocks :: "tariff_slot list \<Rightarrow> rat \<Rightarrow> rat \<Rightarrow> tariff_slot list option" where
  "select_cheapest_blocks slots hours slot_duration =
     (if slot_duration = 0 then None
      else (let ss = sort_key t_start slots in
        Some (sort_key t_start (map (\<lambda>i. ss ! i) (selected_blocks ss hours slot_duration)))))"

section \<open>Cheapest hours\<close>

text \<open>The loop that takes slots until their time reaches the hours needed.\<close>

fun take_until :: "(tariff_slot \<Rightarrow> rat) \<Rightarrow> rat \<Rightarrow> rat \<Rightarrow> tariff_slot list \<Rightarrow> tariff_slot list" where
  "take_until dur hours acc [] = []"
| "take_until dur hours acc (s # ss) =
     (if hours \<le> acc + dur s then [s] else s # take_until dur hours (acc + dur s) ss)"

definition slot_hours :: "tariff_slot \<Rightarrow> rat" where
  "slot_hours s = (t_end s - t_start s) / 3600"

definition under_threshold :: "rat option \<Rightarrow> tariff_slot \<Rightarrow> bool" where
  "under_threshold threshold s = (case threshold of None \<Rightarrow> True | Some p \<Rightarrow> t_price s \<le> p)"

definition usable_slots :: "time \<Rightarrow> rat option \<Rightarrow> tariff_slot list \<Rightarrow> tariff_slot list" where
  "usable_slots now threshold slots = filter (under_threshold threshold) (filter (\<lambda>s. now < t_end s) slots)"

definition by_price :: "tariff_slot list \<Rightarrow> tariff_slot list" where
  "by_price slots = sort_key (\<lambda>s. (t_price s, t_start s)) slots"

definition select_cheapest_hours :: "tariff_slot list \<Rightarrow> rat \<Rightarrow> rat option \<Rightarrow> time \<Rightarrow> tariff_slot list option" where
  "select_cheapest_hours slots hours threshold now =
     (case usable_slots now threshold slots of
        [] \<Rightarrow> Some []
      | first # future \<Rightarrow>
         (if slot_hours first < 9/10 then select_cheapest_blocks (first # future) hours (slot_hours first)
          else Some (sort_key t_start (take_until slot_hours hours 0 (by_price (first # future))))))"

definition remaining_hours :: "time \<Rightarrow> tariff_slot \<Rightarrow> rat" where
  "remaining_hours now s = (t_end s - max (t_start s) now) / 3600"

definition select_cheapest_slots_by_duration :: "tariff_slot list \<Rightarrow> rat \<Rightarrow> rat option \<Rightarrow> time \<Rightarrow> tariff_slot list" where
  "select_cheapest_slots_by_duration slots hours threshold now =
     (if hours \<le> 0 then []
      else sort_key t_start (take_until (remaining_hours now) hours 0
        (filter (\<lambda>s. 0 < remaining_hours now s) (by_price (usable_slots now threshold slots)))))"

section \<open>Ceilings\<close>

fun dearest_hours :: "rat \<Rightarrow> rat \<Rightarrow> rat \<Rightarrow> tariff_slot list \<Rightarrow> rat \<times> rat" where
  "dearest_hours hours value acc [] = (value, acc)"
| "dearest_hours hours value acc (s # ss) =
     (let duration = slot_hours s in
      if duration \<le> 0 then dearest_hours hours value acc ss
      else if hours \<le> acc + duration then (value + t_price s * duration, acc + duration)
      else dearest_hours hours (value + t_price s * duration) (acc + duration) ss)"

definition expected_discharge_price :: "tariff_slot list \<Rightarrow> rat \<Rightarrow> rat option" where
  "expected_discharge_price slots hours =
     (if slots = [] \<or> hours \<le> 0 then None
      else (let (value, acc) = dearest_hours hours 0 0 (sort_key (\<lambda>s. - t_price s) slots)
            in if acc \<le> 0 then None else Some (value / acc)))"

definition arbitrage_ceiling :: "tariff_slot list \<Rightarrow> rat \<Rightarrow> rat option \<Rightarrow> rat \<Rightarrow> rat option" where
  "arbitrage_ceiling slots hours min_margin efficiency =
     (case min_margin of
        None \<Rightarrow> None
      | Some margin \<Rightarrow> (if margin \<le> 0 then None
          else map_option (\<lambda>expected. expected * efficiency - margin) (expected_discharge_price slots hours)))"

definition effective_charge_ceiling :: "tariff_slot list \<Rightarrow> rat \<Rightarrow> rat option \<Rightarrow> rat option \<Rightarrow> rat \<Rightarrow> time
    \<Rightarrow> rat option \<times> rat option" where
  "effective_charge_ceiling slots hours threshold min_margin efficiency now =
     (case arbitrage_ceiling (filter (\<lambda>s. now < t_end s) slots) hours min_margin efficiency of
        None \<Rightarrow> (threshold, None)
      | Some margin_ceiling \<Rightarrow>
         (case threshold of
            None \<Rightarrow> (Some margin_ceiling, Some margin_ceiling)
          | Some p \<Rightarrow> if margin_ceiling < p then (Some margin_ceiling, Some margin_ceiling)
                      else (Some p, Some margin_ceiling)))"

section \<open>Ends of slots\<close>

text \<open>
  The tail of \<open>parse_entsoe_prices\<close> and \<open>parse_tibber_prices\<close>: a slot ends where the next
  one starts, the last one lasts as long as the one before it, a single one the fallback.
\<close>

fun infer_ends :: "time \<Rightarrow> time option \<Rightarrow> (time \<times> rat) list \<Rightarrow> tariff_slot list" where
  "infer_ends fallback prev [] = []"
| "infer_ends fallback prev [(t, p)] =
     [\<lparr>t_start = t, t_end = (case prev of Some u \<Rightarrow> t + (t - u) | None \<Rightarrow> t + fallback), t_price = p\<rparr>]"
| "infer_ends fallback prev ((t, p) # (t', p') # raw) =
     \<lparr>t_start = t, t_end = t', t_price = p\<rparr> # infer_ends fallback (Some t) ((t', p') # raw)"

definition slots_of_starts :: "time \<Rightarrow> (time \<times> rat) list \<Rightarrow> tariff_slot list" where
  "slots_of_starts fallback raw = infer_ends fallback None (sort_key fst raw)"

section \<open>The cheapest window\<close>

definition cheapest_among :: "tariff_slot list \<Rightarrow> nat \<Rightarrow> (nat \<Rightarrow> nat list) \<Rightarrow> nat list \<Rightarrow> nat list option \<Rightarrow> bool" where
  "cheapest_among ss w c js r = (case r of
      None \<Rightarrow> \<forall>i \<in> set js. \<not> consecutive ss (c i)
    | Some b \<Rightarrow> (\<exists>i \<in> set js. b = c i) \<and> consecutive ss b
        \<and> (\<forall>i \<in> set js. consecutive ss (c i) \<longrightarrow> window_avg ss w b \<le> window_avg ss w (c i)))"

lemma cheapest_among_step:
  "cheapest_among ss w c js r \<Longrightarrow> cheapest_among ss w c (js @ [j]) (better_window ss w (c j) r)"
  by (cases r) (force simp: cheapest_among_def better_window_def intro: order_trans)+

lemma fold_better_window:
  "cheapest_among ss w c js (fold (\<lambda>i. better_window ss w (c i)) js None)"
  by (induction js rule: rev_induct) (simp_all add: cheapest_among_step, simp add: cheapest_among_def)

text \<open>No consecutive window of the available slots is cheaper than the one found.\<close>

lemma find_cheapest_window_spec:
  "(case find_cheapest_window ss available w of
      None \<Rightarrow> \<forall>i. i + w \<le> length available \<longrightarrow> \<not> consecutive ss (take w (drop i available))
    | Some b \<Rightarrow> (\<exists>i. i + w \<le> length available \<and> b = take w (drop i available)) \<and> consecutive ss b
        \<and> (\<forall>i. i + w \<le> length available \<longrightarrow> consecutive ss (take w (drop i available))
            \<longrightarrow> window_avg ss w b \<le> window_avg ss w (take w (drop i available))))"
proof -
  have idx: "i \<in> set [0..<Suc (length available) - w] \<longleftrightarrow> i + w \<le> length available" for i by auto
  show ?thesis
    using fold_better_window [where ss = ss and w = w and c = "\<lambda>i. take w (drop i available)"
      and js = "[0..<Suc (length available) - w]"]
    unfolding find_cheapest_window_def cheapest_among_def Bex_def Ball_def idx by (auto split: option.splits)
qed

lemma mset_fold_remove1: "mset (fold remove1 xs ys) = mset ys - mset xs"
  by (induction xs arbitrary: ys) (auto simp: diff_diff_add_mset)

lemma mset_take_subset: "mset (take k xs) \<subseteq># mset xs"
  by (metis append_take_drop_id mset_append mset_subset_eq_add_left)

lemma mset_window_subset: "mset (take k (drop i xs)) \<subseteq># mset xs"
  by (metis append_take_drop_id mset_append mset_subset_eq_add_right mset_take_subset subset_mset.order_trans)

lemma take_window_counts:
  assumes "take_window ss w (selected, available) = (selected', available')"
  shows "mset selected' + mset available' = mset selected + mset available"
    and "length selected' = length selected + min w (length available)"
proof -
  define win where "win = (case find_cheapest_window ss available w of
      Some win \<Rightarrow> win | None \<Rightarrow> take w (sort_key (\<lambda>i. t_price (ss ! i)) available))"
  have "mset (take w (sort_key f available)) \<subseteq># mset available" for f :: "nat \<Rightarrow> rat"
    using mset_take_subset [of w "sort_key f available"] by simp
  then have sub: "mset win \<subseteq># mset available" and len: "length win = min w (length available)"
    using find_cheapest_window_spec [where ss = ss and available = available and w = w] mset_window_subset [of w _ available]
    by (auto simp: win_def split: option.splits)
  have eq: "selected' = selected @ win" "available' = fold remove1 win available"
    using assms by (auto simp: take_window_def win_def Let_def)
  show "mset selected' + mset available' = mset selected + mset available"
    using subset_mset.add_diff_inverse [OF sub] by (simp add: eq mset_fold_remove1 ac_simps)
  show "length selected' = length selected + min w (length available)" using len by (simp add: eq)
qed

lemma take_window_rounds:
  "(take_window ss w ^^ k) ([], [0..<n]) = (selected, available) \<Longrightarrow>
     mset selected + mset available = mset [0..<n] \<and> length selected = min n (k * w)"
proof (induction k arbitrary: selected available)
  case (Suc k)
  obtain s a where sa: "(take_window ss w ^^ k) ([], [0..<n]) = (s, a)" by fastforce
  have "take_window ss w (s, a) = (selected, available)" using Suc.prems sa by simp
  note c = take_window_counts [OF this] and IH = Suc.IH [OF sa]
  have "length s + length a = n" using IH by (metis mset_append size_mset length_append length_upt minus_nat.diff_0)
  then show ?case using c IH by (auto simp: min_def)
qed auto

lemma selected_blocks_counts:
  "mset (selected_blocks ss hours d) \<subseteq># mset [0..<length ss]
   \<and> length (selected_blocks ss hours d) = min (length ss) (block_size d * nat (py_trunc hours) + remainder_slots hours d)"
proof -
  let ?r = "remainder_slots hours d"
  obtain s a where sa: "(take_window ss (block_size d) ^^ nat (py_trunc hours)) ([], [0..<length ss]) = (s, a)" by fastforce
  note rounds = take_window_rounds [OF sa]
  then have sum: "length s + length a = length ss" by (metis mset_append size_mset length_append length_upt minus_nat.diff_0)
  obtain s' a' where sa': "take_window ss ?r (s, a) = (s', a')" by fastforce
  note last_round = take_window_counts [OF sa']
  have eq: "selected_blocks ss hours d = (if 0 < ?r \<and> a \<noteq> [] then s' else s)"
    by (simp add: selected_blocks_def Let_def sa sa')
  have sub: "mset s \<subseteq># mset [0..<length ss]" using rounds by (metis mset_subset_eq_add_left)
  have sub': "mset s' \<subseteq># mset [0..<length ss]" using rounds last_round(1) by (metis mset_subset_eq_add_left)
  show ?thesis using sub sub' sum rounds last_round(2) unfolding eq by (auto simp: min_def mult.commute)
qed

lemma select_cheapest_blocks_counts:
  assumes "d \<noteq> 0"
  shows "\<exists>sel. select_cheapest_blocks slots hours d = Some sel \<and> mset sel \<subseteq># mset slots
    \<and> length sel = min (length slots) (block_size d * nat (py_trunc hours) + remainder_slots hours d)
    \<and> sorted (map t_start sel)"
proof -
  let ?ss = "sort_key t_start slots" and ?b = "selected_blocks (sort_key t_start slots) hours d"
  have "mset (map ((!) ?ss) ?b) \<subseteq># mset (map ((!) ?ss) [0..<length ?ss])"
    using selected_blocks_counts [of ?ss hours d] by (simp add: image_mset_subseteq_mono)
  then have "mset (map ((!) ?ss) ?b) \<subseteq># mset slots" unfolding map_nth by simp
  then show ?thesis using assms selected_blocks_counts [of ?ss hours d]
    by (auto simp: select_cheapest_blocks_def Let_def)
qed

section \<open>Time taken by the blocks\<close>

lemma py_trunc_halves: "py_trunc (of_nat m / 2 :: rat) = int (m div 2)"
proof -
  have "\<lfloor>(of_nat m / 2 :: rat)\<rfloor> = int m div 2" by (metis floor_divide_of_nat_eq of_nat_numeral zdiv_int)
  then show ?thesis by (simp add: py_trunc_def zdiv_int)
qed

lemma blocks_take_exactly:
  assumes "0 < k" and d: "d = 1 / of_nat (2 * k)" and h: "hours = of_nat m / 2"
  shows "block_size d * nat (py_trunc hours) + remainder_slots hours d = m * k"
proof -
  have bs: "block_size d = 2 * k"
    using assms(1) py_round_of_int [of "2 * int k"] by (simp add: block_size_def d)
  have "(hours - of_int (py_trunc hours)) / d = of_int (int (m mod 2) * int k)"
  proof -
    have "(of_nat m :: rat) = 2 * of_nat (m div 2) + of_nat (m mod 2)"
      by (metis mult_div_mod_eq of_nat_add of_nat_mult of_nat_numeral)
    then have "hours - of_int (py_trunc hours) = of_nat (m mod 2) / 2"
      unfolding h py_trunc_halves of_int_of_nat_eq by linarith
    then show ?thesis using assms(1) by (simp add: d)
  qed
  then have "remainder_slots hours d = (m mod 2) * k"
    by (simp only: remainder_slots_def py_round_of_int) (simp add: nat_mult_distrib)
  moreover have "2 * k * (m div 2) + (m mod 2) * k = m * k"
    by (metis add_mult_distrib mult.assoc mult.commute mult_div_mod_eq)
  ultimately show ?thesis by (simp add: bs h py_trunc_halves)
qed

lemma charging_hours_halves:
  assumes "0 \<le> deficit"
  shows "\<exists>m. calculate_charging_hours_needed deficit contracted capacity = of_nat m / 2"
proof -
  let ?kw = "min contracted capacity / 1000"
  show ?thesis
  proof (cases "?kw \<le> 0")
    case True
    then show ?thesis by (intro exI [of _ 2]) (simp add: calculate_charging_hours_needed_def)
  next
    case False
    then have "0 \<le> deficit / (?kw * CHARGE_EFFICIENCY) * 2"
      using assms by (intro mult_nonneg_nonneg divide_nonneg_nonneg) (auto simp: CHARGE_EFFICIENCY_def)
    then have "of_int \<lceil>deficit / (?kw * CHARGE_EFFICIENCY) * 2\<rceil> = (of_nat (nat \<lceil>deficit / (?kw * CHARGE_EFFICIENCY) * 2\<rceil>) :: rat)"
      by (metis ceiling_mono ceiling_zero of_nat_nat)
    then show ?thesis using False unfolding calculate_charging_hours_needed_def Let_def by (metis (no_types))
  qed
qed

text \<open>
  C4. For a tariff with an even number of slots an hour, the blocks take exactly the
  charging time that the deficit needs, or every slot when there are fewer: each slot at
  most once, and no price, gap or fallback changes that.
\<close>

theorem blocks_take_the_time_needed:
  assumes "0 < k" and "d = 1 / of_nat (2 * k)" and "0 \<le> deficit"
    and "hours = calculate_charging_hours_needed deficit contracted capacity"
  shows "\<exists>sel. select_cheapest_blocks slots hours d = Some sel \<and> mset sel \<subseteq># mset slots
    \<and> of_nat (length sel) * d = min hours (of_nat (length slots) * d)"
proof -
  obtain m where m: "hours = of_nat m / 2" unfolding assms(4) using charging_hours_halves [OF assms(3)] by blast
  have d0: "d \<noteq> 0" "0 \<le> d" using assms(1,2) by auto
  have mk: "of_nat (m * k) * d = hours" using assms(1) by (simp add: assms(2) m)
  obtain sel where sel: "select_cheapest_blocks slots hours d = Some sel" "mset sel \<subseteq># mset slots"
    and len: "length sel = min (length slots) (m * k)"
    using select_cheapest_blocks_counts [OF d0(1)] blocks_take_exactly [OF assms(1,2) m] by metis
  have "of_nat (length sel) * d = min hours (of_nat (length slots) * d)"
    unfolding len of_nat_min min_mult_distrib_right mk [symmetric] using d0(2)
    by (simp add: min_def mult_right_mono)
  then show ?thesis using sel by blast
qed

lemma blocks_take_the_time_needed_witness:
  "\<exists>sel. select_cheapest_blocks
      (map (\<lambda>i. \<lparr>t_start = of_nat i * 900, t_end = of_nat (i + 1) * 900, t_price = of_nat (i * (8 - i))\<rparr>) [0..<8])
      (calculate_charging_hours_needed 2 4600 2500) (1 / 4) = Some sel \<and> of_nat (length sel) / 4 = (1 :: rat)"
proof -
  let ?slots = "map (\<lambda>i. \<lparr>t_start = of_nat i * 900, t_end = of_nat (i + 1) * 900, t_price = of_nat (i * (8 - i))\<rparr>) [0..<8]"
  have "calculate_charging_hours_needed 2 4600 2500 = 1" by code_simp
  moreover have "(1 / 4 :: rat) = 1 / of_nat (2 * 2)" by simp
  ultimately show ?thesis
    using blocks_take_the_time_needed [where k = 2 and d = "1 / 4" and deficit = 2 and contracted = 4600 and capacity = 2500
      and slots = ?slots] by auto
qed

section \<open>Cheapest plans\<close>

text \<open>A plan charges for some hours of each slot; it is paid at the slot's price.\<close>

definition cost :: "tariff_slot list \<Rightarrow> rat list \<Rightarrow> rat" where
  "cost ss xs = sum_list (map2 (\<lambda>s x. t_price s * x) ss xs)"

definition plan_within :: "(tariff_slot \<Rightarrow> rat) \<Rightarrow> tariff_slot list \<Rightarrow> rat list \<Rightarrow> bool" where
  "plan_within dur ss xs = list_all2 (\<lambda>s x. 0 \<le> x \<and> x \<le> dur s) ss xs"

text \<open>The plan that fills the slots in order, as much as each one holds.\<close>

fun fill :: "(tariff_slot \<Rightarrow> rat) \<Rightarrow> rat \<Rightarrow> tariff_slot list \<Rightarrow> rat list" where
  "fill dur h [] = []"
| "fill dur h (s # ss) = min h (dur s) # fill dur (h - min h (dur s)) ss"

lemma plan_total: "plan_within dur ss xs \<Longrightarrow> 0 \<le> sum_list xs \<and> sum_list xs \<le> sum_list (map dur ss)"
  unfolding plan_within_def by (induction rule: list_all2_induct) auto

lemma fill_plan:
  "0 \<le> h \<Longrightarrow> h \<le> sum_list (map dur ss) \<Longrightarrow> (\<And>s. s \<in> set ss \<Longrightarrow> 0 \<le> dur s) \<Longrightarrow>
     plan_within dur ss (fill dur h ss) \<and> sum_list (fill dur h ss) = h"
proof (induction ss arbitrary: h)
  case (Cons s ss)
  have "0 \<le> sum_list (map dur ss)" by (rule sum_list_nonneg_map) (simp add: Cons.prems(3))
  then have "h - min h (dur s) \<le> sum_list (map dur ss)" using Cons.prems(2) by (auto simp: min_def)
  with Cons show ?case by (auto simp: plan_within_def)
qed (simp add: plan_within_def)

lemma fill_zero: "(\<And>s. s \<in> set ss \<Longrightarrow> 0 \<le> dur s) \<Longrightarrow> cost ss (fill dur 0 ss) = 0"
  by (induction ss) (simp_all add: cost_def)

text \<open>More hours cost at least the price of the cheapest slot for each one.\<close>

lemma fill_marginal:
  "0 \<le> h \<Longrightarrow> h \<le> h' \<Longrightarrow> h' \<le> sum_list (map dur ss) \<Longrightarrow> (\<And>s. s \<in> set ss \<Longrightarrow> p \<le> t_price s) \<Longrightarrow>
   (\<And>s. s \<in> set ss \<Longrightarrow> 0 \<le> dur s) \<Longrightarrow> cost ss (fill dur h ss) + p * (h' - h) \<le> cost ss (fill dur h' ss)"
proof (induction ss arbitrary: h h')
  case Nil
  then have "h' = h" by simp
  then show ?case by (simp add: cost_def)
next
  case (Cons s ss)
  let ?r = "min h (dur s)" and ?r' = "min h' (dur s)"
  have le: "?r \<le> ?r'" "0 \<le> h - ?r" "h - ?r \<le> h' - ?r'" using Cons.prems(2) by (auto simp: min_def)
  have "0 \<le> sum_list (map dur ss)" by (rule sum_list_nonneg_map) (simp add: Cons.prems(5))
  then have "h' - ?r' \<le> sum_list (map dur ss)" using Cons.prems(3) by (auto simp: min_def)
  from Cons.IH [OF le(2) le(3) this] Cons.prems(4,5)
  have tl: "cost ss (fill dur (h - ?r) ss) + p * ((h' - ?r') - (h - ?r)) \<le> cost ss (fill dur (h' - ?r') ss)" by simp
  have "p * (?r' - ?r) \<le> t_price s * (?r' - ?r)" using le(1) Cons.prems(4) by (intro mult_right_mono) auto
  with tl show ?case by (simp add: cost_def algebra_simps)
qed

lemma fill_is_cheapest:
  "sorted (map t_price ss) \<Longrightarrow> plan_within dur ss xs \<Longrightarrow> (\<And>s. s \<in> set ss \<Longrightarrow> 0 \<le> dur s) \<Longrightarrow>
     cost ss (fill dur (sum_list xs) ss) \<le> cost ss xs"
proof (induction ss arbitrary: xs)
  case (Cons s ss)
  obtain x xs' where xs: "xs = x # xs'" "0 \<le> x" "x \<le> dur s" and tl: "plan_within dur ss xs'"
    using Cons.prems(2) by (auto simp: plan_within_def list_all2_Cons1)
  note tot = plan_total [OF tl]
  let ?h = "sum_list xs'"
  let ?r = "min (x + ?h) (dur s)"
  have r: "x \<le> ?r" "0 \<le> x + ?h - ?r" "x + ?h - ?r \<le> ?h" using xs tot by auto
  have "cost ss (fill dur (x + ?h - ?r) ss) + t_price s * (?h - (x + ?h - ?r)) \<le> cost ss (fill dur ?h ss)"
    using Cons.prems(1,3) tot by (intro fill_marginal r) auto
  also have "\<dots> \<le> cost ss xs'" using Cons.prems tl by (intro Cons.IH) auto
  finally show ?case unfolding xs(1) by (simp add: cost_def algebra_simps)
qed (simp add: cost_def plan_within_def)

text \<open>The slots taken are a prefix that holds the hours, or all of them.\<close>

lemma take_until_prefix:
  "\<exists>rest. ss = take_until dur hours acc ss @ rest
    \<and> (rest \<noteq> [] \<longrightarrow> hours \<le> acc + sum_list (map dur (take_until dur hours acc ss)))"
proof (induction ss arbitrary: acc)
  case (Cons s ss)
  show ?case
  proof (cases "hours \<le> acc + dur s")
    case False
    from Cons.IH [of "acc + dur s"] obtain rest where "ss = take_until dur hours (acc + dur s) ss @ rest"
      "rest \<noteq> [] \<longrightarrow> hours \<le> acc + dur s + sum_list (map dur (take_until dur hours (acc + dur s) ss))" by blast
    with False show ?thesis by (intro exI [of _ rest]) (simp add: add.assoc)
  qed simp
qed simp

lemma fill_append:
  "h \<le> sum_list (map dur xs) \<Longrightarrow> 0 \<le> h \<Longrightarrow> (\<And>s. s \<in> set (xs @ ys) \<Longrightarrow> 0 \<le> dur s) \<Longrightarrow>
     cost (xs @ ys) (fill dur h (xs @ ys)) = cost xs (fill dur h xs)"
proof (induction xs arbitrary: h)
  case Nil
  then show ?case using fill_zero [of ys dur] by (simp add: cost_def)
next
  case (Cons s xs)
  have "0 \<le> sum_list (map dur xs)" by (rule sum_list_nonneg_map) (simp add: Cons.prems(3))
  then have "h - min h (dur s) \<le> sum_list (map dur xs)" using Cons.prems(1) by (auto simp: min_def)
  with Cons show ?case by (simp add: cost_def)
qed

text \<open>A plan follows its slots when they are sorted.\<close>

lemma plan_sorted:
  assumes "plan_within dur ss xs"
  shows "\<exists>ys. plan_within dur (sort_key f ss) ys \<and> sum_list ys = sum_list xs \<and> cost (sort_key f ss) ys = cost ss xs"
proof -
  have len: "length ss = length xs" using assms by (simp add: plan_within_def list_all2_lengthD)
  let ?p = "sort_key (\<lambda>(s, x). f s) (zip ss xs)"
  have fst: "map fst ?p = sort_key f ss" using map_sort_key [of fst f "zip ss xs"] len by (simp add: case_prod_beta')
  have zip: "zip (sort_key f ss) (map snd ?p) = ?p" unfolding fst [symmetric] by (simp add: zip_map_fst_snd)
  have "plan_within dur (sort_key f ss) (map snd ?p)"
    using assms len unfolding plan_within_def list_all2_iff zip by (auto simp flip: fst)
  moreover have "sum_list (map snd ?p) = sum_list xs"
    using len by (simp add: sum_list_sort_key)
  moreover have "cost (sort_key f ss) (map snd ?p) = cost ss xs"
    unfolding cost_def zip by (simp add: sum_list_sort_key)
  ultimately show ?thesis by blast
qed

lemma take_until_cheapest:
  assumes "sorted (map t_price ss)" and "\<And>s. s \<in> set ss \<Longrightarrow> 0 \<le> dur s"
    and "plan_within dur ss xs" and "sum_list xs \<le> hours"
  shows "\<exists>ys. plan_within dur (take_until dur hours 0 ss) ys \<and> sum_list ys = sum_list xs
    \<and> cost (take_until dur hours 0 ss) ys \<le> cost ss xs"
proof -
  let ?t = "take_until dur hours 0 ss" and ?h = "sum_list xs"
  obtain rest where rest: "ss = ?t @ rest" "rest \<noteq> [] \<longrightarrow> hours \<le> sum_list (map dur ?t)"
    using take_until_prefix [of ss dur hours 0] by auto
  have h: "0 \<le> ?h" "?h \<le> sum_list (map dur ss)" using plan_total [OF assms(3)] by auto
  have room: "?h \<le> sum_list (map dur ?t)" using rest assms(4) h(2) by (cases "rest = []") auto
  have pos: "0 \<le> dur s" if "s \<in> set ?t" for s using assms(2) rest(1) that by (metis UnCI set_append)
  have "cost ss (fill dur ?h ss) = cost ?t (fill dur ?h ?t)"
    using fill_append [OF room h(1), of rest] assms(2) rest(1) by metis
  then show ?thesis
    using fill_plan [OF h(1) room pos] fill_is_cheapest [OF assms(1,3,2)] by (intro exI [of _ "fill dur ?h ?t"]) auto
qed

lemma by_price_sorted: "sorted (map t_price (filter P (by_price ss)))"
proof -
  have "sorted (map (\<lambda>s. (t_price s, t_start s)) (filter P (by_price ss)))"
    by (simp add: by_price_def sorted_filter)
  then show ?thesis by (auto simp: sorted_map less_eq_prod_def elim: sorted_wrt_mono_rel [rotated])
qed

text \<open>The selection can carry any plan for the hours needed, at no higher cost.\<close>

lemma selection_cheapest:
  assumes "plan_within dur (filter P ss) xs" and "sum_list xs \<le> hours"
    and "\<And>s. s \<in> set ss \<Longrightarrow> P s \<Longrightarrow> 0 \<le> dur s"
  shows "\<exists>ys. plan_within dur (sort_key t_start (take_until dur hours 0 (filter P (by_price ss)))) ys
    \<and> sum_list ys = sum_list xs
    \<and> cost (sort_key t_start (take_until dur hours 0 (filter P (by_price ss)))) ys \<le> cost (filter P ss) xs"
proof -
  let ?f = "\<lambda>s. (t_price s, t_start s)"
  have perm: "filter P (by_price ss) = sort_key ?f (filter P ss)" by (simp add: by_price_def filter_sort)
  obtain xs' where xs': "plan_within dur (filter P (by_price ss)) xs'" "sum_list xs' = sum_list xs"
    "cost (filter P (by_price ss)) xs' = cost (filter P ss) xs"
    using plan_sorted [OF assms(1), of ?f] unfolding perm by blast
  have pos: "0 \<le> dur s" if "s \<in> set (filter P (by_price ss))" for s using that assms(3) by (simp add: by_price_def)
  obtain ys where "plan_within dur (take_until dur hours 0 (filter P (by_price ss))) ys" "sum_list ys = sum_list xs"
    "cost (take_until dur hours 0 (filter P (by_price ss))) ys \<le> cost (filter P ss) xs"
    using take_until_cheapest [where hours = hours and xs = xs', OF by_price_sorted pos xs'(1)] assms(2) xs' by auto
  with plan_sorted [of dur _ ys t_start] show ?thesis by metis
qed

lemma hourly_selection_cheapest:
  assumes "plan_within slot_hours (usable_slots now threshold slots) xs" and "sum_list xs \<le> hours"
    and "usable_slots now threshold slots = first # future" and "9/10 \<le> slot_hours first"
    and "\<And>s. s \<in> set slots \<Longrightarrow> 0 \<le> slot_hours s"
  shows "\<exists>sel ys. select_cheapest_hours slots hours threshold now = Some sel \<and> plan_within slot_hours sel ys
    \<and> sum_list ys = sum_list xs \<and> cost sel ys \<le> cost (usable_slots now threshold slots) xs"
proof -
  have "s \<in> set (first # future) \<Longrightarrow> s \<in> set slots" for s
    unfolding assms(3) [symmetric] by (auto simp: usable_slots_def)
  then show ?thesis
    using selection_cheapest [where P = "\<lambda>_. True" and ss = "first # future" and dur = slot_hours and hours = hours and xs = xs]
      assms by (simp add: select_cheapest_hours_def)
qed

lemma take_until_minimal:
  "acc < hours \<Longrightarrow> ss \<noteq> [] \<Longrightarrow> take_until dur hours acc ss \<noteq> []
     \<and> acc + sum_list (map dur (butlast (take_until dur hours acc ss))) < hours"
proof (induction ss arbitrary: acc)
  case (Cons s ss)
  show ?case
  proof (cases "hours \<le> acc + dur s \<or> ss = []")
    case True
    then show ?thesis using Cons.prems by auto
  next
    case False
    then show ?thesis using Cons.IH [of "acc + dur s"] by (auto simp: add.assoc)
  qed
qed simp

lemma sum_butlast: "xs \<noteq> [] \<Longrightarrow> sum_list (map f (butlast xs)) = sum_list (map f xs) - (f (List.last xs) :: rat)"
  by (induction xs) auto

text \<open>A prefix of the slots in order of price is a choice of the cheapest, with no slot too many.\<close>

lemma cheapest_prefix:
  assumes "sorted (map t_price ss)" and "0 < hours" and "t = take_until dur hours 0 ss"
  shows "mset t \<subseteq># mset ss \<and> (\<forall>s \<in> set t. \<forall>u \<in># mset ss - mset t. t_price s \<le> t_price u)
    \<and> min hours (sum_list (map dur ss)) \<le> sum_list (map dur t)
    \<and> (ss \<noteq> [] \<longrightarrow> (\<exists>l \<in> set t. (\<forall>s \<in> set t. t_price s \<le> t_price l) \<and> sum_list (map dur t) - dur l < hours))"
proof -
  obtain rest where rest: "ss = t @ rest" "rest \<noteq> [] \<longrightarrow> hours \<le> sum_list (map dur t)"
    using take_until_prefix [of ss dur hours 0] assms(3) by auto
  have split: "sorted (map t_price t)" "\<forall>s \<in> set t. \<forall>u \<in> set rest. t_price s \<le> t_price u"
    using assms(1) unfolding rest(1) by (auto simp: sorted_append)
  have dear: "\<exists>l \<in> set t. (\<forall>s \<in> set t. t_price s \<le> t_price l) \<and> sum_list (map dur t) - dur l < hours" if "ss \<noteq> []"
  proof -
    have t: "t \<noteq> []" "sum_list (map dur (butlast t)) < hours"
      using take_until_minimal [of 0 hours ss dur] assms(2,3) that by auto
    have "t_price s \<le> t_price (List.last t)" if "s \<in> set t" for s
    proof -
      have "sorted (map t_price (butlast t @ [List.last t]))" using split(1) t(1) by simp
      moreover have "s \<in> set (butlast t @ [List.last t])" using that t(1) by simp
      ultimately show ?thesis by (auto simp: sorted_append)
    qed
    then show ?thesis using t sum_butlast [OF t(1), of dur] by (intro bexI [of _ "List.last t"]) auto
  qed
  show ?thesis using rest split(2) dear by (cases "rest = []") auto
qed

text \<open>
  C2. The intervals selected by duration are the cheapest and no more than needed: they are
  picks of the usable slots, none left out is cheaper than one taken, they last the hours
  needed (or all there is), and without their dearest one they would not. Whatever hours of
  the usable slots another plan charges in, up to the hours needed, the selected intervals can
  carry the same number of hours for no more money.
\<close>

theorem cheapest_by_duration:
  assumes "usable = filter (\<lambda>s. 0 < remaining_hours now s) (usable_slots now threshold slots)" and "0 < hours"
    and "sel = select_cheapest_slots_by_duration slots hours threshold now"
  shows "mset sel \<subseteq># mset usable \<and> (\<forall>s \<in> set sel. \<forall>u \<in># mset usable - mset sel. t_price s \<le> t_price u)
    \<and> min hours (sum_list (map (remaining_hours now) usable)) \<le> sum_list (map (remaining_hours now) sel)
    \<and> (usable \<noteq> [] \<longrightarrow> (\<exists>l \<in> set sel. (\<forall>s \<in> set sel. t_price s \<le> t_price l)
          \<and> sum_list (map (remaining_hours now) sel) - remaining_hours now l < hours))
    \<and> (\<forall>xs. plan_within (remaining_hours now) usable xs \<and> sum_list xs \<le> hours \<longrightarrow>
          (\<exists>ys. plan_within (remaining_hours now) sel ys \<and> sum_list ys = sum_list xs \<and> cost sel ys \<le> cost usable xs))"
proof -
  define ss where "ss = filter (\<lambda>s. 0 < remaining_hours now s) (by_price (usable_slots now threshold slots))"
  define t where "t = take_until (remaining_hours now) hours 0 ss"
  have sel: "sel = sort_key t_start t"
    using assms(2) by (simp add: assms(3) select_cheapest_slots_by_duration_def t_def ss_def)
  have m: "mset ss = mset usable" "set ss = set usable" "ss = [] \<longleftrightarrow> usable = []"
  proof -
    show 1: "mset ss = mset usable" unfolding ss_def assms(1) mset_filter by (simp add: by_price_def)
    then show "set ss = set usable" "ss = [] \<longleftrightarrow> usable = []" by (metis mset_eq_setD, metis mset_zero_iff_right)
  qed
  have "sorted (map t_price ss)" unfolding ss_def by (rule by_price_sorted)
  note p = cheapest_prefix [OF this assms(2) t_def]
  have same: "mset sel = mset t" "set sel = set t" by (simp_all add: sel)
  have sums: "sum_list (map (remaining_hours now) sel) = sum_list (map (remaining_hours now) t)"
    "sum_list (map (remaining_hours now) ss) = sum_list (map (remaining_hours now) usable)"
    unfolding sel sum_mset_sum_list [symmetric] mset_map using m(1) by simp_all
  have plans: "\<exists>ys. plan_within (remaining_hours now) sel ys \<and> sum_list ys = sum_list xs \<and> cost sel ys \<le> cost usable xs"
    if "plan_within (remaining_hours now) usable xs" "sum_list xs \<le> hours" for xs
    using selection_cheapest [of "remaining_hours now" "\<lambda>s. 0 < remaining_hours now s", OF that(1) [unfolded assms(1)] that(2)]
    unfolding sel t_def ss_def assms(1) by simp
  show ?thesis using p plans unfolding sums m same by blast
qed

lemma cheapest_by_duration_witness:
  "\<exists>ys. sum_list ys = 3 / 2 \<and> cost (select_cheapest_slots_by_duration
      [\<lparr>t_start = 0, t_end = 3600, t_price = -1\<rparr>, \<lparr>t_start = 3600, t_end = 7200, t_price = -3\<rparr>,
       \<lparr>t_start = 7200, t_end = 10800, t_price = 2\<rparr>] 2 (Some 0) 1800) ys \<le> (-7 / 2 :: rat)"
proof -
  let ?slots = "[\<lparr>t_start = 0, t_end = 3600, t_price = -1\<rparr>, \<lparr>t_start = 3600, t_end = 7200, t_price = -3\<rparr>,
       \<lparr>t_start = 7200, t_end = 10800, t_price = 2\<rparr>] :: tariff_slot list"
  have u: "filter (\<lambda>s. 0 < remaining_hours 1800 s) (usable_slots 1800 (Some 0) ?slots)
      = [\<lparr>t_start = 0, t_end = 3600, t_price = -1\<rparr>, \<lparr>t_start = 3600, t_end = 7200, t_price = -3\<rparr>]"
    by (simp add: usable_slots_def under_threshold_def remaining_hours_def)
  let ?xs = "[1 / 2, 1] :: rat list"
  let ?us = "[\<lparr>t_start = 0, t_end = 3600, t_price = -1\<rparr>, \<lparr>t_start = 3600, t_end = 7200, t_price = -3\<rparr>] :: tariff_slot list"
  have xs: "plan_within (remaining_hours 1800) ?us ?xs \<and> sum_list ?xs \<le> 2" "sum_list ?xs = 3 / 2" "cost ?us ?xs = -7 / 2"
    by (simp_all add: plan_within_def remaining_hours_def cost_def)
  note all = cheapest_by_duration [OF refl zero_less_numeral [of "num.Bit0 num.One"] refl,
      where slots = ?slots and now = 1800 and threshold = "Some 0", unfolded u]
  from all [THEN conjunct2, THEN conjunct2, THEN conjunct2, THEN conjunct2, THEN spec, THEN mp, OF xs(1)]
  show ?thesis unfolding xs(2,3) by blast
qed

section \<open>Ceilings\<close>

lemma dearest_hours_bound:
  assumes "dearest_hours hours v acc ss = (v', acc')" and "\<And>s. s \<in> set ss \<Longrightarrow> t_price s \<le> p"
    and "v \<le> p * acc"
  shows "v' \<le> p * acc'"
  using assms
proof (induction hours v acc ss rule: dearest_hours.induct)
  case (2 hours v acc s ss)
  show ?case
  proof (cases "slot_hours s \<le> 0")
    case True
    then show ?thesis using 2 by simp
  next
    case False
    then have "t_price s * slot_hours s \<le> p * slot_hours s" using 2(4) by (intro mult_right_mono) auto
    then have "v + t_price s * slot_hours s \<le> p * (acc + slot_hours s)" using 2(5) by (simp add: algebra_simps)
    then show ?thesis using False 2 by (auto simp: Let_def split: if_splits)
  qed
qed simp

lemma expected_price_reached:
  assumes "expected_discharge_price slots hours = Some e"
  shows "\<exists>u \<in> set slots. e \<le> t_price u"
proof -
  obtain v acc where d: "dearest_hours hours 0 0 (sort_key (\<lambda>s. - t_price s) slots) = (v, acc)" by fastforce
  have ne: "slots \<noteq> []" and acc: "0 < acc" and e: "e = v / acc"
    using assms d by (auto simp: expected_discharge_price_def split: if_splits)
  let ?p = "Max (t_price ` set slots)"
  have "v \<le> ?p * acc" by (rule dearest_hours_bound [OF d]) auto
  then have "e \<le> ?p" using acc by (simp add: e divide_le_eq)
  moreover have "?p \<in> t_price ` set slots" using ne by (intro Max_in) auto
  ultimately show ?thesis by auto
qed

text \<open>
  C8. A slot under the effective ceiling is under the configured one, and its price with
  the margin is covered by what a kWh charged then is worth, after the round trip, in
  some coming slot.
\<close>

theorem ceiling_clears_margin:
  assumes "effective_charge_ceiling slots hours threshold (Some margin) efficiency now = (c, Some a)"
    and "0 \<le> efficiency" and "under_threshold c s"
  shows "under_threshold threshold s
    \<and> (\<exists>u \<in> set slots. now < t_end u \<and> t_price s + margin \<le> t_price u * efficiency)"
proof -
  let ?future = "filter (\<lambda>s. now < t_end s) slots"
  have arb: "arbitrage_ceiling ?future hours (Some margin) efficiency = Some a"
    and c: "c = Some a \<and> (case threshold of None \<Rightarrow> True | Some p \<Rightarrow> a < p) \<or> (\<exists>p. threshold = Some p \<and> p \<le> a \<and> c = Some p)"
    using assms(1) by (auto simp: effective_charge_ceiling_def split: option.splits if_splits)
  obtain e where e: "expected_discharge_price ?future hours = Some e" "a = e * efficiency - margin"
    using arb by (auto simp: arbitrage_ceiling_def split: if_splits)
  obtain u where u: "u \<in> set ?future" "e \<le> t_price u" using expected_price_reached [OF e(1)] by blast
  have "e * efficiency \<le> t_price u * efficiency" using u(2) assms(2) by (rule mult_right_mono)
  moreover have "t_price s \<le> a" "under_threshold threshold s"
    using assms(3) c by (auto simp: under_threshold_def split: option.splits)
  ultimately show ?thesis using u(1) e(2) by force
qed

lemma ceiling_clears_margin_witness:
  "\<exists>u \<in> set [\<lparr>t_start = 0, t_end = 3600, t_price = 1 / 10\<rparr>, \<lparr>t_start = 3600, t_end = 7200, t_price = 3 / 10\<rparr>].
     1 / 10 + 1 / 20 \<le> t_price u * (4 / 5 :: rat)"
proof -
  let ?slots = "[\<lparr>t_start = 0, t_end = 3600, t_price = 1 / 10\<rparr>, \<lparr>t_start = 3600, t_end = 7200, t_price = 3 / 10\<rparr>] :: tariff_slot list"
  have "effective_charge_ceiling ?slots 1 (Some (1 / 5)) (Some (1 / 20)) (4 / 5) 0 = (Some (19 / 100), Some (19 / 100))"
    by code_simp
  from ceiling_clears_margin [OF this, of "\<lparr>t_start = 0, t_end = 3600, t_price = 1 / 10\<rparr>"] show ?thesis
    by (auto simp: under_threshold_def)
qed

section \<open>Ends of slots\<close>

text \<open>Slots with inferred ends follow each other without a gap, and none is empty.\<close>

lemma infer_ends_contiguous:
  "sorted_wrt (<) (map fst raw) \<Longrightarrow> 0 < fallback \<Longrightarrow> (\<And>u t p. prev = Some u \<Longrightarrow> hd raw = (t, p) \<Longrightarrow> u < t) \<Longrightarrow>
     map t_start (infer_ends fallback prev raw) = map fst raw
     \<and> map t_end (butlast (infer_ends fallback prev raw)) = map fst (tl raw)
     \<and> (\<forall>s \<in> set (infer_ends fallback prev raw). t_start s < t_end s)"
proof (induction fallback prev raw rule: infer_ends.induct)
  case (2 fallback prev t p)
  then show ?case by (cases prev) auto
next
  case (3 fallback prev t p t' p' raw)
  have "infer_ends fallback (Some t) ((t', p') # raw) \<noteq> []" by (cases raw) auto
  with 3 show ?case by auto
qed simp

lemma slots_of_starts_contiguous:
  assumes "distinct (map fst raw)" and "0 < fallback"
  shows "map t_start (slots_of_starts fallback raw) = sort (map fst raw)
    \<and> map t_end (butlast (slots_of_starts fallback raw)) = tl (sort (map fst raw))
    \<and> (\<forall>s \<in> set (slots_of_starts fallback raw). 0 < slot_hours s)"
proof -
  have eq: "map fst (sort_key fst raw) = sort (map fst raw)"
    using map_sort_key [of fst "\<lambda>x. x" raw] by simp
  have "sorted_wrt (<) (map fst (sort_key fst raw))"
    unfolding eq using assms(1) by (simp add: strict_sorted_iff)
  from infer_ends_contiguous [OF this assms(2), of None] show ?thesis
    by (simp add: slots_of_starts_def slot_hours_def map_tl eq)
qed

end
