(* ===== verification/Chronological.thy ===== *)
theory Chronological
  imports Price_Base
begin

text \<open>
  The chronological planner of grid charging, \<open>pricing/chronological.py\<close>: the simulated
  trajectory of the stored energy, the deadlines at which it would run out, and the
  allocation of the cheapest price slots to them. Energies and powers are finite numbers;
  a capacity or a headroom of \<open>None\<close> is the infinite default.
\<close>

definition ENERGY_TOLERANCE_KWH :: rat where "ENERGY_TOLERANCE_KWH = 5/100"
definition CHRONO_EPSILON :: rat where "CHRONO_EPSILON = 1 / 1000000000"

section \<open>Intervals\<close>

record energy_interval =
  iv_start :: time
  iv_end :: time
  consumption_kwh :: rat
  solar_kwh :: rat

fun check_energy :: "pyval \<Rightarrow> py_error + rat" where
  "check_energy v = and_then (py_float v) (\<lambda>f. case f of Fin q \<Rightarrow> if q < 0 then Inl ValueError else Inr q | _ \<Rightarrow> Inl ValueError)"

definition make_interval :: "time \<Rightarrow> time \<Rightarrow> pyval \<Rightarrow> pyval \<Rightarrow> py_error + energy_interval" where
  "make_interval start finish consumption solar =
     (if finish \<le> start then Inl ValueError
      else and_then (check_energy consumption) (\<lambda>c. and_then (check_energy solar) (\<lambda>s.
        Inr \<lparr>iv_start = start, iv_end = finish, consumption_kwh = c, solar_kwh = s\<rparr>)))"

definition normalize_energy_shape :: "pyval list \<Rightarrow> pyval \<Rightarrow> rat list" where
  "normalize_energy_shape values total_kwh =
     (let goal = positive total_kwh; safe = map positive values; shape_total = sum_list safe in
      if safe = [] then []
      else if shape_total \<le> CHRONO_EPSILON then replicate (length safe) 0
      else (let result = map (\<lambda>v. v * goal / shape_total) safe
            in butlast result @ [last result + (goal - sum_list result)]))"

fun sequence_errors :: "(py_error + 'a) list \<Rightarrow> py_error + 'a list" where
  "sequence_errors [] = Inr []"
| "sequence_errors (r # rs) = and_then r (\<lambda>x. and_then (sequence_errors rs) (\<lambda>xs. Inr (x # xs)))"

definition build_energy_intervals :: "(time \<times> time) list \<Rightarrow> pyval list \<Rightarrow> pyval list \<Rightarrow> pyval option \<Rightarrow> pyval option
    \<Rightarrow> py_error + energy_interval list" where
  "build_energy_intervals boundaries consumption_shape solar_shape consumption_total solar_total =
     (if \<not> (length boundaries = length consumption_shape \<and> length consumption_shape = length solar_shape) then Inl ValueError
      else (let shape = (\<lambda>vs goal. case goal of Some t \<Rightarrow> normalize_energy_shape vs t | None \<Rightarrow> map positive vs);
                consumption = shape consumption_shape consumption_total; solar = shape solar_shape solar_total
            in sequence_errors (map (\<lambda>((start, finish), c, s). make_interval start finish (VFloat (Fin c)) (VFloat (Fin s)))
                 (zip boundaries (zip consumption solar)))))"

section \<open>Simulation\<close>

record allocation =
  alloc_slot :: tariff_slot
  planned_kwh :: rat
  alloc_deadline :: "time option"

definition capped :: "rat option \<Rightarrow> rat \<Rightarrow> rat" where
  "capped cap x = (case cap of None \<Rightarrow> x | Some c \<Rightarrow> min c x)"

definition reaches :: "rat \<Rightarrow> rat option \<Rightarrow> bool" where
  "reaches x cap = (case cap of None \<Rightarrow> False | Some c \<Rightarrow> c \<le> x)"

record simulation =
  sim_energy :: rat
  sim_minimum :: rat
  sim_earliest :: "time option"
  sim_trajectory :: "(time \<times> rat) list"
  sim_pending :: "allocation list"

text \<open>An allocation counts once its price slot has ended.\<close>

definition sim_step :: "rat option \<Rightarrow> energy_interval \<Rightarrow> simulation \<Rightarrow> simulation" where
  "sim_step cap iv s =
     (let landed = filter (\<lambda>a. t_end (alloc_slot a) \<le> iv_end iv) (sim_pending s);
          energy = capped cap (sim_energy s + sum_list (map planned_kwh landed) + solar_kwh iv - consumption_kwh iv)
      in \<lparr>sim_energy = energy,
          sim_minimum = min (sim_minimum s) energy,
          sim_earliest = (if sim_earliest s = None \<and> energy < - CHRONO_EPSILON then Some (iv_end iv) else sim_earliest s),
          sim_trajectory = sim_trajectory s @ [(iv_end iv, energy)],
          sim_pending = filter (\<lambda>a. \<not> t_end (alloc_slot a) \<le> iv_end iv) (sim_pending s)\<rparr>)"

definition simulate_allocations :: "energy_interval list \<Rightarrow> rat \<Rightarrow> allocation list \<Rightarrow> rat option \<Rightarrow> simulation" where
  "simulate_allocations intervals usable_initial allocations usable_capacity =
     (let cap = map_option (max 0) usable_capacity; energy = capped cap (max 0 usable_initial)
      in fold (sim_step cap) (sort_key iv_start intervals)
           \<lparr>sim_energy = energy, sim_minimum = energy, sim_earliest = None, sim_trajectory = [], sim_pending = allocations\<rparr>)"

section \<open>Deadlines\<close>

record deadline =
  dl_time :: time
  required_kwh :: rat
  dl_kind :: string
  projected_soc :: "rat option"

record segment =
  seg_initial :: rat
  prefix_net :: rat
  maximum_required :: rat
  emitted_required :: rat
  seg_index :: "nat option"
  seg_deadlines :: "deadline list"

text \<open>The requirement of the segment's last deadline is raised to what the segment needs.\<close>

definition raise_last :: "segment \<Rightarrow> deadline list" where
  "raise_last g = (case seg_index g of
      None \<Rightarrow> seg_deadlines g
    | Some i \<Rightarrow> (let final = seg_deadlines g ! i in
        if required_kwh final + CHRONO_EPSILON < maximum_required g
        then (seg_deadlines g)[i := final\<lparr>required_kwh := maximum_required g\<rparr>] else seg_deadlines g))"

record deadline_rules =
  rule_tolerance :: rat
  rule_kind :: string
  rule_total_capacity :: "rat option"
  rule_minimum_soc :: "rat option"
  rule_capacity :: "rat option"

definition soc_at :: "deadline_rules \<Rightarrow> rat \<Rightarrow> rat option" where
  "soc_at r needed = (case (rule_total_capacity r, rule_minimum_soc r) of
      (Some cap, Some soc) \<Rightarrow> (if 0 < cap then Some (soc - needed / cap * 100) else None)
    | _ \<Rightarrow> None)"

definition refill_full :: "rat option \<Rightarrow> rat \<Rightarrow> bool" where
  "refill_full cap projected = (case cap of None \<Rightarrow> False | Some c \<Rightarrow> CHRONO_EPSILON < c \<and> c \<le> projected)"

definition deadline_step :: "deadline_rules \<Rightarrow> energy_interval \<Rightarrow> segment \<Rightarrow> segment" where
  "deadline_step r iv g =
     (let net = prefix_net g + (consumption_kwh iv - solar_kwh iv);
          needed = max (maximum_required g) (max 0 (net - seg_initial g));
          projected = seg_initial g - net + needed
      in if refill_full (rule_capacity r) projected
         then \<lparr>seg_initial = (case rule_capacity r of Some c \<Rightarrow> c | None \<Rightarrow> seg_initial g), prefix_net = 0,
               maximum_required = 0, emitted_required = 0, seg_index = None,
               seg_deadlines = raise_last (g\<lparr>maximum_required := needed\<rparr>)\<rparr>
         else if needed \<le> emitted_required g + rule_tolerance r
         then g\<lparr>prefix_net := net, maximum_required := needed\<rparr>
         else g\<lparr>prefix_net := net, maximum_required := needed, emitted_required := needed,
                seg_index := Some (length (seg_deadlines g)),
                seg_deadlines := seg_deadlines g @ [\<lparr>dl_time = iv_end iv, required_kwh = needed,
                  dl_kind = rule_kind r, projected_soc = soc_at r needed\<rparr>]\<rparr>)"

definition build_energy_deadlines :: "deadline_rules \<Rightarrow> energy_interval list \<Rightarrow> rat \<Rightarrow> deadline list" where
  "build_energy_deadlines rules intervals usable_initial =
     (let cap = map_option (max 0) (rule_capacity rules);
          r = rules\<lparr>rule_capacity := cap, rule_tolerance := max 0 (rule_tolerance rules)\<rparr>
      in raise_last (fold (deadline_step r) (sort_key iv_start intervals)
           \<lparr>seg_initial = capped cap (max 0 usable_initial), prefix_net = 0, maximum_required = 0,
            emitted_required = 0, seg_index = None, seg_deadlines = []\<rparr>))"

definition default_rules :: "rat option \<Rightarrow> deadline_rules" where
  "default_rules cap = \<lparr>rule_tolerance = ENERGY_TOLERANCE_KWH, rule_kind = ''depletion'', rule_total_capacity = None,
     rule_minimum_soc = None, rule_capacity = cap\<rparr>"

section \<open>Allocation\<close>

record chrono_request =
  req_now :: time
  req_horizon_end :: time
  req_intervals :: "energy_interval list"
  req_price_slots :: "price_slot list"
  req_total :: rat
  req_power_kw :: rat
  req_headroom :: "rat option"
  req_initial :: rat
  req_threshold :: "rat option"
  req_deadlines :: "deadline list"

definition candidate_slots :: "chrono_request \<Rightarrow> tariff_slot list" where
  "candidate_slots q = List.map_filter (\<lambda>s. case slot_price s of
      Fin p \<Rightarrow> if req_now q < slot_end s \<and> slot_start s < req_horizon_end q
          \<and> (case req_threshold q of None \<Rightarrow> True | Some limit \<Rightarrow> p \<le> limit)
        then Some \<lparr>t_start = slot_start s, t_end = slot_end s, t_price = p\<rparr> else None
    | _ \<Rightarrow> None) (req_price_slots q)"

text \<open>What a slot can store before a deadline and not before a start.\<close>

definition slot_capacity :: "chrono_request \<Rightarrow> rat \<Rightarrow> time option \<Rightarrow> time option \<Rightarrow> tariff_slot \<Rightarrow> rat" where
  "slot_capacity q efficiency due not_before s =
     (let start = max (req_now q) (max (t_start s) (case not_before of Some t \<Rightarrow> t | None \<Rightarrow> req_now q));
          finish = min (t_end s) (min (req_horizon_end q) (case due of Some t \<Rightarrow> t | None \<Rightarrow> req_horizon_end q))
      in max 0 (req_power_kw q) * hours_between start finish * efficiency)"

fun fill_times :: "rat option \<Rightarrow> rat \<Rightarrow> energy_interval list \<Rightarrow> time list" where
  "fill_times cap energy [] = []"
| "fill_times cap energy (iv # ivs) =
     (let projected = energy + solar_kwh iv - consumption_kwh iv in
      if reaches projected cap then iv_end iv # fill_times cap (capped cap projected) ivs
      else fill_times cap (max 0 projected) ivs)"

definition allocation_start :: "time \<Rightarrow> time list \<Rightarrow> time \<Rightarrow> time" where
  "allocation_start now full_at due =
     (let earlier = filter (\<lambda>t. t < due) full_at in if earlier = [] then now else Max (set earlier))"

definition in_segment :: "time \<Rightarrow> time \<Rightarrow> tariff_slot \<Rightarrow> bool" where
  "in_segment start due s = (start < t_end s \<and> t_start s < due)"

type_synonym booking = "(tariff_slot, rat) dict \<times> (tariff_slot, time option) dict"

text \<open>The loop over the eligible slots, cheapest first, for a deadline or for none.\<close>

fun book :: "(tariff_slot \<Rightarrow> rat) \<Rightarrow> (tariff_slot \<Rightarrow> (tariff_slot, time option) dict \<Rightarrow> (tariff_slot, time option) dict)
    \<Rightarrow> tariff_slot list \<Rightarrow> rat \<Rightarrow> booking \<Rightarrow> rat \<times> booking" where
  "book cap mark [] missing bk = (missing, bk)"
| "book cap mark (s # ss) missing (amounts, due) =
     (let amount = min missing (max 0 (cap s - dict_get 0 amounts s)) in
      if amount \<le> CHRONO_EPSILON then book cap mark ss missing (amounts, due)
      else (let bk = (AList.update s (dict_get 0 amounts s + amount) amounts, mark s due); rest = missing - amount
            in if rest \<le> CHRONO_EPSILON then (rest, bk) else book cap mark ss rest bk))"

definition mark_deadline :: "time \<Rightarrow> tariff_slot \<Rightarrow> (tariff_slot, time option) dict \<Rightarrow> (tariff_slot, time option) dict" where
  "mark_deadline t s due = AList.update s (Some (case map_of due s of Some (Some u) \<Rightarrow> min u t | _ \<Rightarrow> t)) due"

definition mark_flexible :: "tariff_slot \<Rightarrow> (tariff_slot, time option) dict \<Rightarrow> (tariff_slot, time option) dict" where
  "mark_flexible s due = (case map_of due s of Some _ \<Rightarrow> due | None \<Rightarrow> AList.update s None due)"

definition sum_amounts :: "('k \<Rightarrow> bool) \<Rightarrow> ('k, rat) dict \<Rightarrow> rat" where
  "sum_amounts P amounts = sum_list (map snd (filter (\<lambda>(s, _). P s) amounts))"

definition book_deadline :: "chrono_request \<Rightarrow> rat \<Rightarrow> rat \<Rightarrow> time list \<Rightarrow> deadline \<Rightarrow> booking \<times> rat \<Rightarrow> booking \<times> rat" where
  "book_deadline q efficiency required full_at d st =
     (let (bk, shortfall) = st; t = dl_time d; start = allocation_start (req_now q) full_at t;
          goal = min (required_kwh d) (max 0 (required - sum_amounts (\<lambda>s. t_end s \<le> start) (fst bk)));
          missing = max 0 (goal - sum_amounts (in_segment start t) (fst bk));
          cap = slot_capacity q efficiency (Some t) (Some start);
          eligible = sort_key (\<lambda>s. (t_price s, if map_of (fst bk) s \<noteq> None then 0 else (1 :: nat), - cap s, t_start s))
            (filter (in_segment start t) (candidate_slots q));
          (left_over, bk') = book cap (mark_deadline t) eligible missing bk
      in (bk', max shortfall left_over))"

definition segment_requirements :: "time \<Rightarrow> time list \<Rightarrow> deadline list \<Rightarrow> (time, rat) dict" where
  "segment_requirements now full_at deadlines =
     fold (\<lambda>d seg. let start = allocation_start now full_at (dl_time d)
        in AList.update start (max (dict_get 0 seg start) (required_kwh d)) seg) deadlines []"

datatype chrono_reason = InsufficientPower | PriceThreshold | NoEligibleSlots
  | DeadlineCapacityShortfall | InsufficientSlotCapacity | PlanOk

record chrono_plan =
  plan_intervals :: "energy_interval list"
  plan_deadlines :: "deadline list"
  plan_allocations :: "allocation list"
  plan_total_required :: rat
  deadline_required :: rat
  flexible_required :: rat
  plan_allocated :: rat
  deadline_shortfall :: rat
  total_shortfall :: rat
  earliest_depletion :: "time option"
  minimum_projected :: rat
  plan_reason :: chrono_reason

definition plan_reason_of :: "chrono_request \<Rightarrow> rat \<Rightarrow> rat \<Rightarrow> rat \<Rightarrow> chrono_reason" where
  "plan_reason_of q required missed short =
     (if max 0 (req_power_kw q) \<le> 0 then InsufficientPower
      else if candidate_slots q = [] \<and> 0 < required
      then (if req_threshold q \<noteq> None then PriceThreshold else NoEligibleSlots)
      else if CHRONO_EPSILON < missed then DeadlineCapacityShortfall
      else if CHRONO_EPSILON < short then InsufficientSlotCapacity else PlanOk)"

text \<open>The energy that the plan may book at most: the request within the headroom.\<close>

definition required_of :: "chrono_request \<Rightarrow> rat" where
  "required_of q = capped (map_option (max 0) (req_headroom q)) (max 0 (req_total q))"

definition usable_capacity_of :: "chrono_request \<Rightarrow> rat option" where
  "usable_capacity_of q = map_option (\<lambda>h. max 0 (req_initial q) + max 0 h) (req_headroom q)"

definition full_times_of :: "chrono_request \<Rightarrow> time list" where
  "full_times_of q = fill_times (usable_capacity_of q) (capped (usable_capacity_of q) (max 0 (req_initial q)))
     (sort_key iv_start (req_intervals q))"

definition book_deadlines :: "chrono_request \<Rightarrow> rat \<Rightarrow> booking \<times> rat" where
  "book_deadlines q efficiency = fold (book_deadline q efficiency (required_of q) (full_times_of q))
     (sort_key dl_time (req_deadlines q)) (([], []), 0)"

definition deadline_required_of :: "chrono_request \<Rightarrow> rat" where
  "deadline_required_of q = min (required_of q)
     (sum_list (map snd (segment_requirements (req_now q) (full_times_of q) (sort_key dl_time (req_deadlines q)))))"

definition book_flexible :: "chrono_request \<Rightarrow> rat \<Rightarrow> booking \<Rightarrow> booking" where
  "book_flexible q efficiency bk =
     snd (book (slot_capacity q efficiency None None) mark_flexible
       (sort_key (\<lambda>s. (t_price s, t_start s)) (candidate_slots q))
       (max 0 (required_of q - deadline_required_of q)) bk)"

definition plan_allocations_of :: "booking \<Rightarrow> allocation list" where
  "plan_allocations_of bk = map (\<lambda>(s, amount). \<lparr>alloc_slot = s, planned_kwh = amount,
     alloc_deadline = (case map_of (snd bk) s of Some d \<Rightarrow> d | None \<Rightarrow> None)\<rparr>)
     (sort_key (\<lambda>(s, _). t_start s) (fst bk))"

definition allocate_price_slots :: "chrono_request \<Rightarrow> rat \<Rightarrow> chrono_plan" where
  "allocate_price_slots q charge_efficiency =
     (let efficiency = max 0 (min 1 charge_efficiency);
          (bk, missed) = book_deadlines q efficiency;
          bk' = book_flexible q efficiency bk;
          allocated = sum_list (map snd (fst bk'));
          short = max 0 (required_of q - allocated);
          no_grid = simulate_allocations (req_intervals q) (req_initial q) [] (usable_capacity_of q)
      in \<lparr>plan_intervals = sort_key iv_start (req_intervals q), plan_deadlines = sort_key dl_time (req_deadlines q),
          plan_allocations = plan_allocations_of bk', plan_total_required = required_of q,
          deadline_required = deadline_required_of q,
          flexible_required = max 0 (required_of q - deadline_required_of q),
          plan_allocated = allocated, deadline_shortfall = missed, total_shortfall = short,
          earliest_depletion = sim_earliest no_grid, minimum_projected = sim_minimum no_grid,
          plan_reason = plan_reason_of q (required_of q) missed short\<rparr>)"

text \<open>
  A request whose horizon ends before it starts is refused; one that brings no deadlines
  gets those at which the stored energy would run out.
\<close>

definition evaluate_chronological_request :: "chrono_request \<Rightarrow> py_error + chrono_plan" where
  "evaluate_chronological_request q =
     (if req_horizon_end q \<le> req_now q then Inl ValueError
      else (let cap = map_option (\<lambda>h. req_initial q + h) (req_headroom q);
                depletion = build_energy_deadlines (default_rules cap) (req_intervals q) (req_initial q)
            in Inr (allocate_price_slots
                 (q\<lparr>req_deadlines := (if req_deadlines q = [] then depletion else req_deadlines q)\<rparr>) CHARGE_EFFICIENCY)))"

section \<open>Booking\<close>

definition booked_ok :: "(tariff_slot \<Rightarrow> rat) \<Rightarrow> tariff_slot list \<Rightarrow> (tariff_slot, rat) dict \<Rightarrow> bool" where
  "booked_ok full cands amounts \<longleftrightarrow> distinct (map fst amounts)
     \<and> (\<forall>(s, a) \<in> set amounts. s \<in> set cands \<and> 0 < a \<and> a \<le> full s)"

lemma sum_amounts_update:
  "distinct (map fst al) \<Longrightarrow>
     sum_amounts P (AList.update s (dict_get 0 al s + x) al) = sum_amounts P al + (if P s then x else 0)"
proof (induction al)
  case (Cons p al)
  obtain k v where [simp]: "p = (k, v)" by fastforce
  show ?case using Cons
    by (cases "k = s") (auto simp: sum_amounts_def dict_get_def)
qed (simp add: sum_amounts_def dict_get_def)

lemma sum_amounts_mono:
  "(\<And>s a. (s, a) \<in> set al \<Longrightarrow> 0 \<le> a) \<Longrightarrow> (\<And>s. P s \<Longrightarrow> Q s) \<Longrightarrow> sum_amounts P al \<le> sum_amounts Q al"
  unfolding sum_amounts_def by (rule filter_sum_mono) auto

lemma sum_amounts_cong: "(\<And>s a. (s, a) \<in> set al \<Longrightarrow> P s = Q s) \<Longrightarrow> sum_amounts P al = sum_amounts Q al"
  unfolding sum_amounts_def by (rule arg_cong [of _ _ "\<lambda>xs. sum_list (map snd xs)"], rule filter_cong) auto

lemma sum_amounts_disj:
  "(\<And>s. \<not> (P s \<and> Q s)) \<Longrightarrow> sum_amounts (\<lambda>s. P s \<or> Q s) al = sum_amounts P al + sum_amounts Q al"
  unfolding sum_amounts_def by (induction al) auto

lemma sum_amounts_True: "sum_amounts (\<lambda>_. True) al = sum_list (map snd al)"
  by (simp add: sum_amounts_def case_prod_unfold)

lemma booked_ok_nonneg: "booked_ok full cands al \<Longrightarrow> (s, a) \<in> set al \<Longrightarrow> 0 \<le> a"
  by (auto simp: booked_ok_def)

lemma booked_ok_update:
  assumes "booked_ok full cands al" and "s \<in> set cands" and "0 < x" and "dict_get 0 al s + x \<le> full s"
  shows "booked_ok full cands (AList.update s (dict_get 0 al s + x) al)"
proof -
  have "0 \<le> dict_get 0 al s"
    using assms(1) map_of_SomeD [of al s] by (force simp: dict_get_def booked_ok_def split: option.split)
  moreover have "(k, v) \<in> set (AList.update s y al) \<Longrightarrow> k = s \<and> v = y \<or> (k, v) \<in> set al" for k v y
    by (induction al) (auto split: if_splits)
  ultimately show ?thesis using assms unfolding booked_ok_def by (auto simp: distinct_update) force+
qed

lemma keys_update: "fst ` set (AList.update k v al) = insert k (fst ` set al)"
  by (induction al) auto

text \<open>One dictionary extends another by bookings of \<open>x\<close> kWh in some slots.\<close>

definition booked_more :: "tariff_slot list \<Rightarrow> rat \<Rightarrow> (tariff_slot, rat) dict \<Rightarrow> (tariff_slot, rat) dict \<Rightarrow> bool" where
  "booked_more ss x al al' \<longleftrightarrow> fst ` set al' \<subseteq> fst ` set al \<union> set ss
     \<and> (\<forall>P. (\<forall>s \<in> set ss. P s) \<longrightarrow> sum_amounts P al' = sum_amounts P al + x)
     \<and> (\<forall>P. sum_amounts P al \<le> sum_amounts P al')"

lemma booked_moreD:
  assumes "booked_more ss x al al'"
  shows "fst ` set al' \<subseteq> fst ` set al \<union> set ss"
    and "(\<And>s. s \<in> set ss \<Longrightarrow> P s) \<Longrightarrow> sum_amounts P al' = sum_amounts P al + x"
    and "sum_amounts P al \<le> sum_amounts P al'"
    and "sum_list (map snd al') = sum_list (map snd al) + x"
proof -
  note b = assms [unfolded booked_more_def]
  show "fst ` set al' \<subseteq> fst ` set al \<union> set ss" by (rule conjunct1 [OF b])
  show add: "(\<And>s. s \<in> set ss \<Longrightarrow> P s) \<Longrightarrow> sum_amounts P al' = sum_amounts P al + x" for P
    using spec [OF conjunct1 [OF conjunct2 [OF b]], of P] by simp
  show "sum_amounts P al \<le> sum_amounts P al'" by (rule spec [OF conjunct2 [OF conjunct2 [OF b]]])
  show "sum_list (map snd al') = sum_list (map snd al) + x"
    using add [of "\<lambda>_. True"] by (simp add: sum_amounts_True)
qed

lemma booked_more_refl: "booked_more ss 0 al al"
  by (auto simp: booked_more_def)

lemma booked_more_trans:
  assumes "booked_more ss x al al1" and "booked_more ss y al1 al2"
  shows "booked_more ss (x + y) al al2"
proof -
  have "sum_amounts P al2 = sum_amounts P al + (x + y)" if "\<forall>s \<in> set ss. P s" for P
    using booked_moreD(2) [OF assms(1), of P] booked_moreD(2) [OF assms(2), of P] that by simp
  moreover have "sum_amounts P al \<le> sum_amounts P al2" for P
    using booked_moreD(3) [OF assms(1), of P] booked_moreD(3) [OF assms(2), of P] by simp
  moreover have "fst ` set al2 \<subseteq> fst ` set al \<union> set ss"
    using booked_moreD(1) [OF assms(1)] booked_moreD(1) [OF assms(2)] by blast
  ultimately show ?thesis by (simp add: booked_more_def)
qed

lemma booked_more_update:
  assumes "distinct (map fst al)" and "s \<in> set ss" and "0 \<le> x"
  shows "booked_more ss x al (AList.update s (dict_get 0 al s + x) al)"
proof -
  have "sum_amounts P al \<le> sum_amounts P (AList.update s (dict_get 0 al s + x) al)" for P
    using assms(3) by (simp add: sum_amounts_update [OF assms(1)])
  moreover have "sum_amounts P (AList.update s (dict_get 0 al s + x) al) = sum_amounts P al + x"
    if "\<forall>k \<in> set ss. P k" for P
    using that assms(2) by (simp add: sum_amounts_update [OF assms(1)])
  ultimately show ?thesis using assms(2) by (simp add: booked_more_def keys_update subset_iff)
qed

lemma booked_more_subset:
  assumes "booked_more ss x al al'" and "set ss \<subseteq> set ts"
  shows "booked_more ts x al al'"
proof -
  have "sum_amounts P al' = sum_amounts P al + x" if "\<forall>s \<in> set ts. P s" for P
    using that assms(2) by (intro booked_moreD(2) [OF assms(1)]) auto
  then show ?thesis
    using booked_moreD(1) [OF assms(1)] booked_moreD(3) [OF assms(1)] assms(2) unfolding booked_more_def by blast
qed

text \<open>What a call of the loop books, where, and what it leaves.\<close>

lemma book_spec:
  assumes "book cap mark ss missing (al, due) = (left_over, al', due')"
    and "booked_ok full cands al" and "set ss \<subseteq> set cands" and "\<And>s. cap s \<le> full s" and "0 \<le> missing"
  shows "booked_ok full cands al' \<and> 0 \<le> left_over \<and> left_over \<le> missing \<and> booked_more ss (missing - left_over) al al'"
  using assms(1,2,3,5)
proof (induction ss arbitrary: missing al due)
  case Nil
  then show ?case by (auto simp: booked_more_refl)
next
  case (Cons s ss)
  define x where "x = min missing (max 0 (cap s - dict_get 0 al s))"
  have sub: "set ss \<subseteq> set cands" using Cons.prems(3) by simp
  show ?case
  proof (cases "x \<le> CHRONO_EPSILON")
    case True
    then have "book cap mark ss missing (al, due) = (left_over, al', due')" using Cons.prems(1) by (simp add: x_def)
    from Cons.IH [OF this Cons.prems(2) sub Cons.prems(4)] show ?thesis
      using booked_more_subset [of ss _ al al' "s # ss"] by auto
  next
    case False
    let ?al = "AList.update s (dict_get 0 al s + x) al" and ?due = "mark s due" and ?rest = "missing - x"
    have x: "0 < x" "x \<le> missing" "x \<le> cap s - dict_get 0 al s"
      using False by (auto simp: x_def CHRONO_EPSILON_def min_def max_def split: if_splits)
    have ok: "booked_ok full cands ?al"
      using Cons.prems(2,3) x assms(4) [of s] by (intro booked_ok_update) auto
    have dist: "distinct (map fst al)" using Cons.prems(2) by (simp add: booked_ok_def)
    have more: "booked_more (s # ss) x al ?al" using x(1) by (intro booked_more_update dist) auto
    show ?thesis
    proof (cases "?rest \<le> CHRONO_EPSILON")
      case True
      then have "left_over = ?rest" "al' = ?al" using Cons.prems(1) False by (simp_all add: x_def [symmetric] Let_def)
      then show ?thesis using ok x more by simp
    next
      case next_: False
      then have "book cap mark ss ?rest (?al, ?due) = (left_over, al', due')"
        using Cons.prems(1) False by (simp add: x_def [symmetric] Let_def)
      from Cons.IH [OF this ok sub] x have IH: "booked_ok full cands al'" "0 \<le> left_over" "left_over \<le> ?rest"
        "booked_more ss (?rest - left_over) ?al al'" by auto
      have "booked_more (s # ss) (x + (?rest - left_over)) al al'"
        by (rule booked_more_trans [OF more booked_more_subset [OF IH(4)]]) auto
      then show ?thesis using IH x by simp
    qed
  qed
qed

section \<open>Segments\<close>

lemma allocation_start_mono:
  assumes "t \<le> u" and "\<And>x. x \<in> set full_at \<Longrightarrow> now \<le> x"
  shows "allocation_start now full_at t \<le> allocation_start now full_at u"
proof -
  let ?e = "\<lambda>t. filter (\<lambda>x. x < t) full_at"
  show ?thesis
  proof (cases "?e t = []")
    case True
    have "now \<le> Max (set (?e u))" if "?e u \<noteq> []"
    proof -
      have "Max (set (?e u)) \<in> set (?e u)" using that by (intro Max_in) (simp_all only: finite_set set_empty not_False_eq_True)
      then show ?thesis using assms(2) by auto
    qed
    then show ?thesis using True unfolding allocation_start_def Let_def by (simp only: if_True if_False split: if_splits) blast
  next
    case False
    moreover have "set (?e t) \<subseteq> set (?e u)" using assms(1) by auto
    ultimately have "Max (set (?e t)) \<le> Max (set (?e u))"
      by (intro Max_mono) (simp_all only: finite_set set_empty not_False_eq_True)
    moreover have "?e u \<noteq> []" using False \<open>set (?e t) \<subseteq> set (?e u)\<close> by (metis empty_set subset_empty set_empty)
    ultimately show ?thesis using False by (simp add: allocation_start_def)
  qed
qed

text \<open>What a booking covers of a deadline, up to the shortfall.\<close>

definition covered :: "time \<Rightarrow> time list \<Rightarrow> rat \<Rightarrow> rat \<Rightarrow> (tariff_slot, rat) dict \<Rightarrow> deadline \<Rightarrow> bool" where
  "covered now full_at required shortfall al d =
     (let start = allocation_start now full_at (dl_time d)
      in min (required_kwh d) (max 0 (required - sum_amounts (\<lambda>s. t_end s \<le> start) al))
           \<le> sum_amounts (in_segment start (dl_time d)) al + shortfall)"

lemma covered_mono:
  assumes "covered now full_at required shortfall al d" and "\<And>P. sum_amounts P al \<le> sum_amounts P al'"
    and "shortfall \<le> shortfall'"
  shows "covered now full_at required shortfall' al' d"
  using assms(1) assms(2) [of "\<lambda>s. t_end s \<le> allocation_start now full_at (dl_time d)"]
    assms(2) [of "in_segment (allocation_start now full_at (dl_time d)) (dl_time d)"] assms(3)
  by (auto simp: covered_def Let_def)

text \<open>
  The invariant of the deadlines: a share \<open>cur\<close> of the booked energy belongs to the
  segment at hand, within its requirement and visible in it, and the rest is within the
  requirements of the other segments.
\<close>

definition segment_share :: "time \<Rightarrow> time list \<Rightarrow> (time, rat) dict \<Rightarrow> (tariff_slot, rat) dict \<Rightarrow> time \<Rightarrow> bool" where
  "segment_share now full_at seg al t =
     (let start = allocation_start now full_at t in
      \<exists>cur. cur \<le> dict_get 0 seg start \<and> cur \<le> sum_amounts (in_segment start t) al
        \<and> sum_list (map snd al) - cur \<le> sum_list (map snd seg) - dict_get 0 seg start)"

definition deadlines_inv :: "chrono_request \<Rightarrow> (tariff_slot \<Rightarrow> rat) \<Rightarrow> rat \<Rightarrow> time list \<Rightarrow> deadline list
    \<Rightarrow> (tariff_slot, rat) dict \<Rightarrow> rat \<Rightarrow> bool" where
  "deadlines_inv q full required full_at ds al shortfall \<longleftrightarrow>
     booked_ok full (candidate_slots q) al \<and> sum_list (map snd al) \<le> required \<and> 0 \<le> shortfall
     \<and> (\<forall>s \<in> fst ` set al. \<exists>d \<in> set ds. t_start s < dl_time d)
     \<and> list_all (covered (req_now q) full_at required shortfall al) ds"

definition segments_inv :: "time \<Rightarrow> time list \<Rightarrow> deadline list \<Rightarrow> (tariff_slot, rat) dict \<Rightarrow> bool" where
  "segments_inv now full_at ds al \<longleftrightarrow>
     (let seg = segment_requirements now full_at ds in
      distinct (map fst seg) \<and> (\<forall>(k, v) \<in> set seg. 0 \<le> v)
      \<and> fst ` set seg \<subseteq> (\<lambda>d. allocation_start now full_at (dl_time d)) ` set ds
      \<and> (\<forall>t. (\<forall>d \<in> set ds. dl_time d \<le> t) \<longrightarrow> segment_share now full_at seg al t))"

lemma slot_capacity_le_full:
  assumes "0 \<le> efficiency"
  shows "slot_capacity q efficiency due not_before s \<le> slot_capacity q efficiency None None s"
proof -
  have "hours_between a b \<le> hours_between c d" if "c \<le> a" "b \<le> d" for a b c d
    using that by (simp add: hours_between_def max_def divide_right_mono)
  then show ?thesis unfolding slot_capacity_def Let_def
    by (intro mult_right_mono mult_left_mono assms) (auto split: option.splits)
qed

lemma book_deadline_step:
  assumes "book_deadline q efficiency required full_at d ((al, due), shortfall) = ((al', due'), shortfall')"
    and "deadlines_inv q (slot_capacity q efficiency None None) required full_at ds al shortfall"
    and "\<And>d'. d' \<in> set ds \<Longrightarrow> dl_time d' \<le> dl_time d" and "0 \<le> efficiency"
  defines "start \<equiv> allocation_start (req_now q) full_at (dl_time d)"
  shows "deadlines_inv q (slot_capacity q efficiency None None) required full_at (ds @ [d]) al' shortfall'
    \<and> (\<exists>x \<ge> 0. x \<le> max 0 (required_kwh d - sum_amounts (in_segment start (dl_time d)) al)
        \<and> booked_more (filter (in_segment start (dl_time d)) (candidate_slots q)) x al al')"
proof -
  let ?t = "dl_time d" and ?cands = "candidate_slots q" and ?full = "slot_capacity q efficiency None None"
  let ?seg = "in_segment start ?t" and ?before = "\<lambda>s. t_end s \<le> start"
  define goal where "goal = min (required_kwh d) (max 0 (required - sum_amounts ?before al))"
  define missing where "missing = max 0 (goal - sum_amounts ?seg al)"
  let ?cap = "slot_capacity q efficiency (Some ?t) (Some start)"
  define eligible where "eligible = sort_key (\<lambda>s. (t_price s, if map_of al s \<noteq> None then 0 else (1 :: nat), - ?cap s, t_start s))
            (filter ?seg ?cands)"
  note inv = assms(2) [unfolded deadlines_inv_def]
  obtain left_over bk' where bk0: "book ?cap (mark_deadline ?t) eligible missing (al, due) = (left_over, bk')" by (rule prod.exhaust)
  have "book_deadline q efficiency required full_at d ((al, due), shortfall) = (bk', max shortfall left_over)"
    using bk0 unfolding eligible_def missing_def goal_def start_def
    by (simp only: book_deadline_def Let_def prod.case fst_conv)
  then have bk: "book ?cap (mark_deadline ?t) eligible missing (al, due) = (left_over, al', due')"
    and sh: "shortfall' = max shortfall left_over" using bk0 assms(1) by simp_all
  have sub: "set eligible \<subseteq> set ?cands" by (auto simp: eligible_def)
  have miss0: "0 \<le> missing" by (simp add: missing_def)
  note spec = book_spec [where full = ?full, OF bk conjunct1 [OF inv] sub slot_capacity_le_full [OF assms(4)] miss0]
  let ?x = "missing - left_over"
  have ok': "booked_ok ?full ?cands al'" and x: "0 \<le> ?x" "?x \<le> missing" and more: "booked_more (filter ?seg ?cands) ?x al al'"
    using spec booked_more_subset [of eligible ?x al al' "filter ?seg ?cands"] by (auto simp: eligible_def)
  have mono: "\<And>P. sum_amounts P al \<le> sum_amounts P al'" by (rule booked_moreD(3) [OF more])
  have seg': "sum_amounts ?seg al' = sum_amounts ?seg al + ?x" by (rule booked_moreD(2) [OF more]) simp
  have tot': "sum_list (map snd al') = sum_list (map snd al) + ?x" by (rule booked_moreD(4) [OF more])
  have old: "t_start s < ?t" if "s \<in> fst ` set al" for s
    using that inv assms(3) by (meson less_le_trans)
  have "sum_list (map snd al) = sum_amounts (\<lambda>s. ?before s \<or> ?seg s) al"
    unfolding sum_amounts_True [symmetric] using old by (intro sum_amounts_cong) (force simp: in_segment_def)
  also have "\<dots> = sum_amounts ?before al + sum_amounts ?seg al"
    by (rule sum_amounts_disj) (auto simp: in_segment_def)
  finally have split: "sum_list (map snd al) = sum_amounts ?before al + sum_amounts ?seg al" .
  have nonneg: "0 \<le> sum_amounts P al" for P
    using sum_amounts_mono [of al "\<lambda>_. False" P, OF booked_ok_nonneg [OF conjunct1 [OF inv]]] by (simp add: sum_amounts_def)
  have within: "sum_list (map snd al') \<le> required"
    using split x inv nonneg [of ?seg] nonneg [of ?before] unfolding tot' missing_def goal_def by linarith
  have cov: "covered (req_now q) full_at required shortfall' al' d"
  proof -
    have "sum_amounts ?before al \<le> sum_amounts ?before al'" using mono by blast
    moreover have "goal \<le> sum_amounts ?seg al' + left_over" unfolding seg' using x by (simp add: missing_def)
    ultimately show ?thesis
      unfolding covered_def Let_def start_def [symmetric] sh goal_def by (auto simp: min_def max_def split: if_splits)
  qed
  have covs: "list_all (covered (req_now q) full_at required shortfall' al') ds"
    using inv mono covered_mono [of "req_now q" full_at required shortfall al _ al' shortfall'] by (auto simp: list_all_iff sh)
  have starts: "\<forall>s \<in> fst ` set al'. \<exists>d' \<in> set (ds @ [d]). t_start s < dl_time d'"
    using booked_moreD(1) [OF more] inv by (force simp: in_segment_def)
  have xle: "?x \<le> max 0 (required_kwh d - sum_amounts ?seg al)" using x by (auto simp: missing_def goal_def)
  have "0 \<le> shortfall'" using inv unfolding sh by linarith
  then have "deadlines_inv q ?full required full_at (ds @ [d]) al' shortfall'"
    unfolding deadlines_inv_def using ok' within cov covs starts by simp
  then show ?thesis using x(1) xle more by blast
qed

lemma segment_requirements_snoc:
  "segment_requirements now full_at (ds @ [d]) =
     (let seg = segment_requirements now full_at ds; start = allocation_start now full_at (dl_time d)
      in AList.update start (max (dict_get 0 seg start) (required_kwh d)) seg)"
  by (simp add: segment_requirements_def Let_def)

lemma dict_get_nonneg:
  "distinct (map fst al) \<Longrightarrow> (\<forall>(k, v) \<in> set al. 0 \<le> v) \<Longrightarrow> (0 :: rat) \<le> dict_get 0 al k"
  using map_of_SomeD [of al k] by (fastforce simp: dict_get_def split: option.split)

lemma update_nonneg:
  "(\<forall>(k, v) \<in> set al. (0 :: rat) \<le> v) \<Longrightarrow> 0 \<le> x \<Longrightarrow> \<forall>(k, v) \<in> set (AList.update j x al). 0 \<le> v"
  by (induction al) auto

lemma sum_values_update:
  assumes "distinct (map fst seg)"
  shows "sum_list (map snd (AList.update k v seg)) = sum_list (map snd seg) - dict_get 0 seg k + (v :: rat)"
  using sum_amounts_update [OF assms, of "\<lambda>_. True" k "v - dict_get 0 seg k"] by (simp add: sum_amounts_True)

text \<open>A deadline adds to the share of its own segment, and leaves the others behind.\<close>

lemma segments_step:
  assumes inv: "segments_inv now full_at ds al" and full: "\<And>x. x \<in> set full_at \<Longrightarrow> now \<le> x"
    and later: "\<And>d'. d' \<in> set ds \<Longrightarrow> dl_time d' \<le> dl_time d"
    and x: "0 \<le> x" "x \<le> max 0 (required_kwh d - sum_amounts (in_segment (allocation_start now full_at (dl_time d)) (dl_time d)) al)"
    and more: "booked_more (filter (in_segment (allocation_start now full_at (dl_time d)) (dl_time d)) cands) x al al'"
    and nonneg: "\<And>s a. (s, a) \<in> set al' \<Longrightarrow> 0 \<le> a"
  shows "segments_inv now full_at (ds @ [d]) al'"
proof -
  let ?st = "\<lambda>t. allocation_start now full_at t"
  let ?start = "?st (dl_time d)" and ?seg = "segment_requirements now full_at ds"
  let ?v = "max (dict_get 0 ?seg ?start) (required_kwh d)"
  let ?seg' = "AList.update ?start ?v ?seg"
  let ?in = "in_segment ?start (dl_time d)"
  have dist: "distinct (map fst ?seg)" and pos: "\<forall>(k, v) \<in> set ?seg. 0 \<le> v"
    and keys: "fst ` set ?seg \<subseteq> (\<lambda>d. ?st (dl_time d)) ` set ds"
    using inv by (auto simp: segments_inv_def Let_def)
  have share: "segment_share now full_at ?seg al (dl_time d)" using inv later by (simp add: segments_inv_def Let_def)
  then obtain cur where cur: "cur \<le> dict_get 0 ?seg ?start" "cur \<le> sum_amounts ?in al"
    "sum_list (map snd al) - cur \<le> sum_list (map snd ?seg) - dict_get 0 ?seg ?start"
    by (auto simp: segment_share_def Let_def)
  have tot: "sum_list (map snd al') = sum_list (map snd al) + x" by (rule booked_moreD(4) [OF more])
  have added: "sum_amounts ?in al' = sum_amounts ?in al + x" by (rule booked_moreD(2) [OF more]) simp
  have sumseg: "sum_list (map snd ?seg') = sum_list (map snd ?seg) - dict_get 0 ?seg ?start + ?v" by (rule sum_values_update [OF dist])
  have v0: "0 \<le> ?v" using dict_get_nonneg [OF dist pos] by (simp add: le_max_iff_disj)
  have cur': "cur + x \<le> ?v" using cur(1,2) x by linarith
  have whole: "sum_list (map snd al') \<le> sum_list (map snd ?seg')" using cur(3) cur' unfolding tot sumseg by linarith
  have "segment_share now full_at ?seg' al' t" if t: "\<forall>d' \<in> set (ds @ [d]). dl_time d' \<le> t" for t
  proof (cases "?st t = ?start")
    case True
    have "sum_amounts ?in al' \<le> sum_amounts (in_segment ?start t) al'"
      using t by (intro sum_amounts_mono nonneg) (auto simp: in_segment_def)
    then have "cur + x \<le> sum_amounts (in_segment ?start t) al'" using cur(2) added by linarith
    moreover have "sum_list (map snd al') - (cur + x) \<le> sum_list (map snd ?seg') - dict_get 0 ?seg' ?start"
      using cur(3) unfolding tot sumseg by (simp add: dict_get_update)
    ultimately show ?thesis
      unfolding segment_share_def Let_def True using cur' by (intro exI [of _ "cur + x"]) (simp add: dict_get_update)
  next
    case False
    have "?start \<le> ?st t" using t full by (intro allocation_start_mono) auto
    moreover have "k \<le> ?start" if "k \<in> fst ` set ?seg" for k
    proof -
      have "k \<in> (\<lambda>d. ?st (dl_time d)) ` set ds" using keys that by (rule subsetD)
      then obtain d' where "k = ?st (dl_time d')" "d' \<in> set ds" by (rule imageE)
      show ?thesis unfolding \<open>k = ?st (dl_time d')\<close>
        by (rule allocation_start_mono [OF later [OF \<open>d' \<in> set ds\<close>] full])
    qed
    ultimately have "?st t \<notin> fst ` set ?seg'" using False unfolding keys_update by force
    then have "dict_get 0 ?seg' (?st t) = 0"
      by (simp add: dict_get_def map_of_eq_None_iff [THEN iffD2])
    moreover have "0 \<le> sum_amounts P al'" for P
      using sum_amounts_mono [of al' "\<lambda>_. False" P, OF nonneg] by (simp add: sum_amounts_def)
    ultimately show ?thesis
      unfolding segment_share_def Let_def using whole by (intro exI [of _ 0]) simp
  qed
  moreover have "fst ` set ?seg' \<subseteq> (\<lambda>d. ?st (dl_time d)) ` set (ds @ [d])"
    using keys by (auto simp: keys_update)
  ultimately show ?thesis
    unfolding segments_inv_def segment_requirements_snoc Let_def
    using dist pos v0 by (simp add: distinct_keys_update update_nonneg)
qed

lemma share_within: "segments_inv now full_at ds al \<Longrightarrow> sum_list (map snd al) \<le> sum_list (map snd (segment_requirements now full_at ds))"
proof -
  assume inv: "segments_inv now full_at ds al"
  obtain t where "\<forall>d \<in> set ds. dl_time d \<le> t"
  proof (cases "ds = []")
    case False
    then show ?thesis using that [of "Max (dl_time ` set ds)"] by simp
  qed (use that [of 0] in simp)
  then have "segment_share now full_at (segment_requirements now full_at ds) al t"
    using inv by (simp add: segments_inv_def Let_def)
  then show ?thesis by (auto simp: segment_share_def Let_def)
qed

lemma book_deadlines_inv:
  assumes "sorted (map dl_time ds)" and "0 \<le> efficiency" and "0 \<le> required"
    and "fold (book_deadline q efficiency required full_at) ds (([], []), 0) = ((al, due), shortfall)"
  shows "deadlines_inv q (slot_capacity q efficiency None None) required full_at ds al shortfall
    \<and> ((\<forall>x \<in> set full_at. req_now q \<le> x) \<longrightarrow> segments_inv (req_now q) full_at ds al)"
  using assms(1,4)
proof (induction ds arbitrary: al due shortfall rule: rev_induct)
  case Nil
  then show ?case using assms(3)
    by (auto simp: deadlines_inv_def segments_inv_def segment_requirements_def segment_share_def booked_ok_def
        sum_amounts_def dict_get_def Let_def intro: exI [of _ 0])
next
  case (snoc d ds)
  obtain al0 due0 sh0 where st: "fold (book_deadline q efficiency required full_at) ds (([], []), 0) = ((al0, due0), sh0)"
    by (metis surj_pair)
  have sorted: "sorted (map dl_time ds)" and later: "\<And>d'. d' \<in> set ds \<Longrightarrow> dl_time d' \<le> dl_time d"
    using snoc.prems(1) by (auto simp: sorted_append)
  note IH = snoc.IH [OF sorted st]
  have step: "book_deadline q efficiency required full_at d ((al0, due0), sh0) = ((al, due), shortfall)"
    using snoc.prems(2) st by simp
  note s = book_deadline_step [OF step conjunct1 [OF IH] later assms(2)]
  have "0 \<le> a" if "(s, a) \<in> set al" for s a
    using s that unfolding deadlines_inv_def by (blast intro: booked_ok_nonneg)
  then show ?case using s IH segments_step [where now = "req_now q" and full_at = full_at and al = al0 and al' = al and ds = ds and d = d
        and cands = "candidate_slots q"] later by blast
qed

section \<open>The plan\<close>

lemma fill_times_ends: "set (fill_times cap energy ivs) \<subseteq> iv_end ` set ivs"
  by (induction cap energy ivs rule: fill_times.induct) (auto simp: Let_def)

lemma required_of_nonneg: "0 \<le> required_of q"
  by (auto simp: required_of_def capped_def split: option.split)

lemma plan_of_booking:
  assumes "booked_ok full cands (fst bk)"
  shows "distinct (map alloc_slot (plan_allocations_of bk))"
    and "list_all (\<lambda>a. alloc_slot a \<in> set cands \<and> 0 < planned_kwh a \<and> planned_kwh a \<le> full (alloc_slot a)) (plan_allocations_of bk)"
    and "sum_list (map planned_kwh (filter (\<lambda>a. P (alloc_slot a)) (plan_allocations_of bk))) = sum_amounts P (fst bk)"
proof -
  let ?s = "sort_key (\<lambda>(s, _). t_start s) (fst bk)"
  have "map alloc_slot (plan_allocations_of bk) = map fst ?s" by (auto simp: plan_allocations_of_def)
  moreover have "mset (map fst ?s) = mset (map fst (fst bk))" by simp
  ultimately show "distinct (map alloc_slot (plan_allocations_of bk))"
    using assms unfolding booked_ok_def by (metis mset_eq_imp_distinct_iff)
  show "list_all (\<lambda>a. alloc_slot a \<in> set cands \<and> 0 < planned_kwh a \<and> planned_kwh a \<le> full (alloc_slot a)) (plan_allocations_of bk)"
    using assms by (auto simp: booked_ok_def plan_allocations_of_def list_all_iff)
  have "sum_list (map planned_kwh (filter (\<lambda>a. P (alloc_slot a)) (plan_allocations_of bk)))
      = sum_list (map snd (filter (\<lambda>(s, _). P s) ?s))"
    by (simp add: plan_allocations_of_def filter_map comp_def case_prod_unfold)
  also have "\<dots> = sum_list (map snd (sort_key (\<lambda>(s, _). t_start s) (filter (\<lambda>(s, _). P s) (fst bk))))"
    by (simp only: filter_sort)
  also have "\<dots> = sum_amounts P (fst bk)" by (simp add: sum_amounts_def sum_list_sort_key)
  finally show "sum_list (map planned_kwh (filter (\<lambda>a. P (alloc_slot a)) (plan_allocations_of bk))) = sum_amounts P (fst bk)" .
qed

text \<open>The bookings of both passes.\<close>

lemma bookings:
  assumes "book_deadlines q eff = (bk, missed)" and "0 \<le> eff" and "book_flexible q eff bk = bk'"
  shows "booked_ok (slot_capacity q eff None None) (candidate_slots q) (fst bk')"
    and "list_all (covered (req_now q) (full_times_of q) (required_of q) missed (fst bk')) (sort_key dl_time (req_deadlines q))"
    and "(\<forall>iv \<in> set (req_intervals q). req_now q \<le> iv_end iv) \<Longrightarrow> sum_list (map snd (fst bk')) \<le> required_of q"
proof -
  let ?full = "slot_capacity q eff None None" and ?ds = "sort_key dl_time (req_deadlines q)"
  obtain al due where bk: "bk = (al, due)" by fastforce
  obtain al' due' where bk': "bk' = (al', due')" by fastforce
  let ?missing = "max 0 (required_of q - deadline_required_of q)"
  have fold: "fold (book_deadline q eff (required_of q) (full_times_of q)) ?ds (([], []), 0) = ((al, due), missed)"
    using assms(1) by (simp add: book_deadlines_def bk)
  have sorted: "sorted (map dl_time ?ds)" by simp
  note invs = book_deadlines_inv [OF sorted assms(2) required_of_nonneg fold]
  then have inv: "booked_ok ?full (candidate_slots q) al" "sum_list (map snd al) \<le> required_of q"
    "list_all (covered (req_now q) (full_times_of q) (required_of q) missed al) ?ds"
    by (auto simp: deadlines_inv_def)
  obtain left_over where "book ?full mark_flexible (sort_key (\<lambda>s. (t_price s, t_start s)) (candidate_slots q)) ?missing (al, due)
      = (left_over, al', due')"
    using assms(3) unfolding book_flexible_def bk bk' by (metis prod.collapse)
  from book_spec [where full = ?full, OF this inv(1)]
  have spec: "booked_ok ?full (candidate_slots q) al'" "0 \<le> left_over" "left_over \<le> ?missing"
    "booked_more (sort_key (\<lambda>s. (t_price s, t_start s)) (candidate_slots q)) (?missing - left_over) al al'" by auto
  show "booked_ok ?full (candidate_slots q) (fst bk')" using spec(1) by (simp add: bk')
  show "list_all (covered (req_now q) (full_times_of q) (required_of q) missed (fst bk')) ?ds"
    using inv(3) covered_mono [OF _ booked_moreD(3) [OF spec(4)] order.refl] by (auto simp: list_all_iff bk')
  show "sum_list (map snd (fst bk')) \<le> required_of q" if iv: "\<forall>iv \<in> set (req_intervals q). req_now q \<le> iv_end iv"
  proof -
    have "\<forall>x \<in> set (full_times_of q). req_now q \<le> x"
      using fill_times_ends [of "usable_capacity_of q" _ "sort_key iv_start (req_intervals q)"] iv
      unfolding full_times_of_def by (fastforce simp: subset_iff)
    with invs have "sum_list (map snd al) \<le> sum_list (map snd (segment_requirements (req_now q) (full_times_of q) ?ds))"
      by (blast intro: share_within)
    with inv(2) have "sum_list (map snd al) \<le> deadline_required_of q" by (simp add: deadline_required_of_def)
    moreover have "deadline_required_of q \<le> required_of q" by (simp add: deadline_required_of_def)
    ultimately show ?thesis using booked_moreD(4) [OF spec(4)] spec(2) unfolding bk' by simp
  qed
qed

definition booked_in :: "chrono_plan \<Rightarrow> (tariff_slot \<Rightarrow> bool) \<Rightarrow> rat" where
  "booked_in p P = sum_list (map planned_kwh (filter (\<lambda>a. P (alloc_slot a)) (plan_allocations p)))"

text \<open>
  C5. The plan never books more than the request and the headroom allow, however the
  segments overlap: the allocations are distinct candidate slots, each within what its
  slot can store in the horizon, and together with the reported shortfall they are
  exactly the required energy.
\<close>

theorem plan_within_required:
  assumes "list_all (\<lambda>iv. req_now q \<le> iv_end iv) (req_intervals q)" and "allocate_price_slots q charge_efficiency = p"
  shows "distinct (map alloc_slot (plan_allocations p))
    \<and> list_all (\<lambda>a. alloc_slot a \<in> set (candidate_slots q) \<and> 0 < planned_kwh a
        \<and> planned_kwh a \<le> slot_capacity q (max 0 (min 1 charge_efficiency)) None None (alloc_slot a)) (plan_allocations p)
    \<and> booked_in p (\<lambda>_. True) + total_shortfall p = capped (map_option (max 0) (req_headroom q)) (max 0 (req_total q))
    \<and> 0 \<le> total_shortfall p"
proof -
  let ?eff = "max 0 (min 1 charge_efficiency)"
  obtain bk missed where bk: "book_deadlines q ?eff = (bk, missed)" by fastforce
  let ?bk' = "book_flexible q ?eff bk"
  have eff: "0 \<le> ?eff" by simp
  note b = bookings [OF bk eff refl]
  have p: "plan_allocations p = plan_allocations_of ?bk'"
    "total_shortfall p = max 0 (required_of q - sum_list (map snd (fst ?bk')))"
    using assms(2) [symmetric] bk by (simp_all add: allocate_price_slots_def Let_def)
  have "sum_list (map snd (fst ?bk')) \<le> required_of q" using b(3) assms(1) by (simp add: list_all_iff)
  then have "booked_in p (\<lambda>_. True) + total_shortfall p = required_of q \<and> 0 \<le> total_shortfall p"
    using plan_of_booking(3) [OF b(1), of "\<lambda>_. True"] by (simp add: p booked_in_def sum_amounts_True)
  then show ?thesis using plan_of_booking(1,2) [OF b(1)] unfolding p required_of_def by blast
qed

text \<open>
  The reported deadline shortfall is honest: for every deadline the energy booked in
  its segment covers its requirement, or what the segments before it leave of the
  request, up to that shortfall.
\<close>

theorem deadlines_covered:
  "case allocate_price_slots q charge_efficiency of p \<Rightarrow>
     list_all (\<lambda>d. case allocation_start (req_now q) (full_times_of q) (dl_time d) of start \<Rightarrow>
       min (required_kwh d) (max 0 (plan_total_required p - booked_in p (\<lambda>s. t_end s \<le> start)))
         \<le> booked_in p (in_segment start (dl_time d)) + deadline_shortfall p) (plan_deadlines p)"
proof -
  let ?eff = "max 0 (min 1 charge_efficiency)" and ?p = "allocate_price_slots q charge_efficiency"
  obtain bk missed where bk: "book_deadlines q ?eff = (bk, missed)" by fastforce
  let ?bk' = "book_flexible q ?eff bk"
  have eff: "0 \<le> ?eff" by simp
  note b = bookings [OF bk eff refl]
  have p: "plan_allocations ?p = plan_allocations_of ?bk'" "plan_total_required ?p = required_of q"
    "deadline_shortfall ?p = missed" "plan_deadlines ?p = sort_key dl_time (req_deadlines q)"
    using bk by (simp_all add: allocate_price_slots_def Let_def)
  have bi: "booked_in ?p P = sum_amounts P (fst ?bk')" for P
    unfolding booked_in_def p by (rule plan_of_booking(3) [OF b(1)])
  show ?thesis using b(2) unfolding bi p covered_def Let_def by (simp add: list_all_iff)
qed

text \<open>An evening: the sun fills part of the battery, the dinner empties it.\<close>

definition dinner_request :: chrono_request where
  "dinner_request = \<lparr>req_now = 0, req_horizon_end = 7200,
     req_intervals = [\<lparr>iv_start = 0, iv_end = 3600, consumption_kwh = 0, solar_kwh = 4\<rparr>,
       \<lparr>iv_start = 3600, iv_end = 7200, consumption_kwh = 12, solar_kwh = 0\<rparr>],
     req_price_slots = [\<lparr>slot_start = 0, slot_end = 3600, slot_price = Fin 1\<rparr>,
       \<lparr>slot_start = 3600, slot_end = 7200, slot_price = Fin 2\<rparr>],
     req_total = 3, req_power_kw = 4, req_headroom = Some 5, req_initial = 5, req_threshold = None, req_deadlines = []\<rparr>"

lemma plan_within_required_witness:
  "booked_in (allocate_price_slots dinner_request 1) (\<lambda>_. True)
     + total_shortfall (allocate_price_slots dinner_request 1) = 3"
proof -
  have "list_all (\<lambda>iv. req_now dinner_request \<le> iv_end iv) (req_intervals dinner_request)" by (simp add: dinner_request_def)
  from plan_within_required [OF this refl, of 1] show ?thesis by (simp add: dinner_request_def capped_def)
qed

text \<open>
  The plan is not checked against the trajectory with its own bookings: here the cheap
  slot is booked while the sun fills the battery, a part of it does not fit, and the
  battery runs out before the deadline although the plan reports no shortfall.
\<close>

lemma plan_clipped_by_sun:
  "case evaluate_chronological_request dinner_request of
     Inl e \<Rightarrow> False
   | Inr p \<Rightarrow> plan_reason p = PlanOk \<and> deadline_shortfall p = 0
       \<and> sim_minimum (simulate_allocations (req_intervals dinner_request) 5 (plan_allocations p) (Some 10)) = -2"
  by code_simp

section \<open>Deadlines and depletion\<close>

definition delivered :: "allocation list \<Rightarrow> time \<Rightarrow> rat" where
  "delivered allocs t = sum_list (map planned_kwh (filter (\<lambda>a. t_end (alloc_slot a) \<le> t) allocs))"

lemma delivered_mono: "(\<And>a. a \<in> set allocs \<Longrightarrow> 0 \<le> planned_kwh a) \<Longrightarrow> t \<le> u \<Longrightarrow> delivered allocs t \<le> delivered allocs u"
  unfolding delivered_def by (rule filter_sum_mono) auto

lemma delivered_nonneg: "(\<And>a. a \<in> set allocs \<Longrightarrow> 0 \<le> planned_kwh a) \<Longrightarrow> 0 \<le> delivered allocs t"
  unfolding delivered_def by (rule sum_list_nonneg_map) simp

lemma delivered_step:
  assumes "t \<le> u"
  shows "delivered allocs t + sum_list (map planned_kwh (filter (\<lambda>a. t_end (alloc_slot a) \<le> u)
      (filter (\<lambda>a. \<not> t_end (alloc_slot a) \<le> t) allocs))) = delivered allocs u"
  using assms by (induction allocs) (auto simp: delivered_def)

text \<open>
  With no capacity in the way both folds walk the same trajectory: the simulated energy is
  what is delivered less the net demand, and the deadlines hold its deficit, within the
  tolerance, at times that have passed.
\<close>

definition emitted_by :: "segment \<Rightarrow> time \<Rightarrow> bool" where
  "emitted_by g now \<longleftrightarrow> (if seg_deadlines g = [] then emitted_required g = 0 \<and> seg_index g = None
     else seg_index g = Some (length (seg_deadlines g) - 1) \<and> emitted_required g = required_kwh (last (seg_deadlines g)))
   \<and> 0 \<le> emitted_required g \<and> (\<forall>d \<in> set (seg_deadlines g). dl_time d \<le> now)"

definition same_path :: "deadline_rules \<Rightarrow> rat \<Rightarrow> allocation list \<Rightarrow> time \<Rightarrow> segment \<Rightarrow> simulation \<Rightarrow> bool" where
  "same_path r energy0 allocs t g s \<longleftrightarrow>
     seg_initial g = energy0 \<and> sim_energy s = energy0 + delivered allocs t - prefix_net g
     \<and> sim_pending s = filter (\<lambda>a. \<not> t_end (alloc_slot a) \<le> t) allocs
     \<and> emitted_by g t \<and> maximum_required g \<le> emitted_required g + rule_tolerance r
     \<and> ((\<forall>d \<in> set (seg_deadlines g). required_kwh d \<le> delivered allocs (dl_time d)) \<longrightarrow> - rule_tolerance r \<le> sim_minimum s)
     \<and> (0 \<le> sim_minimum s \<longrightarrow> maximum_required g \<le> delivered allocs t
         \<and> (\<forall>d \<in> set (seg_deadlines g). required_kwh d \<le> delivered allocs (dl_time d)))"

lemma same_path_step:
  assumes path: "same_path r energy0 allocs t g s" and t: "t \<le> iv_end iv" and cap: "rule_capacity r = None"
    and tol: "0 \<le> rule_tolerance r" and pos: "\<And>a. a \<in> set allocs \<Longrightarrow> 0 \<le> planned_kwh a"
  shows "same_path r energy0 allocs (iv_end iv) (deadline_step r iv g) (sim_step None iv s)"
proof -
  let ?u = "iv_end iv"
  let ?net = "prefix_net g + (consumption_kwh iv - solar_kwh iv)"
  let ?need = "max (maximum_required g) (max 0 (?net - seg_initial g))"
  note p = path [unfolded same_path_def]
  let ?e = "sim_energy (sim_step None iv s)"
  have e: "?e = energy0 + delivered allocs ?u - ?net"
    using p delivered_step [OF t, of allocs] by (simp add: sim_step_def capped_def Let_def)
  have pend: "sim_pending (sim_step None iv s) = filter (\<lambda>a. \<not> t_end (alloc_slot a) \<le> ?u) allocs"
    using p t by (auto simp: sim_step_def Let_def intro!: filter_cong)
  have mini: "sim_minimum (sim_step None iv s) = min (sim_minimum s) ?e" by (simp add: sim_step_def Let_def)
  have D: "delivered allocs t \<le> delivered allocs ?u" "0 \<le> delivered allocs ?u"
    using t pos by (auto intro: delivered_mono delivered_nonneg)
  have step: "deadline_step r iv g = (if ?need \<le> emitted_required g + rule_tolerance r
      then g\<lparr>prefix_net := ?net, maximum_required := ?need\<rparr>
      else g\<lparr>prefix_net := ?net, maximum_required := ?need, emitted_required := ?need,
             seg_index := Some (length (seg_deadlines g)),
             seg_deadlines := seg_deadlines g @ [\<lparr>dl_time = ?u, required_kwh = ?need,
               dl_kind = rule_kind r, projected_soc = soc_at r ?need\<rparr>]\<rparr>)"
    by (simp add: deadline_step_def cap refill_full_def Let_def)
  have short: "- ?need + delivered allocs ?u \<le> ?e" using p unfolding e by linarith
  have need: "?need \<le> delivered allocs ?u" if "0 \<le> sim_minimum s" "0 \<le> ?e"
    using p that D unfolding e by auto
  have past: "\<forall>d \<in> set (seg_deadlines g). dl_time d \<le> ?u" using p t by (auto simp: emitted_by_def)
  show ?thesis
  proof (cases "?need \<le> emitted_required g + rule_tolerance r")
    case True
    have low: "- rule_tolerance r \<le> ?e" if "\<forall>d \<in> set (seg_deadlines g). required_kwh d \<le> delivered allocs (dl_time d)"
    proof -
      have "emitted_required g \<le> delivered allocs ?u"
      proof (cases "seg_deadlines g = []")
        case False
        then have "required_kwh (last (seg_deadlines g)) \<le> delivered allocs (dl_time (last (seg_deadlines g)))"
          using that last_in_set by blast
        also have "\<dots> \<le> delivered allocs ?u" using past False by (intro delivered_mono pos) auto
        finally show ?thesis using p False by (simp add: emitted_by_def)
      qed (use p D in \<open>simp add: emitted_by_def\<close>)
      then show ?thesis using short True by linarith
    qed
    have emit: "emitted_by (g\<lparr>prefix_net := ?net, maximum_required := ?need\<rparr>) ?u"
      using p past by (simp add: emitted_by_def)
    show ?thesis
      using p e pend True low need emit unfolding same_path_def step mini by auto
  next
    case False
    let ?g = "g\<lparr>prefix_net := ?net, maximum_required := ?need, emitted_required := ?need,
             seg_index := Some (length (seg_deadlines g)),
             seg_deadlines := seg_deadlines g @ [\<lparr>dl_time = ?u, required_kwh = ?need,
               dl_kind = rule_kind r, projected_soc = soc_at r ?need\<rparr>]\<rparr>"
    have low: "- rule_tolerance r \<le> ?e" if "?need \<le> delivered allocs ?u" using short that tol by linarith
    have emit: "emitted_by ?g ?u" using past by (simp add: emitted_by_def le_max_iff_disj)
    show ?thesis
      using p e pend False low need emit tol unfolding same_path_def step mini by auto
  qed
qed

lemma same_path_fold:
  assumes "same_path r energy0 allocs t g s" and "sorted (t # map iv_end ivs)" and "rule_capacity r = None"
    and "0 \<le> rule_tolerance r" and "\<And>a. a \<in> set allocs \<Longrightarrow> 0 \<le> planned_kwh a"
  shows "\<exists>u. same_path r energy0 allocs u (fold (deadline_step r) ivs g) (fold (sim_step None) ivs s)"
  using assms(1,2)
proof (induction ivs arbitrary: t g s)
  case (Cons iv ivs)
  have "same_path r energy0 allocs (iv_end iv) (deadline_step r iv g) (sim_step None iv s)"
    using Cons.prems by (intro same_path_step [OF Cons.prems(1) _ assms(3-5)]) auto
  from Cons.IH [OF this] Cons.prems(2) show ?case by simp
qed auto

lemma raise_last_mem:
  assumes "emitted_by g u" and "maximum_required g \<le> emitted_required g + tol" and "0 \<le> tol"
  shows "\<forall>d \<in> set (seg_deadlines g). \<exists>d' \<in> set (raise_last g). dl_time d' = dl_time d \<and> required_kwh d \<le> required_kwh d'"
    and "\<forall>d' \<in> set (raise_last g). \<exists>d \<in> set (seg_deadlines g). dl_time d' = dl_time d \<and> required_kwh d' \<le> required_kwh d + tol"
proof -
  have "(\<forall>d \<in> set (seg_deadlines g). \<exists>d' \<in> set (raise_last g). dl_time d' = dl_time d \<and> required_kwh d \<le> required_kwh d')
    \<and> (\<forall>d' \<in> set (raise_last g). \<exists>d \<in> set (seg_deadlines g). dl_time d' = dl_time d \<and> required_kwh d' \<le> required_kwh d + tol)"
  proof (cases "seg_deadlines g" rule: rev_cases)
    case Nil
    then show ?thesis using assms(1) by (simp add: emitted_by_def raise_last_def)
  next
    case (snoc ds d)
    then have "seg_index g = Some (length ds)" "emitted_required g = required_kwh d"
      using assms(1) by (simp_all add: emitted_by_def)
    then show ?thesis using assms(2,3) snoc
      by (auto simp: raise_last_def Let_def CHRONO_EPSILON_def nth_append list_update_append)
  qed
  then show "\<forall>d \<in> set (seg_deadlines g). \<exists>d' \<in> set (raise_last g). dl_time d' = dl_time d \<and> required_kwh d \<le> required_kwh d'"
    and "\<forall>d' \<in> set (raise_last g). \<exists>d \<in> set (seg_deadlines g). dl_time d' = dl_time d \<and> required_kwh d' \<le> required_kwh d + tol"
    by blast+
qed

text \<open>
  C10. Without a capacity in the way the deadlines say exactly what the trajectory needs,
  up to the tolerance: allocations that land each requirement by its deadline keep the
  stored energy above minus the tolerance, and allocations that keep it at zero or more
  have landed each requirement, less the tolerance, by its deadline.
\<close>

theorem deadlines_tell_depletion:
  assumes "sorted (map iv_end (sort_key iv_start intervals))" and "list_all (\<lambda>a. 0 \<le> planned_kwh a) allocs"
    and "rule_capacity rules = None" and "tol = max 0 (rule_tolerance rules)"
  shows "(list_all (\<lambda>d. required_kwh d \<le> delivered allocs (dl_time d)) (build_energy_deadlines rules intervals usable_initial)
      \<longrightarrow> - tol \<le> sim_minimum (simulate_allocations intervals usable_initial allocs None))
    \<and> (0 \<le> sim_minimum (simulate_allocations intervals usable_initial allocs None)
      \<longrightarrow> list_all (\<lambda>d. required_kwh d \<le> delivered allocs (dl_time d) + tol)
           (build_energy_deadlines rules intervals usable_initial))"
proof -
  let ?ivs = "sort_key iv_start intervals" and ?e = "max 0 usable_initial"
  let ?r = "rules\<lparr>rule_capacity := None, rule_tolerance := tol\<rparr>"
  let ?g = "\<lparr>seg_initial = ?e, prefix_net = 0, maximum_required = 0, emitted_required = 0, seg_index = None, seg_deadlines = []\<rparr>"
  let ?s = "\<lparr>sim_energy = ?e, sim_minimum = ?e, sim_earliest = None, sim_trajectory = [], sim_pending = allocs\<rparr>"
  define t where "t = Min (set (0 # map iv_end ?ivs @ map (\<lambda>a. t_end (alloc_slot a)) allocs)) - 1"
  have "t + 1 \<le> x" if "x \<in> set (map iv_end ?ivs @ map (\<lambda>a. t_end (alloc_slot a)) allocs)" for x
    using that unfolding t_def by (simp add: Min_le_iff)
  then have lt: "t < x" if "x \<in> set (map iv_end ?ivs @ map (\<lambda>a. t_end (alloc_slot a)) allocs)" for x
    using that by (meson less_add_one less_le_trans)
  have ends: "\<forall>a \<in> set allocs. t < t_end (alloc_slot a)" using lt by simp
  then have pend: "filter (\<lambda>a. \<not> t_end (alloc_slot a) \<le> t) allocs = allocs" by (simp add: filter_id_conv not_le)
  have none: "delivered allocs t = 0"
    unfolding delivered_def using ends by (simp add: filter_False not_le)
  have tol: "0 \<le> tol" using assms(4) by simp
  have "same_path ?r ?e allocs t ?g ?s"
    using pend none tol by (simp add: same_path_def emitted_by_def)
  moreover have "sorted (t # map iv_end ?ivs)" using assms(1) lt by (auto simp: less_imp_le)
  ultimately obtain u where path: "same_path ?r ?e allocs u (fold (deadline_step ?r) ?ivs ?g) (fold (sim_step None) ?ivs ?s)"
    using same_path_fold [of ?r ?e allocs t ?g ?s ?ivs] tol assms(2) by (auto simp: list_all_iff)
  let ?G = "fold (deadline_step ?r) ?ivs ?g" and ?m = "sim_minimum (fold (sim_step None) ?ivs ?s)"
  have ds: "build_energy_deadlines rules intervals usable_initial = raise_last ?G"
    using assms(3,4) by (simp add: build_energy_deadlines_def capped_def)
  have m: "sim_minimum (simulate_allocations intervals usable_initial allocs None) = ?m"
    by (simp add: simulate_allocations_def capped_def Let_def)
  have emit: "emitted_by ?G u" "maximum_required ?G \<le> emitted_required ?G + tol"
    and suff: "(\<forall>d \<in> set (seg_deadlines ?G). required_kwh d \<le> delivered allocs (dl_time d)) \<longrightarrow> - tol \<le> ?m"
    and nec: "0 \<le> ?m \<longrightarrow> (\<forall>d \<in> set (seg_deadlines ?G). required_kwh d \<le> delivered allocs (dl_time d))"
    using path by (simp_all add: same_path_def)
  note mem = raise_last_mem [OF emit tol]
  have "- tol \<le> ?m" if "\<forall>d \<in> set (raise_last ?G). required_kwh d \<le> delivered allocs (dl_time d)"
    
  proof -
    have "required_kwh d \<le> delivered allocs (dl_time d)" if d: "d \<in> set (seg_deadlines ?G)" for d
    proof -
      obtain d' where d': "d' \<in> set (raise_last ?G)" "dl_time d' = dl_time d" "required_kwh d \<le> required_kwh d'"
        using bspec [OF mem(1) d] by blast
      show ?thesis using bspec [OF \<open>\<forall>d \<in> set (raise_last ?G). required_kwh d \<le> delivered allocs (dl_time d)\<close> d'(1)] d'(3)
        unfolding d'(2) by linarith
    qed
    then show ?thesis by (intro mp [OF suff]) blast
  qed
  moreover have "required_kwh d' \<le> delivered allocs (dl_time d') + tol" if m0: "0 \<le> ?m" and d': "d' \<in> set (raise_last ?G)" for d'
  proof -
    obtain d where d: "d \<in> set (seg_deadlines ?G)" "dl_time d' = dl_time d" "required_kwh d' \<le> required_kwh d + tol"
      using bspec [OF mem(2) d'] by blast
    have "required_kwh d \<le> delivered allocs (dl_time d)" by (rule bspec [OF mp [OF nec m0] d(1)])
    then show ?thesis using d(3) unfolding d(2) by linarith
  qed
  ultimately show ?thesis unfolding ds m by (simp add: list_all_iff)
qed

lemma deadlines_tell_depletion_witness:
  "- ENERGY_TOLERANCE_KWH \<le> sim_minimum (simulate_allocations (req_intervals dinner_request) 5
     [\<lparr>alloc_slot = \<lparr>t_start = 0, t_end = 3600, t_price = 1\<rparr>, planned_kwh = 3, alloc_deadline = Some 7200\<rparr>] None)"
proof -
  let ?al = "[\<lparr>alloc_slot = \<lparr>t_start = 0, t_end = 3600, t_price = 1\<rparr>, planned_kwh = 3, alloc_deadline = Some 7200\<rparr>]"
  have "list_all (\<lambda>d. required_kwh d \<le> delivered ?al (dl_time d))
      (build_energy_deadlines (default_rules None) (req_intervals dinner_request) 5)" by code_simp
  moreover have "sorted (map iv_end (sort_key iv_start (req_intervals dinner_request)))" by code_simp
  ultimately show ?thesis
    using deadlines_tell_depletion [where intervals = "req_intervals dinner_request" and allocs = ?al
        and rules = "default_rules None" and usable_initial = 5]
    by (simp add: default_rules_def ENERGY_TOLERANCE_KWH_def)
qed

end
