(* ===== verification/Absorption.thy ===== *)
theory Absorption
  imports Price_Base
begin

text \<open>
  Price-aware absorption of the solar surplus, \<open>pricing/surplus_absorption.py\<close>: the target,
  the choice of the hours in which storing costs least, the plan with its fail-safe
  statuses, and the decision of every cycle whether to hold the charge back.
\<close>

definition ABSORPTION_EPSILON :: rat where "ABSORPTION_EPSILON = 1 / 1000000"

section \<open>Slots and plan\<close>

record absorption_slot =
  ab_start :: time
  ab_end :: time
  export_price :: rat
  ab_surplus_kwh :: rat
  ab_selected :: bool

definition absorbable_kwh :: "absorption_slot \<Rightarrow> rat" where
  "absorbable_kwh s = max 0 (ab_surplus_kwh s) * CHARGE_EFFICIENCY"

definition slot_contains :: "absorption_slot \<Rightarrow> time \<Rightarrow> bool" where
  "slot_contains s t = (ab_start s \<le> t \<and> t < ab_end s)"

datatype absorption_status = AbDisabled | AbFailSafe | AbPlanned | AbInfeasible | AbNoTarget

record absorption_plan =
  ab_status :: absorption_status
  ab_reason :: string
  ab_deadline :: "time option"
  ab_target_kwh :: rat
  ab_free_space_kwh :: rat
  ab_slots :: "absorption_slot list"
  ab_selected_slots :: "absorption_slot list"
  ab_total_kwh :: rat
  ab_min_saving :: rat

definition slot_at :: "absorption_plan \<Rightarrow> time \<Rightarrow> absorption_slot option" where
  "slot_at p t = List.find (\<lambda>s. slot_contains s t) (ab_slots p)"

definition remaining_absorbable_kwh :: "absorption_plan \<Rightarrow> time \<Rightarrow> rat" where
  "remaining_absorbable_kwh p t = sum_list (map absorbable_kwh (filter (\<lambda>s. t < ab_end s) (ab_selected_slots p)))"

section \<open>Target and space\<close>

definition calculate_absorption_target_kwh :: "pyval \<Rightarrow> pyval \<Rightarrow> pyval \<Rightarrow> pyval \<Rightarrow> rat option" where
  "calculate_absorption_target_kwh remaining usable space margin =
     (case (finite_val remaining, finite_val usable, finite_val space) of
        (Some r, Some u, Some s) \<Rightarrow>
          (let m = (case finite_val margin of Some x \<Rightarrow> x | None \<Rightarrow> 0)
           in Some (max 0 (min (r + max 0 m - u) (max 0 s))))
      | _ \<Rightarrow> None)"

text \<open>A usable battery with its numbers: capacity, SOC, ceiling and floor.\<close>

definition usable_battery :: "snapshot \<Rightarrow> (rat \<times> rat \<times> rat \<times> rat) option" where
  "usable_battery b =
     (if \<not> eligible b then None
      else case (finite_val (soc_pct b), finite_val (capacity_kwh b), finite_val (max_soc_pct b), finite_val (floor_soc_pct b)) of
        (Some soc, Some cap, Some hi, Some low) \<Rightarrow> (if 0 < cap \<and> low \<le> hi then Some (cap, soc, hi, low) else None)
      | _ \<Rightarrow> None)"

definition calculate_free_space_kwh :: "snapshot list \<Rightarrow> rat" where
  "calculate_free_space_kwh batteries =
     sum_list (map (\<lambda>(cap, soc, hi, low). max 0 ((hi - soc) / 100 * cap)) (List.map_filter usable_battery batteries))"

definition calculate_usable_energy_kwh :: "snapshot list \<Rightarrow> rat" where
  "calculate_usable_energy_kwh batteries =
     sum_list (map (\<lambda>(cap, soc, hi, low). max 0 ((soc - low) / 100 * cap)) (List.map_filter usable_battery batteries))"

section \<open>Selection\<close>

fun gather :: "rat \<Rightarrow> rat \<Rightarrow> absorption_slot list \<Rightarrow> absorption_slot list" where
  "gather target acc [] = []"
| "gather target acc (s # ss) =
     (if target - ABSORPTION_EPSILON \<le> acc then []
      else if absorbable_kwh s \<le> ABSORPTION_EPSILON then gather target acc ss
      else s # gather target (acc + absorbable_kwh s) ss)"

definition select_absorption_slots :: "absorption_slot list \<Rightarrow> rat \<Rightarrow> absorption_slot list" where
  "select_absorption_slots slots target =
     (if target \<le> ABSORPTION_EPSILON then []
      else sort_key ab_start (gather target 0 (sort_key (\<lambda>s. (export_price s, ab_start s)) slots)))"

definition absorption_slots :: "price_slot list \<Rightarrow> (price_slot, pyval) dict \<Rightarrow> rat \<Rightarrow> time \<Rightarrow> time \<Rightarrow> absorption_slot list" where
  "absorption_slots price_slots surplus_by_slot charge_power now due =
     List.map_filter (\<lambda>s. case slot_price s of
         Fin p \<Rightarrow> (let surplus = (case finite_val (dict_get (VFloat (Fin 0)) surplus_by_slot s) of Some x \<Rightarrow> x | None \<Rightarrow> 0)
           in Some \<lparr>ab_start = slot_start s, ab_end = slot_end s, export_price = p,
             ab_surplus_kwh = min (max 0 surplus) (charge_power * hours_between (slot_start s) (slot_end s) / 1000),
             ab_selected = False\<rparr>)
       | _ \<Rightarrow> None)
       (sort_key slot_start (filter (\<lambda>s. now < slot_end s \<and> slot_start s < due \<and> slot_start s < slot_end s
          \<and> py_isfinite (slot_price s)) price_slots))"

definition mark_selected :: "(absorption_slot \<Rightarrow> bool) \<Rightarrow> absorption_plan \<Rightarrow> absorption_plan" where
  "mark_selected P p =
     (let slots = map (\<lambda>s. s\<lparr>ab_selected := P s\<rparr>) (ab_slots p)
      in p\<lparr>ab_slots := slots, ab_selected_slots := filter ab_selected slots\<rparr>)"

text \<open>The end of the planning: the target is known and the slots are on the plan.\<close>

definition schedule_absorption :: "absorption_plan \<Rightarrow> absorption_plan" where
  "schedule_absorption p =
     (if ab_target_kwh p \<le> ABSORPTION_EPSILON then p\<lparr>ab_status := AbNoTarget, ab_reason := ''target_met''\<rparr>
      else if ab_total_kwh p + ABSORPTION_EPSILON < ab_target_kwh p
      then (mark_selected (\<lambda>s. ABSORPTION_EPSILON < absorbable_kwh s) p)
             \<lparr>ab_status := AbInfeasible, ab_reason := ''surplus_below_target''\<rparr>
      else (let selected = select_absorption_slots (ab_slots p) (ab_target_kwh p) in
        if selected = [] then p\<lparr>ab_status := AbFailSafe, ab_reason := ''no_absorbable_slots''\<rparr>
        else (let chosen = map (\<lambda>s. (ab_start s, ab_end s)) selected
              in (mark_selected (\<lambda>s. (ab_start s, ab_end s) \<in> set chosen) p)
                   \<lparr>ab_status := AbPlanned, ab_reason := ''absorption_scheduled''\<rparr>)))"

record absorption_input =
  in_prices :: "price_slot list"
  in_surplus :: "(price_slot, pyval) dict"
  in_batteries :: "snapshot list"
  in_remaining :: pyval
  in_usable :: pyval
  in_margin :: pyval
  in_max_power :: pyval
  in_deadline :: "time option"
  in_saving :: pyval

definition plan_surplus_absorption :: "absorption_input \<Rightarrow> time \<Rightarrow> absorption_plan" where
  "plan_surplus_absorption i now =
     (let saving = (case finite_val (in_saving i) of Some x \<Rightarrow> max 0 x | None \<Rightarrow> 0);
          plan = \<lparr>ab_status = AbDisabled, ab_reason = ''disabled'', ab_deadline = in_deadline i, ab_target_kwh = 0,
            ab_free_space_kwh = 0, ab_slots = [], ab_selected_slots = [], ab_total_kwh = 0, ab_min_saving = saving\<rparr>;
          fail_safe = (\<lambda>p reason. p\<lparr>ab_status := AbFailSafe, ab_reason := reason\<rparr>)
      in if in_prices i = [] then fail_safe plan ''missing_prices''
         else case in_deadline i of None \<Rightarrow> fail_safe plan ''no_solar_window_left''
         | Some due \<Rightarrow>
        (if due \<le> now then fail_safe plan ''no_solar_window_left''
         else case finite_val (in_max_power i) of None \<Rightarrow> fail_safe plan ''missing_charge_capacity''
         | Some watts \<Rightarrow>
        (if watts \<le> 0 then fail_safe plan ''missing_charge_capacity''
         else if List.map_filter usable_battery (in_batteries i) = [] then fail_safe plan ''missing_battery_capacity_or_soc''
         else (let slots = absorption_slots (in_prices i) (in_surplus i) watts now due in
           if slots = [] then fail_safe plan ''no_future_export_slots''
           else (let space = calculate_free_space_kwh (in_batteries i);
                     p = plan\<lparr>ab_slots := slots, ab_total_kwh := sum_list (map absorbable_kwh slots), ab_free_space_kwh := space\<rparr>
                 in case calculate_absorption_target_kwh (in_remaining i) (in_usable i) (VFloat (Fin space)) (in_margin i) of
                      None \<Rightarrow> fail_safe p ''missing_energy_forecast''
                    | Some target \<Rightarrow> schedule_absorption (p\<lparr>ab_target_kwh := target\<rparr>))))))"

section \<open>Decision\<close>

definition hold_decision :: "absorption_plan option \<Rightarrow> time \<Rightarrow> pyval \<Rightarrow> bool \<times> string" where
  "hold_decision plan now live_target =
     (case plan of None \<Rightarrow> (False, ''disabled'')
      | Some p \<Rightarrow>
        if ab_status p \<noteq> AbPlanned then (False, ab_reason p)
        else if (case ab_deadline p of Some due \<Rightarrow> due \<le> now | None \<Rightarrow> False) then (False, ''past_deadline'')
        else (let target = (case finite_val live_target of Some x \<Rightarrow> x | None \<Rightarrow> ab_target_kwh p);
                  current = slot_at p now
              in if target \<le> ABSORPTION_EPSILON then (False, ''target_met'')
                 else if (case current of Some c \<Rightarrow> ab_selected c | None \<Rightarrow> False) then (False, ''absorption_window'')
                 else if remaining_absorbable_kwh p now + ABSORPTION_EPSILON < target then (False, ''shortfall_risk'')
                 else case current of None \<Rightarrow> (False, ''no_current_slot'')
                 | Some c \<Rightarrow>
                    (let future = map export_price (filter (\<lambda>s. ab_end c \<le> ab_start s \<and> ABSORPTION_EPSILON < absorbable_kwh s) (ab_slots p))
                     in if future = [] then (False, ''no_cheaper_slot_ahead'')
                        else if export_price c - ab_min_saving p < Min (set future) then (False, ''no_material_saving'')
                        else (True, ''cheaper_window_ahead''))))"

section \<open>The cheapest hours\<close>

lemma sum_list_filter_split:
  "sum_list (map f (filter P xs)) + sum_list (map f (filter (\<lambda>x. \<not> P x) xs)) = (sum_list (map f xs) :: rat)"
  by (induction xs) auto

text \<open>The hours gathered hold the target, or all that can absorb; none passed over is cheaper.\<close>

lemma gather_spec:
  "gather target acc ss = xs \<Longrightarrow> set xs \<subseteq> set ss
    \<and> (\<forall>s \<in> set xs. ABSORPTION_EPSILON < absorbable_kwh s)
    \<and> (target - ABSORPTION_EPSILON \<le> acc + sum_list (map absorbable_kwh xs) \<or> (\<forall>s \<in> set ss. ABSORPTION_EPSILON < absorbable_kwh s \<longrightarrow> s \<in> set xs))"
proof (induction target acc ss arbitrary: xs rule: gather.induct)
  case (2 target acc s ss)
  show ?case
  proof (cases "target - ABSORPTION_EPSILON \<le> acc \<or> absorbable_kwh s \<le> ABSORPTION_EPSILON")
    case True
    then show ?thesis using 2(1,3) by (cases "target - ABSORPTION_EPSILON \<le> acc") auto
  next
    case False
    then have "xs = s # gather target (acc + absorbable_kwh s) ss" using 2(3) by simp
    moreover note 2(2) [OF _ _ refl]
    ultimately show ?thesis using False by (auto simp: add.assoc)
  qed
qed simp

lemma gather_subset: "set (gather target acc ss) \<subseteq> set ss"
  using gather_spec [OF refl] by blast

lemma gather_sorted:
  "sorted (map export_price ss) \<Longrightarrow> s \<in> set ss \<Longrightarrow> ABSORPTION_EPSILON < absorbable_kwh s \<Longrightarrow>
     s \<notin> set (gather target acc ss) \<Longrightarrow> x \<in> set (gather target acc ss) \<Longrightarrow> export_price x \<le> export_price s"
proof (induction target acc ss rule: gather.induct)
  case (2 target acc c ss)
  have n: "\<not> target - ABSORPTION_EPSILON \<le> acc" using 2(7) by auto
  show ?case
  proof (cases "absorbable_kwh c \<le> ABSORPTION_EPSILON")
    case True
    then have "s \<in> set ss" using 2(4,5) by auto
    then show ?thesis using 2 n True by auto
  next
    case False
    then have eq: "gather target acc (c # ss) = c # gather target (acc + absorbable_kwh c) ss" using n by simp
    have "s \<in> set ss" using 2(4,6) unfolding eq by auto
    then show ?thesis using 2(2) [OF n False] 2(3,5,6,7) unfolding eq by auto
  qed
qed simp

lemma by_export_price: "sorted (map export_price (sort_key (\<lambda>s. (export_price s, ab_start s)) slots))"
proof -
  have "sorted (map (\<lambda>s. (export_price s, ab_start s)) (sort_key (\<lambda>s. (export_price s, ab_start s)) slots))" by simp
  then show ?thesis by (auto simp: sorted_map less_eq_prod_def elim: sorted_wrt_mono_rel [rotated])
qed

lemma absorbable_nonneg [simp]: "0 \<le> absorbable_kwh s"
  by (simp add: absorbable_kwh_def CHARGE_EFFICIENCY_def)

lemma absorbable_selected [simp]: "absorbable_kwh (s\<lparr>ab_selected := b\<rparr>) = absorbable_kwh s"
  by (simp add: absorbable_kwh_def)

text \<open>A plan whose selected hours are the cheapest that hold its target.\<close>

definition cheapest_plan :: "absorption_plan \<Rightarrow> bool" where
  "cheapest_plan p \<longleftrightarrow>
     ab_target_kwh p \<le> sum_list (map absorbable_kwh (ab_selected_slots p)) + of_nat (length (ab_slots p) + 1) * ABSORPTION_EPSILON
     \<and> ab_selected_slots p = filter ab_selected (ab_slots p)
     \<and> (\<forall>s \<in> set (ab_slots p). \<forall>x \<in> set (ab_selected_slots p).
          ABSORPTION_EPSILON < absorbable_kwh s \<longrightarrow> \<not> ab_selected s \<longrightarrow> export_price x \<le> export_price s)"

lemma schedule_cheapest:
  assumes "ab_status (schedule_absorption p) = AbPlanned" and "ab_status p \<noteq> AbPlanned"
    and "ab_total_kwh p = sum_list (map absorbable_kwh (ab_slots p))"
    and "distinct (map (\<lambda>s. (ab_start s, ab_end s)) (ab_slots p))"
  shows "cheapest_plan (schedule_absorption p) \<and> ab_min_saving (schedule_absorption p) = ab_min_saving p
    \<and> ab_deadline (schedule_absorption p) = ab_deadline p"
proof -
  let ?k = "\<lambda>s. (ab_start s, ab_end s)" and ?t = "ab_target_kwh p"
  let ?ranked = "sort_key (\<lambda>s. (export_price s, ab_start s)) (ab_slots p)"
  let ?g = "gather ?t 0 ?ranked"
  let ?P = "\<lambda>s. ?k s \<in> ?k ` set ?g"
  have n: "\<not> ?t \<le> ABSORPTION_EPSILON" "\<not> ab_total_kwh p + ABSORPTION_EPSILON < ?t"
    using assms(1,2) by (auto simp: schedule_absorption_def Let_def mark_selected_def split: if_splits)
  have sel: "select_absorption_slots (ab_slots p) ?t = sort_key ab_start ?g" using n by (simp add: select_absorption_slots_def)
  have eq: "schedule_absorption p = (mark_selected ?P p)\<lparr>ab_status := AbPlanned, ab_reason := ''absorption_scheduled''\<rparr>"
    using assms(1,2) n by (simp add: schedule_absorption_def sel Let_def split: if_splits)
  have sub: "set ?g \<subseteq> set (ab_slots p)" using gather_spec [OF refl, of ?t 0 ?ranked] by simp
  have key: "?P s \<longleftrightarrow> s \<in> set ?g" if "s \<in> set (ab_slots p)" for s
    using that sub assms(4) by (auto simp: distinct_map dest: inj_onD)
  have slots: "ab_slots (schedule_absorption p) = map (\<lambda>s. s\<lparr>ab_selected := ?P s\<rparr>) (ab_slots p)"
    and sels: "ab_selected_slots (schedule_absorption p) = filter ab_selected (ab_slots (schedule_absorption p))"
    by (simp_all add: eq mark_selected_def Let_def)
  have selset: "ab_selected_slots (schedule_absorption p) = map (\<lambda>s. s\<lparr>ab_selected := True\<rparr>) (filter ?P (ab_slots p))"
    unfolding sels slots by (simp add: filter_map comp_def)
  have dist: "distinct (ab_slots p)" using assms(4) by (simp add: distinct_map)
  have "distinct (gather target acc xs)" if "distinct xs" for target acc xs
    using that by (induction target acc xs rule: gather.induct) (auto dest: subsetD [OF gather_subset])
  then have "distinct ?g" using dist by simp
  moreover have "set (filter ?P (ab_slots p)) = set ?g" using key sub by auto
  ultimately have sums: "sum_list (map absorbable_kwh ?g) = sum_list (map absorbable_kwh (filter ?P (ab_slots p)))"
    using dist by (simp add: sum_list_distinct_conv_sum_set del: set_filter)
  have cover: "?t \<le> sum_list (map absorbable_kwh ?g) + of_nat (length (ab_slots p) + 1) * ABSORPTION_EPSILON"
  proof -
    consider "?t - ABSORPTION_EPSILON \<le> sum_list (map absorbable_kwh ?g)"
      | "\<forall>s \<in> set (ab_slots p). ABSORPTION_EPSILON < absorbable_kwh s \<longrightarrow> s \<in> set ?g"
      using gather_spec [OF refl, of ?t 0 ?ranked] by auto
    then show ?thesis
    proof cases
      case 1
      have "ABSORPTION_EPSILON \<le> of_nat (length (ab_slots p) + 1) * ABSORPTION_EPSILON"
        by (simp add: ABSORPTION_EPSILON_def)
      then show ?thesis using 1 by linarith
    next
      case 2
      then have "sum_list (map absorbable_kwh (filter (\<lambda>s. \<not> ?P s) (ab_slots p)))
          \<le> sum_list (map (\<lambda>_. ABSORPTION_EPSILON) (filter (\<lambda>s. \<not> ?P s) (ab_slots p)))"
        using key by (intro sum_list_mono_map) force
      also have "\<dots> = of_nat (length (filter (\<lambda>s. \<not> ?P s) (ab_slots p))) * ABSORPTION_EPSILON"
        by (simp add: sum_list_triv)
      also have "\<dots> \<le> of_nat (length (ab_slots p)) * ABSORPTION_EPSILON"
        by (intro mult_right_mono) (simp_all add: ABSORPTION_EPSILON_def)
      finally have "sum_list (map absorbable_kwh (ab_slots p))
          \<le> sum_list (map absorbable_kwh ?g) + of_nat (length (ab_slots p)) * ABSORPTION_EPSILON"
        using sum_list_filter_split [of absorbable_kwh ?P "ab_slots p"] unfolding sums by linarith
      then show ?thesis using n(2) assms(3) by (simp add: distrib_right)
    qed
  qed
  have cheap: "export_price x \<le> export_price s"
    if "s \<in> set (ab_slots p)" "ABSORPTION_EPSILON < absorbable_kwh s" "\<not> ?P s" "x \<in> set ?g" for s x
    using that key gather_sorted [OF by_export_price, of s "ab_slots p" ?t 0 x] by simp
  have "export_price y \<le> export_price (s\<lparr>ab_selected := ?P s\<rparr>)"
    if "s \<in> set (ab_slots p)" "ABSORPTION_EPSILON < absorbable_kwh s" "\<not> ?P s"
      and y: "y \<in> set (ab_selected_slots (schedule_absorption p))" for s y
  proof -
    note cheap = cheap [OF that(1) that(2) that(3)]
    obtain x where "x \<in> set (ab_slots p)" "?P x" "y = x\<lparr>ab_selected := True\<rparr>" using y unfolding selset by auto
    then show ?thesis using cheap key by simp
  qed
  then have "\<forall>s \<in> set (ab_slots (schedule_absorption p)). \<forall>x \<in> set (ab_selected_slots (schedule_absorption p)).
      ABSORPTION_EPSILON < absorbable_kwh s \<longrightarrow> \<not> ab_selected s \<longrightarrow> export_price x \<le> export_price s"
    unfolding slots by (simp add: ball_simps)
  moreover have "sum_list (map absorbable_kwh (ab_selected_slots (schedule_absorption p))) = sum_list (map absorbable_kwh ?g)"
    unfolding selset sums by (simp add: comp_def)
  moreover have "length (ab_slots (schedule_absorption p)) = length (ab_slots p)" unfolding slots by simp
  ultimately have "cheapest_plan (schedule_absorption p)"
    using cover sels unfolding cheapest_plan_def by (simp add: eq mark_selected_def Let_def)
  then show ?thesis by (simp add: eq mark_selected_def Let_def)
qed

lemma absorption_slots_distinct:
  assumes "distinct (map (\<lambda>s. (slot_start s, slot_end s)) price_slots)"
  shows "distinct (map (\<lambda>s. (ab_start s, ab_end s)) (absorption_slots price_slots surplus charge_power now due))"
  unfolding absorption_slots_def
  by (rule distinct_map_option_filter [where g = "\<lambda>s. (slot_start s, slot_end s)"])
    (auto simp: distinct_sort_key List.distinct_map_filter assms Let_def split: pyfloat.splits)

lemma planned_by_schedule:
  assumes "ab_status (plan_surplus_absorption i now) = AbPlanned"
    and "distinct (map (\<lambda>s. (slot_start s, slot_end s)) (in_prices i))"
  shows "\<exists>q. plan_surplus_absorption i now = schedule_absorption q \<and> ab_status q = AbDisabled
    \<and> ab_total_kwh q = sum_list (map absorbable_kwh (ab_slots q))
    \<and> distinct (map (\<lambda>s. (ab_start s, ab_end s)) (ab_slots q)) \<and> ab_deadline q = in_deadline i
    \<and> ab_deadline q \<noteq> None \<and> 0 \<le> ab_min_saving q"
  using assms
  by (auto simp: plan_surplus_absorption_def Let_def absorption_slots_distinct split: option.splits if_splits
      intro!: exI [of _ "_ :: absorption_plan"])

lemma hold_means:
  assumes "hold_decision (Some p) now live = (True, why)"
  shows "ab_status p = AbPlanned \<and> (\<forall>due. ab_deadline p = Some due \<longrightarrow> now < due)
    \<and> (case finite_val live of Some x \<Rightarrow> x | None \<Rightarrow> ab_target_kwh p) \<le> remaining_absorbable_kwh p now + ABSORPTION_EPSILON
    \<and> (\<exists>c. slot_at p now = Some c \<and> \<not> ab_selected c
        \<and> (\<exists>u \<in> set (ab_slots p). ab_end c \<le> ab_start u \<and> ABSORPTION_EPSILON < absorbable_kwh u
            \<and> export_price u + ab_min_saving p \<le> export_price c))"
proof -
  obtain c where c: "slot_at p now = Some c" "\<not> ab_selected c"
    using assms by (auto simp: hold_decision_def Let_def split: option.splits if_splits)
  let ?f = "filter (\<lambda>s. ab_end c \<le> ab_start s \<and> ABSORPTION_EPSILON < absorbable_kwh s) (ab_slots p)"
  have f: "map export_price ?f \<noteq> []" "Min (set (map export_price ?f)) \<le> export_price c - ab_min_saving p"
    using assms c by (auto simp: hold_decision_def Let_def split: option.splits if_splits)
  have "Min (set (map export_price ?f)) \<in> set (map export_price ?f)" using f(1) by (intro Min_in) (simp_all only: finite_set set_empty not_False_eq_True)
  then obtain u where "u \<in> set ?f" "export_price u \<le> export_price c - ab_min_saving p" using f(2) by auto
  then show ?thesis using assms c
    by (auto simp: hold_decision_def Let_def not_less split: option.splits if_splits intro!: bexI [of _ u])
qed

text \<open>
  C6. A hold of the surplus charge is safe, for every plan the planner makes: it ends before the
  deadline, the selected hours ahead still hold the live target, the plan covers its own target
  up to rounding, and the hour held back is not selected while a later hour that can absorb has
  an export price lower by at least the configured saving (zero or more). If the hour held back
  could absorb anything itself, no selected hour has a higher export price than it.
\<close>

theorem hold_is_safe:
  assumes "plan_surplus_absorption i planned_at = p" and "distinct (map (\<lambda>s. (slot_start s, slot_end s)) (in_prices i))"
    and "hold_decision (Some p) now live = (True, why)"
  shows "(case ab_deadline p of None \<Rightarrow> False | Some due \<Rightarrow> now < due)
    \<and> (case finite_val live of Some x \<Rightarrow> x | None \<Rightarrow> ab_target_kwh p) \<le> remaining_absorbable_kwh p now + ABSORPTION_EPSILON
    \<and> ab_target_kwh p \<le> sum_list (map absorbable_kwh (ab_selected_slots p)) + of_nat (length (ab_slots p) + 1) * ABSORPTION_EPSILON
    \<and> (case slot_at p now of None \<Rightarrow> False
       | Some c \<Rightarrow> \<not> ab_selected c
           \<and> 0 \<le> ab_min_saving p
           \<and> list_ex (\<lambda>u. ab_end c \<le> ab_start u \<and> ABSORPTION_EPSILON < absorbable_kwh u
               \<and> export_price u + ab_min_saving p \<le> export_price c) (ab_slots p)
           \<and> (ABSORPTION_EPSILON < absorbable_kwh c \<longrightarrow> list_all (\<lambda>x. export_price x \<le> export_price c) (ab_selected_slots p)))"
proof -
  note hold = hold_means [OF assms(3)]
  obtain q where q: "p = schedule_absorption q" "ab_status q = AbDisabled" "ab_total_kwh q = sum_list (map absorbable_kwh (ab_slots q))"
    "distinct (map (\<lambda>s. (ab_start s, ab_end s)) (ab_slots q))" "ab_deadline q \<noteq> None" "0 \<le> ab_min_saving q"
  proof -
    have "ab_status (plan_surplus_absorption i planned_at) = AbPlanned" unfolding assms(1) using hold by (rule conjunct1)
    from planned_by_schedule [OF this assms(2)] show thesis unfolding assms(1) using that by blast
  qed
  have cheap: "cheapest_plan p" "ab_deadline p \<noteq> None" "0 \<le> ab_min_saving p"
    using schedule_cheapest [of q] hold q by auto
  obtain c where c: "slot_at p now = Some c" "\<not> ab_selected c"
    "\<exists>u \<in> set (ab_slots p). ab_end c \<le> ab_start u \<and> ABSORPTION_EPSILON < absorbable_kwh u
      \<and> export_price u + ab_min_saving p \<le> export_price c" using hold by blast
  have "c \<in> set (ab_slots p)" using c(1) by (auto simp: slot_at_def find_Some_iff)
  then show ?thesis using cheap hold c unfolding cheapest_plan_def by (auto simp: list_ex_iff list_all_iff)
qed

definition sunny_input :: absorption_input where
  "sunny_input = \<lparr>in_prices = [\<lparr>slot_start = 0, slot_end = 3600, slot_price = Fin (3 / 10)\<rparr>,
       \<lparr>slot_start = 3600, slot_end = 7200, slot_price = Fin (1 / 10)\<rparr>],
     in_surplus = [(\<lparr>slot_start = 0, slot_end = 3600, slot_price = Fin (3 / 10)\<rparr>, VFloat (Fin 2)),
       (\<lparr>slot_start = 3600, slot_end = 7200, slot_price = Fin (1 / 10)\<rparr>, VFloat (Fin 2))],
     in_batteries = [\<lparr>snap_name = ''a'', soc_pct = VInt 50, capacity_kwh = VFloat (Fin 5), max_soc_pct = VInt 100,
       floor_soc_pct = VInt 10, max_discharge_power_w = VInt 2500, eligible = True, can_discharge = True\<rparr>],
     in_remaining = VFloat (Fin 3), in_usable = VFloat (Fin 2), in_margin = VInt 0, in_max_power = VInt 2500,
     in_deadline = Some 7200, in_saving = VFloat (Fin (5 / 100))\<rparr>"

lemma hold_is_safe_witness:
  "1 \<le> remaining_absorbable_kwh (plan_surplus_absorption sunny_input 0) 1800 + ABSORPTION_EPSILON"
proof -
  have "hold_decision (Some (plan_surplus_absorption sunny_input 0)) 1800 (VFloat (Fin 1)) = (True, ''cheaper_window_ahead'')"
    by code_simp
  from hold_is_safe [OF refl _ this] show ?thesis by (simp add: sunny_input_def finite_val_def)
qed

text \<open>A hold only delays: as soon as the live target outgrows the hours ahead, it drops.\<close>

lemma shortfall_releases:
  "remaining_absorbable_kwh p now + ABSORPTION_EPSILON < x \<Longrightarrow> \<not> fst (hold_decision (Some p) now (VFloat (Fin x)))"
  by (auto simp: hold_decision_def finite_val_def Let_def split: option.split)

end
