(* ===== verification/Curtailment.thy ===== *)
theory Curtailment
  imports Price_Base
begin

text \<open>
  The anti-curtailment planner, \<open>pricing/curtailment.py\<close>: the forecasts per slot, the
  negative-price windows in which the sun needs room in the batteries, and the dear slots
  before them in which the batteries are discharged to make that room. A price slot with
  a finite price is a \<open>tariff_slot\<close>.
\<close>

definition CURTAILMENT_EPSILON :: rat where "CURTAILMENT_EPSILON = 1 / 1000000"

datatype export_mode = SelfConsumption | Automatic | Custom

section \<open>Export mode and space\<close>

definition underscore :: "char \<Rightarrow> char" where
  "underscore c = (if c = CHR ''-'' \<or> c = CHR '' '' then CHR ''_'' else c)"

definition normalize_export_mode :: "string option \<Rightarrow> pyval \<Rightarrow> export_mode" where
  "normalize_export_mode mode max_export =
     (let legacy = (case finite_val max_export of Some x \<Rightarrow> if CURTAILMENT_EPSILON < x then Custom else SelfConsumption
                      | None \<Rightarrow> SelfConsumption)
      in case mode of None \<Rightarrow> legacy
         | Some m \<Rightarrow>
           (let value = map (\<lambda>c. underscore (to_lower c)) (py_strip m) in
            if value \<in> set [''self_consumption'', ''selfconsume'', ''self_consumption_only'', ''solo_autoconsumo'',
                 ''autoconsumo'', ''zero''] then SelfConsumption
            else if value \<in> set [''automatic'', ''auto'', ''automatico'', ''autom'' @ [CHR 0xE1] @ ''tico''] then Automatic
            else if value \<in> set [''custom'', ''custom_limit'', ''custom_limit_w'', ''limite_personalizado'',
                 ''l'' @ [CHR 0xED] @ ''mite_personalizado''] then Custom
            else legacy))"

definition calculate_opportunistic_space_kwh :: "rat \<Rightarrow> rat \<Rightarrow> rat" where
  "calculate_opportunistic_space_kwh free reserve = max 0 (max 0 free - max 0 reserve)"

section \<open>Forecasts per slot\<close>

text \<open>
  The solar model is a cumulative fraction of the day's production by hour; \<open>None\<close> is a
  model that raises or returns no finite number. Times of day keep whole seconds.
\<close>

type_synonym fraction_fn = "(rat \<Rightarrow> rat option) option"

definition hour_of_day :: "time \<Rightarrow> rat" where
  "hour_of_day t = of_int (\<lfloor>t\<rfloor> mod 86400) / 3600"

definition day_of :: "time \<Rightarrow> int" where
  "day_of t = \<lfloor>t\<rfloor> div 86400"

definition unit_clamp :: "rat \<Rightarrow> rat" where
  "unit_clamp x = max 0 (min 1 x)"

definition cumulative_share :: "fraction_fn \<Rightarrow> time \<Rightarrow> time \<Rightarrow> rat" where
  "cumulative_share fraction start finish =
     (case fraction of None \<Rightarrow> 0
      | Some f \<Rightarrow>
        (let days = day_of finish - day_of start;
             end_hour = hour_of_day finish + (if 0 < days then 24 * of_int days else 0)
         in case (f (hour_of_day start), f end_hour) of
              (Some a, Some b) \<Rightarrow> max 0 (min 1 b - unit_clamp a)
            | _ \<Rightarrow> 0))"

definition slot_duration :: "tariff_slot \<Rightarrow> rat" where
  "slot_duration s = hours_between (t_start s) (t_end s)"

definition dict_of :: "('k \<Rightarrow> 'v) \<Rightarrow> 'k list \<Rightarrow> ('k, 'v) dict" where
  "dict_of f ks = fold (\<lambda>k d. AList.update k (f k) d) ks []"

definition slot_shares :: "fraction_fn \<Rightarrow> tariff_slot list \<Rightarrow> (tariff_slot, rat) dict" where
  "slot_shares fraction slots = dict_of (\<lambda>s. cumulative_share fraction (t_start s) (t_end s)) slots"

definition distribute_solar_forecast :: "tariff_slot list \<Rightarrow> pyval \<Rightarrow> fraction_fn \<Rightarrow> bool \<Rightarrow> (tariff_slot, rat) dict" where
  "distribute_solar_forecast slots forecast fraction normalize_future =
     (case finite_val forecast of
        None \<Rightarrow> dict_of (\<lambda>_. 0) slots
      | Some kwh \<Rightarrow>
        if kwh \<le> 0 \<or> slots = [] then dict_of (\<lambda>_. 0) slots
        else if fraction \<noteq> None
        then (let shares = slot_shares fraction slots; total_share = sum_list (map snd shares) in
              if CURTAILMENT_EPSILON < total_share
              then (if normalize_future then map (\<lambda>(s, x). (s, kwh * x / total_share)) shares
                    else map (\<lambda>(s, x). (s, kwh * x)) shares)
              else dict_of (\<lambda>_. 0) slots)
        else (let total_hours = sum_list (map slot_duration slots) in
              if total_hours \<le> CURTAILMENT_EPSILON then dict_of (\<lambda>_. 0) slots
              else dict_of (\<lambda>s. kwh * slot_duration s / total_hours) slots))"

definition estimate_consumption_by_slot :: "tariff_slot list \<Rightarrow> pyval \<Rightarrow> fraction_fn \<Rightarrow> bool \<Rightarrow> (tariff_slot, rat) dict" where
  "estimate_consumption_by_slot slots daily fraction normalize_future =
     (case finite_val daily of
        None \<Rightarrow> dict_of (\<lambda>_. 0) slots
      | Some kwh \<Rightarrow>
        if kwh \<le> 0 then dict_of (\<lambda>_. 0) slots
        else (let shares = slot_shares fraction slots; total_share = sum_list (map snd shares) in
          if fraction \<noteq> None \<and> CURTAILMENT_EPSILON < total_share
          then map (\<lambda>(s, x). (s, kwh * x / total_share)) shares
          else (let total_hours = sum_list (map slot_duration slots) in
            if total_hours \<le> CURTAILMENT_EPSILON then dict_of (\<lambda>_. 0) slots
            else dict_of (\<lambda>s. kwh * slot_duration s / (if normalize_future then total_hours else 24)) slots)))"

section \<open>Blocks\<close>

function chunks :: "nat \<Rightarrow> 'a list \<Rightarrow> 'a list list" where
  "chunks n xs = (if n = 0 \<or> xs = [] then [] else take n xs # chunks n (drop n xs))"
  by pat_completeness auto
termination by (relation "measure (\<lambda>(n, xs). length xs)") auto

declare chunks.simps [simp del]

type_synonym block_run = "tariff_slot list list \<times> tariff_slot list \<times> rat"

definition block_length :: "rat \<Rightarrow> nat" where
  "block_length duration = (if CURTAILMENT_EPSILON < duration then nat (max 1 (py_round (1 / duration))) else 1)"

text \<open>The run of contiguous slots of one duration; a new slot may close it.\<close>

definition flush_run :: "block_run \<Rightarrow> tariff_slot list list" where
  "flush_run st = (let (blocks, slots, duration) = st in blocks @ chunks (block_length duration) slots)"

definition block_step :: "tariff_slot \<Rightarrow> block_run \<Rightarrow> block_run" where
  "block_step s st =
     (let (blocks, slots, duration) = st; d = slot_duration s in
      if slots = [] then (blocks, [s], d)
      else if \<bar>t_start s - t_end (last slots)\<bar> < 1 \<and> \<bar>d - duration\<bar> < CURTAILMENT_EPSILON
      then (blocks, slots @ [s], duration)
      else (flush_run st, [s], d))"

definition make_blocks :: "tariff_slot list \<Rightarrow> tariff_slot list list" where
  "make_blocks slots = flush_run (fold block_step (sort_key t_start slots) ([], [], 0))"

section \<open>The most valuable slots\<close>

record discharge_slot =
  ds_start :: time
  ds_end :: time
  ds_price :: rat
  ds_energy_kwh :: rat
  ds_power_w :: rat
  ds_export_w :: rat

definition block_value :: "tariff_slot list \<Rightarrow> rat \<times> time" where
  "block_value block =
     (sum_list (map (\<lambda>s. t_price s * slot_duration s) block) / sum_list (map slot_duration block), t_end (last block))"

definition discharge_capacity :: "rat \<Rightarrow> (tariff_slot, rat) dict option \<Rightarrow> tariff_slot \<Rightarrow> rat" where
  "discharge_capacity watts available s =
     (let by_power = max 0 watts * slot_duration s / 1000
      in case available of None \<Rightarrow> by_power | Some d \<Rightarrow> min by_power (max 0 (dict_get 0 d s)))"

definition plan_slot :: "rat \<Rightarrow> rat \<Rightarrow> tariff_slot \<Rightarrow> discharge_slot" where
  "plan_slot energy export s = \<lparr>ds_start = t_start s, ds_end = t_end s, ds_price = t_price s, ds_energy_kwh = energy,
     ds_power_w = (if CURTAILMENT_EPSILON < slot_duration s then energy / slot_duration s * 1000 else 0), ds_export_w = export\<rparr>"

fun pick_blocks :: "(tariff_slot \<Rightarrow> rat) \<Rightarrow> rat \<Rightarrow> rat \<Rightarrow> tariff_slot list list \<Rightarrow> discharge_slot list" where
  "pick_blocks cap export remaining [] = []"
| "pick_blocks cap export remaining (block # blocks) =
     (if remaining \<le> CURTAILMENT_EPSILON then []
      else (let caps = dict_of cap block; block_energy = sum_list (map snd caps); allocated = min remaining block_energy in
        if block_energy \<le> CURTAILMENT_EPSILON then pick_blocks cap export remaining blocks
        else map (\<lambda>s. plan_slot (allocated * cap s / block_energy) export s) (filter (\<lambda>s. CURTAILMENT_EPSILON < cap s) block)
             @ pick_blocks cap export (remaining - allocated) blocks))"

definition select_most_valuable_discharge_slots :: "tariff_slot list \<Rightarrow> rat \<Rightarrow> rat \<Rightarrow> pyval \<Rightarrow> string option
    \<Rightarrow> (tariff_slot, rat) dict option \<Rightarrow> discharge_slot list" where
  "select_most_valuable_discharge_slots candidates needed watts max_export mode available =
     (if needed \<le> CURTAILMENT_EPSILON \<or> watts \<le> CURTAILMENT_EPSILON then []
      else (let export = (if normalize_export_mode mode max_export = Custom then positive max_export else 0);
                blocks = filter (\<lambda>b. CURTAILMENT_EPSILON < sum_list (map slot_duration b)) (make_blocks candidates);
                ranked = sort_key (\<lambda>b. (- fst (block_value b), - snd (block_value b))) blocks
            in sort_key ds_start (pick_blocks (discharge_capacity watts available) export needed ranked)))"

section \<open>The plan\<close>

record live_battery =
  lb_name :: string
  lb_soc :: rat
  lb_capacity :: rat
  lb_max_soc :: rat
  lb_floor :: rat
  lb_discharge_w :: rat
  lb_can_discharge :: bool

text \<open>A snapshot that passes \<open>_invalid_battery\<close>, as numbers.\<close>

definition valid_battery :: "snapshot \<Rightarrow> live_battery option" where
  "valid_battery b =
     (if \<not> eligible b then None
      else case (finite_val (soc_pct b), finite_val (capacity_kwh b), finite_val (max_soc_pct b), finite_val (floor_soc_pct b),
          finite_val (max_discharge_power_w b)) of
        (Some soc, Some cap, Some hi, Some low, Some watts) \<Rightarrow>
          (if 0 < cap \<and> low \<le> hi \<and> 0 \<le> watts
           then Some \<lparr>lb_name = snap_name b, lb_soc = soc, lb_capacity = cap, lb_max_soc = hi, lb_floor = low,
             lb_discharge_w = watts, lb_can_discharge = can_discharge b\<rparr> else None)
      | _ \<Rightarrow> None)"

datatype curtailment_status = CuDisabled | CuFailSafe | CuNoRisk | CuProtected | CuShortfall | CuPlanned

record curtailment_plan =
  cu_status :: curtailment_status
  cu_reason :: string
  risk_slots :: "tariff_slot list"
  selected_discharge_slots :: "discharge_slot list"
  required_headroom_kwh :: rat
  current_headroom_kwh :: rat
  planned_discharge_kwh :: rat
  cu_shortfall_kwh :: rat
  target_soc_by_battery :: "(string, rat) dict"
  solar_surplus_kwh :: rat
  solar_reserve_remaining_kwh :: rat
  opportunistic_space_kwh :: rat
  opportunistic_reason :: string
  cu_export_mode :: export_mode
  cu_export_limit_w :: rat
  solar_reserve_by_slot :: "(tariff_slot, rat) dict"
  cu_solar_by_slot :: "(tariff_slot, rat) dict"
  cu_consumption_by_slot :: "(tariff_slot, rat) dict"
  headroom_margin_kwh :: rat

record curtailment_input =
  ci_prices :: "price_slot list"
  ci_solar_kwh :: pyval
  ci_consumption_kwh :: pyval
  ci_batteries :: "snapshot list"
  ci_threshold :: pyval
  ci_reserve_soc :: rat
  ci_margin :: pyval
  ci_charge_w :: pyval
  ci_max_export :: pyval
  ci_export_mode :: "string option"
  ci_solar_fraction :: fraction_fn
  ci_solar_remaining :: bool
  ci_consumption_remaining :: bool
  ci_consumption_fraction :: fraction_fn
  ci_solar_by_slot :: "(tariff_slot, rat) dict"
  ci_consumption_by_slot :: "(tariff_slot, rat) dict"
  ci_reserved :: "tariff_slot list"

definition valid_price_slots :: "price_slot list \<Rightarrow> tariff_slot list" where
  "valid_price_slots slots = List.map_filter (\<lambda>s. case slot_price s of
       Fin p \<Rightarrow> if slot_start s < slot_end s then Some \<lparr>t_start = slot_start s, t_end = slot_end s, t_price = p\<rparr> else None
     | _ \<Rightarrow> None) slots"

definition slot_surplus :: "(tariff_slot, rat) dict \<Rightarrow> (tariff_slot, rat) dict \<Rightarrow> tariff_slot \<Rightarrow> rat" where
  "slot_surplus solar consumption s = max 0 (max 0 (dict_get 0 solar s) - max 0 (dict_get 0 consumption s))"

definition at_risk :: "(tariff_slot, rat) dict \<Rightarrow> (tariff_slot, rat) dict \<Rightarrow> rat \<Rightarrow> tariff_slot \<Rightarrow> bool" where
  "at_risk solar consumption threshold s = (t_price s \<le> threshold \<and> CURTAILMENT_EPSILON < slot_surplus solar consumption s)"

definition slot_reserve :: "(tariff_slot, rat) dict \<Rightarrow> (tariff_slot, rat) dict \<Rightarrow> rat \<Rightarrow> tariff_slot \<Rightarrow> rat" where
  "slot_reserve solar consumption charge_w s =
     min (slot_surplus solar consumption s) (charge_w * slot_duration s / 1000) * CHARGE_EFFICIENCY"

definition headroom_of :: "live_battery list \<Rightarrow> rat" where
  "headroom_of bs = sum_list (map (\<lambda>b. max 0 ((lb_max_soc b - lb_soc b) / 100 * lb_capacity b)) bs)"

definition overlaps :: "tariff_slot \<Rightarrow> tariff_slot \<Rightarrow> bool" where
  "overlaps a b = (t_start a < t_end b \<and> t_start b < t_end a)"

definition battery_energy :: "rat \<Rightarrow> live_battery \<Rightarrow> rat" where
  "battery_energy reserve b = max 0 ((lb_soc b - max (lb_floor b) reserve) / 100 * lb_capacity b)"

text \<open>What the batteries have above floor and reserve, by name.\<close>

definition energy_by_battery :: "rat \<Rightarrow> live_battery list \<Rightarrow> (string, rat) dict" where
  "energy_by_battery reserve bs = fold (\<lambda>b d. AList.update (lb_name b) (battery_energy reserve b) d) bs []"

definition battery_allocation :: "rat \<Rightarrow> rat \<Rightarrow> rat \<Rightarrow> rat \<Rightarrow> rat" where
  "battery_allocation planned available remaining energy =
     (let share = (if available \<le> CURTAILMENT_EPSILON then 0 else planned * energy / available)
      in min energy (min (max 0 share) remaining))"

definition battery_target :: "rat \<Rightarrow> live_battery \<Rightarrow> rat \<Rightarrow> rat" where
  "battery_target reserve b allocation =
     max (max (lb_floor b) reserve) (lb_soc b - allocation / lb_capacity b * 100)"

text \<open>The targets: every battery gives in proportion to what it has above its floor.\<close>

fun battery_targets :: "rat \<Rightarrow> rat \<Rightarrow> rat \<Rightarrow> (string, rat) dict \<Rightarrow> rat \<Rightarrow> live_battery list \<Rightarrow> (string \<times> rat) list" where
  "battery_targets reserve planned available energies remaining [] = []"
| "battery_targets reserve planned available energies remaining (b # bs) =
     (let allocation = battery_allocation planned available remaining (dict_get 0 energies (lb_name b))
      in (lb_name b, battery_target reserve b allocation)
           # battery_targets reserve planned available energies (remaining - allocation) bs)"

definition discharge_candidates :: "tariff_slot list \<Rightarrow> rat \<Rightarrow> tariff_slot list \<Rightarrow> tariff_slot list \<Rightarrow> tariff_slot list" where
  "discharge_candidates slots threshold risks reserved =
     filter (\<lambda>s. threshold < t_price s \<and> \<not> list_ex (overlaps s) risks \<and> \<not> list_ex (overlaps s) reserved
       \<and> t_end s \<le> Min (t_start ` set risks)) slots"

definition able_batteries :: "live_battery list \<Rightarrow> live_battery list" where
  "able_batteries bs = filter (\<lambda>b. lb_can_discharge b \<and> CURTAILMENT_EPSILON < lb_discharge_w b) bs"

definition mode_name :: "export_mode \<Rightarrow> string" where
  "mode_name m = (case m of SelfConsumption \<Rightarrow> ''self_consumption'' | Automatic \<Rightarrow> ''automatic'' | Custom \<Rightarrow> ''custom'')"

text \<open>The household's net load, and what the export mode may deliberately export.\<close>

definition slot_outlet :: "curtailment_plan \<Rightarrow> (tariff_slot, rat) dict \<Rightarrow> (tariff_slot, rat) dict \<Rightarrow> rat \<Rightarrow> tariff_slot \<Rightarrow> rat" where
  "slot_outlet p solar consumption watts s =
     max 0 (dict_get 0 consumption s - dict_get 0 solar s)
     + (if cu_export_mode p = Automatic then watts else cu_export_limit_w p) * slot_duration s / 1000"

definition predischarge_slots :: "curtailment_plan \<Rightarrow> (tariff_slot, rat) dict \<Rightarrow> (tariff_slot, rat) dict \<Rightarrow> rat \<Rightarrow> rat
    \<Rightarrow> tariff_slot list \<Rightarrow> discharge_slot list" where
  "predischarge_slots p solar consumption watts needed candidates =
     select_most_valuable_discharge_slots candidates needed watts (VFloat (Fin (cu_export_limit_w p)))
       (Some (mode_name (cu_export_mode p))) (Some (dict_of (slot_outlet p solar consumption watts) candidates))"

text \<open>The last stage: the batteries hold too little room for the sun, and are discharged.\<close>

definition plan_predischarge :: "curtailment_input \<Rightarrow> (tariff_slot, rat) dict \<Rightarrow> (tariff_slot, rat) dict \<Rightarrow> tariff_slot list \<Rightarrow> rat
    \<Rightarrow> live_battery list \<Rightarrow> curtailment_plan \<Rightarrow> curtailment_plan" where
  "plan_predischarge i solar consumption slots threshold batteries p =
     (let extra = required_headroom_kwh p - current_headroom_kwh p;
          reserve = max 0 (ci_reserve_soc i);
          able = able_batteries batteries;
          energies = energy_by_battery reserve able;
          available = sum_list (map snd energies);
          selected = predischarge_slots p solar consumption (sum_list (map lb_discharge_w able)) (min extra available)
            (discharge_candidates slots threshold (risk_slots p) (ci_reserved i));
          planned = min (min extra available) (sum_list (map ds_energy_kwh selected));
          missing = max 0 (extra - planned);
          space = calculate_opportunistic_space_kwh (current_headroom_kwh p + planned) (solar_reserve_remaining_kwh p)
      in p\<lparr>selected_discharge_slots := selected, planned_discharge_kwh := planned, cu_shortfall_kwh := missing,
           cu_status := (if CURTAILMENT_EPSILON < missing then CuShortfall else CuPlanned),
           cu_reason := (if CURTAILMENT_EPSILON < missing then ''insufficient_pre_discharge_power_or_slots'' else ''headroom_required''),
           target_soc_by_battery := fold (\<lambda>(n, t). AList.update n t)
             (battery_targets reserve planned available energies planned able) [],
           opportunistic_space_kwh := space,
           opportunistic_reason := (if CURTAILMENT_EPSILON < space then ''solar_reserve_space_available''
             else if CURTAILMENT_EPSILON < missing then ''solar_reserve_shortfall'' else ''solar_reserve_protected'')\<rparr>)"

text \<open>The room the sun needs, with the configured margin.\<close>

definition with_margin :: "rat \<Rightarrow> curtailment_plan \<Rightarrow> curtailment_plan" where
  "with_margin margin p =
     (let required = required_headroom_kwh p + margin;
          space = calculate_opportunistic_space_kwh (current_headroom_kwh p) required
      in p\<lparr>required_headroom_kwh := required, headroom_margin_kwh := margin, solar_reserve_remaining_kwh := required,
           opportunistic_space_kwh := space,
           opportunistic_reason := (if space \<le> CURTAILMENT_EPSILON then ''solar_reserve_protected''
             else ''solar_reserve_space_available'')\<rparr>)"

text \<open>The stage before: the window of risk is known, is there room for it?\<close>

definition plan_headroom :: "curtailment_input \<Rightarrow> (tariff_slot, rat) dict \<Rightarrow> (tariff_slot, rat) dict \<Rightarrow> tariff_slot list \<Rightarrow> rat
    \<Rightarrow> live_battery list \<Rightarrow> curtailment_plan \<Rightarrow> curtailment_plan" where
  "plan_headroom i solar consumption slots threshold batteries p =
     (let room = current_headroom_kwh p in
      if risk_slots p = []
      then p\<lparr>solar_reserve_remaining_kwh := 0, opportunistic_space_kwh := calculate_opportunistic_space_kwh room 0,
             opportunistic_reason := ''no_solar_risk_reserve'', cu_status := CuNoRisk, cu_reason := ''no_negative_injection_window''\<rparr>
      else case finite_val (ci_margin i) of
        None \<Rightarrow> p\<lparr>cu_status := CuFailSafe, cu_reason := ''invalid_headroom_margin''\<rparr>
      | Some m \<Rightarrow>
        (let q = with_margin (min (max 0 m) (sum_list (map lb_capacity batteries))) p
         in if required_headroom_kwh q \<le> room + CURTAILMENT_EPSILON
            then q\<lparr>cu_status := CuProtected, cu_reason := ''headroom_sufficient'',
                   target_soc_by_battery := fold (\<lambda>b. AList.update (lb_name b) (lb_soc b)) batteries []\<rparr>
            else plan_predischarge i solar consumption slots threshold batteries q))"

definition empty_plan :: "export_mode \<Rightarrow> rat \<Rightarrow> curtailment_plan" where
  "empty_plan mode limit = \<lparr>cu_status = CuDisabled, cu_reason = ''disabled'', risk_slots = [], selected_discharge_slots = [],
     required_headroom_kwh = 0, current_headroom_kwh = 0, planned_discharge_kwh = 0, cu_shortfall_kwh = 0,
     target_soc_by_battery = [], solar_surplus_kwh = 0, solar_reserve_remaining_kwh = 0, opportunistic_space_kwh = 0,
     opportunistic_reason = ''not_calculated'', cu_export_mode = mode, cu_export_limit_w = limit, solar_reserve_by_slot = [],
     cu_solar_by_slot = [], cu_consumption_by_slot = [], headroom_margin_kwh = 0\<rparr>"

definition solar_of :: "curtailment_input \<Rightarrow> tariff_slot list \<Rightarrow> (tariff_slot, rat) dict" where
  "solar_of i slots = (if ci_solar_by_slot i \<noteq> [] then ci_solar_by_slot i
     else distribute_solar_forecast slots (ci_solar_kwh i) (ci_solar_fraction i) (ci_solar_remaining i))"

definition consumption_of :: "curtailment_input \<Rightarrow> tariff_slot list \<Rightarrow> (tariff_slot, rat) dict" where
  "consumption_of i slots = (if ci_consumption_by_slot i \<noteq> [] then ci_consumption_by_slot i
     else estimate_consumption_by_slot slots (ci_consumption_kwh i) (ci_consumption_fraction i) (ci_consumption_remaining i))"

definition plan_risk :: "(tariff_slot, rat) dict \<Rightarrow> (tariff_slot, rat) dict \<Rightarrow> tariff_slot list \<Rightarrow> rat \<Rightarrow> rat
    \<Rightarrow> live_battery list \<Rightarrow> curtailment_plan \<Rightarrow> curtailment_plan" where
  "plan_risk solar consumption slots threshold charge_w batteries p =
     (let risks = filter (at_risk solar consumption threshold) slots
      in p\<lparr>risk_slots := risks,
           solar_surplus_kwh := sum_list (map (slot_surplus solar consumption) risks),
           required_headroom_kwh := sum_list (map (slot_reserve solar consumption charge_w) risks),
           solar_reserve_by_slot := dict_of (slot_reserve solar consumption charge_w) risks,
           cu_solar_by_slot := dict_of (\<lambda>s. max 0 (dict_get 0 solar s)) slots,
           cu_consumption_by_slot := dict_of (\<lambda>s. max 0 (dict_get 0 consumption s)) slots,
           current_headroom_kwh := headroom_of batteries\<rparr>)"

definition plan_curtailment :: "curtailment_input \<Rightarrow> time \<Rightarrow> curtailment_plan" where
  "plan_curtailment i now =
     (let mode = normalize_export_mode (ci_export_mode i) (ci_max_export i);
          limit = (if mode = Custom then positive (ci_max_export i) else 0);
          plan = empty_plan mode limit;
          fail_safe = (\<lambda>reason. plan\<lparr>cu_status := CuFailSafe, cu_reason := reason\<rparr>);
          valid = valid_price_slots (ci_prices i);
          slots = sort_key t_start (filter (\<lambda>s. now < t_end s) valid);
          batteries = List.map_filter valid_battery (ci_batteries i)
      in if ci_prices i = [] then fail_safe ''missing_prices''
         else if finite_val (ci_solar_kwh i) = None then fail_safe ''missing_solar_forecast''
         else if finite_val (ci_consumption_kwh i) = None then fail_safe ''missing_consumption''
         else if slots = [] then fail_safe (if valid \<noteq> [] then ''no_future_slots'' else ''invalid_or_missing_price_slots'')
         else if batteries = [] then fail_safe ''missing_battery_capacity_or_soc''
         else if positive (ci_charge_w i) \<le> 0 then fail_safe ''missing_charge_capacity''
         else case finite_val (ci_threshold i) of
           None \<Rightarrow> fail_safe ''invalid_negative_injection_threshold''
         | Some threshold \<Rightarrow>
             plan_headroom i (solar_of i slots) (consumption_of i slots) slots threshold batteries
               (plan_risk (solar_of i slots) (consumption_of i slots) slots threshold (positive (ci_charge_w i)) batteries plan))"

section \<open>Blocks keep every slot\<close>

lemma chunks_concat: "0 < n \<Longrightarrow> concat (chunks n xs) = xs"
  by (induction n xs rule: chunks.induct) (subst chunks.simps, simp)

lemma chunks_length: "b \<in> set (chunks n xs) \<Longrightarrow> b \<noteq> [] \<and> length b \<le> n"
proof (induction n xs rule: chunks.induct)
  case (1 n xs)
  then show ?case by (subst (asm) (2) chunks.simps) (auto split: if_splits)
qed

lemma block_length_pos: "0 < block_length d"
  by (simp add: block_length_def less_max_iff_disj)

lemma block_step_concat:
  "concat (flush_run (block_step s st)) = concat (flush_run st) @ [s]"
  by (cases st) (auto simp: block_step_def flush_run_def chunks_concat block_length_pos Let_def)

lemma make_blocks_concat: "concat (make_blocks slots) = sort_key t_start slots"
proof -
  have "concat (flush_run (fold block_step xs st)) = concat (flush_run st) @ xs" for xs st
    by (induction xs arbitrary: st) (simp_all add: block_step_concat)
  then show ?thesis by (simp add: make_blocks_def flush_run_def chunks_concat block_length_pos)
qed

section \<open>The slots picked\<close>

lemma update_new: "j \<notin> fst ` set d \<Longrightarrow> AList.update j v d = d @ [(j, v)]"
  by (induction d) auto

lemma dict_of_distinct: "distinct ks \<Longrightarrow> dict_of f ks = map (\<lambda>k. (k, f k)) ks"
proof (induction ks rule: rev_induct)
  case (snoc k ks)
  have "AList.update k (f k) (map (\<lambda>k. (k, f k)) ks) = map (\<lambda>k. (k, f k)) ks @ [(k, f k)]"
    by (rule update_new) (use snoc.prems in auto)
  with snoc show ?case by (simp add: dict_of_def)
qed (simp add: dict_of_def)

lemma dict_of_get: "dict_get z (dict_of f ks) k = (if k \<in> set ks then f k else z)"
  unfolding dict_of_def
  by (induction ks rule: rev_induct) (auto simp: dict_get_update, simp add: dict_get_def)

lemma sum_scaled: "0 < (c :: rat) \<Longrightarrow> sum_list (map (\<lambda>s. a * f s / c) xs) = a / c * sum_list (map f xs)"
  by (induction xs) (auto simp: distrib_left)

text \<open>A planned slot stems from a slot of the blocks, within its capacity.\<close>

definition planned_in :: "(tariff_slot \<Rightarrow> rat) \<Rightarrow> rat \<Rightarrow> tariff_slot list \<Rightarrow> discharge_slot \<Rightarrow> bool" where
  "planned_in cap export ss d \<longleftrightarrow> (\<exists>s \<in> set ss. \<exists>e. d = plan_slot e export s \<and> 0 < e \<and> e \<le> cap s)"

lemma planned_in_mono: "planned_in cap export ss d \<Longrightarrow> set ss \<subseteq> set ts \<Longrightarrow> planned_in cap export ts d"
  by (auto simp: planned_in_def)

lemma pick_blocks_spec:
  assumes "\<And>b s. b \<in> set blocks \<Longrightarrow> s \<in> set b \<Longrightarrow> 0 \<le> cap s" and "\<And>b. b \<in> set blocks \<Longrightarrow> distinct b" and "0 \<le> remaining"
  shows "sum_list (map ds_energy_kwh (pick_blocks cap export remaining blocks)) \<le> remaining
    \<and> (\<forall>d \<in> set (pick_blocks cap export remaining blocks). planned_in cap export (concat blocks) d)"
  using assms
proof (induction cap export remaining blocks rule: pick_blocks.induct)
  case (2 cap export remaining block blocks)
  let ?e = "sum_list (map snd (dict_of cap block))"
  let ?a = "min remaining ?e"
  have e: "?e = sum_list (map cap block)" using 2(4) [of block] by (simp add: dict_of_distinct comp_def)
  show ?case
  proof (cases "remaining \<le> CURTAILMENT_EPSILON")
    case True
    then show ?thesis using 2(5) by simp
  next
    case rem: False
    show ?thesis
    proof (cases "?e \<le> CURTAILMENT_EPSILON")
      case True
      then have eq: "pick_blocks cap export remaining (block # blocks) = pick_blocks cap export remaining blocks" using rem by simp
      have "sum_list (map ds_energy_kwh (pick_blocks cap export remaining blocks)) \<le> remaining
        \<and> (\<forall>d \<in> set (pick_blocks cap export remaining blocks). planned_in cap export (concat blocks) d)"
        by (rule 2(1) [OF rem refl refl refl True]) (use 2(3,4,5) in auto)
      then show ?thesis unfolding eq by (auto intro: planned_in_mono)
    next
      case False
      let ?f = "\<lambda>s. plan_slot (?a * cap s / ?e) export s"
      let ?used = "filter (\<lambda>s. CURTAILMENT_EPSILON < cap s) block"
      have epos: "0 < ?e" "0 < remaining" using False rem by (auto simp: CURTAILMENT_EPSILON_def)
      have eq: "pick_blocks cap export remaining (block # blocks) = map ?f ?used @ pick_blocks cap export (remaining - ?a) blocks"
        using rem False by (simp add: Let_def)
      have IH: "sum_list (map ds_energy_kwh (pick_blocks cap export (remaining - ?a) blocks)) \<le> remaining - ?a
        \<and> (\<forall>d \<in> set (pick_blocks cap export (remaining - ?a) blocks). planned_in cap export (concat blocks) d)"
        by (rule 2(2) [OF rem refl refl refl False]) (use 2(3,4) in auto)
      have "sum_list (map cap ?used) \<le> ?e"
        unfolding e using 2(3) [of block] by (intro filter_sum_le) auto
      then have "?a / ?e * sum_list (map cap ?used) \<le> ?a / ?e * ?e" using epos by (intro mult_left_mono) auto
      then have "sum_list (map ds_energy_kwh (map ?f ?used)) \<le> ?a"
        using epos by (simp add: plan_slot_def comp_def sum_scaled)
      moreover have "planned_in cap export (concat (block # blocks)) (?f s)" if "s \<in> set ?used" for s
        unfolding planned_in_def
      proof (intro exI conjI bexI)
        show "s \<in> set (concat (block # blocks))" using that by simp
        have cap: "0 < cap s" using that by (auto simp: CURTAILMENT_EPSILON_def)
        show "0 < ?a * cap s / ?e" using epos cap by simp
        have "?a * cap s \<le> ?e * cap s" using cap by (intro mult_right_mono) auto
        then show "?a * cap s / ?e \<le> cap s" using epos by (simp add: divide_le_eq mult.commute)
      qed (rule refl)
      moreover have "planned_in cap export (concat (block # blocks)) d"
        if "d \<in> set (pick_blocks cap export (remaining - ?a) blocks)" for d
        by (rule planned_in_mono [of _ _ "concat blocks"]) (use IH that in auto)
      ultimately show ?thesis using IH unfolding eq by (simp only: map_append sum_list_append set_append set_map) fastforce
    qed
  qed
qed simp

lemma select_valuable_spec:
  assumes "distinct candidates" and "0 \<le> needed"
  shows "sum_list (map ds_energy_kwh (select_most_valuable_discharge_slots candidates needed watts max_export mode (Some available))) \<le> needed"
    and "d \<in> set (select_most_valuable_discharge_slots candidates needed watts max_export mode (Some available)) \<Longrightarrow>
      \<exists>export. planned_in (discharge_capacity watts (Some available)) export candidates d"
proof -
  let ?blocks = "filter (\<lambda>b. CURTAILMENT_EPSILON < sum_list (map slot_duration b)) (make_blocks candidates)"
  let ?ranked = "sort_key (\<lambda>b. (- fst (block_value b), - snd (block_value b))) ?blocks"
  let ?export = "if normalize_export_mode mode max_export = Custom then positive max_export else 0"
  let ?cap = "discharge_capacity watts (Some available)"
  have "distinct (concat (make_blocks candidates))" using assms(1) by (simp add: make_blocks_concat)
  then have dist: "distinct b" if "b \<in> set ?ranked" for b using that by (simp add: distinct_concat_iff)
  have cap: "0 \<le> ?cap s" for s by (simp add: discharge_capacity_def slot_duration_def)
  have sub: "set (concat ?ranked) \<subseteq> set candidates"
    using arg_cong [OF make_blocks_concat [of candidates], of set] by auto
  note spec = pick_blocks_spec [where cap = ?cap and blocks = ?ranked and export = ?export, OF cap dist assms(2)]
  have none: "select_most_valuable_discharge_slots candidates needed watts max_export mode (Some available) =
    (if needed \<le> CURTAILMENT_EPSILON \<or> watts \<le> CURTAILMENT_EPSILON then []
     else sort_key ds_start (pick_blocks ?cap ?export needed ?ranked))"
    by (simp add: select_most_valuable_discharge_slots_def Let_def)
  show "sum_list (map ds_energy_kwh (select_most_valuable_discharge_slots candidates needed watts max_export mode (Some available))) \<le> needed"
    unfolding none using spec assms(2) by (auto simp: sum_list_sort_key)
  show "d \<in> set (select_most_valuable_discharge_slots candidates needed watts max_export mode (Some available)) \<Longrightarrow>
      \<exists>export. planned_in ?cap export candidates d"
  proof -
    assume "d \<in> set (select_most_valuable_discharge_slots candidates needed watts max_export mode (Some available))"
    then have "planned_in ?cap ?export (concat ?ranked) d"
      unfolding none using spec by (auto simp del: set_concat split: if_splits)
    then show "\<exists>export. planned_in ?cap export candidates d" using planned_in_mono [OF _ sub] by blast
  qed
qed

section \<open>The targets\<close>

text \<open>The energy a battery gives when it goes down to its target.\<close>

definition released :: "live_battery \<Rightarrow> rat \<Rightarrow> rat" where
  "released b target = max 0 ((lb_soc b - target) / 100 * lb_capacity b)"

lemma released_allocation:
  assumes "0 < lb_capacity b" and "0 \<le> a" and "a \<le> battery_energy reserve b"
  shows "released b (battery_target reserve b a) = a"
proof (cases "max (lb_floor b) reserve \<le> lb_soc b")
  case True
  let ?low = "max (lb_floor b) reserve"
  have "a \<le> (lb_soc b - ?low) / 100 * lb_capacity b"
    using assms(3) True assms(1) by (simp add: battery_energy_def)
  then have "a / lb_capacity b * 100 \<le> lb_soc b - ?low" using assms(1) by (simp add: field_simps)
  then have "battery_target reserve b a = lb_soc b - a / lb_capacity b * 100"
    by (simp add: battery_target_def)
  then show ?thesis using assms(1,2) by (simp add: released_def)
next
  case False
  then have neg: "(lb_soc b - max (lb_floor b) reserve) / 100 * lb_capacity b \<le> 0"
    using assms(1) by (intro mult_nonpos_nonneg) auto
  then have "a = 0" using assms(2,3) by (simp only: battery_energy_def max_absorb1)
  moreover have "lb_soc b \<le> max (lb_floor b) reserve" using False by (simp only: not_le less_imp_le)
  ultimately have "battery_target reserve b a = max (lb_floor b) reserve"
    by (simp add: battery_target_def max_absorb1)
  then show ?thesis using \<open>a = 0\<close> neg by (simp only: released_def max_absorb1)
qed

lemma battery_energy_nonneg: "0 \<le> battery_energy reserve b"
  by (simp add: battery_energy_def)

lemma energy_by_battery_distinct:
  "distinct (map lb_name bs) \<Longrightarrow> energy_by_battery reserve bs = map (\<lambda>b. (lb_name b, battery_energy reserve b)) bs"
proof (induction bs rule: rev_induct)
  case (snoc b bs)
  have "AList.update (lb_name b) (battery_energy reserve b) (map (\<lambda>b. (lb_name b, battery_energy reserve b)) bs)
      = map (\<lambda>b. (lb_name b, battery_energy reserve b)) bs @ [(lb_name b, battery_energy reserve b)]"
    by (rule update_new) (use snoc.prems in \<open>auto simp: distinct_map\<close>)
  with snoc show ?case by (simp add: energy_by_battery_def)
qed (simp add: energy_by_battery_def)

lemma allocation_is_share:
  assumes "CURTAILMENT_EPSILON < available" and "0 \<le> planned" and "planned \<le> available" and "0 \<le> energy"
    and "planned * energy / available \<le> remaining"
  shows "battery_allocation planned available remaining energy = planned * energy / available"
proof -
  have pos: "0 < available" using assms(1) by (simp add: CURTAILMENT_EPSILON_def)
  have "planned * energy \<le> available * energy" using assms(3,4) by (rule mult_right_mono)
  then have "planned * energy / available \<le> energy" using pos by (simp add: divide_le_eq mult.commute)
  moreover have "0 \<le> planned * energy / available" using assms(2,4) pos by simp
  ultimately show ?thesis using assms(1,5) by (simp add: battery_allocation_def)
qed

lemma battery_targets_release:
  assumes "CURTAILMENT_EPSILON < available" and "0 \<le> planned" and "planned \<le> available"
    and "\<And>b. b \<in> set bs \<Longrightarrow> 0 < lb_capacity b \<and> dict_get 0 energies (lb_name b) = battery_energy reserve b"
    and "sum_list (map (\<lambda>b. planned * battery_energy reserve b / available) bs) \<le> remaining"
  shows "map fst (battery_targets reserve planned available energies remaining bs) = map lb_name bs
    \<and> sum_list (map2 (\<lambda>b (n, t). released b t) bs (battery_targets reserve planned available energies remaining bs))
        = sum_list (map (\<lambda>b. planned * battery_energy reserve b / available) bs)
    \<and> list_all2 (\<lambda>b (n, t). lb_floor b \<le> t \<and> reserve \<le> t) bs (battery_targets reserve planned available energies remaining bs)"
  using assms(4,5)
proof (induction bs arbitrary: remaining)
  case (Cons b bs)
  let ?e = "battery_energy reserve b"
  let ?x = "planned * ?e / available"
  have av: "0 < available" using assms(1) by (simp add: CURTAILMENT_EPSILON_def)
  have pos: "0 \<le> planned * battery_energy reserve c / available" for c
    using assms(2) av battery_energy_nonneg by simp
  have tl: "0 \<le> sum_list (map (\<lambda>b. planned * battery_energy reserve b / available) bs)"
    by (rule sum_list_nonneg_map) (rule pos)
  have alloc: "battery_allocation planned available remaining (dict_get 0 energies (lb_name b)) = ?x"
    using Cons.prems tl by (simp add: allocation_is_share [OF assms(1-3) battery_energy_nonneg])
  have "planned * ?e \<le> available * ?e" using assms(3) battery_energy_nonneg by (rule mult_right_mono)
  then have "?x \<le> ?e" using av by (simp add: divide_le_eq mult.commute)
  then have rel: "released b (battery_target reserve b ?x) = ?x"
    using Cons.prems(1) pos by (intro released_allocation) auto
  have IH: "map fst (battery_targets reserve planned available energies (remaining - ?x) bs) = map lb_name bs
    \<and> sum_list (map2 (\<lambda>b (n, t). released b t) bs (battery_targets reserve planned available energies (remaining - ?x) bs))
        = sum_list (map (\<lambda>b. planned * battery_energy reserve b / available) bs)
    \<and> list_all2 (\<lambda>b (n, t). lb_floor b \<le> t \<and> reserve \<le> t) bs (battery_targets reserve planned available energies (remaining - ?x) bs)"
    using Cons.prems by (intro Cons.IH) auto
  have "lb_floor b \<le> battery_target reserve b ?x \<and> reserve \<le> battery_target reserve b ?x"
    by (simp add: battery_target_def le_max_iff_disj)
  then show ?case using IH by (simp add: alloc rel Let_def)
qed simp

lemma fold_update_distinct:
  "distinct (map fst xs) \<Longrightarrow> fold (\<lambda>(n, t). AList.update n t) xs [] = xs"
proof (induction xs rule: rev_induct)
  case (snoc x xs)
  obtain n t where "x = (n, t)" by fastforce
  with snoc show ?case by (simp add: update_new)
qed simp

section \<open>The plan is sound\<close>

lemma discharge_candidate:
  "s \<in> set (discharge_candidates slots threshold risks reserved) \<Longrightarrow>
     s \<in> set slots \<and> threshold < t_price s \<and> list_all (\<lambda>r. t_end s \<le> t_start r) risks \<and> \<not> list_ex (overlaps s) reserved"
  by (auto simp: discharge_candidates_def list_all_iff intro: order_trans [OF _ Min_le])

definition sound_slot :: "tariff_slot list \<Rightarrow> rat \<Rightarrow> tariff_slot list \<Rightarrow> tariff_slot list \<Rightarrow> discharge_slot \<Rightarrow> bool" where
  "sound_slot slots threshold risks reserved d \<longleftrightarrow>
     list_ex (\<lambda>s. ds_start d = t_start s \<and> ds_end d = t_end s \<and> ds_price d = t_price s \<and> threshold < t_price s
       \<and> list_all (\<lambda>r. t_end s \<le> t_start r) risks \<and> \<not> list_ex (overlaps s) reserved) slots \<and> 0 < ds_energy_kwh d"

definition targets_release :: "rat \<Rightarrow> live_battery list \<Rightarrow> (string, rat) dict \<Rightarrow> rat \<Rightarrow> bool" where
  "targets_release reserve bs targets kwh \<longleftrightarrow>
     map fst targets = map lb_name bs
     \<and> sum_list (map2 (\<lambda>b (n, t). released b t) bs targets) = kwh
     \<and> list_all2 (\<lambda>b (n, t). lb_floor b \<le> t \<and> reserve \<le> t) bs targets"

lemma targets_of_plan:
  assumes "distinct (map lb_name bs)" and "\<And>b. b \<in> set bs \<Longrightarrow> 0 < lb_capacity b"
    and "0 \<le> planned" and "planned \<le> sum_list (map snd (energy_by_battery reserve bs))"
    and "planned \<noteq> 0 \<longrightarrow> CURTAILMENT_EPSILON < sum_list (map snd (energy_by_battery reserve bs))"
  shows "targets_release reserve bs (battery_targets reserve planned (sum_list (map snd (energy_by_battery reserve bs)))
      (energy_by_battery reserve bs) planned bs) planned"
proof -
  let ?en = "energy_by_battery reserve bs"
  let ?av = "sum_list (map snd ?en)"
  have en: "?en = map (\<lambda>b. (lb_name b, battery_energy reserve b)) bs" by (rule energy_by_battery_distinct [OF assms(1)])
  have av: "?av = sum_list (map (battery_energy reserve) bs)" by (simp add: en comp_def)
  have get: "dict_get 0 ?en (lb_name b) = battery_energy reserve b" if "b \<in> set bs" for b
    unfolding en by (rule dict_get_mem) (use assms(1) that in \<open>auto simp: comp_def\<close>)
  show ?thesis
  proof (cases "planned = 0")
    case False
    then have pos: "CURTAILMENT_EPSILON < ?av" using assms(5) by blast
    then have "0 < ?av" by (simp add: CURTAILMENT_EPSILON_def)
    then have sum: "sum_list (map (\<lambda>b. planned * battery_energy reserve b / ?av) bs) = planned"
      by (simp add: sum_scaled av)
    show ?thesis
      unfolding targets_release_def
      using battery_targets_release [OF pos assms(3,4), of bs ?en reserve planned] assms(2) get sum by simp
  next
    case True
    have "0 \<le> battery_energy reserve b" for b by (rule battery_energy_nonneg)
    then have alloc: "battery_allocation 0 ?av 0 (battery_energy reserve b) = 0" for b
      by (simp add: battery_allocation_def)
    have "map fst (battery_targets reserve 0 ?av ?en 0 cs) = map lb_name cs
      \<and> sum_list (map2 (\<lambda>b (n, t). released b t) cs (battery_targets reserve 0 ?av ?en 0 cs)) = 0
      \<and> list_all2 (\<lambda>b (n, t). lb_floor b \<le> t \<and> reserve \<le> t) cs (battery_targets reserve 0 ?av ?en 0 cs)"
      if "set cs \<subseteq> set bs" for cs
      using that
    proof (induction cs)
      case (Cons b cs)
      have "released b (battery_target reserve b 0) = 0"
        using Cons.prems assms(2) battery_energy_nonneg by (intro released_allocation) auto
      moreover have "lb_floor b \<le> battery_target reserve b 0 \<and> reserve \<le> battery_target reserve b 0"
        by (simp add: battery_target_def le_max_iff_disj)
      ultimately show ?case using Cons get [of b] by (simp add: alloc)
    qed simp
    then show ?thesis using True by (simp add: targets_release_def)
  qed
qed

lemma valid_price_slots_distinct: "distinct slots \<Longrightarrow> distinct (valid_price_slots slots)"
proof -
  assume d: "distinct slots"
  have "distinct (map (\<lambda>s. \<lparr>slot_start = t_start s, slot_end = t_end s, slot_price = Fin (t_price s)\<rparr>) (valid_price_slots slots))"
    unfolding valid_price_slots_def
    by (rule distinct_map_option_filter [where g = "\<lambda>s. s"]) (use d in \<open>auto split: pyfloat.splits if_splits\<close>)
  then show ?thesis by (simp add: distinct_map)
qed

lemma valid_batteries:
  "distinct (map snap_name bs) \<Longrightarrow> distinct (map lb_name (List.map_filter valid_battery bs))"
  "b \<in> set (List.map_filter valid_battery bs) \<Longrightarrow> 0 < lb_capacity b"
  by (rule distinct_map_option_filter [where g = snap_name])
    (auto simp: valid_battery_def List.map_filter_def split: if_splits option.splits)

text \<open>The status tells the stage that made the plan.\<close>

lemma predischarge_stage:
  assumes "plan_curtailment i now = p" and "cu_status p = CuPlanned \<or> cu_status p = CuShortfall"
    and "finite_val (ci_threshold i) = Some threshold"
  shows "\<exists>solar consumption q. p = plan_predischarge i solar consumption
      (sort_key t_start (filter (\<lambda>s. now < t_end s) (valid_price_slots (ci_prices i)))) threshold
      (List.map_filter valid_battery (ci_batteries i)) q
    \<and> current_headroom_kwh q + CURTAILMENT_EPSILON < required_headroom_kwh q"
proof -
  let ?slots = "sort_key t_start (filter (\<lambda>s. now < t_end s) (valid_price_slots (ci_prices i)))"
    and ?bs = "List.map_filter valid_battery (ci_batteries i)"
  obtain p0 solar consumption where p: "p = plan_headroom i solar consumption ?slots threshold ?bs p0"
    using assms unfolding plan_curtailment_def Let_def by (auto split: if_splits)
  let ?margin = "\<lambda>m. min (max 0 m) (sum_list (map lb_capacity ?bs))"
  have "\<exists>m. p = plan_predischarge i solar consumption ?slots threshold ?bs (with_margin (?margin m) p0)
      \<and> \<not> required_headroom_kwh (with_margin (?margin m) p0) \<le> current_headroom_kwh p0 + CURTAILMENT_EPSILON"
    using assms(2) unfolding p plan_headroom_def Let_def by (auto split: option.splits if_splits)
  moreover have "current_headroom_kwh (with_margin m p0) = current_headroom_kwh p0" for m
    by (simp add: with_margin_def Let_def)
  ultimately show ?thesis by (metis not_le)
qed

lemma predischarge_fields:
  fixes i :: curtailment_input and bs :: "live_battery list" and q :: curtailment_plan
  defines "able \<equiv> able_batteries bs" and "extra \<equiv> required_headroom_kwh q - current_headroom_kwh q"
  defines "en \<equiv> energy_by_battery (max 0 (ci_reserve_soc i)) able"
  defines "av \<equiv> sum_list (map snd en)"
  assumes "p = plan_predischarge i solar consumption slots threshold bs q"
  shows "selected_discharge_slots p = predischarge_slots q solar consumption (sum_list (map lb_discharge_w able)) (min extra av)
      (discharge_candidates slots threshold (risk_slots q) (ci_reserved i))"
    and "planned_discharge_kwh p = min (min extra av) (sum_list (map ds_energy_kwh (selected_discharge_slots p)))"
    and "cu_shortfall_kwh p = max 0 (extra - planned_discharge_kwh p)"
    and "target_soc_by_battery p = fold (\<lambda>(n, t). AList.update n t)
      (battery_targets (max 0 (ci_reserve_soc i)) (planned_discharge_kwh p) av en (planned_discharge_kwh p) able) []"
    and "risk_slots p = risk_slots q" and "required_headroom_kwh p = required_headroom_kwh q"
    and "current_headroom_kwh p = current_headroom_kwh q"
  by (simp_all add: assms(5) plan_predischarge_def Let_def able_def extra_def en_def av_def)

lemma list_exI: "P x \<Longrightarrow> x \<in> set xs \<Longrightarrow> list_ex P xs"
  by (auto simp: list_ex_iff)

text \<open>
  C3. When the batteries hold too little room for the sun of a negative-price window, the
  planned discharge is sound: every slot lies before the whole window, is dearer than the
  threshold and touches no reserved slot, the energy of the slots is the planned energy,
  with the reported shortfall it is exactly the missing room, and the target SOCs
  release just that energy without going below any floor or the reserve.
\<close>

theorem predischarge_is_sound:
  assumes "plan_curtailment i now = p" and "cu_status p = CuPlanned \<or> cu_status p = CuShortfall"
    and "finite_val (ci_threshold i) = Some threshold"
    and "distinct (ci_prices i)" and "distinct (map snap_name (ci_batteries i))"
  shows "list_all (sound_slot (filter (\<lambda>s. now < t_end s) (valid_price_slots (ci_prices i))) threshold (risk_slots p) (ci_reserved i))
      (selected_discharge_slots p)
    \<and> planned_discharge_kwh p = sum_list (map ds_energy_kwh (selected_discharge_slots p))
    \<and> planned_discharge_kwh p + cu_shortfall_kwh p = required_headroom_kwh p - current_headroom_kwh p
    \<and> targets_release (max 0 (ci_reserve_soc i)) (able_batteries (List.map_filter valid_battery (ci_batteries i)))
        (target_soc_by_battery p) (planned_discharge_kwh p)"
proof -
  let ?valid = "filter (\<lambda>s. now < t_end s) (valid_price_slots (ci_prices i))"
  let ?slots = "sort_key t_start ?valid" and ?bs = "List.map_filter valid_battery (ci_batteries i)"
  obtain solar consumption q where p: "p = plan_predischarge i solar consumption ?slots threshold ?bs q"
    and short: "current_headroom_kwh q + CURTAILMENT_EPSILON < required_headroom_kwh q"
    using predischarge_stage [OF assms(1-3)] by blast
  let ?extra = "required_headroom_kwh q - current_headroom_kwh q" and ?res = "max 0 (ci_reserve_soc i)"
  let ?able = "able_batteries ?bs"
  let ?en = "energy_by_battery ?res ?able"
  let ?av = "sum_list (map snd ?en)"
  let ?cands = "discharge_candidates ?slots threshold (risk_slots q) (ci_reserved i)"
  let ?needed = "min ?extra ?av"
  note f = predischarge_fields [OF p]
  have able: "distinct (map lb_name ?able)" "\<And>b. b \<in> set ?able \<Longrightarrow> 0 < lb_capacity b"
    using valid_batteries assms(5) by (auto simp: able_batteries_def List.distinct_map_filter)
  have av0: "0 \<le> ?av"
    unfolding energy_by_battery_distinct [OF able(1)] by (rule sum_list_nonneg) (auto simp: battery_energy_nonneg)
  have need0: "0 \<le> ?needed" using short av0 by (simp add: CURTAILMENT_EPSILON_def)
  have dist: "distinct ?cands"
    using valid_price_slots_distinct [OF assms(4)] by (simp add: discharge_candidates_def)
  note spec = select_valuable_spec [OF dist need0]
  have sound: "sound_slot ?valid threshold (risk_slots p) (ci_reserved i) d" if d: "d \<in> set (selected_discharge_slots p)" for d
  proof -
    obtain export s e where s: "s \<in> set ?cands" "d = plan_slot e export s" "0 < e"
      using spec(2) [OF d [unfolded f(1) predischarge_slots_def]] unfolding planned_in_def by blast
    have c: "s \<in> set ?valid" "threshold < t_price s" "list_all (\<lambda>r. t_end s \<le> t_start r) (risk_slots q)"
      "\<not> list_ex (overlaps s) (ci_reserved i)" using discharge_candidate [OF s(1)] by simp_all
    show ?thesis unfolding f(5) sound_slot_def s(2) using c s(3)
      by (intro conjI list_exI [of _ s]) (simp_all add: plan_slot_def)
  qed
  have le: "sum_list (map ds_energy_kwh (selected_discharge_slots p)) \<le> ?needed"
    using spec(1) unfolding f(1) predischarge_slots_def .
  then have planned: "planned_discharge_kwh p = sum_list (map ds_energy_kwh (selected_discharge_slots p))"
    using f(2) by simp
  have "0 \<le> planned_discharge_kwh p"
    unfolding planned using sound by (intro sum_list_nonneg_map) (blast intro: less_imp_le dest: conjunct2 [OF sound_slot_def [THEN iffD1]])
  moreover have "planned_discharge_kwh p \<noteq> 0 \<longrightarrow> CURTAILMENT_EPSILON < ?av"
    using f(1) unfolding planned predischarge_slots_def select_most_valuable_discharge_slots_def
    by (auto simp: min_less_iff_conj not_le split: if_splits)
  ultimately have rel: "targets_release ?res ?able (battery_targets ?res (planned_discharge_kwh p) ?av ?en (planned_discharge_kwh p) ?able)
      (planned_discharge_kwh p)"
    using le planned by (intro targets_of_plan able) auto
  then have "distinct (map fst (battery_targets ?res (planned_discharge_kwh p) ?av ?en (planned_discharge_kwh p) ?able))"
    using able(1) by (simp add: targets_release_def)
  then have tgt: "target_soc_by_battery p = battery_targets ?res (planned_discharge_kwh p) ?av ?en (planned_discharge_kwh p) ?able"
    unfolding f(4) by (rule fold_update_distinct)
  have "planned_discharge_kwh p + cu_shortfall_kwh p = required_headroom_kwh p - current_headroom_kwh p"
    using le unfolding f(3,6,7) planned by simp
  then show ?thesis using sound planned rel unfolding tgt by (simp add: list_all_iff)
qed

definition noon_input :: curtailment_input where
  "noon_input = \<lparr>ci_prices = [\<lparr>slot_start = 0, slot_end = 3600, slot_price = Fin (3 / 10)\<rparr>,
       \<lparr>slot_start = 3600, slot_end = 7200, slot_price = Fin (-1 / 10)\<rparr>],
     ci_solar_kwh = VInt 3, ci_consumption_kwh = VInt 1,
     ci_batteries = [\<lparr>snap_name = ''a'', soc_pct = VInt 90, capacity_kwh = VInt 5, max_soc_pct = VInt 100,
       floor_soc_pct = VInt 10, max_discharge_power_w = VInt 2500, eligible = True, can_discharge = True\<rparr>],
     ci_threshold = VInt 0, ci_reserve_soc = 0, ci_margin = VInt 0, ci_charge_w = VInt 2500, ci_max_export = VInt 0,
     ci_export_mode = Some ''auto'', ci_solar_fraction = None, ci_solar_remaining = True, ci_consumption_remaining = True,
     ci_consumption_fraction = None,
     ci_solar_by_slot = [(\<lparr>t_start = 3600, t_end = 7200, t_price = -1 / 10\<rparr>, 3)],
     ci_consumption_by_slot = [(\<lparr>t_start = 0, t_end = 3600, t_price = 3 / 10\<rparr>, 1)], ci_reserved = []\<rparr>"

lemma predischarge_is_sound_witness:
  "planned_discharge_kwh (plan_curtailment noon_input 0) + cu_shortfall_kwh (plan_curtailment noon_input 0)
     = required_headroom_kwh (plan_curtailment noon_input 0) - current_headroom_kwh (plan_curtailment noon_input 0)"
proof -
  have "cu_status (plan_curtailment noon_input 0) = CuPlanned" by code_simp
  moreover have "finite_val (ci_threshold noon_input) = Some 0" by code_simp
  moreover have "distinct (ci_prices noon_input)" "distinct (map snap_name (ci_batteries noon_input))"
    by (simp_all add: noon_input_def)
  ultimately show ?thesis using predischarge_is_sound [OF refl, of noon_input 0 0] by simp
qed

section \<open>Forecasts add up\<close>

lemma sum_dict_of: "distinct ks \<Longrightarrow> sum_list (map snd (dict_of f ks)) = sum_list (map f ks)"
  by (simp add: dict_of_distinct comp_def)

text \<open>A remaining forecast is spread over the coming slots without loss.\<close>

lemma remaining_solar_adds_up:
  assumes "distinct slots" and "finite_val forecast = Some kwh" and "0 < kwh" and "fraction \<noteq> None"
    and "CURTAILMENT_EPSILON < sum_list (map (\<lambda>s. cumulative_share fraction (t_start s) (t_end s)) slots)"
  shows "sum_list (map snd (distribute_solar_forecast slots forecast fraction True)) = kwh"
proof -
  let ?f = "\<lambda>s. cumulative_share fraction (t_start s) (t_end s)"
  have pos: "0 < sum_list (map ?f slots)" using assms(5) by (simp add: CURTAILMENT_EPSILON_def)
  have shares: "slot_shares fraction slots = map (\<lambda>s. (s, ?f s)) slots"
    by (simp add: slot_shares_def dict_of_distinct [OF assms(1)])
  have "slots \<noteq> []" using pos by auto
  then have "distribute_solar_forecast slots forecast fraction True
      = map (\<lambda>s. (s, kwh * ?f s / sum_list (map ?f slots))) slots"
    using assms by (simp add: distribute_solar_forecast_def shares comp_def)
  then show ?thesis using pos by (simp add: comp_def sum_scaled)
qed

end
