(* ===== verification/Weekly_Charge.thy ===== *)
theory Weekly_Charge
  imports Top_Charge
begin

text \<open>
  The weekly full charge (\<open>control/weekly_full_charge.py\<close>): the day logic with its
  rollover, the temporary 100 percent cutoff and the limits saved for its restore, the
  completion, the abort, and the persistence across restarts. The dictionaries of the
  controller are keyed by battery. The hardware cutoff of a battery is part of the state:
  an acknowledged write takes effect, and a refused one (\<open>False\<close> or an exception) may have
  landed or not. A save started as a background task is taken at the point that starts it.
  The stored configuration and the store hold no infinite number, as JSON has none.
\<close>

section \<open>Data\<close>

datatype write_outcome = Acknowledged | Refused bool

datatype write_phase = AbortRestore | RaiseTo100 | CompletionRestore

datatype weekly_mode = WeeklyIdle | ChargingTo100 | WeeklyComplete

datatype full_reason = Soc100 | BmsCutoff | NotConfirmed

record weekly_battery =
  top_view :: top_in
  backup_on :: bool
  hardware_soc_cutoff :: bool
  live_max_soc :: rat
  cutoff_version :: bool
  hysteresis_on :: bool

record battery_status =
  status_soc :: "rat option"
  status_cycles :: nat
  status_full :: "bool option"
  status_vmax :: "rat option"
  status_reason :: "full_reason option"

record weekly_store =
  stored_complete :: bool
  stored_registers_written :: bool
  stored_mode :: "weekly_mode option"
  stored_restore_pending :: bool
  stored_max_soc :: "(bat, pyval) dict option"
  stored_date :: int
  stored_delay_unlocked :: bool
  stored_solar_t_start :: "rat option"

record weekly =
  weekly_enabled :: bool
  weekly_day :: nat
  weekly_complete :: bool
  registers_written :: bool
  needs_restore :: bool
  force_full_charge :: bool
  saved_max_soc :: "(bat, int) dict"
  cutoff_applied :: "bat list"
  last_checked_weekday :: "nat option"
  weekly_mode :: weekly_mode
  completion_reason :: "string option"
  weekly_batteries :: "(bat, battery_status) dict"
  delay_unlocked :: bool
  solar_t_start :: "rat option"
  weekly_tops :: top_fleet
  weekly_latch :: "bat \<Rightarrow> soc_latch"
  hardware_cutoff :: "bat \<Rightarrow> int"
  weekly_store :: "weekly_store option"

text \<open>What one cycle reads: the fleet, the clock, and how its writes end.\<close>

record weekly_in =
  weekly_fleet :: "bat list"
  battery_view :: "bat \<Rightarrow> weekly_battery"
  battery_configs :: "(bat \<times> pyval option) list"
  weekday :: nat
  today :: int
  delay_enabled :: bool
  balance_overrides :: bool
  outcome :: "write_phase \<Rightarrow> bat \<Rightarrow> write_outcome"

definition weekly_manual :: "weekly_in \<Rightarrow> bat \<Rightarrow> bool" where
  "weekly_manual i c = manual_owner (top_view (battery_view i c))"

definition weekly_data :: "weekly_in \<Rightarrow> bat \<Rightarrow> bool" where
  "weekly_data i c = (\<not> no_data (top_view (battery_view i c)))"

definition weekly_num :: "weekly_in \<Rightarrow> bat \<Rightarrow> string \<Rightarrow> rat option" where
  "weekly_num i c key = num_of (top_view (battery_view i c)) key"

definition top_of :: "weekly \<Rightarrow> bat \<Rightarrow> top_state" where
  "top_of w c = tops (weekly_tops w) c"

definition put_top :: "bat \<Rightarrow> top_state \<Rightarrow> weekly \<Rightarrow> weekly" where
  "put_top c s w = w\<lparr>weekly_tops := (weekly_tops w)\<lparr>tops := (tops (weekly_tops w))(c := s)\<rparr>\<rparr>"

section \<open>Persistence\<close>

definition save_state :: "int \<Rightarrow> weekly \<Rightarrow> weekly" where
  "save_state date w =
     (if \<not> weekly_enabled w then w
      else w\<lparr>weekly_store := Some
        \<lparr>stored_complete = weekly_complete w, stored_registers_written = registers_written w,
         stored_mode = Some (weekly_mode w), stored_restore_pending = needs_restore w,
         stored_max_soc = Some (map (\<lambda>(c, v). (c, VInt v)) (saved_max_soc w)), stored_date = date,
         stored_delay_unlocked = delay_unlocked w, stored_solar_t_start = solar_t_start w\<rparr>\<rparr>)"

fun restore_saved_max_soc :: "(bat, pyval) dict \<Rightarrow> (bat, int) dict \<Rightarrow> (bat, int) dict" where
  "restore_saved_max_soc [] saved = saved"
| "restore_saved_max_soc ((c, v) # rest) saved =
     restore_saved_max_soc rest
       (case py_int v of
          Inl _ \<Rightarrow> saved
        | Inr n \<Rightarrow> (if 0 \<le> n \<and> n \<le> 100 then AList.update c n saved else saved))"

definition restored_limits :: "(bat, pyval) dict option \<Rightarrow> (bat, int) dict" where
  "restored_limits stored = (case stored of None \<Rightarrow> [] | Some d \<Rightarrow> restore_saved_max_soc d [])"

definition load_same_day :: "weekly_store \<Rightarrow> weekly \<Rightarrow> weekly" where
  "load_same_day d w = w\<lparr>
     weekly_complete := stored_complete d, registers_written := stored_registers_written d,
     weekly_mode := (case stored_mode d of None \<Rightarrow> weekly_mode w | Some m \<Rightarrow> m),
     delay_unlocked := stored_delay_unlocked d, solar_t_start := stored_solar_t_start d,
     needs_restore := stored_restore_pending d,
     saved_max_soc := restored_limits (stored_max_soc d), cutoff_applied := []\<rparr>"

definition load_other_day :: "weekly_store \<Rightarrow> weekly \<Rightarrow> weekly" where
  "load_other_day d w0 =
     (let w = w0\<lparr>saved_max_soc := restored_limits (stored_max_soc d), cutoff_applied := []\<rparr> in
      if stored_restore_pending d \<or> (stored_registers_written d \<and> \<not> stored_complete d)
      then w\<lparr>weekly_complete := stored_complete d, registers_written := False, needs_restore := True,
              weekly_mode := (if stored_complete d then WeeklyComplete else WeeklyIdle)\<rparr>
      else w)"

definition load_state :: "int \<Rightarrow> weekly \<Rightarrow> weekly" where
  "load_state date w =
     (if \<not> weekly_enabled w then w
      else (case weekly_store w of
          None \<Rightarrow> w
        | Some d \<Rightarrow> (if stored_date d = date then load_same_day d w else load_other_day d w)))"

text \<open>
  A restart of the integration: the unload flushes the state, the manager and the
  controller start with the values of their constructors, the setup writes the configured
  limits to the batteries, and the store is loaded. The top-charge state of the new session
  and the entries that the setup reaches are arguments.
\<close>

definition fresh_weekly :: "top_fleet \<Rightarrow> weekly \<Rightarrow> weekly" where
  "fresh_weekly fl w = w\<lparr>weekly_complete := False, registers_written := False, needs_restore := False,
     force_full_charge := False, saved_max_soc := [], cutoff_applied := [], last_checked_weekday := None,
     weekly_mode := WeeklyIdle, completion_reason := None, weekly_batteries := [], delay_unlocked := False,
     solar_t_start := None, weekly_tops := fl\<rparr>"

definition setup_cutoffs :: "(bat \<Rightarrow> int option) \<Rightarrow> weekly \<Rightarrow> weekly" where
  "setup_cutoffs reached w =
     w\<lparr>hardware_cutoff := (\<lambda>c. case reached c of None \<Rightarrow> hardware_cutoff w c | Some v \<Rightarrow> v)\<rparr>"

definition restart :: "int \<Rightarrow> int \<Rightarrow> (bat \<Rightarrow> int option) \<Rightarrow> top_fleet \<Rightarrow> weekly \<Rightarrow> weekly" where
  "restart flushed loaded reached fl w =
     load_state loaded (setup_cutoffs reached (fresh_weekly fl (save_state flushed w)))"

section \<open>The day\<close>

definition exit_target_day :: "weekly \<Rightarrow> weekly" where
  "exit_target_day w = w\<lparr>
     needs_restore := needs_restore w \<or> (registers_written w \<and> \<not> weekly_complete w),
     weekly_complete := False, registers_written := False, force_full_charge := False,
     weekly_mode := WeeklyIdle, completion_reason := None\<rparr>"

definition check_day :: "weekly_in \<Rightarrow> weekly \<Rightarrow> weekly" where
  "check_day i w =
     (if \<not> weekly_enabled w then w
      else (if last_checked_weekday w = Some (weekly_day w) \<and> weekday i \<noteq> weekly_day w
            then save_state (today i) (exit_target_day w) else w)\<lparr>last_checked_weekday := Some (weekday i)\<rparr>)"

definition weekly_due :: "weekly_in \<Rightarrow> weekly \<Rightarrow> bool" where
  "weekly_due i w =
     (weekly_enabled w \<and> \<not> weekly_complete w \<and> (force_full_charge w \<or> weekday i = weekly_day w))"

definition is_active :: "weekly_in \<Rightarrow> weekly \<Rightarrow> weekly \<times> bool" where
  "is_active i w = (let w' = check_day i w in (w', weekly_due i w'))"

text \<open>The changed settings: \<open>update_pd_parameters\<close> of the controller.\<close>

definition configure_weekly :: "bool \<Rightarrow> nat \<Rightarrow> weekly \<Rightarrow> weekly" where
  "configure_weekly en day w =
     (let w1 = (if day \<noteq> weekly_day w \<or> (weekly_enabled w \<and> \<not> en)
                then w\<lparr>needs_restore := needs_restore w \<or> (registers_written w \<and> \<not> weekly_complete w),
                       weekly_complete := False, registers_written := False\<rparr>
                else w)
      in w1\<lparr>weekly_enabled := en, weekly_day := day\<rparr>)"

section \<open>Hardware cutoffs\<close>

fun config_entry :: "(bat \<times> pyval option) list \<Rightarrow> bat \<Rightarrow> pyval \<Rightarrow> pyval" where
  "config_entry [] c fallback = fallback"
| "config_entry ((b, v) # rest) c fallback =
     (if b = c then (case v of None \<Rightarrow> fallback | Some x \<Rightarrow> x) else config_entry rest c fallback)"

definition get_configured_max_soc :: "weekly_in \<Rightarrow> bat \<Rightarrow> int" where
  "get_configured_max_soc i c =
     (case py_int (config_entry (battery_configs i) c (VFloat (Fin (live_max_soc (battery_view i c))))) of
        Inl _ \<Rightarrow> 100
      | Inr n \<Rightarrow> max 0 (min 100 n))"

definition set_charge_cutoff :: "weekly_in \<Rightarrow> write_phase \<Rightarrow> bat \<Rightarrow> int \<Rightarrow> weekly \<Rightarrow> weekly \<times> bool" where
  "set_charge_cutoff i ph c v w =
     (let landed = w\<lparr>hardware_cutoff := (hardware_cutoff w)(c := v)\<rparr> in
      case outcome i ph c of
        Acknowledged \<Rightarrow> (landed, True)
      | Refused took \<Rightarrow> ((if took then landed else w), False))"

definition cutoff_owned :: "weekly_in \<Rightarrow> bat \<Rightarrow> bool" where
  "cutoff_owned i c =
     (\<not> weekly_manual i c \<and> \<not> backup_on (battery_view i c) \<and> hardware_soc_cutoff (battery_view i c))"

definition restore_one :: "weekly_in \<Rightarrow> write_phase \<Rightarrow> bat \<Rightarrow> weekly \<times> bool \<Rightarrow> weekly \<times> bool" where
  "restore_one i ph c r =
     (let (w, all_ok) = r in
      if \<not> cutoff_owned i c then (w, all_ok)
      else (let (w', ok) = set_charge_cutoff i ph c
                  (dict_get (get_configured_max_soc i c) (saved_max_soc w) c) w
            in (w', all_ok \<and> ok)))"

definition restore_hardware_cutoffs :: "weekly_in \<Rightarrow> write_phase \<Rightarrow> weekly \<Rightarrow> weekly \<times> bool" where
  "restore_hardware_cutoffs i ph w = fold (restore_one i ph) (weekly_fleet i) (w, True)"

definition set_default :: "bat \<Rightarrow> int \<Rightarrow> (bat, int) dict \<Rightarrow> (bat, int) dict" where
  "set_default c v d = (case map_of d c of None \<Rightarrow> AList.update c v d | Some _ \<Rightarrow> d)"

definition mark_applied :: "bat \<Rightarrow> weekly \<Rightarrow> weekly" where
  "mark_applied c w = w\<lparr>cutoff_applied := c # cutoff_applied w\<rparr>"

definition raise_one :: "weekly_in \<Rightarrow> bat \<Rightarrow> weekly \<Rightarrow> weekly" where
  "raise_one i c w =
     (if weekly_manual i c \<or> backup_on (battery_view i c) then w
      else if \<not> hardware_soc_cutoff (battery_view i c)
      then mark_applied c (w\<lparr>saved_max_soc :=
             set_default c (py_trunc (live_max_soc (battery_view i c))) (saved_max_soc w)\<rparr>)
      else (let w1 = w\<lparr>saved_max_soc := set_default c (get_configured_max_soc i c) (saved_max_soc w)\<rparr>;
                (w2, ok) = set_charge_cutoff i RaiseTo100 c 100 w1
            in if ok then mark_applied c w2 else w2))"

definition pending_hardware :: "weekly_in \<Rightarrow> weekly \<Rightarrow> bool" where
  "pending_hardware i w = list_ex (\<lambda>c. cutoff_owned i c \<and> c \<notin> set (cutoff_applied w)) (weekly_fleet i)"

definition need_write :: "weekly_in \<Rightarrow> weekly \<Rightarrow> bool" where
  "need_write i w = (\<not> registers_written w \<or> saved_max_soc w = [] \<or> pending_hardware i w)"

definition raise_cutoffs :: "weekly_in \<Rightarrow> weekly \<Rightarrow> weekly" where
  "raise_cutoffs i w =
     save_state (today i) ((fold (raise_one i) (weekly_fleet i) w)
       \<lparr>registers_written := True, weekly_mode := ChargingTo100, completion_reason := None\<rparr>)"

section \<open>Completion\<close>

definition query_full :: "weekly_in \<Rightarrow> bat \<Rightarrow> weekly \<Rightarrow> weekly \<times> bool" where
  "query_full i c w = (let (s, full) = is_battery_full (top_view (battery_view i c)) (top_of w c) in (put_top c s w, full))"

text \<open>\<open>all\<close> stops at the first battery that is not full.\<close>

fun all_full :: "weekly_in \<Rightarrow> bat list \<Rightarrow> weekly \<Rightarrow> weekly \<times> bool" where
  "all_full i [] w = (w, True)"
| "all_full i (c # cs) w = (let (w', full) = query_full i c w in if full then all_full i cs w' else (w', False))"

definition batteries_with_data :: "weekly_in \<Rightarrow> bat list" where
  "batteries_with_data i = filter (\<lambda>c. weekly_data i c \<and> \<not> weekly_manual i c) (weekly_fleet i)"

definition all_batteries_full :: "weekly_in \<Rightarrow> weekly \<Rightarrow> weekly \<times> bool" where
  "all_batteries_full i w = (if batteries_with_data i = [] then (w, False) else all_full i (batteries_with_data i) w)"

definition put_status :: "bat \<Rightarrow> battery_status \<Rightarrow> weekly \<Rightarrow> weekly" where
  "put_status c st w = w\<lparr>weekly_batteries := AList.update c st (weekly_batteries w)\<rparr>"

definition report_one :: "weekly_in \<Rightarrow> bat \<Rightarrow> weekly \<Rightarrow> weekly" where
  "report_one i c w =
     (let (w', full) = query_full i c w
      in put_status c \<lparr>status_soc = weekly_num i c ''battery_soc'', status_cycles = bms_cutoff_count (top_of w c),
           status_full = Some full, status_vmax = None, status_reason = None\<rparr> w')"

definition report_status :: "weekly_in \<Rightarrow> weekly \<Rightarrow> weekly" where
  "report_status i w = fold (report_one i) (batteries_with_data i) (w\<lparr>weekly_batteries := []\<rparr>)"

definition complete_one :: "weekly_in \<Rightarrow> bat \<Rightarrow> weekly \<Rightarrow> weekly" where
  "complete_one i c w =
     (if weekly_manual i c then w
      else (let soc = weekly_num i c ''battery_soc'';
                (w', full) = query_full i c w;
                verdict = (if at_least soc 100 then Soc100 else if full then BmsCutoff else NotConfirmed)
            in put_status c \<lparr>status_soc = soc, status_cycles = bms_cutoff_count (top_of w' c), status_full = None,
                 status_vmax = weekly_num i c ''max_cell_voltage'', status_reason = Some verdict\<rparr> w'))"

definition wants_measurement :: "weekly_in \<Rightarrow> bat \<Rightarrow> top_state \<Rightarrow> bool" where
  "wants_measurement i c s =
     (bms_cutoff_confirmed s
      \<and> (cutoff_version (battery_view i c)
         \<or> at_least (weekly_num i c ''max_cell_voltage'') NORMAL_BALANCE_TAPER_CELL_VOLTAGE
         \<or> voltage_tapered s))"

definition request_one :: "weekly_in \<Rightarrow> bat \<Rightarrow> weekly \<Rightarrow> weekly" where
  "request_one i c w =
     (if wants_measurement i c (top_of w c)
      then put_top c ((top_of w c)\<lparr>cutoff_measurement := Some MeasurementPending\<rparr>) w else w)"

definition clear_counts :: "weekly \<Rightarrow> weekly" where
  "clear_counts w = w\<lparr>weekly_tops := (weekly_tops w)\<lparr>tops := (\<lambda>c. (top_of w c)\<lparr>bms_cutoff_count := 0\<rparr>)\<rparr>\<rparr>"

definition release_cutoffs :: "weekly_in \<Rightarrow> weekly \<Rightarrow> weekly" where
  "release_cutoffs i w =
     (let (w', restored) = restore_hardware_cutoffs i CompletionRestore w
      in if restored then w'\<lparr>saved_max_soc := [], cutoff_applied := [], needs_restore := False\<rparr>
         else w'\<lparr>needs_restore := True\<rparr>)"

text \<open>A battery without a measurement gets the cell delta of the moment of completion.\<close>

definition snapshot_one :: "weekly_in \<Rightarrow> bat \<Rightarrow> weekly \<Rightarrow> weekly" where
  "snapshot_one i c w =
     (if weekly_manual i c \<or> cutoff_measurement (top_of w c) = Some MeasurementPending
         \<or> last_delta_v (top_of w c) \<noteq> None \<or> \<not> weekly_data i c then w
      else (case (weekly_num i c ''max_cell_voltage'', weekly_num i c ''min_cell_voltage'') of
          (Some vmax, Some vmin) \<Rightarrow> put_top c ((top_of w c)\<lparr>last_delta_v := Some (round4 (vmax - vmin))\<rparr>) w
        | _ \<Rightarrow> w))"

definition rearm_hysteresis :: "weekly_in \<Rightarrow> bat \<Rightarrow> weekly \<Rightarrow> weekly" where
  "rearm_hysteresis i c w =
     (if weekly_manual i c \<or> \<not> hysteresis_on (battery_view i c) then w
      else w\<lparr>weekly_latch := (weekly_latch w)(c := (weekly_latch w c)\<lparr>hysteresis_active := True,
             hysteresis_base_soc := (case battery_data (top_view (battery_view i c)) of
                 None \<Rightarrow> Some 100
               | Some d \<Rightarrow> (case map_of d ''battery_soc'' of None \<Rightarrow> Some 100 | Some v \<Rightarrow> finite_val v))\<rparr>)\<rparr>)"

definition complete_weekly_charge :: "weekly_in \<Rightarrow> string \<Rightarrow> weekly \<Rightarrow> weekly" where
  "complete_weekly_charge i why w0 =
     (let cs = weekly_fleet i;
          w1 = w0\<lparr>weekly_complete := True, weekly_mode := WeeklyComplete, completion_reason := Some why,
                  weekly_batteries := []\<rparr>;
          w2 = clear_counts (fold (request_one i) cs (fold (complete_one i) cs w1));
          w3 = fold (rearm_hysteresis i) cs (fold (snapshot_one i) cs (release_cutoffs i w2))
      in save_state (today i) w3)"

section \<open>One cycle\<close>

definition tick_one :: "weekly_in \<Rightarrow> bat \<Rightarrow> weekly \<Rightarrow> weekly" where
  "tick_one i c w = put_top c (tick_bms_cutoff (top_view (battery_view i c)) (top_of w c)) w"

definition tick_fleet :: "weekly_in \<Rightarrow> weekly \<Rightarrow> weekly" where
  "tick_fleet i w = fold (tick_one i) (weekly_fleet i) (check_day i w)"

definition abort_restore :: "weekly_in \<Rightarrow> weekly \<Rightarrow> weekly \<times> bool" where
  "abort_restore i w =
     (let (w', restored) = restore_hardware_cutoffs i AbortRestore w
      in if \<not> restored then (save_state (today i) w', False)
         else (let w1 = w'\<lparr>saved_max_soc := [], cutoff_applied := [], needs_restore := False\<rparr>;
                   w2 = (if weekly_complete w then w1 else w1\<lparr>weekly_mode := WeeklyIdle, completion_reason := None\<rparr>)
               in (save_state (today i) w2, True)))"

definition delay_gates :: "weekly_in \<Rightarrow> weekly \<Rightarrow> bool" where
  "delay_gates i w =
     (delay_enabled i \<and> \<not> delay_unlocked w \<and> \<not> force_full_charge w \<and> \<not> balance_overrides i)"

definition charge_stage :: "weekly_in \<Rightarrow> weekly \<Rightarrow> weekly" where
  "charge_stage i w0 =
     (let w1 = (if need_write i w0 then raise_cutoffs i w0 else w0);
          (w2, full) = all_batteries_full i (w1\<lparr>weekly_tops := reset_if_new_day (today i) (weekly_tops w1)\<rparr>);
          w3 = report_status i w2
      in if full \<and> \<not> weekly_complete w3 then complete_weekly_charge i ''all_batteries_full'' w3 else w3)"

definition weekly_stage :: "weekly_in \<Rightarrow> weekly \<Rightarrow> weekly" where
  "weekly_stage i w0 =
     (if \<not> weekly_enabled w0 \<and> \<not> force_full_charge w0 then w0
      else (let (w, act) = is_active i w0 in
        if \<not> act then w
        else if list_all (weekly_manual i) (weekly_fleet i)
        then w\<lparr>weekly_mode := WeeklyIdle, completion_reason := None\<rparr>
        else if delay_gates i w then w
        else charge_stage i w))"

definition handle_registers :: "weekly_in \<Rightarrow> weekly \<Rightarrow> weekly" where
  "handle_registers i w0 =
     (let w1 = tick_fleet i w0;
          (w2, go) = (if needs_restore w1 then abort_restore i w1 else (w1, True))
      in if go then weekly_stage i w2 else w2)"

datatype weekly_event =
    Cycle weekly_in
  | Configure bool nat
  | Restart int int "bat \<Rightarrow> int option" top_fleet
  | DelayLatch bool "rat option"

primrec weekly_step :: "weekly \<Rightarrow> weekly_event \<Rightarrow> weekly" where
  "weekly_step w (Cycle i) = handle_registers i w"
| "weekly_step w (Configure en day) = configure_weekly en day w"
| "weekly_step w (Restart flushed loaded reached fl) = restart flushed loaded reached fl w"
| "weekly_step w (DelayLatch unlocked t) = w\<lparr>delay_unlocked := unlocked, solar_t_start := t\<rparr>"

section \<open>The limits of one battery\<close>

text \<open>What the restore depends on; the detection and the reports leave it alone.\<close>

definition limit_view where
  "limit_view w = (saved_max_soc w, hardware_cutoff w, weekly_complete w, registers_written w, needs_restore w,
     weekly_enabled w, weekly_day w, last_checked_weekday w, force_full_charge w)"

lemma limit_view_fold: "(\<And>c u. limit_view (f c u) = limit_view u) \<Longrightarrow> limit_view (fold f cs w) = limit_view w"
  by (induction cs arbitrary: w) auto

lemma limit_view_simps [simp]:
  "limit_view (put_top c s w) = limit_view w"
  "limit_view (put_status c st w) = limit_view w"
  "limit_view (weekly_batteries_update f w) = limit_view w"
  "limit_view (weekly_mode_update m w) = limit_view w"
  "limit_view (completion_reason_update r w) = limit_view w"
  "limit_view (weekly_tops_update t w) = limit_view w"
  "limit_view (cutoff_applied_update a w) = limit_view w"
  "limit_view (weekly_latch_update l w) = limit_view w"
  "limit_view (weekly_store_update so w) = limit_view w"
  "limit_view (delay_unlocked_update d w) = limit_view w"
  "limit_view (solar_t_start_update ts w) = limit_view w"
  "limit_view (save_state date w) = limit_view w"
  by (simp_all add: limit_view_def put_top_def put_status_def save_state_def)

lemma limit_view_query [simp]: "limit_view (fst (query_full i c w)) = limit_view w"
  by (simp add: query_full_def case_prod_unfold Let_def)

lemma limit_view_loops [simp]:
  "limit_view (report_one i c w) = limit_view w"
  "limit_view (complete_one i c w) = limit_view w"
  "limit_view (request_one i c w) = limit_view w"
  "limit_view (snapshot_one i c w) = limit_view w"
  "limit_view (rearm_hysteresis i c w) = limit_view w"
  "limit_view (clear_counts w) = limit_view w"
  "limit_view (tick_one i c w) = limit_view w"
  by (simp_all add: report_one_def complete_one_def request_one_def snapshot_one_def rearm_hysteresis_def
        clear_counts_def tick_one_def case_prod_unfold Let_def split: option.split)

lemma limit_view_all_full [simp]: "limit_view (fst (all_full i cs w)) = limit_view w"
proof (induction cs arbitrary: w)
  case (Cons c cs)
  then show ?case using limit_view_query [of i c w] by (simp add: case_prod_unfold Let_def)
qed simp

lemma limit_view_stages [simp]:
  "limit_view (fst (all_batteries_full i w)) = limit_view w"
  "limit_view (report_status i w) = limit_view w"
  "limit_view (tick_fleet i w) = limit_view (check_day i w)"
  by (simp_all add: all_batteries_full_def report_status_def tick_fleet_def limit_view_fold)

lemma limit_viewD:
  assumes "limit_view w = limit_view u"
  shows "saved_max_soc w = saved_max_soc u" "hardware_cutoff w = hardware_cutoff u"
    "weekly_complete w = weekly_complete u" "registers_written w = registers_written u"
    "needs_restore w = needs_restore u" "weekly_enabled w = weekly_enabled u" "weekly_day w = weekly_day u"
    "last_checked_weekday w = last_checked_weekday u" "force_full_charge w = force_full_charge u"
  using assms by (simp_all add: limit_view_def)

text \<open>The restore writes every battery it owns, and reports whether all writes were acknowledged.\<close>

definition limit_due :: "weekly_in \<Rightarrow> weekly \<Rightarrow> bat \<Rightarrow> int" where
  "limit_due i w b = dict_get (get_configured_max_soc i b) (saved_max_soc w) b"

lemma limit_due_hardware [simp]: "limit_due i (w\<lparr>hardware_cutoff := h\<rparr>) b = limit_due i w b"
  by (simp add: limit_due_def)

definition restore_rel :: "weekly_in \<Rightarrow> bat \<Rightarrow> weekly \<Rightarrow> weekly \<Rightarrow> bool" where
  "restore_rel i b w u = ((\<exists>h. u = w\<lparr>hardware_cutoff := h\<rparr>)
     \<and> (hardware_cutoff u b = hardware_cutoff w b \<or> cutoff_owned i b \<and> hardware_cutoff u b = limit_due i w b))"

lemma restore_rel_refl: "restore_rel i b w w"
  unfolding restore_rel_def by (metis weekly.surjective weekly.update_convs(17))

lemma restore_rel_trans:
  assumes "restore_rel i b w u" "restore_rel i b u x"
  shows "restore_rel i b w x"
proof -
  obtain h where h: "u = w\<lparr>hardware_cutoff := h\<rparr>" using assms(1) by (auto simp: restore_rel_def)
  obtain g where g: "x = u\<lparr>hardware_cutoff := g\<rparr>" using assms(2) by (auto simp: restore_rel_def)
  have "x = w\<lparr>hardware_cutoff := g\<rparr>" using h g by simp
  then show ?thesis using assms h by (auto simp: restore_rel_def)
qed

lemma restore_one_rel:
  "restore_rel i b w (fst (restore_one i ph c (w, k)))"
  "snd (restore_one i ph c (w, k)) \<Longrightarrow> k"
  "k \<Longrightarrow> outcome i ph c = Acknowledged \<Longrightarrow> snd (restore_one i ph c (w, k))"
  "snd (restore_one i ph b (w, k)) \<Longrightarrow> cutoff_owned i b \<Longrightarrow>
     hardware_cutoff (fst (restore_one i ph b (w, k))) b = limit_due i w b"
proof -
  have wrote: "restore_rel i b w (w\<lparr>hardware_cutoff := (hardware_cutoff w)(c := limit_due i w c)\<rparr>)"
    if "cutoff_owned i c"
    unfolding restore_rel_def using that by (intro conjI exI [of _ "(hardware_cutoff w)(c := limit_due i w c)"]) auto
  show "restore_rel i b w (fst (restore_one i ph c (w, k)))"
    using wrote by (cases "outcome i ph c")
      (simp_all add: restore_one_def set_charge_cutoff_def restore_rel_refl limit_due_def)
qed (auto simp: restore_one_def set_charge_cutoff_def limit_due_def Let_def split: write_outcome.splits if_splits)

lemma restore_fold_rel:
  "restore_rel i b w (fst (fold (restore_one i ph) cs (w, k)))"
  "snd (fold (restore_one i ph) cs (w, k)) \<Longrightarrow> k"
  "k \<Longrightarrow> list_all (\<lambda>c. outcome i ph c = Acknowledged) cs \<Longrightarrow> snd (fold (restore_one i ph) cs (w, k))"
proof (induction cs arbitrary: w k)
  case (Cons c cs)
  {
    case 1
    show ?case
      using restore_rel_trans [OF restore_one_rel(1) [of i b w ph c k]]
        Cons.IH(1) [of "fst (restore_one i ph c (w, k))" "snd (restore_one i ph c (w, k))"] by simp
  next
    case 2
    then show ?case
      using Cons.IH(2) [of "fst (restore_one i ph c (w, k))" "snd (restore_one i ph c (w, k))"]
        restore_one_rel(2) [of i ph c w k] by simp
  next
    case 3
    then show ?case
      using Cons.IH(3) [of "snd (restore_one i ph c (w, k))" "fst (restore_one i ph c (w, k))"]
        restore_one_rel(3) [of k i ph c w] by (cases "restore_one i ph c (w, k)") simp
  }
qed (simp_all add: restore_rel_refl)

lemma restore_fold_hits:
  "snd (fold (restore_one i ph) cs (w, k)) \<Longrightarrow> b \<in> set cs \<Longrightarrow> cutoff_owned i b \<Longrightarrow>
     hardware_cutoff (fst (fold (restore_one i ph) cs (w, k))) b = limit_due i w b"
proof (induction cs arbitrary: w k)
  case (Cons c cs)
  obtain u k' where one: "restore_one i ph c (w, k) = (u, k')" by fastforce
  have rel: "restore_rel i b w u" using restore_one_rel(1) [of i b w ph c k] one by simp
  then have due: "limit_due i u b = limit_due i w b" by (auto simp: restore_rel_def)
  show ?case
  proof (cases "b \<in> set cs")
    case True
    then show ?thesis using Cons.IH [of u k'] Cons.prems one due by simp
  next
    case False
    then have "c = b" using Cons.prems by simp
    have "k'" using restore_fold_rel(2) [of i ph cs u k'] Cons.prems(1) one by simp
    then have "hardware_cutoff u b = limit_due i w b"
      using restore_one_rel(4) [of i ph b w k] one Cons.prems(3) \<open>c = b\<close> by simp
    then show ?thesis
      using restore_fold_rel(1) [of i b u ph cs k'] one due by (auto simp: restore_rel_def)
  qed
qed simp

lemmas restore_spec = restore_fold_rel [where cs = "weekly_fleet i" and i = i for i, folded restore_hardware_cutoffs_def]

section \<open>No limit is lost\<close>

text \<open>
  For one battery \<open>b\<close> with the configured limit \<open>v\<close>: either its cutoff holds \<open>v\<close> or \<open>v\<close> is
  saved, and while it is saved the run is going on or a restore is pending. \<open>day_known\<close>:
  inside a session an unfinished run knows that the target day was seen last.
\<close>

definition held :: "bat \<Rightarrow> int \<Rightarrow> weekly \<Rightarrow> bool" where
  "held b v w = (distinct (map fst (saved_max_soc w)) \<and> map_of (saved_max_soc w) b \<in> {None, Some v}
     \<and> (hardware_cutoff w b = v \<or> map_of (saved_max_soc w) b = Some v))"

definition tracked :: "bat \<Rightarrow> weekly \<Rightarrow> bool" where
  "tracked b w = (map_of (saved_max_soc w) b = None \<or> needs_restore w \<or> (registers_written w \<and> \<not> weekly_complete w))"

definition day_known :: "weekly \<Rightarrow> bool" where
  "day_known w = (\<not> force_full_charge w \<and> (weekly_enabled w \<or> \<not> registers_written w)
     \<and> (registers_written w \<and> \<not> weekly_complete w \<longrightarrow> last_checked_weekday w = Some (weekly_day w)))"

lemma limit_view_laws:
  assumes "limit_view w = limit_view u"
  shows "held b v w = held b v u" "tracked b w = tracked b u" "day_known w = day_known u"
  using limit_viewD [OF assms] by (simp_all add: held_def tracked_def day_known_def)

lemma held_due: "held b v w \<Longrightarrow> get_configured_max_soc i b = v \<Longrightarrow> limit_due i w b = v"
  by (auto simp: held_def limit_due_def dict_get_def)

lemma restore_keeps:
  assumes "restore_rel i b w u" "held b v w" "get_configured_max_soc i b = v"
  shows "held b v u" "tracked b u = tracked b w" "day_known u = day_known w"
  using assms held_due [OF assms(2,3)]
  by (auto simp: restore_rel_def held_def tracked_def day_known_def)

lemma set_charge_cutoff_fields:
  "saved_max_soc (fst (set_charge_cutoff i ph c n w)) = saved_max_soc w"
  "hardware_cutoff (fst (set_charge_cutoff i ph c n w)) \<in> {hardware_cutoff w, (hardware_cutoff w)(c := n)}"
  by (simp_all add: set_charge_cutoff_def Let_def split: write_outcome.split)

lemma mark_applied_fields [simp]:
  "saved_max_soc (mark_applied c w) = saved_max_soc w" "hardware_cutoff (mark_applied c w) = hardware_cutoff w"
  by (simp_all add: mark_applied_def)

lemma raise_one_hardware:
  assumes "cutoff_owned i c"
  shows "saved_max_soc (raise_one i c w) = set_default c (get_configured_max_soc i c) (saved_max_soc w)"
    and "hardware_cutoff (raise_one i c w) \<in> {hardware_cutoff w, (hardware_cutoff w)(c := 100)}"
  using assms set_charge_cutoff_fields [of i RaiseTo100 c 100
      "w\<lparr>saved_max_soc := set_default c (get_configured_max_soc i c) (saved_max_soc w)\<rparr>"]
  by (simp_all add: raise_one_def cutoff_owned_def case_prod_unfold Let_def)

lemma raise_one_software:
  assumes "\<not> cutoff_owned i c"
  shows "saved_max_soc (raise_one i c w) \<in>
      {saved_max_soc w, set_default c (py_trunc (live_max_soc (battery_view i c))) (saved_max_soc w)}"
    and "hardware_cutoff (raise_one i c w) = hardware_cutoff w"
  using assms unfolding raise_one_def cutoff_owned_def by (auto simp del: weekly.simps simp: weekly.select_convs weekly.update_convs)

lemma map_of_set_default:
  "map_of (set_default c n d) b = (if b = c \<and> map_of d c = None then Some n else map_of d b)"
  by (simp add: set_default_def update_conv' split: option.split)

lemma distinct_set_default: "distinct (map fst d) \<Longrightarrow> distinct (map fst (set_default c n d))"
  by (simp add: set_default_def distinct_update split: option.split)

lemma raise_one_held:
  assumes "held b v w" "get_configured_max_soc i b = v" "cutoff_owned i b"
  shows "held b v (raise_one i c w)"
proof (cases "cutoff_owned i c")
  case True
  show ?thesis using assms raise_one_hardware [OF True, of w]
    by (auto simp: held_def map_of_set_default distinct_set_default)
next
  case False
  then have "b \<noteq> c" using assms(3) by auto
  then show ?thesis using assms raise_one_software [OF False, of w]
    by (auto simp: held_def map_of_set_default distinct_set_default)
qed

lemma raise_one_rest:
  "weekly_complete (raise_one i c w) = weekly_complete w" "needs_restore (raise_one i c w) = needs_restore w"
  "weekly_enabled (raise_one i c w) = weekly_enabled w" "weekly_day (raise_one i c w) = weekly_day w"
  "last_checked_weekday (raise_one i c w) = last_checked_weekday w"
  "force_full_charge (raise_one i c w) = force_full_charge w"
  by (auto simp: raise_one_def set_charge_cutoff_def mark_applied_def Let_def split: write_outcome.split)

lemma raise_fold_rest:
  "weekly_complete (fold (raise_one i) cs w) = weekly_complete w"
  "needs_restore (fold (raise_one i) cs w) = needs_restore w"
  "weekly_enabled (fold (raise_one i) cs w) = weekly_enabled w" "weekly_day (fold (raise_one i) cs w) = weekly_day w"
  "last_checked_weekday (fold (raise_one i) cs w) = last_checked_weekday w"
  "force_full_charge (fold (raise_one i) cs w) = force_full_charge w"
  by (induction cs arbitrary: w) (simp_all add: raise_one_rest)

lemma raise_fold_held:
  "held b v w \<Longrightarrow> get_configured_max_soc i b = v \<Longrightarrow> cutoff_owned i b \<Longrightarrow> held b v (fold (raise_one i) cs w)"
  by (induction cs arbitrary: w) (simp_all add: raise_one_held)

lemma save_state_fields [simp]:
  "saved_max_soc (save_state d w) = saved_max_soc w" "hardware_cutoff (save_state d w) = hardware_cutoff w"
  "weekly_complete (save_state d w) = weekly_complete w" "registers_written (save_state d w) = registers_written w"
  "needs_restore (save_state d w) = needs_restore w" "weekly_enabled (save_state d w) = weekly_enabled w"
  "weekly_day (save_state d w) = weekly_day w" "last_checked_weekday (save_state d w) = last_checked_weekday w"
  "force_full_charge (save_state d w) = force_full_charge w"
  by (simp_all add: save_state_def)

lemma check_day_keeps:
  "held b v (check_day i w) = held b v w"
  "tracked b w \<Longrightarrow> tracked b (check_day i w)"
  "day_known w \<Longrightarrow> day_known (check_day i w)"
  by (auto simp: check_day_def exit_target_day_def held_def tracked_def day_known_def)

lemma check_day_seen:
  "weekly_enabled w \<Longrightarrow> last_checked_weekday (check_day i w) = Some (weekday i)"
  "weekly_enabled (check_day i w) = weekly_enabled w" "weekly_day (check_day i w) = weekly_day w"
  by (simp_all add: check_day_def exit_target_day_def)

text \<open>The events of a run that leave \<open>b\<close> in automatic control with its limit \<open>v\<close>.\<close>

primrec quiet :: "bat \<Rightarrow> int \<Rightarrow> weekly_event \<Rightarrow> bool" where
  "quiet b v (Cycle i) = (b \<in> set (weekly_fleet i) \<and> cutoff_owned i b \<and> get_configured_max_soc i b = v)"
| "quiet b v (Configure en day) = True"
| "quiet b v (Restart flushed loaded reached fl) = (reached b = None \<or> reached b = Some v)"
| "quiet b v (DelayLatch unlocked t) = True"

primrec stays_enabled :: "weekly_event \<Rightarrow> bool" where
  "stays_enabled (Cycle i) = True"
| "stays_enabled (Configure en day) = en"
| "stays_enabled (Restart flushed loaded reached fl) = True"
| "stays_enabled (DelayLatch unlocked t) = True"

primrec in_session :: "weekly_event \<Rightarrow> bool" where
  "in_session (Cycle i) = True"
| "in_session (Configure en day) = True"
| "in_session (Restart flushed loaded reached fl) = False"
| "in_session (DelayLatch unlocked t) = True"

definition kept :: "bat \<Rightarrow> int \<Rightarrow> weekly \<Rightarrow> bool" where
  "kept b v w = (held b v w \<and> tracked b w)"

lemma kept_view: "limit_view w = limit_view u \<Longrightarrow> kept b v w = kept b v u"
  unfolding kept_def by (metis limit_view_laws(1,2))

lemma release_kept:
  assumes "held b v w" "quiet b v (Cycle i)"
  shows "kept b v (release_cutoffs i w)" "day_known w \<Longrightarrow> weekly_complete w \<Longrightarrow> day_known (release_cutoffs i w)"
proof -
  obtain u k where r: "restore_hardware_cutoffs i CompletionRestore w = (u, k)" by fastforce
  have rel: "restore_rel i b w u" using restore_spec(1) [of i b w CompletionRestore True] r
    by (simp add: restore_hardware_cutoffs_def)
  have "k \<Longrightarrow> hardware_cutoff u b = v"
    using restore_fold_hits [of i CompletionRestore "weekly_fleet i" w True b] r assms held_due [of b v w i]
    by (simp add: restore_hardware_cutoffs_def)
  then show "kept b v (release_cutoffs i w)"
    using restore_keeps [OF rel, of v] assms r
    by (auto simp: release_cutoffs_def kept_def held_def tracked_def)
  show "day_known (release_cutoffs i w)" if "day_known w" "weekly_complete w"
    using rel that r by (auto simp: release_cutoffs_def day_known_def restore_rel_def)
qed


lemma day_known_view: "limit_view w = limit_view u \<Longrightarrow> day_known w = day_known u"
  by (rule limit_view_laws(3))

lemma held_same:
  "saved_max_soc u = saved_max_soc w \<Longrightarrow> hardware_cutoff u = hardware_cutoff w \<Longrightarrow> held b v u = held b v w"
  by (simp add: held_def)

lemma complete_stages:
  obtains u where
    "saved_max_soc u = saved_max_soc w" "hardware_cutoff u = hardware_cutoff w" "weekly_complete u"
    "registers_written u = registers_written w" "needs_restore u = needs_restore w"
    "weekly_enabled u = weekly_enabled w" "weekly_day u = weekly_day w"
    "last_checked_weekday u = last_checked_weekday w" "force_full_charge u = force_full_charge w"
    "limit_view (complete_weekly_charge i why w) = limit_view (release_cutoffs i u)"
proof -
  let ?w1 = "w\<lparr>weekly_complete := True, weekly_mode := WeeklyComplete, completion_reason := Some why,
                  weekly_batteries := []\<rparr>"
  let ?u = "clear_counts (fold (request_one i) (weekly_fleet i) (fold (complete_one i) (weekly_fleet i) ?w1))"
  have view: "limit_view ?u = limit_view (w\<lparr>weekly_complete := True\<rparr>)"
    by (simp add: limit_view_fold)
  have "limit_view (complete_weekly_charge i why w) = limit_view (release_cutoffs i ?u)"
    unfolding complete_weekly_charge_def Let_def by (simp only: limit_view_simps limit_view_loops limit_view_fold)
  then show thesis using limit_viewD [OF view] by (intro that [of ?u]) simp_all
qed

lemma complete_kept:
  assumes "held b v w" "quiet b v (Cycle i)"
  shows "kept b v (complete_weekly_charge i why w)"
    and "day_known w \<Longrightarrow> day_known (complete_weekly_charge i why w)"
proof -
  obtain u where u: "saved_max_soc u = saved_max_soc w" "hardware_cutoff u = hardware_cutoff w" "weekly_complete u"
    "registers_written u = registers_written w" "needs_restore u = needs_restore w"
    "weekly_enabled u = weekly_enabled w" "weekly_day u = weekly_day w"
    "last_checked_weekday u = last_checked_weekday w" "force_full_charge u = force_full_charge w"
    and view: "limit_view (complete_weekly_charge i why w) = limit_view (release_cutoffs i u)"
    by (rule complete_stages)
  have "held b v u" using assms(1) held_same [OF u(1,2)] by simp
  then show "kept b v (complete_weekly_charge i why w)"
    using release_kept(1) [OF _ assms(2), of u] kept_view [OF view] by simp
  show "day_known (complete_weekly_charge i why w)" if "day_known w"
  proof -
    have "day_known u" using that u by (simp add: day_known_def)
    then show ?thesis using release_kept(2) [OF \<open>held b v u\<close> assms(2)] u(3) day_known_view [OF view] by simp
  qed
qed

lemma raise_kept:
  assumes "held b v w" "quiet b v (Cycle i)" "\<not> weekly_complete w"
  shows "kept b v (raise_cutoffs i w)"
    and "day_known w \<Longrightarrow> weekly_enabled w \<Longrightarrow> last_checked_weekday w = Some (weekly_day w) \<Longrightarrow>
      day_known (raise_cutoffs i w)"
proof -
  let ?u = "fold (raise_one i) (weekly_fleet i) w"
  have "held b v ?u" using raise_fold_held assms by simp
  then have "held b v (raise_cutoffs i w)"
    by (subst held_same [of _ ?u]) (simp_all add: raise_cutoffs_def)
  then show "kept b v (raise_cutoffs i w)"
    using assms(3) by (simp add: kept_def tracked_def raise_cutoffs_def raise_fold_rest)
qed (use assms in \<open>simp add: raise_cutoffs_def day_known_def raise_fold_rest\<close>)

lemma charge_stage_kept:
  assumes "kept b v w" "quiet b v (Cycle i)" "\<not> weekly_complete w"
  shows "kept b v (charge_stage i w)"
    and "day_known w \<Longrightarrow> weekly_enabled w \<Longrightarrow> last_checked_weekday w = Some (weekly_day w) \<Longrightarrow>
      day_known (charge_stage i w)"
proof -
  define u where "u = (if need_write i w then raise_cutoffs i w else w)"
  define x where "x = report_status i (fst (all_batteries_full i (u\<lparr>weekly_tops := reset_if_new_day (today i) (weekly_tops u)\<rparr>)))"
  have view: "limit_view x = limit_view u" by (simp add: x_def)
  have shape: "charge_stage i w = x \<or> charge_stage i w = complete_weekly_charge i ''all_batteries_full'' x"
    by (auto simp: charge_stage_def x_def u_def Let_def case_prod_unfold)
  have "held b v w" using assms(1) by (simp add: kept_def)
  then have "kept b v u" using assms(1) raise_kept(1) [OF _ assms(2,3)] by (simp add: u_def)
  then have kx: "kept b v x" using kept_view [OF view] by simp
  then have "held b v x" by (simp add: kept_def)
  then show "kept b v (charge_stage i w)"
    using shape kx complete_kept(1) [OF _ assms(2)] by auto
  assume "day_known w" "weekly_enabled w" "last_checked_weekday w = Some (weekly_day w)"
  then have "day_known u" using raise_kept(2) [OF \<open>held b v w\<close> assms(2,3)] by (simp add: u_def)
  then have "day_known x" using day_known_view [OF view] by simp
  then show "day_known (charge_stage i w)"
    using shape complete_kept(2) [OF \<open>held b v x\<close> assms(2)] by auto
qed

lemma weekly_stage_kept:
  assumes "kept b v w" "quiet b v (Cycle i)"
  shows "kept b v (weekly_stage i w)" and "day_known w \<Longrightarrow> day_known (weekly_stage i w)"
proof -
  let ?u = "check_day i w"
  have ku: "kept b v ?u" using assms(1) check_day_keeps(1) [of b v] check_day_keeps(2) [of b w] by (simp add: kept_def)
  have mode: "limit_view (?u\<lparr>weekly_mode := WeeklyIdle, completion_reason := None\<rparr>) = limit_view ?u" by simp
  show "kept b v (weekly_stage i w)"
    using assms ku kept_view [OF mode] charge_stage_kept(1) [OF ku assms(2)]
    by (simp add: weekly_stage_def is_active_def weekly_due_def Let_def)
  assume d: "day_known w"
  then have du: "day_known ?u" by (rule check_day_keeps(3))
  have "last_checked_weekday ?u = Some (weekly_day ?u)" if "weekly_due i ?u"
    using that du check_day_seen by (auto simp: weekly_due_def day_known_def)
  then show "day_known (weekly_stage i w)"
    using d du day_known_view [OF mode] charge_stage_kept(2) [OF ku assms(2)]
    by (simp add: weekly_stage_def is_active_def weekly_due_def Let_def)
qed

lemma abort_kept:
  assumes "kept b v w" "quiet b v (Cycle i)" "needs_restore w"
  shows "kept b v (fst (abort_restore i w))" "day_known w \<Longrightarrow> day_known (fst (abort_restore i w))"
    "snd (abort_restore i w) \<Longrightarrow> hardware_cutoff (fst (abort_restore i w)) b = v"
    "list_all (\<lambda>c. outcome i AbortRestore c = Acknowledged) (weekly_fleet i) \<Longrightarrow> snd (abort_restore i w)"
proof -
  obtain u k where r: "restore_hardware_cutoffs i AbortRestore w = (u, k)" by fastforce
  have rel: "restore_rel i b w u" using restore_spec(1) [of i b w AbortRestore True] r
    by (simp add: restore_hardware_cutoffs_def)
  have h: "k \<Longrightarrow> hardware_cutoff u b = v"
    using restore_fold_hits [of i AbortRestore "weekly_fleet i" w True b] r assms held_due [of b v w i]
    by (simp add: restore_hardware_cutoffs_def kept_def)
  have n: "needs_restore u" using rel assms(3) by (auto simp: restore_rel_def)
  show "kept b v (fst (abort_restore i w))"
    using restore_keeps [OF rel, of v] assms r h n
    by (auto simp: abort_restore_def kept_def held_def tracked_def Let_def)
  show "day_known (fst (abort_restore i w))" if "day_known w"
    using restore_keeps(3) [OF rel, of v] assms r that
    by (auto simp: abort_restore_def day_known_def kept_def Let_def)
  show "snd (abort_restore i w) \<Longrightarrow> hardware_cutoff (fst (abort_restore i w)) b = v"
    using r h by (auto simp: abort_restore_def Let_def split: if_splits)
  show "list_all (\<lambda>c. outcome i AbortRestore c = Acknowledged) (weekly_fleet i) \<Longrightarrow> snd (abort_restore i w)"
    using restore_fold_rel(3) [of True i AbortRestore "weekly_fleet i" w] r
    by (simp add: abort_restore_def restore_hardware_cutoffs_def Let_def)
qed

lemma tick_fleet_kept:
  assumes "kept b v w"
  shows "kept b v (tick_fleet i w)" "day_known w \<Longrightarrow> day_known (tick_fleet i w)"
  using assms kept_view [OF limit_view_stages(3)] day_known_view [OF limit_view_stages(3)]
    check_day_keeps(1) [of b v] check_day_keeps(2) [of b w] check_day_keeps(3) [of w]
  by (simp_all add: kept_def)

lemma handle_registers_kept:
  assumes "kept b v w" "quiet b v (Cycle i)"
  shows "kept b v (handle_registers i w)" "day_known w \<Longrightarrow> day_known (handle_registers i w)"
proof -
  let ?u = "tick_fleet i w"
  have u: "kept b v ?u" "day_known w \<Longrightarrow> day_known ?u" using tick_fleet_kept [OF assms(1)] by auto
  note a = abort_kept [OF u(1) assms(2)]
  show "kept b v (handle_registers i w)"
    using a(1) u weekly_stage_kept(1) [OF _ assms(2)] by (simp add: handle_registers_def Let_def case_prod_unfold)
  show "day_known (handle_registers i w)" if "day_known w"
    using a(1,2) u that weekly_stage_kept(2) [OF _ assms(2)] by (simp add: handle_registers_def Let_def case_prod_unfold)
qed


section \<open>Restarts and settings\<close>

definition typed_limits :: "(bat, int) dict \<Rightarrow> bool" where
  "typed_limits d = (distinct (map fst d) \<and> list_all (\<lambda>(c, n). 0 \<le> n \<and> n \<le> 100) d)"

lemma typed_limits_update: "typed_limits d \<Longrightarrow> 0 \<le> n \<Longrightarrow> n \<le> 100 \<Longrightarrow> typed_limits (AList.update c n d)"
  by (induction d) (auto simp: typed_limits_def update_keys split: if_splits)

lemma typed_limits_restored: "typed_limits saved \<Longrightarrow> typed_limits (restore_saved_max_soc d saved)"
  by (induction d saved rule: restore_saved_max_soc.induct) (auto simp: typed_limits_update split: sum.split)

lemma restored_typed: "typed_limits (restored_limits stored)"
  using typed_limits_restored [of "[]"] by (auto simp: restored_limits_def typed_limits_def split: option.split)

lemma update_append: "c \<notin> fst ` set d \<Longrightarrow> AList.update c n d = d @ [(c, n)]"
  by (induction d) auto

lemma restore_saved_append:
  "typed_limits (acc @ d) \<Longrightarrow> restore_saved_max_soc (map (\<lambda>(c, n). (c, VInt n)) d) acc = acc @ d"
proof (induction d arbitrary: acc)
  case (Cons p d)
  obtain c n where p: "p = (c, n)" by fastforce
  then have "0 \<le> n" "n \<le> 100" "c \<notin> fst ` set acc" using Cons.prems by (auto simp: typed_limits_def)
  then show ?case using Cons.IH [of "acc @ [(c, n)]"] Cons.prems p by (simp add: update_append)
qed simp

lemma restored_saved: "typed_limits d \<Longrightarrow> restored_limits (Some (map (\<lambda>(c, n). (c, VInt n)) d)) = d"
  using restore_saved_append [of "[]" d] by (simp add: restored_limits_def)

text \<open>Without the range: what survives for one battery is its own entry.\<close>

lemma restore_saved_entry:
  assumes "distinct (map fst d)"
  shows "map_of (restore_saved_max_soc (map (\<lambda>(c, n). (c, VInt n)) d) acc) b =
    (case map_of d b of Some n \<Rightarrow> if 0 \<le> n \<and> n \<le> 100 then Some n else map_of acc b | None \<Rightarrow> map_of acc b)"
  using assms
proof (induction d arbitrary: acc)
  case (Cons p d)
  obtain c n where p: "p = (c, n)" by fastforce
  then have "map_of d c = None" using Cons.prems by (auto simp: map_of_eq_None_iff)
  then show ?case using Cons p by (auto simp: update_conv' split: option.split)
qed simp

lemma restore_saved_distinct: "distinct (map fst acc) \<Longrightarrow> distinct (map fst (restore_saved_max_soc d acc))"
  by (induction d acc rule: restore_saved_max_soc.induct) (auto simp: distinct_update split: sum.split)

lemma configured_range: "0 \<le> get_configured_max_soc i b" "get_configured_max_soc i b \<le> 100"
  by (simp_all add: get_configured_max_soc_def split: sum.split)

definition flushed_store :: "int \<Rightarrow> weekly \<Rightarrow> weekly_store" where
  "flushed_store date w =
     \<lparr>stored_complete = weekly_complete w, stored_registers_written = registers_written w,
      stored_mode = Some (weekly_mode w), stored_restore_pending = needs_restore w,
      stored_max_soc = Some (map (\<lambda>(c, v). (c, VInt v)) (saved_max_soc w)), stored_date = date,
      stored_delay_unlocked = delay_unlocked w, stored_solar_t_start = solar_t_start w\<rparr>"

definition reopened :: "int \<Rightarrow> (bat \<Rightarrow> int option) \<Rightarrow> top_fleet \<Rightarrow> weekly \<Rightarrow> weekly" where
  "reopened d reached fl w = setup_cutoffs reached (fresh_weekly fl (w\<lparr>weekly_store := Some (flushed_store d w)\<rparr>))"

lemma setup_fields [simp]:
  "saved_max_soc (setup_cutoffs r w) = saved_max_soc w" "weekly_enabled (setup_cutoffs r w) = weekly_enabled w"
  "hardware_cutoff (setup_cutoffs r w) = (\<lambda>c. case r c of None \<Rightarrow> hardware_cutoff w c | Some v \<Rightarrow> v)"
  "weekly_store (setup_cutoffs r w) = weekly_store w"
  by (simp_all add: setup_cutoffs_def)

lemma fresh_fields [simp]:
  "saved_max_soc (fresh_weekly fl w) = []" "weekly_enabled (fresh_weekly fl w) = weekly_enabled w"
  "hardware_cutoff (fresh_weekly fl w) = hardware_cutoff w" "weekly_store (fresh_weekly fl w) = weekly_store w"
  by (simp_all add: fresh_weekly_def)

lemma reopened_fields:
  "weekly_store (reopened d reached fl w) = Some (flushed_store d w)"
  "weekly_enabled (reopened d reached fl w) = weekly_enabled w"
  "hardware_cutoff (reopened d reached fl w) b = (case reached b of None \<Rightarrow> hardware_cutoff w b | Some v \<Rightarrow> v)"
  by (simp_all add: reopened_def split: option.split)

lemma restart_loads:
  assumes "weekly_enabled w"
  shows "restart d d' reached fl w =
    (if d = d' then load_same_day (flushed_store d w) (reopened d reached fl w)
     else load_other_day (flushed_store d w) (reopened d reached fl w))"
proof -
  have "save_state d w = w\<lparr>weekly_store := Some (flushed_store d w)\<rparr>"
    using assms by (simp add: save_state_def flushed_store_def)
  moreover have "stored_date (flushed_store d w) = d" by (simp add: flushed_store_def)
  ultimately show ?thesis
    using assms by (simp add: restart_def load_state_def reopened_fields reopened_def [symmetric])
qed

lemma restart_limits:
  assumes "weekly_enabled w"
  shows "saved_max_soc (restart d d' reached fl w) = restored_limits (Some (map (\<lambda>(c, v). (c, VInt v)) (saved_max_soc w)))"
    and "hardware_cutoff (restart d d' reached fl w) b = (case reached b of None \<Rightarrow> hardware_cutoff w b | Some v \<Rightarrow> v)"
    and "weekly_enabled (restart d d' reached fl w)"
  using assms by (simp_all add: restart_loads load_same_day_def load_other_day_def Let_def reopened_fields)
    (simp_all add: flushed_store_def)

lemma restart_kept:
  assumes "kept b v w" "weekly_enabled w" "reached b = None \<or> reached b = Some v" "0 \<le> v" "v \<le> 100"
  shows "kept b v (restart d d' reached fl w)"
proof -
  let ?s = "map_of (saved_max_soc w) b" and ?r = "restart d d' reached fl w"
  have inv: "distinct (map fst (saved_max_soc w))" "?s = None \<or> ?s = Some v" "hardware_cutoff w b = v \<or> ?s = Some v"
    "?s = None \<or> needs_restore w \<or> (registers_written w \<and> \<not> weekly_complete w)"
    using assms(1) by (auto simp: kept_def held_def tracked_def simp del: map_of_eq_Some_iff)
  have s: "map_of (saved_max_soc ?r) b = ?s"
    using inv(2) restore_saved_entry [OF inv(1), of "[]" b] assms(2,4,5)
    by (auto simp: restart_limits(1) restored_limits_def split: option.split)
  have dist: "distinct (map fst (saved_max_soc ?r))"
    using restore_saved_distinct assms(2) by (simp add: restart_limits(1) restored_limits_def)
  have hw: "hardware_cutoff ?r b = v \<or> map_of (saved_max_soc ?r) b = Some v"
    using assms(2,3) inv(3) s by (auto simp: restart_limits(2))
  have "needs_restore ?r \<or> (registers_written ?r \<and> \<not> weekly_complete ?r)" if "?s \<noteq> None"
    using inv(4) that assms(2) by (auto simp: restart_loads load_same_day_def load_other_day_def flushed_store_def Let_def)
  then show ?thesis using s dist hw inv(2) by (auto simp: kept_def held_def tracked_def simp del: map_of_eq_Some_iff)
qed

lemma configure_kept:
  "kept b v w \<Longrightarrow> kept b v (configure_weekly en day w)"
  "day_known w \<Longrightarrow> day_known (configure_weekly en day w)"
  by (auto simp: kept_def held_def tracked_def day_known_def configure_weekly_def Let_def simp del: map_of_eq_Some_iff)

lemma delay_kept:
  "kept b v (w\<lparr>delay_unlocked := u, solar_t_start := t\<rparr>) = kept b v w"
  "day_known (w\<lparr>delay_unlocked := u, solar_t_start := t\<rparr>) = day_known w"
  by (rule kept_view day_known_view; simp)+

lemma limit_view_enabled: "limit_view w = limit_view u \<Longrightarrow> weekly_enabled w = weekly_enabled u"
  by (rule limit_viewD)


section \<open>Runs\<close>

lemma restore_frame:
  "\<exists>h. fst (restore_hardware_cutoffs i ph w) = w\<lparr>hardware_cutoff := h\<rparr>"
  using restore_spec(1) [of i 0 w ph True] by (simp add: restore_hardware_cutoffs_def restore_rel_def)

lemma release_enabled [simp]: "weekly_enabled (release_cutoffs i w) = weekly_enabled w"
  using restore_frame [of i CompletionRestore w] by (auto simp: release_cutoffs_def case_prod_unfold Let_def)

lemma complete_enabled [simp]: "weekly_enabled (complete_weekly_charge i why w) = weekly_enabled w"
proof -
  obtain u where same: "weekly_enabled u = weekly_enabled w"
    and view: "limit_view (complete_weekly_charge i why w) = limit_view (release_cutoffs i u)"
    by (rule complete_stages [of w i why])
  show ?thesis using limit_viewD(6) [OF view] same by simp
qed

lemma raise_enabled [simp]: "weekly_enabled (raise_cutoffs i w) = weekly_enabled w"
  by (simp add: raise_cutoffs_def raise_fold_rest)

lemma stages_enabled [simp]:
  "weekly_enabled (fst (all_batteries_full i w)) = weekly_enabled w"
  "weekly_enabled (report_status i w) = weekly_enabled w"
  "weekly_enabled (tick_fleet i w) = weekly_enabled w"
  using limit_viewD(6) [OF limit_view_stages(1)] limit_viewD(6) [OF limit_view_stages(2)]
    limit_viewD(6) [OF limit_view_stages(3)] by (simp_all add: check_day_seen)

lemma charge_stage_enabled [simp]: "weekly_enabled (charge_stage i w) = weekly_enabled w"
  by (simp add: charge_stage_def case_prod_unfold Let_def)

lemma weekly_stage_enabled [simp]: "weekly_enabled (weekly_stage i w) = weekly_enabled w"
  by (simp add: weekly_stage_def is_active_def check_day_seen Let_def)

lemma abort_enabled [simp]: "weekly_enabled (fst (abort_restore i w)) = weekly_enabled w"
  using restore_frame [of i AbortRestore w] by (auto simp: abort_restore_def case_prod_unfold Let_def)

lemma handle_enabled [simp]: "weekly_enabled (handle_registers i w) = weekly_enabled w"
  by (simp add: handle_registers_def case_prod_unfold Let_def)

interpretation weekly_on: invariant_machine weekly_step "\<lambda>w. kept b v w \<and> weekly_enabled w"
    "\<lambda>e. quiet b v e \<and> stays_enabled e \<and> 0 \<le> v \<and> v \<le> 100" for b v
proof unfold_locales
  fix w e assume w: "kept b v w \<and> weekly_enabled w" and e: "quiet b v e \<and> stays_enabled e \<and> 0 \<le> v \<and> v \<le> 100"
  show "kept b v (weekly_step w e) \<and> weekly_enabled (weekly_step w e)"
  proof (cases e)
    case (Cycle i)
    then show ?thesis using w e handle_registers_kept(1) [of b v w i] by simp
  next
    case (Configure en day)
    then show ?thesis using w e configure_kept(1) [of b v w en day] by (simp add: configure_weekly_def Let_def)
  next
    case (Restart flushed loaded reached fl)
    then show ?thesis using w e restart_kept [of b v w reached flushed loaded fl] restart_limits(3) by simp
  next
    case (DelayLatch u t)
    then show ?thesis using w by (simp add: delay_kept)
  qed
qed

interpretation weekly_session: invariant_machine weekly_step "\<lambda>w. kept b v w \<and> day_known w"
    "\<lambda>e. quiet b v e \<and> in_session e" for b v
proof unfold_locales
  fix w e assume w: "kept b v w \<and> day_known w" and e: "quiet b v e \<and> in_session e"
  show "kept b v (weekly_step w e) \<and> day_known (weekly_step w e)"
  proof (cases e)
    case (Cycle i)
    then show ?thesis using w e handle_registers_kept [of b v w i] by simp
  qed (use w e configure_kept in \<open>auto simp: delay_kept\<close>)
qed

text \<open>The start of a session: nothing is raised and nothing is pending.\<close>

definition at_rest :: "bat \<Rightarrow> int \<Rightarrow> weekly \<Rightarrow> bool" where
  "at_rest b v w = (saved_max_soc w = [] \<and> hardware_cutoff w b = v \<and> \<not> registers_written w
     \<and> \<not> needs_restore w \<and> \<not> force_full_charge w)"

lemma at_rest_kept: "at_rest b v w \<Longrightarrow> kept b v w \<and> day_known w"
  by (simp add: at_rest_def kept_def held_def tracked_def day_known_def)






section \<open>Concrete runs\<close>

text \<open>
  Two batteries with the limits 90 and 80, and Sunday (6) as the day. The second battery
  is taken into manual mode between the start of the run and its completion: the restore
  passes it over and forgets its limit, so its cutoff stays at 100.
\<close>


definition example_view :: "rat \<Rightarrow> bool \<Rightarrow> weekly_battery" where
  "example_view soc manual = \<lparr>top_view = \<lparr>battery_data = Some [(''battery_soc'', VFloat (Fin soc))], manual_owner = manual,
       taper_enabled = False, uses_bms_cutoff_at_top = False, is_zendure = False, commanded_charge_power = 0,
       weekly_unlocked = True, now_utc = 0\<rparr>,
     backup_on = False, hardware_soc_cutoff = True, live_max_soc = 100, cutoff_version = False, hysteresis_on = False\<rparr>"

definition example_in :: "nat \<Rightarrow> rat \<Rightarrow> bool \<Rightarrow> weekly_in" where
  "example_in wd soc manual = \<lparr>weekly_fleet = [0, 1],
     battery_view = (\<lambda>c. if c = 0 then example_view soc False else example_view 85 manual),
     battery_configs = [(0, Some (VInt 90)), (1, Some (VInt 80))], weekday = wd, today = int wd,
     delay_enabled = False, balance_overrides = False, outcome = (\<lambda>ph c. Acknowledged)\<rparr>"

definition example_cycle :: "nat \<Rightarrow> rat \<Rightarrow> bool \<Rightarrow> weekly_event" where
  "example_cycle wd soc manual = Cycle (example_in wd soc manual)"

definition example_weekly :: weekly where
  "example_weekly = \<lparr>weekly_enabled = True, weekly_day = 6, weekly_complete = False, registers_written = False,
     needs_restore = False, force_full_charge = False, saved_max_soc = [], cutoff_applied = [],
     last_checked_weekday = None, weekly_mode = WeeklyIdle, completion_reason = None, weekly_batteries = [],
     delay_unlocked = False, solar_t_start = None,
     weekly_tops = \<lparr>tops = (\<lambda>c. fresh_top), normal_balance_date = 0, top_gates = empty_gates\<rparr>,
     weekly_latch = (\<lambda>c. fresh_latch), hardware_cutoff = (\<lambda>c. if c = 0 then 90 else 80), weekly_store = None\<rparr>"

lemma example_raised: "let w = run weekly_step example_weekly [example_cycle 6 85 False] in
  hardware_cutoff w 0 = 100 \<and> hardware_cutoff w 1 = 100 \<and> saved_max_soc w = [(0, 90), (1, 80)]"
  by code_simp

lemma manual_battery_forgotten: "let w = run weekly_step example_weekly
      [example_cycle 6 85 False, example_cycle 6 100 True, example_cycle 0 90 False] in
  hardware_cutoff w 0 = 90 \<and> hardware_cutoff w 1 = 100 \<and> saved_max_soc w = [] \<and> \<not> needs_restore w"
  by code_simp

text \<open>
  C22. From rest, with its configured cutoff in place, a battery in automatic control never loses
  its limit as long as the configured limit stays the same: after any run of cycles with any
  failures of their writes it still has that cutoff, or the limit is saved and a restore is pending
  or the run is going on. The run has either no restart and any change of the feature's switch and
  day, or any restarts that flush the state while the feature stays enabled, for a limit of 0 to
  100 (a disabled feature saves nothing, see \<open>disabled_restart_forgets_limit\<close>).
\<close>

theorem limit_never_lost:
  assumes "at_rest b v w" "list_all (quiet b v) es"
    and "list_all in_session es \<or> weekly_enabled w \<and> list_all stays_enabled es \<and> 0 \<le> v \<and> v \<le> 100"
  shows "let w' = run weekly_step w es in
     hardware_cutoff w' b = v
     \<or> map_of (saved_max_soc w') b = Some v \<and> (needs_restore w' \<or> registers_written w' \<and> \<not> weekly_complete w')"
proof -
  have "kept b v (run weekly_step w es)"
  proof (cases "list_all in_session es")
    case True
    then show ?thesis
      using weekly_session.run_inv [of b v w es] at_rest_kept assms(1,2) by (auto simp: list_all_iff)
  next
    case False
    then show ?thesis
      using weekly_on.run_inv [of b v w es] at_rest_kept assms by (auto simp: list_all_iff)
  qed
  then show ?thesis
    by (auto simp: kept_def held_def tracked_def Let_def simp del: map_of_eq_Some_iff)
qed


text \<open>Sunday raises both cutoffs, a restart within the day resumes, and Monday restores.\<close>

theorem limit_never_lost_witness:
  "let w' = run weekly_step example_weekly [example_cycle 6 85 False, Restart 6 6 (\<lambda>c. None)
       (weekly_tops example_weekly), example_cycle 6 86 False]
   in hardware_cutoff w' 0 = 100 \<and> map_of (saved_max_soc w') 0 = Some 90"
proof -
  let ?es = "[example_cycle 6 85 False, Restart 6 6 (\<lambda>c. None) (weekly_tops example_weekly), example_cycle 6 86 False]"
  have "at_rest 0 90 example_weekly" "list_all (quiet 0 90) ?es" by code_simp+
  moreover have "weekly_enabled example_weekly \<and> list_all stays_enabled ?es \<and> (0::int) \<le> 90 \<and> (90::int) \<le> 100"
    by code_simp
  ultimately have "hardware_cutoff (run weekly_step example_weekly ?es) 0 = 90
      \<or> map_of (saved_max_soc (run weekly_step example_weekly ?es)) 0 = Some 90"
    using limit_never_lost [of 0 90 example_weekly ?es] by (auto simp: Let_def simp del: map_of_eq_Some_iff)
  moreover have "hardware_cutoff (run weekly_step example_weekly ?es) 0 = 100" by code_simp
  ultimately show ?thesis by (simp add: Let_def)
qed




text \<open>A feature switched off in the middle of a charge saves nothing: a restart then forgets the limit.\<close>

lemma disabled_restart_forgets_limit:
  "let w = run weekly_step example_weekly [example_cycle 6 85 False, Configure False 6,
       Restart 6 6 (\<lambda>c. None) (weekly_tops example_weekly), example_cycle 0 85 False]
   in hardware_cutoff w 0 = 100 \<and> saved_max_soc w = [] \<and> \<not> needs_restore w"
  by code_simp

end
