(* ===== verification/Charge_Delay.thy ===== *)
theory Charge_Delay
  imports Blockers Power_Limits Fleet Price_Base
begin

text \<open>
  The charge delay (\<open>control/charge_delay.py\<close>, with \<open>detect_solar_t_start\<close>, \<open>estimate_t_end\<close>
  and \<open>get_today_target_soc\<close> of \<open>tracking/consumption_tracker.py\<close>): charging waits while
  the solar forecast covers the target, until the last feasible moment or the cheapest hour
  before it. Hours of the day are exact numbers; a telemetry reading that is present is a
  number. The cosine curve of production and the learned consumption are functions of the
  input; \<open>_should_delay_charge\<close> always reads the remaining forecast (its flag
  \<open>forecast_is_remaining\<close> is constantly true), so its other branches are not reached. The status keeps the figures
  unrounded and hours instead of their \<open>HH:MM\<close> text.
\<close>

section \<open>Data\<close>

definition T_START_FALLBACK_HOUR :: rat where "T_START_FALLBACK_HOUR = 11"

definition DELAY_SAFETY_FACTOR :: rat where "DELAY_SAFETY_FACTOR = 13/10"

definition DELAY_SOC_SETPOINT_HYSTERESIS :: rat where "DELAY_SOC_SETPOINT_HYSTERESIS = 3"

definition PROVISIONAL_ZERO_HOLD_HOUR :: rat where "PROVISIONAL_ZERO_HOLD_HOUR = 1"

definition MICRO :: rat where "MICRO = 1/1000000"

definition NANO :: rat where "NANO = 1/1000000000"

datatype unlock_reason =
    NoForecast | ZeroForecast | LowForecast | NoTStart | PastTEnd | BatteriesFull | NoChargePower
  | EnergyBalance | TimeBackup | PriceOptimal

datatype delay_mode =
    DelayIdle | DelayDisabled | SkippedFullChargeDay | ChargingAllowed | ChargingToSetpoint
  | WaitingForForecast | WaitingForSolar | Unlocking unlock_reason
  | Delayed rat | DelayedPrice rat | DelayedCheapImport rat

record delay_battery =
  delay_tele :: telemetry
  delay_manual :: bool
  delay_min_soc :: rat
  delay_max_soc :: rat
  delay_limit :: int

record solar_read =
  remaining_kwh :: rat
  original_source :: string
  read_source :: string
  solar_conversion :: string

record profile_answer =
  profile_kwh :: rat
  profile_source :: string

record delay_in =
  delay_on :: bool
  skips_delay :: bool
  weekly_today :: bool
  setpoint_on :: bool
  soc_setpoint :: rat
  delay_fleet :: "bat list"
  delay_bat :: "bat \<Rightarrow> delay_battery"
  now_local :: time
  date_now :: int
  mono_now :: rat
  forecast_configured :: bool
  forecast_read :: "solar_read option"
  forecast_grace :: rat
  forecast_between :: "rat \<Rightarrow> rat \<Rightarrow> profile_answer option"
  avg_daily_kwh :: rat
  balance_deadband :: rat
  safety_margin_h :: rat
  system_charge_limit :: int
  solar_noon :: rat
  grid_w :: "rat option"
  sunrise_h :: "rat option"
  price_driven :: bool
  future_slots :: "tariff_slot list"
  shape :: "rat \<Rightarrow> rat"

record delay_status =
  ds_mode :: delay_mode
  ds_reason :: "unlock_reason option"
  ds_target :: "rat option"
  ds_setpoint :: "rat option"
  ds_t_start :: "rat option"
  ds_energy_needed :: "rat option"
  ds_forecast :: "rat option"
  ds_t_end :: "rat option"
  ds_remaining_solar :: "rat option"
  ds_remaining_consumption :: "rat option"
  ds_net_solar :: "rat option"
  ds_charge_time :: "rat option"
  ds_estimated :: "rat option"

record delay_store =
  delay_store_date :: int
  delay_store_unlocked :: bool
  delay_store_reached :: bool
  delay_store_t_start :: "rat option"

record delay_state =
  dl_unlocked :: bool
  dl_reached :: bool
  dl_t_start :: "rat option"
  dl_last_date :: "int option"
  dl_missing_since :: "rat option"
  dl_forecast_cache :: "rat option"
  dl_source_cache :: "string option"
  dl_conversion_cache :: "string option"
  dl_profile_cache :: "string option"
  dl_needs_charge :: bool
  dl_status :: delay_status
  dl_store :: "delay_store option"

definition clock_h :: "time \<Rightarrow> rat" where
  "clock_h t = of_int (\<lfloor>t / 60\<rfloor> mod 1440) / 60"

definition delay_now :: "delay_in \<Rightarrow> rat" where
  "delay_now x = clock_h (now_local x)"

section \<open>The fleet\<close>

definition automatic :: "delay_in \<Rightarrow> bat list" where
  "automatic x = filter (\<lambda>c. \<not> delay_manual (delay_bat x c)) (delay_fleet x)"

definition with_data :: "delay_in \<Rightarrow> bat list \<Rightarrow> bat list" where
  "with_data x cs = filter (\<lambda>c. has_data (delay_tele (delay_bat x c))) cs"

definition read_or :: "rat \<Rightarrow> delay_in \<Rightarrow> bat \<Rightarrow> string \<Rightarrow> rat" where
  "read_or dflt x c key = (case reading (delay_tele (delay_bat x c)) key of None \<Rightarrow> dflt | Some q \<Rightarrow> q)"

definition soc_deficit :: "delay_in \<Rightarrow> rat \<Rightarrow> bat \<Rightarrow> rat" where
  "soc_deficit x target c =
     (target - read_or 100 x c ''battery_soc'') / 100 * read_or 0 x c ''battery_total_energy''"

definition energy_needed_kwh :: "delay_in \<Rightarrow> bat list \<Rightarrow> rat \<Rightarrow> rat" where
  "energy_needed_kwh x cs target = sum_list (map (soc_deficit x target) (with_data x cs))"

definition battery_hours :: "delay_in \<Rightarrow> rat \<Rightarrow> bat \<Rightarrow> rat" where
  "battery_hours x target c =
     (if soc_deficit x target c \<le> 0 \<or> delay_limit (delay_bat x c) \<le> 0 then 0
      else soc_deficit x target c / (of_int (delay_limit (delay_bat x c)) / 1000 * CHARGE_EFFICIENCY))"

definition charge_time_h :: "delay_in \<Rightarrow> bat list \<Rightarrow> rat \<Rightarrow> rat \<Rightarrow> rat \<Rightarrow> rat" where
  "charge_time_h x cs target needed system_kw =
     max (foldl (\<lambda>slowest c. max slowest (battery_hours x target c)) 0 (with_data x cs))
         (needed / (system_kw * CHARGE_EFFICIENCY))"

definition any_charging :: "delay_in \<Rightarrow> bat list \<Rightarrow> bool" where
  "any_charging x cs = list_ex (\<lambda>c. 0 < read_or 0 x c ''battery_power'') (with_data x cs)"

definition today_target_soc :: "delay_in \<Rightarrow> rat" where
  "today_target_soc x =
     (if weekly_today x \<or> delay_fleet x = [] then 100
      else of_int (py_round (sum_list (map (\<lambda>c. delay_max_soc (delay_bat x c)) (delay_fleet x))
                             / of_nat (length (delay_fleet x)))))"

section \<open>Solar day\<close>

definition detect_solar_t_start :: "delay_in \<Rightarrow> rat option \<Rightarrow> rat option" where
  "detect_solar_t_start x t =
     (if t \<noteq> None then t
      else if delay_now x < 7 then None
      else if (case grid_w x of None \<Rightarrow> False | Some g \<Rightarrow> g \<le> 0)
              \<and> sum_list (map (\<lambda>c. read_or 0 x c ''battery_power'') (with_data x (delay_fleet x))) \<le> 0
      then Some (delay_now x)
      else (case sunrise_h x of
          None \<Rightarrow> None
        | Some r \<Rightarrow> (if r + 1/2 \<le> delay_now x then Some r else None)))"

definition estimate_t_end :: "delay_in \<Rightarrow> rat \<Rightarrow> rat" where
  "estimate_t_end x ts =
     (let te = 2 * solar_noon x - ts in
      if te < delay_now x \<and> any_charging x (delay_fleet x) then delay_now x + 1 else te)"

section \<open>Prices\<close>

definition slot_from :: "tariff_slot \<Rightarrow> rat" where
  "slot_from s = clock_h (t_start s)"

definition slot_to :: "tariff_slot \<Rightarrow> rat" where
  "slot_to s = slot_from s + (t_end s - t_start s) / 3600"

definition overlap_h :: "rat \<Rightarrow> rat \<Rightarrow> tariff_slot \<Rightarrow> rat" where
  "overlap_h a b s = max 0 (min b (slot_to s) - max a (slot_from s))"

definition window_avg_price :: "rat \<Rightarrow> rat \<Rightarrow> tariff_slot list \<Rightarrow> rat option" where
  "window_avg_price start_h charge_h slots =
     (let end_h = start_h + charge_h;
          cost = sum_list (map (\<lambda>s. t_price s * overlap_h start_h end_h s) slots);
          covered = sum_list (map (overlap_h start_h end_h) slots)
      in if charge_h \<le> 0 then None
         else if covered < charge_h - MICRO then None else Some (cost / charge_h))"

fun covering_price :: "rat \<Rightarrow> tariff_slot list \<Rightarrow> rat option" where
  "covering_price h [] = None"
| "covering_price h (s # ss) =
     (if slot_from s - NANO \<le> h \<and> h < slot_to s then Some (t_price s) else covering_price h ss)"

definition start_score :: "rat option \<Rightarrow> tariff_slot list \<Rightarrow> rat \<Rightarrow> rat option" where
  "start_score charge_h slots h = (case charge_h of
     Some ch \<Rightarrow> (if 0 < ch then window_avg_price h ch slots else covering_price h slots)
   | None \<Rightarrow> covering_price h slots)"

definition release_candidates :: "rat \<Rightarrow> rat option \<Rightarrow> tariff_slot list \<Rightarrow> (rat \<times> rat) list" where
  "release_candidates edge charge_h slots =
     List.map_filter (\<lambda>s. if edge + MICRO < slot_from s then None
       else map_option (\<lambda>p. (p, slot_from s)) (start_score charge_h slots (slot_from s))) slots"

definition RELEASE_EPS :: rat where "RELEASE_EPS = 5/1000"

definition price_optimal_release_h :: "delay_in \<Rightarrow> rat \<Rightarrow> rat \<Rightarrow> rat option \<Rightarrow> rat option" where
  "price_optimal_release_h x now edge charge_h =
     (let slots = future_slots x; cands = release_candidates edge charge_h slots
      in if \<not> price_driven x \<or> slots = [] \<or> cands = [] then None
         else (let best = arg_min_list id cands;
                   has_current = list_ex (\<lambda>(p, h). h \<le> now + NANO) cands
               in case start_score charge_h slots now of
                    Some cur \<Rightarrow> Some (if has_current \<and> cur \<le> fst best + RELEASE_EPS then now else snd best)
                  | None \<Rightarrow> Some (snd best)))"

section \<open>The projected unlock\<close>

definition fraction_done :: "delay_in \<Rightarrow> rat \<Rightarrow> rat \<Rightarrow> rat \<Rightarrow> rat" where
  "fraction_done x ts te t = shape x (max 0 (min 1 ((t - ts) / (te - ts))))"

definition profile_consumption_at :: "delay_in \<Rightarrow> bool \<Rightarrow> rat \<Rightarrow> rat \<Rightarrow> rat option" where
  "profile_consumption_at x use_profile t te =
     (if \<not> use_profile then None
      else (case forecast_between x (max 0 t) (max 0 te) of
          None \<Rightarrow> None
        | Some a \<Rightarrow> (if profile_source a \<in> {''profile'', ''vacation_baseline''} then Some (profile_kwh a) else None)))"

definition net_solar_at :: "delay_in \<Rightarrow> bool \<Rightarrow> rat \<Rightarrow> rat \<Rightarrow> rat \<Rightarrow> rat \<Rightarrow> rat \<Rightarrow> rat" where
  "net_solar_at x use_profile forecast ts te now t =
     (let remaining_at_now = max NANO (1 - fraction_done x ts te now);
          remaining_solar = forecast * (1 - fraction_done x ts te t) / remaining_at_now;
          remaining_consumption = (case profile_consumption_at x use_profile t te of
              Some c \<Rightarrow> c
            | None \<Rightarrow> avg_daily_kwh x * (max 0 (te - t) / 24))
      in remaining_solar - remaining_consumption)"

fun bisect :: "nat \<Rightarrow> (rat \<Rightarrow> bool) \<Rightarrow> rat \<Rightarrow> rat \<Rightarrow> rat \<times> rat" where
  "bisect 0 covers lo hi = (lo, hi)"
| "bisect (Suc n) covers lo hi =
     (let mid = (lo + hi) / 2 in if covers mid then bisect n covers mid hi else bisect n covers lo mid)"

definition estimate_unlock_h :: "delay_in \<Rightarrow> bool \<Rightarrow> rat \<Rightarrow> rat \<Rightarrow> rat \<Rightarrow> rat \<Rightarrow> rat \<Rightarrow> rat \<Rightarrow> rat option" where
  "estimate_unlock_h x use_profile forecast needed ts te now factor =
     (let covers = (\<lambda>t. needed * factor \<le> net_solar_at x use_profile forecast ts te now t)
      in if te - ts \<le> 0 then None
         else if \<not> covers now then Some now
         else if covers te then None
         else (let (lo, hi) = bisect 40 covers now te in Some ((lo + hi) / 2)))"

section \<open>The decision\<close>

definition set_status :: "(delay_status \<Rightarrow> delay_status) \<Rightarrow> delay_state \<Rightarrow> delay_state" where
  "set_status f st = st\<lparr>dl_status := f (dl_status st)\<rparr>"

definition in_mode :: "delay_mode \<Rightarrow> delay_state \<Rightarrow> delay_state" where
  "in_mode m = set_status (\<lambda>d. d\<lparr>ds_mode := m\<rparr>)"

definition unlock :: "unlock_reason \<Rightarrow> delay_state \<Rightarrow> delay_state \<times> bool" where
  "unlock r st = (set_status (\<lambda>d. d\<lparr>ds_mode := Unlocking r, ds_reason := Some r\<rparr>) st, False)"

definition hold :: "delay_mode \<Rightarrow> delay_state \<Rightarrow> delay_state \<times> bool" where
  "hold m st = (in_mode m st, True)"

text \<open>A hold for a cheaper hour also publishes that hour.\<close>

definition hold_until :: "(rat \<Rightarrow> delay_mode) \<Rightarrow> rat \<Rightarrow> delay_state \<Rightarrow> delay_state \<times> bool" where
  "hold_until m h st = (set_status (\<lambda>d. d\<lparr>ds_mode := m h, ds_estimated := Some h\<rparr>) st, True)"

definition profile_forecast_between :: "delay_in \<Rightarrow> rat \<Rightarrow> rat \<Rightarrow> profile_answer option" where
  "profile_forecast_between x a b =
     (if b \<le> a then None
      else (case forecast_between x (max 0 a) (max 0 b) of
          None \<Rightarrow> None
        | Some r \<Rightarrow> (if profile_source r \<in> {''profile'', ''legacy_daily'', ''vacation_baseline''} then Some r else None)))"

definition publish_deficit :: "delay_in \<Rightarrow> rat \<Rightarrow> delay_state \<Rightarrow> delay_state" where
  "publish_deficit x needed st = set_status (\<lambda>d. d\<lparr>ds_t_start := dl_t_start st, ds_energy_needed := Some (max 0 needed),
     ds_t_end := None, ds_remaining_solar := None, ds_remaining_consumption := None, ds_net_solar := None,
     ds_charge_time := None, ds_estimated := None\<rparr>) st"

text \<open>A forecast that is gone is waited for, up to the grace period.\<close>

definition forecast_gap :: "delay_in \<Rightarrow> delay_state \<Rightarrow> delay_state \<times> bool" where
  "forecast_gap x st0 =
     (let since = (case dl_missing_since st0 of None \<Rightarrow> mono_now x | Some t \<Rightarrow> t);
          st = st0\<lparr>dl_missing_since := Some since\<rparr>
      in if mono_now x - since < forecast_grace x then hold WaitingForForecast st else unlock NoForecast st)"

definition note_forecast :: "solar_read \<Rightarrow> delay_state \<Rightarrow> delay_state" where
  "note_forecast f st =
     (st\<lparr>dl_missing_since := None, dl_status := (dl_status st)\<lparr>ds_reason := None, ds_forecast := Some (remaining_kwh f)\<rparr>\<rparr>)"

definition total_capacity_kwh :: "delay_in \<Rightarrow> rat" where
  "total_capacity_kwh x = sum_list (map (\<lambda>c. read_or 0 x c ''battery_total_energy'') (with_data x (automatic x)))"

definition average_soc :: "delay_in \<Rightarrow> rat" where
  "average_soc x =
     (let cs = with_data x (automatic x) in
      if cs = [] then 0 else sum_list (map (\<lambda>c. read_or 0 x c ''battery_soc'') cs) / of_nat (length cs))"

definition usable_kwh :: "delay_in \<Rightarrow> rat" where
  "usable_kwh x =
     (let floors = map (\<lambda>c. delay_min_soc (delay_bat x c)) (automatic x);
          floor = (if floors = [] then 20 else Max (set floors))
      in max 0 ((average_soc x - floor) / 100 * total_capacity_kwh x))"

definition rest_of_day_kwh :: "delay_in \<Rightarrow> rat" where
  "rest_of_day_kwh x = (case profile_forecast_between x (delay_now x) 24 of
     Some p \<Rightarrow> profile_kwh p
   | None \<Rightarrow> avg_daily_kwh x * (max 0 (24 - delay_now x) / 24))"

definition balance_source :: "delay_in \<Rightarrow> string" where
  "balance_source x = (case profile_forecast_between x (delay_now x) 24 of
     Some p \<Rightarrow> profile_source p | None \<Rightarrow> ''legacy_daily'')"

definition forecast_source :: "solar_read \<Rightarrow> string" where
  "forecast_source f =
     (let origin = (if original_source f = ''today_legacy'' then ''today'' else original_source f)
      in if origin = [] then read_source f else origin)"

definition balance_stale :: "delay_in \<Rightarrow> solar_read \<Rightarrow> delay_state \<Rightarrow> bool" where
  "balance_stale x f st =
     ((case dl_forecast_cache st of None \<Rightarrow> True | Some c \<Rightarrow> 5/100 < \<bar>remaining_kwh f - c\<bar>)
      \<or> dl_source_cache st \<noteq> Some (forecast_source f) \<or> dl_conversion_cache st \<noteq> Some (solar_conversion f)
      \<or> dl_profile_cache st \<noteq> Some (balance_source x))"

definition grid_needed :: "delay_in \<Rightarrow> solar_read \<Rightarrow> bool" where
  "grid_needed x f = (usable_kwh x + remaining_kwh f < rest_of_day_kwh x - balance_deadband x)"

definition refresh_balance :: "delay_in \<Rightarrow> solar_read \<Rightarrow> delay_state \<Rightarrow> delay_state" where
  "refresh_balance x f st =
     (if \<not> balance_stale x f st then st
      else st\<lparr>dl_needs_charge := grid_needed x f, dl_forecast_cache := Some (remaining_kwh f),
              dl_source_cache := Some (forecast_source f), dl_conversion_cache := Some (solar_conversion f),
              dl_profile_cache := Some (balance_source x)\<rparr>)"

text \<open>A day that needs the grid waits for the cheapest import hour before the sun.\<close>

definition cheap_import_h :: "delay_in \<Rightarrow> rat option \<Rightarrow> rat option" where
  "cheap_import_h x ts =
     (let now = delay_now x; edge = (case ts of None \<Rightarrow> T_START_FALLBACK_HOUR | Some t \<Rightarrow> t)
      in if edge \<le> now then None
         else (case price_optimal_release_h x now edge None of
             None \<Rightarrow> None | Some h \<Rightarrow> (if h \<le> now + MICRO then None else Some h)))"

definition deficit_stage :: "delay_in \<Rightarrow> solar_read \<Rightarrow> delay_state \<Rightarrow> delay_state \<times> bool" where
  "deficit_stage x f st = (case cheap_import_h x (dl_t_start st) of
     Some h \<Rightarrow> hold_until DelayedCheapImport h st
   | None \<Rightarrow> unlock (if remaining_kwh f \<le> NANO then ZeroForecast else LowForecast) st)"

definition price_hold_h :: "delay_in \<Rightarrow> rat \<Rightarrow> rat \<Rightarrow> rat \<Rightarrow> rat option" where
  "price_hold_h x now edge charge_h =
     (if edge \<le> now then None else price_optimal_release_h x now edge (Some charge_h))"

definition system_kw :: "delay_in \<Rightarrow> rat" where
  "system_kw x = of_int (effective_system_capacity (\<lambda>c. delay_manual (delay_bat x c))
     (\<lambda>c. delay_limit (delay_bat x c)) (system_charge_limit x) (automatic x)) / 1000"

definition remaining_consumption :: "delay_in \<Rightarrow> rat \<Rightarrow> rat" where
  "remaining_consumption x te = (case profile_forecast_between x (delay_now x) te of
     Some p \<Rightarrow> profile_kwh p
   | None \<Rightarrow> (if 0 < max 0 (te - delay_now x) then avg_daily_kwh x * (max 0 (te - delay_now x) / 24) else 0))"

text \<open>The figures of the feasibility check.\<close>

record delay_balance =
  db_needed :: rat
  db_charge_h :: rat
  db_net :: rat
  db_t_start :: rat
  db_t_end :: rat
  db_use_profile :: bool

definition delay_balance_of :: "delay_in \<Rightarrow> rat \<Rightarrow> solar_read \<Rightarrow> rat \<Rightarrow> rat \<Rightarrow> rat \<Rightarrow> delay_balance" where
  "delay_balance_of x target f needed ts te =
     \<lparr>db_needed = needed, db_charge_h = charge_time_h x (automatic x) target needed (system_kw x),
      db_net = remaining_kwh f - remaining_consumption x te, db_t_start = ts, db_t_end = te,
      db_use_profile = (profile_forecast_between x (delay_now x) te \<noteq> None)\<rparr>"

definition energy_insufficient :: "delay_balance \<Rightarrow> bool" where
  "energy_insufficient b = (db_net b < db_needed b * DELAY_SAFETY_FACTOR)"

definition time_limit_reached :: "delay_in \<Rightarrow> delay_balance \<Rightarrow> bool" where
  "time_limit_reached x b = (db_t_end b \<le> delay_now x + db_charge_h b + safety_margin_h x)"

definition time_backup_h :: "delay_in \<Rightarrow> delay_balance \<Rightarrow> rat" where
  "time_backup_h x b = db_t_end b - db_charge_h b - safety_margin_h x"

definition unlock_estimate :: "delay_in \<Rightarrow> solar_read \<Rightarrow> delay_balance \<Rightarrow> rat \<Rightarrow> rat option" where
  "unlock_estimate x f b factor =
     estimate_unlock_h x (db_use_profile b) (remaining_kwh f) (db_needed b) (db_t_start b) (db_t_end b) (delay_now x) factor"

definition projected_unlock_h :: "delay_in \<Rightarrow> solar_read \<Rightarrow> delay_balance \<Rightarrow> rat" where
  "projected_unlock_h x f b = (case unlock_estimate x f b DELAY_SAFETY_FACTOR of
     None \<Rightarrow> time_backup_h x b
   | Some h \<Rightarrow> (if h \<le> delay_now x \<and> \<not> energy_insufficient b then time_backup_h x b else min (time_backup_h x b) h))"

definition cushion_edge_h :: "delay_in \<Rightarrow> solar_read \<Rightarrow> delay_balance \<Rightarrow> rat" where
  "cushion_edge_h x f b = (case unlock_estimate x f b 1 of
     None \<Rightarrow> time_backup_h x b | Some h \<Rightarrow> min (time_backup_h x b) h)"

definition later_release :: "delay_in \<Rightarrow> rat \<Rightarrow> delay_balance \<Rightarrow> rat option" where
  "later_release x edge b = (case price_hold_h x (delay_now x) edge (db_charge_h b) of
     None \<Rightarrow> None | Some h \<Rightarrow> (if delay_now x + MICRO < h then Some h else None))"

definition publish_balance :: "delay_in \<Rightarrow> solar_read \<Rightarrow> delay_balance \<Rightarrow> delay_state \<Rightarrow> delay_state" where
  "publish_balance x f b = set_status (\<lambda>d. d\<lparr>ds_energy_needed := Some (db_needed b),
     ds_remaining_solar := Some (remaining_kwh f), ds_remaining_consumption := Some (remaining_kwh f - db_net b),
     ds_net_solar := Some (db_net b), ds_charge_time := Some (db_charge_h b),
     ds_estimated := Some (max (delay_now x) (projected_unlock_h x f b))\<rparr>)"

definition feasibility_stage :: "delay_in \<Rightarrow> solar_read \<Rightarrow> delay_balance \<Rightarrow> delay_state \<Rightarrow> delay_state \<times> bool" where
  "feasibility_stage x f b st0 =
     (let st = publish_balance x f b st0; est = projected_unlock_h x f b in
      if energy_insufficient b
      then (case (if db_needed b \<le> db_net b then later_release x (cushion_edge_h x f b) b else None) of
          Some h \<Rightarrow> hold_until DelayedPrice h st
        | None \<Rightarrow> unlock EnergyBalance st)
      else if time_limit_reached x b then unlock TimeBackup st
      else (case price_hold_h x (delay_now x) est (db_charge_h b) of
          Some h \<Rightarrow> (if delay_now x + MICRO < h then hold_until DelayedPrice h st else unlock PriceOptimal st)
        | None \<Rightarrow> hold (Delayed (max (delay_now x) est)) st))"

definition solar_stage :: "delay_in \<Rightarrow> rat \<Rightarrow> solar_read \<Rightarrow> rat \<Rightarrow> delay_state \<Rightarrow> delay_state \<times> bool" where
  "solar_stage x target f needed st = (case dl_t_start st of
     None \<Rightarrow> (if T_START_FALLBACK_HOUR < delay_now x then unlock NoTStart st else hold WaitingForSolar st)
   | Some ts \<Rightarrow>
       (let te = estimate_t_end x ts; st1 = set_status (\<lambda>d. d\<lparr>ds_t_end := Some te\<rparr>) st in
        if te \<le> delay_now x \<and> \<not> any_charging x (automatic x) then unlock PastTEnd st1
        else if needed \<le> 0 then unlock BatteriesFull st1
        else if system_kw x \<le> 0 then unlock NoChargePower st1
        else feasibility_stage x f (delay_balance_of x target f needed ts te) st1))"

definition should_delay_charge :: "delay_in \<Rightarrow> rat \<Rightarrow> delay_state \<Rightarrow> delay_state \<times> bool" where
  "should_delay_charge x target st0 =
     (let needed = energy_needed_kwh x (automatic x) target; st1 = publish_deficit x needed st0 in
      if \<not> forecast_configured x then unlock NoForecast st1
      else (case forecast_read x of
          None \<Rightarrow> forecast_gap x st1
        | Some f \<Rightarrow>
            (let st2 = note_forecast f st1 in
             if remaining_kwh f \<le> NANO \<and> delay_now x < PROVISIONAL_ZERO_HOLD_HOUR then hold WaitingForForecast st2
             else if total_capacity_kwh x \<le> 0 then unlock NoForecast st2
             else (let st3 = refresh_balance x f st2 in
               if dl_needs_charge st3 then deficit_stage x f st3 else solar_stage x target f needed st3))))"

section \<open>The gate and its latches\<close>

definition save_delay :: "delay_in \<Rightarrow> delay_state \<Rightarrow> delay_state" where
  "save_delay x st =
     (if \<not> delay_on x then st
      else st\<lparr>dl_store := Some \<lparr>delay_store_date = date_now x, delay_store_unlocked = dl_unlocked st,
                 delay_store_reached = dl_reached st, delay_store_t_start = dl_t_start st\<rparr>\<rparr>)"

definition load_delay :: "delay_in \<Rightarrow> delay_state \<Rightarrow> delay_state" where
  "load_delay x st =
     (if \<not> delay_on x then st
      else (case dl_store st of
          None \<Rightarrow> st
        | Some d \<Rightarrow>
            (if delay_store_date d \<noteq> date_now x then st
             else st\<lparr>dl_unlocked := delay_store_unlocked d, dl_reached := delay_store_reached d,
                     dl_t_start := (case delay_store_t_start d of None \<Rightarrow> dl_t_start st | Some t \<Rightarrow> Some t)\<rparr>)))"

definition blank_status :: delay_status where
  "blank_status = \<lparr>ds_mode = DelayIdle, ds_reason = None, ds_target = None, ds_setpoint = None, ds_t_start = None,
     ds_energy_needed = None, ds_forecast = None, ds_t_end = None, ds_remaining_solar = None,
     ds_remaining_consumption = None, ds_net_solar = None, ds_charge_time = None, ds_estimated = None\<rparr>"

definition fresh_delay :: "delay_store option \<Rightarrow> delay_state" where
  "fresh_delay saved = \<lparr>dl_unlocked = False, dl_reached = False, dl_t_start = None, dl_last_date = None,
     dl_missing_since = None, dl_forecast_cache = None, dl_source_cache = None, dl_conversion_cache = None,
     dl_profile_cache = None, dl_needs_charge = True, dl_status = blank_status, dl_store = saved\<rparr>"

definition new_day :: "delay_in \<Rightarrow> delay_state \<Rightarrow> delay_state" where
  "new_day x st =
     (let st1 = (if dl_last_date st = None then st
            else st\<lparr>dl_unlocked := False, dl_reached := False, dl_t_start := None, dl_missing_since := None\<rparr>)
      in save_delay x (st1\<lparr>dl_last_date := Some (date_now x), dl_status := blank_status, dl_forecast_cache := None,
            dl_source_cache := None, dl_conversion_cache := None, dl_profile_cache := None, dl_needs_charge := True\<rparr>))"

definition daily_reset_and_eval :: "delay_in \<Rightarrow> delay_state \<Rightarrow> delay_state" where
  "daily_reset_and_eval x st =
     (if \<not> delay_on x then st
      else (let st1 = (if dl_last_date st \<noteq> Some (date_now x) then new_day x st else st)
            in st1\<lparr>dl_t_start := detect_solar_t_start x (dl_t_start st1)\<rparr>))"

text \<open>\<open>_clear_completed_decision_status\<close>.\<close>

definition clear_decision :: "delay_state \<Rightarrow> delay_state" where
  "clear_decision = set_status (\<lambda>d. d\<lparr>ds_reason := None, ds_t_start := None, ds_energy_needed := None,
     ds_forecast := None, ds_t_end := None, ds_remaining_solar := None, ds_remaining_consumption := None,
     ds_net_solar := None, ds_charge_time := None, ds_estimated := None\<rparr>)"

definition lowest_soc :: "delay_in \<Rightarrow> rat" where
  "lowest_soc x =
     (let socs = map (\<lambda>c. read_or 100 x c ''battery_soc'') (with_data x (automatic x))
      in if socs = [] then 100 else Min (set socs))"

text \<open>The setpoint phase: whether charging to the setpoint goes on, and the latch.\<close>

definition setpoint_phase :: "delay_in \<Rightarrow> delay_state \<Rightarrow> delay_state \<times> bool" where
  "setpoint_phase x st =
     (let charging = (\<lambda>s. in_mode ChargingToSetpoint (clear_decision s)) in
      if \<not> setpoint_on x then (st, False)
      else if \<not> dl_reached st
      then (if lowest_soc x < soc_setpoint x then (charging st, True)
            else (save_delay x (st\<lparr>dl_reached := True\<rparr>), False))
      else if lowest_soc x < soc_setpoint x - DELAY_SOC_SETPOINT_HYSTERESIS
      then (charging (save_delay x (st\<lparr>dl_reached := False\<rparr>)), True)
      else (st, False))"

definition transient_reason :: "unlock_reason option \<Rightarrow> bool" where
  "transient_reason r = (r = Some NoForecast \<or> r = Some ZeroForecast)"

definition is_charge_delayed :: "delay_in \<Rightarrow> delay_state \<Rightarrow> delay_state \<times> bool" where
  "is_charge_delayed x st0 =
     (if \<not> delay_on x then (in_mode DelayDisabled st0, False)
      else if skips_delay x then (in_mode SkippedFullChargeDay st0, False)
      else (let target = today_target_soc x;
                st = set_status (\<lambda>d. d\<lparr>ds_target := Some target,
                       ds_setpoint := (if setpoint_on x then Some (soc_setpoint x) else None)\<rparr>) st0
            in if dl_unlocked st then (in_mode ChargingAllowed st, False)
               else (let (st1, charging) = setpoint_phase x st in
                 if charging then (st1, False)
                 else (let (st2, delayed) = should_delay_charge x target st1 in
                   if delayed then (st2, True)
                   else if transient_reason (ds_reason (dl_status st2)) then (st2, False)
                   else (save_delay x (st2\<lparr>dl_unlocked := True\<rparr>), False)))))"

definition setpoint_active :: "delay_in \<Rightarrow> delay_state \<Rightarrow> bool" where
  "setpoint_active x st =
     (delay_on x \<and> setpoint_on x \<and> \<not> dl_unlocked st \<and> \<not> dl_reached st \<and> \<not> skips_delay x)"

definition at_setpoint :: "delay_in \<Rightarrow> bat \<Rightarrow> bool" where
  "at_setpoint x c = (case reading (delay_tele (delay_bat x c)) ''battery_soc'' of
     None \<Rightarrow> False | Some soc \<Rightarrow> soc_setpoint x \<le> soc)"

definition setpoint_block :: "delay_in \<Rightarrow> delay_state \<Rightarrow> bat \<Rightarrow> gate_state \<Rightarrow> gate_state" where
  "setpoint_block x st c g =
     (if \<not> delay_manual (delay_bat x c) \<and> setpoint_active x st \<and> at_setpoint x c
      then set_operation_block True ''charge_delay_setpoint'' ''charge_delay''
        (Some [(''soc'', VFloat (Fin (read_or 0 x c ''battery_soc''))), (''setpoint'', VFloat (Fin (soc_setpoint x)))])
        (Some c) (now_local x) g
      else remove_operation_block True ''charge_delay_setpoint'' (Some c) g)"

definition refresh_setpoint_blocks :: "delay_in \<Rightarrow> delay_state \<Rightarrow> gate_state \<Rightarrow> gate_state" where
  "refresh_setpoint_blocks x st g = fold (setpoint_block x st) (delay_fleet x) g"

text \<open>The delay's part of \<open>_refresh_operation_blockers\<close>.\<close>

definition refresh_delay_blocks :: "delay_in \<Rightarrow> delay_state \<times> gate_state \<Rightarrow> delay_state \<times> gate_state" where
  "refresh_delay_blocks x sg =
     (let (st0, g0) = sg;
          (st, delayed) = (if delay_on x then is_charge_delayed x st0 else (st0, False));
          g1 = (if delayed then set_operation_block True ''charge_delay'' ''charge_delay'' None None (now_local x) g0
                else remove_operation_block True ''charge_delay'' None g0)
      in (st, if delay_on x then refresh_setpoint_blocks x st g1 else g1))"

text \<open>One control cycle of the delay, and a restart with the state it leaves in the store.\<close>

definition delay_cycle :: "delay_in \<Rightarrow> delay_state \<times> gate_state \<Rightarrow> delay_state \<times> gate_state" where
  "delay_cycle x sg = (let (st, g) = sg in refresh_delay_blocks x (daily_reset_and_eval x st, g))"

definition delay_restart :: "delay_in \<Rightarrow> delay_state \<Rightarrow> delay_state" where
  "delay_restart x st = load_delay x (fresh_delay (dl_store (save_delay x st)))"

section \<open>The release hour\<close>

lemma release_candidatesD:
  assumes "(p, h) \<in> set (release_candidates edge ch slots)"
  shows "\<exists>s \<in> set slots. slot_from s = h \<and> h \<le> edge + MICRO \<and> start_score ch slots h = Some p"
  using assms
  by (auto simp: release_candidates_def set_map_filter split: if_splits option.splits)

lemma release_candidatesI:
  assumes "s \<in> set slots" "slot_from s \<le> edge + MICRO" "start_score ch slots (slot_from s) = Some q"
  shows "(q, slot_from s) \<in> set (release_candidates edge ch slots)"
  using assms by (force simp: release_candidates_def set_map_filter)

lemma release_cases:
  assumes "price_optimal_release_h x now edge ch = Some h"
  shows "(\<exists>p. start_score ch (future_slots x) now = Some p) \<and> h = now
    \<or> (\<exists>p. (p, h) \<in> set (release_candidates edge ch (future_slots x))
        \<and> (\<forall>c \<in> set (release_candidates edge ch (future_slots x)). p \<le> fst c)
        \<and> (case start_score ch (future_slots x) now of None \<Rightarrow> True
           | Some cur \<Rightarrow> (\<forall>c \<in> set (release_candidates edge ch (future_slots x)). snd c \<le> now + NANO \<longrightarrow> p + RELEASE_EPS < cur)))"
proof -
  let ?c = "release_candidates edge ch (future_slots x)"
  let ?best = "arg_min_list id ?c"
  have ne: "?c \<noteq> []" using assms by (auto simp: price_optimal_release_h_def Let_def split: if_splits)
  have best: "?best \<in> set ?c" using arg_min_list_in [OF ne] .
  have "id ?best = Min (id ` set ?c)" by (rule f_arg_min_list_f [OF ne])
  then have le: "\<And>c. c \<in> set ?c \<Longrightarrow> ?best \<le> c" by simp
  have fst_le: "fst ?best \<le> fst c" if "c \<in> set ?c" for c
    using le [OF that] by (cases c; cases ?best) (auto simp: less_eq_prod_def)
  show ?thesis
  proof (cases "h = now \<and> start_score ch (future_slots x) now \<noteq> None")
    case True
    then show ?thesis by auto
  next
    case False
    have h: "h = snd ?best"
      using assms False by (auto simp: price_optimal_release_h_def Let_def split: if_splits option.splits)
    have pair: "(fst ?best, h) \<in> set ?c" using best h by simp
    have cur: "\<forall>c \<in> set ?c. snd c \<le> now + NANO \<longrightarrow> fst ?best + RELEASE_EPS < cur"
      if "start_score ch (future_slots x) now = Some cur" for cur
    proof (intro ballI impI)
      fix c assume "c \<in> set ?c" "snd c \<le> now + NANO"
      then have "list_ex (\<lambda>(p, h). h \<le> now + NANO) ?c" by (auto simp: list_ex_iff case_prod_unfold)
      then show "fst ?best + RELEASE_EPS < cur"
        using assms False that by (auto simp: price_optimal_release_h_def Let_def split: if_splits)
    qed
    show ?thesis
      using pair fst_le cur by (auto split: option.split intro!: exI [of _ "fst ?best"])
  qed
qed

text \<open>
  An hour worth waiting for: the start of a known price slot no later than the edge, whose
  price (the mean over the charging window, where its length is given) is the lowest of all
  such starts, and more than half a cent below starting now wherever a slot has begun.
\<close>

definition cheapest_wait :: "delay_in \<Rightarrow> rat \<Rightarrow> rat \<Rightarrow> rat option \<Rightarrow> rat \<Rightarrow> bool" where
  "cheapest_wait x now edge ch h = (\<exists>s p. s \<in> set (future_slots x) \<and> slot_from s = h \<and> h \<le> edge + MICRO
    \<and> start_score ch (future_slots x) h = Some p
    \<and> (\<forall>s' \<in> set (future_slots x). slot_from s' \<le> edge + MICRO \<longrightarrow>
         (case start_score ch (future_slots x) (slot_from s') of None \<Rightarrow> True | Some q \<Rightarrow> p \<le> q))
    \<and> (\<forall>s' \<in> set (future_slots x). slot_from s' \<le> now \<and> slot_from s' \<le> edge
         \<and> start_score ch (future_slots x) (slot_from s') \<noteq> None \<longrightarrow>
         (case start_score ch (future_slots x) now of None \<Rightarrow> True | Some cur \<Rightarrow> p + RELEASE_EPS < cur)))"

lemma release_hour_is_cheapest:
  assumes "price_optimal_release_h x now edge ch = Some h" "now + MICRO < h"
  shows "cheapest_wait x now edge ch h"
proof -
  let ?c = "release_candidates edge ch (future_slots x)"
  have "h \<noteq> now" using assms(2) by (auto simp: MICRO_def)
  then obtain p where p: "(p, h) \<in> set ?c" "\<And>c. c \<in> set ?c \<Longrightarrow> p \<le> fst c"
    and cur: "case start_score ch (future_slots x) now of None \<Rightarrow> True
        | Some cur \<Rightarrow> (\<forall>c \<in> set ?c. snd c \<le> now + NANO \<longrightarrow> p + RELEASE_EPS < cur)"
    using release_cases [OF assms(1)] by auto
  obtain s where s: "s \<in> set (future_slots x)" "slot_from s = h" "h \<le> edge + MICRO"
      "start_score ch (future_slots x) h = Some p"
    using release_candidatesD [OF p(1)] by blast
  have min: "case start_score ch (future_slots x) (slot_from s') of None \<Rightarrow> True | Some q \<Rightarrow> p \<le> q"
    if "s' \<in> set (future_slots x)" "slot_from s' \<le> edge + MICRO" for s'
    using p(2) [OF release_candidatesI [OF that]] by (auto split: option.split)
  have now: "case start_score ch (future_slots x) now of None \<Rightarrow> True | Some cur \<Rightarrow> p + RELEASE_EPS < cur"
    if s': "s' \<in> set (future_slots x)" "slot_from s' \<le> now" "slot_from s' \<le> edge"
      "start_score ch (future_slots x) (slot_from s') \<noteq> None" for s'
  proof -
    obtain q where q: "start_score ch (future_slots x) (slot_from s') = Some q" using s'(4) by blast
    have "slot_from s' \<le> edge + MICRO" "slot_from s' \<le> now + NANO" using s'(2,3) by (auto simp: MICRO_def NANO_def)
    then have "(q, slot_from s') \<in> set ?c" "snd (q, slot_from s') \<le> now + NANO"
      using release_candidatesI [OF s'(1) _ q] by auto
    note hit = this
    show ?thesis
    proof (cases "start_score ch (future_slots x) now")
      case (Some z)
      then have "\<forall>c \<in> set ?c. snd c \<le> now + NANO \<longrightarrow> p + RELEASE_EPS < z" using cur by simp
      then show ?thesis using hit Some by fastforce
    qed simp
  qed
  show ?thesis unfolding cheapest_wait_def using s min now by blast
qed

lemma release_bound:
  assumes "price_optimal_release_h x now edge ch = Some h" "now + MICRO < h"
  shows "h \<le> edge + MICRO"
proof -
  have "h \<noteq> now" using assms(2) by (auto simp: MICRO_def)
  then show ?thesis using release_cases [OF assms(1)] by (auto dest: release_candidatesD)
qed

section \<open>The projected unlock\<close>

lemma bisect_bracket:
  assumes "covers lo" "\<not> covers hi" "lo \<le> hi" "bisect n covers lo hi = (a, b)"
  shows "covers a \<and> \<not> covers b \<and> lo \<le> a \<and> a \<le> b \<and> b \<le> hi \<and> b - a = (hi - lo) / 2 ^ n"
  using assms
proof (induction n arbitrary: lo hi)
  case (Suc n)
  let ?mid = "(lo + hi) / 2"
  have mid: "lo \<le> ?mid" "?mid \<le> hi" using Suc.prems(3) by (simp_all add: field_simps)
  have half: "(?mid - lo) / 2 ^ n = (hi - lo) / 2 ^ Suc n" "(hi - ?mid) / 2 ^ n = (hi - lo) / 2 ^ Suc n"
    by (simp_all add: divide_simps) 
  show ?case
  proof (cases "covers ?mid")
    case True
    then have "bisect n covers ?mid hi = (a, b)" using Suc.prems(4) by (simp add: Let_def)
    from Suc.IH [OF True Suc.prems(2) mid(2) this] show ?thesis using mid half(2) by linarith
  next
    case False
    then have "bisect n covers lo ?mid = (a, b)" using Suc.prems(4) by (simp add: Let_def)
    from Suc.IH [OF Suc.prems(1) False mid(1) this] show ?thesis using mid half(1) by linarith
  qed
qed simp

text \<open>
  The projected unlock hour lies within a half of the bracket of 2 to the minus 40 of the rest of
  the day around a moment at which the net solar energy stops covering the need; and if
  a covered moment is covered all the way before it, so is all time before the bracket.
\<close>

theorem projected_unlock_brackets:
  assumes "estimate_unlock_h x p forecast needed ts te now factor = Some h" "now \<le> te"
  defines "covers \<equiv> \<lambda>t. needed * factor \<le> net_solar_at x p forecast ts te now t"
    and "width \<equiv> (te - now) / 2 ^ 40"
  shows "if \<not> covers now then h = now
    else \<exists>a b. covers a \<and> \<not> covers b \<and> now \<le> a \<and> b \<le> te \<and> b - a = width \<and> h = (a + b) / 2
       \<and> ((\<forall>t u. t \<le> u \<and> covers u \<longrightarrow> covers t) \<longrightarrow> (\<forall>t \<le> h - width / 2. covers t))"
proof (cases "covers now")
  case False
  then show ?thesis using assms(1) by (auto simp: estimate_unlock_h_def covers_def Let_def split: if_splits)
next
  case True
  obtain a b where ab: "bisect 40 covers now te = (a, b)" by fastforce
  have h: "\<not> covers te" "h = (a + b) / 2"
    using assms(1) True ab by (auto simp: estimate_unlock_h_def covers_def Let_def split: if_splits)
  have br: "covers a" "\<not> covers b" "now \<le> a" "b \<le> te" "b - a = width"
    using bisect_bracket [OF True h(1) assms(2) ab] by (simp_all add: width_def)
  have "h - width / 2 = a" using br(5) h(2) by (simp add: field_simps)
  then have earlier: "(\<forall>t u. t \<le> u \<and> covers u \<longrightarrow> covers t) \<longrightarrow> (\<forall>t \<le> h - width / 2. covers t)" using br(1) by auto
  have "\<exists>a b. covers a \<and> \<not> covers b \<and> now \<le> a \<and> b \<le> te \<and> b - a = width \<and> h = (a + b) / 2
       \<and> ((\<forall>t u. t \<le> u \<and> covers u \<longrightarrow> covers t) \<longrightarrow> (\<forall>t \<le> h - width / 2. covers t))"
    by (intro exI [of _ a] exI [of _ b] conjI) (rule br h(2) earlier)+
  then show ?thesis by (simp only: True not_True_eq_False if_False)
qed

section \<open>What the decision leaves alone\<close>

definition delay_latches :: "delay_state \<Rightarrow> bool \<times> bool \<times> rat option \<times> int option \<times> delay_store option" where
  "delay_latches st = (dl_unlocked st, dl_reached st, dl_t_start st, dl_last_date st, dl_store st)"

lemma latches_simps [simp]:
  "delay_latches (set_status f st) = delay_latches st"
  "delay_latches (in_mode m st) = delay_latches st"
  "delay_latches (fst (unlock r st)) = delay_latches st"
  "delay_latches (fst (hold m st)) = delay_latches st"
  "delay_latches (fst (hold_until k h st)) = delay_latches st"
  "delay_latches (publish_deficit x needed st) = delay_latches st"
  "delay_latches (note_forecast f' st) = delay_latches st"
  "delay_latches (refresh_balance x f' st) = delay_latches st"
  "delay_latches (publish_balance x f' b st) = delay_latches st"
  "delay_latches (clear_decision st) = delay_latches st"
  "delay_latches (fst (forecast_gap x st)) = delay_latches st"
  "delay_latches (fst (deficit_stage x f' st)) = delay_latches st"
  by (simp_all add: delay_latches_def set_status_def in_mode_def unlock_def hold_def hold_until_def
        publish_deficit_def note_forecast_def refresh_balance_def publish_balance_def clear_decision_def
        forecast_gap_def deficit_stage_def Let_def split: option.split)

lemma latches_feasibility [simp]: "delay_latches (fst (feasibility_stage x f b st)) = delay_latches st"
  by (simp add: feasibility_stage_def Let_def split: option.split)

lemma latches_solar [simp]: "delay_latches (fst (solar_stage x target f needed st)) = delay_latches st"
  by (simp add: solar_stage_def Let_def split: option.split)

lemma latches_should_delay [simp]: "delay_latches (fst (should_delay_charge x target st)) = delay_latches st"
  by (simp add: should_delay_charge_def Let_def split: option.split)

text \<open>A decision to release carries its reason.\<close>

definition gives_reason :: "delay_state \<times> bool \<Rightarrow> bool" where
  "gives_reason r = (snd r \<or> (\<exists>u. ds_reason (dl_status (fst r)) = Some u \<and> ds_mode (dl_status (fst r)) = Unlocking u))"

lemma gives_reason_simps [simp]:
  "gives_reason (unlock u st)" "gives_reason (hold m st)" "gives_reason (hold_until k h st)"
  by (simp_all add: gives_reason_def unlock_def hold_def hold_until_def set_status_def)

lemma should_delay_reason: "gives_reason (should_delay_charge x target st)"
  by (simp add: should_delay_charge_def forecast_gap_def deficit_stage_def solar_stage_def feasibility_stage_def
        Let_def split: option.split)

section \<open>Every hold has its grounds\<close>

definition balance_now :: "delay_in \<Rightarrow> rat \<Rightarrow> delay_state \<Rightarrow> delay_balance option" where
  "balance_now x target st = (case (forecast_read x, dl_t_start st) of
     (Some f, Some ts) \<Rightarrow>
       Some (delay_balance_of x target f (energy_needed_kwh x (automatic x) target) ts (estimate_t_end x ts))
   | _ \<Rightarrow> None)"

text \<open>Waiting until \<open>h\<close> still fills the batteries before the sun goes.\<close>

definition waits_feasibly :: "delay_in \<Rightarrow> delay_balance option \<Rightarrow> rat \<Rightarrow> bool" where
  "waits_feasibly x ob h = (case ob of None \<Rightarrow> False | Some b \<Rightarrow>
     0 < db_needed b \<and> db_needed b \<le> db_net b \<and> h + db_charge_h b + safety_margin_h x \<le> db_t_end b)"

text \<open>
  Up to where a price is looked for: the projected unlock by the sun or, when the sun does not
  cover the need with its safety factor, the edge that keeps a cushion.
\<close>

definition price_edge :: "delay_in \<Rightarrow> solar_read \<Rightarrow> delay_balance \<Rightarrow> rat" where
  "price_edge x f b = (if energy_insufficient b then cushion_edge_h x f b else projected_unlock_h x f b)"

definition hold_justified :: "delay_in \<Rightarrow> rat \<Rightarrow> delay_state \<Rightarrow> delay_state \<Rightarrow> bool" where
  "hold_justified x target st st' =
     (let now = delay_now x; ob = balance_now x target st in
      case ds_mode (dl_status st') of
        WaitingForForecast \<Rightarrow> (case forecast_read x of
            None \<Rightarrow> mono_now x - (case dl_missing_since st of None \<Rightarrow> mono_now x | Some t \<Rightarrow> t) < forecast_grace x
          | Some f \<Rightarrow> remaining_kwh f \<le> NANO \<and> now < PROVISIONAL_ZERO_HOLD_HOUR)
      | WaitingForSolar \<Rightarrow> dl_t_start st = None \<and> now \<le> T_START_FALLBACK_HOUR
      | DelayedCheapImport h \<Rightarrow> dl_needs_charge st' \<and> now + MICRO < h
          \<and> cheapest_wait x now (case dl_t_start st of None \<Rightarrow> T_START_FALLBACK_HOUR | Some t \<Rightarrow> t) None h
      | DelayedPrice h \<Rightarrow> now + MICRO < h \<and> waits_feasibly x ob (h - MICRO)
          \<and> (case (ob, forecast_read x) of (Some b, Some f) \<Rightarrow> cheapest_wait x now (price_edge x f b) (Some (db_charge_h b)) h | _ \<Rightarrow> False)
      | Delayed h \<Rightarrow> waits_feasibly x ob now
          \<and> (case ob of None \<Rightarrow> False | Some b \<Rightarrow> db_needed b * DELAY_SAFETY_FACTOR \<le> db_net b)
      | _ \<Rightarrow> False)"

lemma status_simps [simp]:
  "dl_status (set_status f st) = f (dl_status st)"
  "dl_t_start (set_status f st) = dl_t_start st"
  "dl_needs_charge (set_status f st) = dl_needs_charge st"
  "dl_missing_since (set_status f st) = dl_missing_since st"
  by (simp_all add: set_status_def)

lemma feasible_hold:
  assumes "feasibility_stage x f b st = (st', True)" "0 < db_needed b" "ob = Some b"
  shows "case ds_mode (dl_status st') of
      DelayedPrice h \<Rightarrow> delay_now x + MICRO < h \<and> waits_feasibly x ob (h - MICRO)
        \<and> cheapest_wait x (delay_now x) (price_edge x f b) (Some (db_charge_h b)) h
    | Delayed h \<Rightarrow> waits_feasibly x ob (delay_now x) \<and> db_needed b * DELAY_SAFETY_FACTOR \<le> db_net b
    | _ \<Rightarrow> False"
proof -
  have edge: "cushion_edge_h x f b \<le> time_backup_h x b" "projected_unlock_h x f b \<le> time_backup_h x b"
    by (auto simp: cushion_edge_h_def projected_unlock_h_def split: option.split)
  have late: "h - MICRO + db_charge_h b + safety_margin_h x \<le> db_t_end b"
    if "price_hold_h x (delay_now x) e (db_charge_h b) = Some h" "delay_now x + MICRO < h" "e \<le> time_backup_h x b" for e h
  proof -
    have "h \<le> e + MICRO" using that(1,2) release_bound by (auto simp: price_hold_h_def split: if_splits)
    then show ?thesis using that(3) by (simp add: time_backup_h_def)
  qed
  have cheap: "cheapest_wait x (delay_now x) e (Some (db_charge_h b)) h"
    if "price_hold_h x (delay_now x) e (db_charge_h b) = Some h" "delay_now x + MICRO < h" for e h
    using that release_hour_is_cheapest by (auto simp: price_hold_h_def split: if_splits)
  show ?thesis
  proof (cases "energy_insufficient b")
    case True
    then obtain h where h: "db_needed b \<le> db_net b" "later_release x (cushion_edge_h x f b) b = Some h"
      "ds_mode (dl_status st') = DelayedPrice h"
      using assms(1)
      by (auto simp: feasibility_stage_def unlock_def hold_until_def Let_def split: if_splits option.splits)
    then have p: "price_hold_h x (delay_now x) (cushion_edge_h x f b) (db_charge_h b) = Some h" "delay_now x + MICRO < h"
      by (auto simp: later_release_def split: option.splits if_splits)
    from cheap [OF p] late [OF p edge(1)] show ?thesis
      using h p edge(1) assms(2,3) True by (auto simp: waits_feasibly_def price_edge_def)
  next
    case False
    have tl: "\<not> time_limit_reached x b"
      using assms(1) False by (auto simp: feasibility_stage_def unlock_def Let_def split: if_splits)
    have net: "db_needed b * DELAY_SAFETY_FACTOR \<le> db_net b" using False by (simp add: energy_insufficient_def)
    then have "db_needed b \<le> db_net b" using assms(2) by (simp add: DELAY_SAFETY_FACTOR_def)
    moreover have "(\<exists>h. price_hold_h x (delay_now x) (projected_unlock_h x f b) (db_charge_h b) = Some h
          \<and> delay_now x + MICRO < h \<and> ds_mode (dl_status st') = DelayedPrice h)
        \<or> (\<exists>h. ds_mode (dl_status st') = Delayed h)"
      using assms(1) False tl
      by (auto simp: feasibility_stage_def unlock_def hold_until_def hold_def in_mode_def Let_def
          split: if_splits option.splits)
    moreover note late cheap
    ultimately show ?thesis
      using net edge(2) assms(2,3) tl False
      by (elim disjE exE conjE; simp add: waits_feasibly_def time_limit_reached_def price_edge_def)
  qed
qed

lemma deficit_hold:
  assumes "deficit_stage x f st = (st', True)"
  shows "case ds_mode (dl_status st') of
      DelayedCheapImport h \<Rightarrow> dl_needs_charge st' = dl_needs_charge st \<and> delay_now x + MICRO < h
        \<and> cheapest_wait x (delay_now x) (case dl_t_start st of None \<Rightarrow> T_START_FALLBACK_HOUR | Some t \<Rightarrow> t) None h
    | _ \<Rightarrow> False"
proof -
  obtain h where h: "cheap_import_h x (dl_t_start st) = Some h" and st': "st' = fst (hold_until DelayedCheapImport h st)"
    using assms by (auto simp: deficit_stage_def unlock_def hold_until_def split: option.splits)
  let ?e = "case dl_t_start st of None \<Rightarrow> T_START_FALLBACK_HOUR | Some t \<Rightarrow> t"
  have "delay_now x + MICRO < h" and "price_optimal_release_h x (delay_now x) ?e None = Some h"
    using h by (auto simp: cheap_import_h_def Let_def split: if_splits option.splits)
  then show ?thesis using release_hour_is_cheapest st' by (simp add: hold_until_def)
qed

lemma solar_hold:
  assumes "solar_stage x target f (energy_needed_kwh x (automatic x) target) st = (st', True)"
    "forecast_read x = Some f"
  shows "case ds_mode (dl_status st') of
      WaitingForSolar \<Rightarrow> dl_t_start st = None \<and> delay_now x \<le> T_START_FALLBACK_HOUR
    | DelayedPrice h \<Rightarrow> delay_now x + MICRO < h \<and> waits_feasibly x (balance_now x target st) (h - MICRO)
        \<and> (case balance_now x target st of None \<Rightarrow> False | Some b \<Rightarrow> cheapest_wait x (delay_now x) (price_edge x f b) (Some (db_charge_h b)) h)
    | Delayed h \<Rightarrow> waits_feasibly x (balance_now x target st) (delay_now x)
        \<and> (case balance_now x target st of None \<Rightarrow> False | Some b \<Rightarrow> db_needed b * DELAY_SAFETY_FACTOR \<le> db_net b)
    | _ \<Rightarrow> False"
proof (cases "dl_t_start st")
  case None
  then show ?thesis using assms(1) by (auto simp: solar_stage_def unlock_def hold_def in_mode_def split: if_splits)
next
  case (Some ts)
  let ?n = "energy_needed_kwh x (automatic x) target"
  let ?b = "delay_balance_of x target f ?n ts (estimate_t_end x ts)"
  let ?s = "set_status (\<lambda>d. d\<lparr>ds_t_end := Some (estimate_t_end x ts)\<rparr>) st"
  have b: "balance_now x target st = Some ?b" using Some assms(2) by (simp add: balance_now_def)
  have "feasibility_stage x f ?b ?s = (st', True)" "0 < ?n"
    using assms(1) Some by (auto simp: solar_stage_def unlock_def Let_def split: if_splits)
  then have "case ds_mode (dl_status st') of
      DelayedPrice h \<Rightarrow> delay_now x + MICRO < h \<and> waits_feasibly x (Some ?b) (h - MICRO)
        \<and> cheapest_wait x (delay_now x) (price_edge x f ?b) (Some (db_charge_h ?b)) h
    | Delayed h \<Rightarrow> waits_feasibly x (Some ?b) (delay_now x) \<and> db_needed ?b * DELAY_SAFETY_FACTOR \<le> db_net ?b
    | _ \<Rightarrow> False"
    by (intro feasible_hold) (simp_all add: delay_balance_of_def)
  then show ?thesis unfolding b by (auto split: delay_mode.splits)
qed

text \<open>
  C14. The delay blocks charging only for a reason, at the moment it decides: it waits for a
  forecast within its grace; for the sun before the fallback hour; on a day that needs the grid,
  for the start before the sun with the lowest known price; for the start with the lowest mean
  price over the charging time up to the hour the sun would release the charge (or the edge that
  keeps a cushion, when the sun is scarce), the net sun forecast now covering the missing energy
  and the start leaving room for the charging time and the safety margin before the sun ends; or
  it waits with that sun covering the missing energy with its safety factor, and time for both
  from now. A price waited for is more than half a cent below starting now, if a slot has begun.
\<close>

theorem every_hold_is_justified:
  assumes "should_delay_charge x target st = (st', True)"
  shows "hold_justified x target st st'"
proof -
  let ?n = "energy_needed_kwh x (automatic x) target"
  let ?p = "publish_deficit x ?n st"
  have conf: "forecast_configured x" using assms by (auto simp: should_delay_charge_def unlock_def Let_def split: if_splits)
  show ?thesis
  proof (cases "forecast_read x")
    case None
    then show ?thesis using assms conf
      by (auto simp: should_delay_charge_def forecast_gap_def unlock_def hold_def in_mode_def hold_justified_def
          publish_deficit_def Let_def split: if_splits)
  next
    case (Some f)
    let ?q = "note_forecast f ?p" and ?r = "refresh_balance x f (note_forecast f ?p)"
    have t: "dl_t_start ?r = dl_t_start st"
      by (simp add: refresh_balance_def note_forecast_def publish_deficit_def)
    then have bal: "balance_now x target ?r = balance_now x target st" by (simp add: balance_now_def)
    consider (zero) "remaining_kwh f \<le> NANO" "delay_now x < PROVISIONAL_ZERO_HOLD_HOUR" "st' = in_mode WaitingForForecast ?q"
      | (deficit) "dl_needs_charge ?r" "deficit_stage x f ?r = (st', True)"
      | (solar) "solar_stage x target f ?n ?r = (st', True)"
      using assms conf Some
      by (auto simp: should_delay_charge_def unlock_def hold_def Let_def split: if_splits)
    then show ?thesis
    proof cases
      case zero
      then show ?thesis using Some by (simp add: hold_justified_def in_mode_def)
    next
      case deficit
      from deficit_hold [OF deficit(2)] deficit(1) t show ?thesis
        by (auto simp: hold_justified_def Let_def split: delay_mode.splits)
    next
      case solar
      from solar_hold [OF solar Some] Some show ?thesis
        unfolding t bal by (auto simp: hold_justified_def Let_def split: delay_mode.splits option.splits)
    qed
  qed
qed

section \<open>The gate\<close>

lemma latchesD:
  assumes "delay_latches st = delay_latches u"
  shows "dl_unlocked st = dl_unlocked u" "dl_reached st = dl_reached u" "dl_t_start st = dl_t_start u"
    "dl_last_date st = dl_last_date u" "dl_store st = dl_store u"
  using assms by (simp_all add: delay_latches_def)

lemma save_delay_fields [simp]:
  "dl_unlocked (save_delay x st) = dl_unlocked st" "dl_reached (save_delay x st) = dl_reached st"
  "dl_t_start (save_delay x st) = dl_t_start st" "dl_last_date (save_delay x st) = dl_last_date st"
  "dl_status (save_delay x st) = dl_status st"
  by (simp_all add: save_delay_def)

lemma status_latches [simp]:
  "dl_unlocked (set_status f st) = dl_unlocked st" "dl_reached (set_status f st) = dl_reached st"
  "dl_unlocked (in_mode m st) = dl_unlocked st" "dl_reached (in_mode m st) = dl_reached st"
  "dl_last_date (set_status f st) = dl_last_date st" "dl_last_date (in_mode m st) = dl_last_date st"
  "dl_store (set_status f st) = dl_store st" "dl_store (in_mode m st) = dl_store st"
  "dl_unlocked (clear_decision st) = dl_unlocked st" "dl_reached (clear_decision st) = dl_reached st"
  by (simp_all add: set_status_def in_mode_def clear_decision_def)

lemma setpoint_phase_latches:
  "dl_unlocked (fst (setpoint_phase x st)) = dl_unlocked st"
  "snd (setpoint_phase x st) \<Longrightarrow> setpoint_on x \<and> \<not> dl_reached (fst (setpoint_phase x st))"
  "setpoint_on x \<Longrightarrow> \<not> snd (setpoint_phase x st) \<Longrightarrow> dl_reached (fst (setpoint_phase x st))"
  by (auto simp: setpoint_phase_def Let_def split: if_splits)

text \<open>The outcome of the gate, by cases.\<close>

lemma gate_cases:
  assumes "is_charge_delayed x st = (st', d)" "delay_on x" "\<not> skips_delay x"
  shows "dl_unlocked st \<and> dl_unlocked st' \<and> \<not> d
    \<or> \<not> dl_unlocked st \<and> \<not> dl_unlocked st' \<and> \<not> d \<and> setpoint_on x \<and> \<not> dl_reached st'
    \<or> \<not> dl_unlocked st \<and> \<not> dl_unlocked st' \<and> d
    \<or> \<not> dl_unlocked st \<and> \<not> dl_unlocked st' \<and> \<not> d \<and> transient_reason (ds_reason (dl_status st'))
    \<or> \<not> dl_unlocked st \<and> dl_unlocked st' \<and> \<not> d
        \<and> (\<exists>u. ds_reason (dl_status st') = Some u \<and> u \<noteq> NoForecast \<and> u \<noteq> ZeroForecast)"
proof -
  let ?s = "set_status (\<lambda>d. d\<lparr>ds_target := Some (today_target_soc x),
                       ds_setpoint := (if setpoint_on x then Some (soc_setpoint x) else None)\<rparr>) st"
  obtain s1 charging where p: "setpoint_phase x ?s = (s1, charging)" by fastforce
  obtain s2 delayed where q: "should_delay_charge x (today_target_soc x) s1 = (s2, delayed)" by fastforce
  have u1: "dl_unlocked s1 = dl_unlocked st" using setpoint_phase_latches(1) [of x ?s] p by simp
  have u2: "dl_unlocked s2 = dl_unlocked s1"
    using latchesD(1) [OF latches_should_delay, of x "today_target_soc x" s1] q by simp
  have c: "charging \<Longrightarrow> setpoint_on x \<and> \<not> dl_reached s1" using setpoint_phase_latches(2) [of x ?s] p by simp
  have r: "\<not> delayed \<Longrightarrow> \<exists>u. ds_reason (dl_status s2) = Some u"
    using should_delay_reason [of x "today_target_soc x" s1] q by (auto simp: gives_reason_def)
  show ?thesis
  proof (cases "dl_unlocked st")
    case True
    then show ?thesis using assms by (auto simp: is_charge_delayed_def Let_def)
  next
    case False
    have shape: "is_charge_delayed x st = (if charging then (s1, False) else if delayed then (s2, True)
        else if transient_reason (ds_reason (dl_status s2)) then (s2, False)
        else (save_delay x (s2\<lparr>dl_unlocked := True\<rparr>), False))"
      using assms(2,3) False p q by (simp add: is_charge_delayed_def Let_def)
    show ?thesis
    proof (cases "charging \<or> delayed \<or> transient_reason (ds_reason (dl_status s2))")
      case True
      then show ?thesis using assms(1) shape False u1 u2 c by (auto split: if_splits)
    next
      case stays: False
      then obtain u where "ds_reason (dl_status s2) = Some u" "u \<noteq> NoForecast" "u \<noteq> ZeroForecast"
        using r by (auto simp: transient_reason_def)
      then show ?thesis using assms(1) shape False stays by auto
    qed
  qed
qed

lemma active_setpoint_block:
  "active (setpoint_block x st c' g) True sc =
     (if sc = Some c' then (if \<not> delay_manual (delay_bat x c') \<and> setpoint_active x st \<and> at_setpoint x c'
        then insert ''charge_delay_setpoint'' (active g True sc) else active g True sc - {''charge_delay_setpoint''})
      else active g True sc)"
  by (auto simp: setpoint_block_def active_set_block active_remove_block)

definition setpoint_blocked :: "delay_in \<Rightarrow> delay_state \<Rightarrow> bat \<Rightarrow> bool" where
  "setpoint_blocked x st c = (\<not> delay_manual (delay_bat x c) \<and> setpoint_active x st \<and> at_setpoint x c)"

lemma active_setpoint_fold:
  "active (fold (setpoint_block x st) cs g) True (Some c) =
     (if c \<notin> set cs then active g True (Some c)
      else if setpoint_blocked x st c then insert ''charge_delay_setpoint'' (active g True (Some c))
      else active g True (Some c) - {''charge_delay_setpoint''})"
  by (induction cs arbitrary: g) (auto simp: active_setpoint_block setpoint_blocked_def)

lemma active_setpoint_global: "active (fold (setpoint_block x st) cs g) True None = active g True None"
  by (induction cs arbitrary: g) (auto simp: active_setpoint_block)

lemma active_delay_blocks:
  assumes "delay_on x" "refresh_delay_blocks x (st, g) = (st', g')"
  shows "\<exists>d. is_charge_delayed x st = (st', d)
    \<and> active g' True None = (if d then insert ''charge_delay'' (active g True None) else active g True None - {''charge_delay''})
    \<and> active g' True (Some c) =
        (if c \<notin> set (delay_fleet x) then active g True (Some c)
         else if setpoint_blocked x st' c then insert ''charge_delay_setpoint'' (active g True (Some c))
         else active g True (Some c) - {''charge_delay_setpoint''})"
proof -
  obtain s d where i: "is_charge_delayed x st = (s, d)" by fastforce
  let ?g1 = "if d then set_operation_block True ''charge_delay'' ''charge_delay'' None None (now_local x) g
                else remove_operation_block True ''charge_delay'' None g"
  have s: "st' = s" "g' = fold (setpoint_block x s) (delay_fleet x) ?g1"
    using assms i by (auto simp: refresh_delay_blocks_def refresh_setpoint_blocks_def Let_def)
  have "active ?g1 True (Some c) = active g True (Some c)"
    "active ?g1 True None = (if d then insert ''charge_delay'' (active g True None) else active g True None - {''charge_delay''})"
    by (auto simp: active_set_block active_remove_block)
  then show ?thesis using i s by (simp add: active_setpoint_fold active_setpoint_global)
qed

text \<open>
  C11. With the SOC setpoint on, on a day that is no weekly full-charge day, no battery charges
  beyond it before the delay has been released: after every cycle each automatic battery at or
  above the setpoint is blocked for charging, unless the delay is unlocked for the day or a
  missing or zero forecast lets this cycle pass. A battery below it is never blocked by the
  setpoint, and by the delay only while the whole delay is held.
\<close>

theorem setpoint_floor_holds:
  assumes "delay_on x" "setpoint_on x" "\<not> skips_delay x" "c \<in> set (delay_fleet x)" "\<not> delay_manual (delay_bat x c)"
    "delay_cycle x (st, g) = (st', g')"
  shows "if at_setpoint x c
    then is_charge_blocked g' (Some c) \<or> dl_unlocked st' \<or> dl_reached st' \<and> transient_reason (ds_reason (dl_status st'))
    else ''charge_delay_setpoint'' \<notin> active g' True (Some c) \<and> (''charge_delay'' \<in> active g' True None \<longrightarrow> \<not> dl_unlocked st')"
proof -
  have "refresh_delay_blocks x (daily_reset_and_eval x st, g) = (st', g')"
    using assms(6) by (simp add: delay_cycle_def)
  from active_delay_blocks [OF assms(1) this, of c] obtain d where
    d: "is_charge_delayed x (daily_reset_and_eval x st) = (st', d)"
    and gl: "active g' True None = (if d then insert ''charge_delay'' (active g True None) else active g True None - {''charge_delay''})"
    and loc: "active g' True (Some c) = (if setpoint_blocked x st' c then insert ''charge_delay_setpoint'' (active g True (Some c))
         else active g True (Some c) - {''charge_delay_setpoint''})"
    using assms(4) by auto
  note cases = gate_cases [OF d assms(1,3)]
  have act: "setpoint_blocked x st' c \<longleftrightarrow> \<not> dl_unlocked st' \<and> \<not> dl_reached st' \<and> at_setpoint x c"
    using assms by (simp add: setpoint_blocked_def setpoint_active_def)
  show ?thesis
  proof (cases "at_setpoint x c")
    case True
    then show ?thesis using cases gl loc act by (auto simp: is_charge_blocked_active)
  next
    case False
    then show ?thesis using cases gl loc act by auto
  qed
qed

section \<open>The day after the unlock\<close>

datatype delay_event = DelayCycle delay_in | DelayRestart delay_in

primrec delay_step :: "delay_state \<times> gate_state \<Rightarrow> delay_event \<Rightarrow> delay_state \<times> gate_state" where
  "delay_step sg (DelayCycle x) = delay_cycle x sg"
| "delay_step sg (DelayRestart x) = (delay_restart x (fst sg), empty_gates)"

primrec on_day :: "int \<Rightarrow> delay_event \<Rightarrow> bool" where
  "on_day d (DelayCycle x) = (delay_on x \<and> date_now x = d)"
| "on_day d (DelayRestart x) = (delay_on x \<and> date_now x = d)"

definition released :: "int \<Rightarrow> delay_state \<Rightarrow> bool" where
  "released d st = (dl_unlocked st \<and> (dl_last_date st = None \<or> dl_last_date st = Some d))"

lemma released_daily:
  assumes "released d st" "delay_on x" "date_now x = d"
  shows "dl_unlocked (daily_reset_and_eval x st)" "dl_last_date (daily_reset_and_eval x st) = Some d"
  using assms by (auto simp: released_def daily_reset_and_eval_def new_day_def Let_def)

lemma released_gate:
  assumes "dl_unlocked st" "delay_on x"
  shows "\<not> snd (is_charge_delayed x st) \<and> dl_unlocked (fst (is_charge_delayed x st))
    \<and> dl_last_date (fst (is_charge_delayed x st)) = dl_last_date st"
  using assms by (simp add: is_charge_delayed_def Let_def)

lemma released_cycle:
  assumes "released d st" "delay_on x" "date_now x = d" "delay_cycle x (st, g) = (st', g')"
  shows "released d st' \<and> ''charge_delay'' \<notin> active g' True None
    \<and> (c \<in> set (delay_fleet x) \<longrightarrow> ''charge_delay_setpoint'' \<notin> active g' True (Some c))"
proof -
  let ?s = "daily_reset_and_eval x st"
  have u: "dl_unlocked ?s" "dl_last_date ?s = Some d" using released_daily [OF assms(1-3)] by auto
  have "refresh_delay_blocks x (?s, g) = (st', g')" using assms(4) by (simp add: delay_cycle_def)
  from active_delay_blocks [OF assms(2) this, of c] obtain e where e: "is_charge_delayed x ?s = (st', e)"
    and gl: "active g' True None = (if e then insert ''charge_delay'' (active g True None) else active g True None - {''charge_delay''})"
    and loc: "active g' True (Some c) = (if c \<notin> set (delay_fleet x) then active g True (Some c)
       else if setpoint_blocked x st' c then insert ''charge_delay_setpoint'' (active g True (Some c))
       else active g True (Some c) - {''charge_delay_setpoint''})" by auto
  have "\<not> e" "dl_unlocked st'" "dl_last_date st' = Some d" using released_gate [OF u(1) assms(2)] e u(2) by simp_all
  moreover from this have "\<not> setpoint_blocked x st' c" by (simp add: setpoint_blocked_def setpoint_active_def)
  ultimately show ?thesis using gl loc by (auto simp: released_def)
qed

lemma released_restart:
  assumes "released d st" "delay_on x" "date_now x = d"
  shows "released d (delay_restart x st)"
  using assms by (simp add: released_def delay_restart_def load_delay_def save_delay_def fresh_delay_def)

interpretation delay_day: invariant_machine delay_step "\<lambda>sg :: delay_state \<times> gate_state. released d (fst sg)" "on_day d" for d
proof unfold_locales
  fix sg :: "delay_state \<times> gate_state" and e assume r: "released d (fst sg)" and ok: "on_day d e"
  show "released d (fst (delay_step sg e))"
  proof (cases e)
    case (DelayCycle x)
    obtain st' g' where c: "delay_cycle x (fst sg, snd sg) = (st', g')" by fastforce
    then show ?thesis using released_cycle [OF r, of x "snd sg" st' g' 0] ok DelayCycle by simp
  next
    case (DelayRestart x)
    then show ?thesis using released_restart [OF r] ok by simp
  qed
qed

text \<open>
  C20. An unlock lasts for the day: once the delay has been released, no later cycle of the same
  day, with any forecast, prices or SOC and over any number of restarts, blocks charging
  for the delay or its setpoint again. (The run is of cycles and restarts with the delay on;
  a user who switches the delay off and on again clears the unlock.)
\<close>

theorem unlock_lasts_the_day:
  assumes "released d st" "list_all (on_day d) es" "on_day d (DelayCycle x)" "c \<in> set (delay_fleet x)"
  shows "let (st', g') = run delay_step (st, g) (es @ [DelayCycle x]) in
    dl_unlocked st' \<and> ''charge_delay'' \<notin> active g' True None \<and> ''charge_delay_setpoint'' \<notin> active g' True (Some c)"
proof -
  obtain s1 g1 where m: "run delay_step (st, g) es = (s1, g1)" by fastforce
  have "released d (fst (run delay_step (st, g) es))"
    using delay_day.run_inv [of d "(st, g)" es] assms(1,2) by (auto simp: list_all_iff)
  then have r: "released d s1" using m by simp
  obtain s2 g2 where c: "delay_cycle x (s1, g1) = (s2, g2)" by fastforce
  show ?thesis using released_cycle [OF r _ _ c, of c] assms(3,4) m c by (simp add: run_append released_def)
qed

section \<open>Concrete days\<close>

definition example_delay :: "rat \<Rightarrow> rat \<Rightarrow> rat \<Rightarrow> delay_in" where
  "example_delay h soc sun = \<lparr>delay_on = True, skips_delay = False, weekly_today = False, setpoint_on = True,
     soc_setpoint = 30, delay_fleet = [0, 1],
     delay_bat = (\<lambda>c. \<lparr>delay_tele = Some [(''battery_soc'', Some (if c = 0 then soc else 60)),
         (''battery_total_energy'', Some 5), (''battery_power'', Some 0)],
         delay_manual = False, delay_min_soc = 10, delay_max_soc = 100, delay_limit = 2500\<rparr>),
     now_local = h * 3600, date_now = 1, mono_now = 0, forecast_configured = True,
     forecast_read = Some \<lparr>remaining_kwh = sun, original_source = ''today'', read_source = ''live'', solar_conversion = ''none''\<rparr>,
     forecast_grace = 300, forecast_between = (\<lambda>a b. None), avg_daily_kwh = 12, balance_deadband = 0,
     safety_margin_h = 1, system_charge_limit = 0, solar_noon = 13, grid_w = Some (-100), sunrise_h = Some 6,
     price_driven = True,
     future_slots = map (\<lambda>k. \<lparr>t_start = of_nat k * 3600, t_end = of_nat (Suc k) * 3600, t_price = (if k = 10 then 1 / 100 else 10 / 100)\<rparr>) [9..<11],
     shape = (\<lambda>p. p)\<rparr>"

text \<open>Eight in the morning of a dark day, no sun seen yet: the cheap slot at ten is waited for.\<close>

theorem every_hold_is_justified_witness:
  "let x = example_delay 8 50 2; r = should_delay_charge x 100 (fresh_delay None)
   in snd r \<and> ds_mode (dl_status (fst r)) = DelayedCheapImport 10 \<and> dl_needs_charge (fst r)
      \<and> cheapest_wait x 8 T_START_FALLBACK_HOUR None 10"
proof -
  let ?x = "example_delay 8 50 2" and ?r = "should_delay_charge (example_delay 8 50 2) 100 (fresh_delay None)"
  have r: "snd ?r" "ds_mode (dl_status (fst ?r)) = DelayedCheapImport 10" by code_simp+
  then have "hold_justified ?x 100 (fresh_delay None) (fst ?r)"
    by (intro every_hold_is_justified) (simp add: prod_eq_iff)
  moreover have "delay_now ?x = 8" "dl_t_start (fresh_delay None) = None" by code_simp+
  ultimately show ?thesis using r by (simp add: hold_justified_def Let_def)
qed

theorem setpoint_floor_holds_witness:
  "let g' = snd (delay_cycle (example_delay 8 20 30) (fresh_delay None, empty_gates))
   in is_charge_blocked g' (Some 1) \<and> ''charge_delay_setpoint'' \<notin> active g' True (Some 0)"
proof -
  let ?x = "example_delay 8 20 30" and ?r = "delay_cycle (example_delay 8 20 30) (fresh_delay None, empty_gates)"
  have x: "delay_on ?x" "setpoint_on ?x" "\<not> skips_delay ?x" "0 \<in> set (delay_fleet ?x)" "1 \<in> set (delay_fleet ?x)"
    "\<not> delay_manual (delay_bat ?x 0)" "\<not> delay_manual (delay_bat ?x 1)" "\<not> at_setpoint ?x 0" "at_setpoint ?x 1"
    "\<not> dl_unlocked (fst ?r)" "\<not> dl_reached (fst ?r)" by code_simp+
  have eq: "delay_cycle ?x (fresh_delay None, empty_gates) = (fst ?r, snd ?r)" by simp
  show ?thesis
    using setpoint_floor_holds [OF x(1-3) x(4) x(6) eq] setpoint_floor_holds [OF x(1-3) x(5) x(7) eq] x(8-11)
    by (simp add: Let_def)
qed

lemma release_hour_example:
  "let x = example_delay 8 50 30 in price_optimal_release_h x 8 11 (Some 1) = Some 10 \<and> cheapest_wait x 8 11 (Some 1) 10"
proof -
  let ?x = "example_delay 8 50 30"
  have r: "price_optimal_release_h ?x 8 11 (Some 1) = Some 10" "(8::rat) + MICRO < 10" by code_simp+
  show ?thesis using release_hour_is_cheapest [OF r] r(1) by (simp add: Let_def)
qed

theorem unlock_lasts_the_day_witness:
  "let (st', g') = run delay_step ((fresh_delay None)\<lparr>dl_unlocked := True\<rparr>, empty_gates)
      ([DelayRestart (example_delay 8 50 30)] @ [DelayCycle (example_delay 9 20 0)])
   in dl_unlocked st' \<and> ''charge_delay'' \<notin> active g' True None \<and> ''charge_delay_setpoint'' \<notin> active g' True (Some 1)"
proof -
  have "released 1 ((fresh_delay None)\<lparr>dl_unlocked := True\<rparr>)" "list_all (on_day 1) [DelayRestart (example_delay 8 50 30)]"
    "on_day 1 (DelayCycle (example_delay 9 20 0))" "1 \<in> set (delay_fleet (example_delay 9 20 0))" by code_simp+
  then show ?thesis by (rule unlock_lasts_the_day)
qed

lemma deficit_offset:
  "let x = example_delay 8 100 30 in energy_needed_kwh x [0, 1] 80 = 0 \<and> soc_deficit x 80 1 = 1"
  by code_simp

text \<open>
  The switch off: with the feature disabled in the setpoint phase, the caller skips the
  refresh of the per-battery blocks, and the block of the first cycle stays.
\<close>

lemma setpoint_block_left_behind:
  "let sg = delay_cycle (example_delay 8 20 30) (fresh_delay None, empty_gates);
       off = (example_delay 9 20 30)\<lparr>delay_on := False\<rparr>;
       g = snd (delay_cycle off (delay_cycle off sg))
   in is_charge_blocked g (Some 1) \<and> \<not> is_charge_blocked g None"
  by code_simp

end
