(* ===== verification/High_Price.thy ===== *)
theory High_Price
  imports Price_Base "HOL-Library.Product_Lexorder"
begin

text \<open>
  The planner of deliberate export at high prices (\<open>pricing/high_price_discharge.py\<close>): the
  protected horizon and its coverage, the surplus that tomorrow's sun replaces (trigger 1),
  and the sale of household energy linked kilowatt-hour by kilowatt-hour to a later deficit
  that is bought back for less (trigger 2). Aware times are seconds of UTC, a naive one is
  \<open>None\<close>; a price or forecast that is no finite number is \<open>None\<close>. A battery's ceiling that is
  no finite number makes the refill unprovable, and an export limit of \<open>None\<close> is no limit.
\<close>

section \<open>Data\<close>

definition HP_EPSILON :: rat where "HP_EPSILON = 1 / 1000000"

datatype hp_status = HpDisabled | HpFailSafe | HpPlanned | HpNoOpportunity

datatype hp_reason =
    IsDisabled | InvalidNow | InvalidHorizonEnd | InvalidConfiguration | NoSlotsInWindow
  | CoverageGap | CoverageOverlap | NoProtectedDemand | NoUsableEnergy | NoEligibleCandidates
  | NoSurplus | NoRefillPrice | IsPlanned

record horizon_slot =
  hz_start :: "time option"
  hz_end :: "time option"
  hz_export :: "rat option"
  hz_import :: "rat option"
  hz_consumption :: "rat option"
  hz_solar :: "rat option"

record work_slot =
  ws_start :: time
  ws_end :: time
  ws_export :: "rat option"
  ws_import :: "rat option"
  ws_consumption :: rat
  ws_solar :: rat

record demand_link =
  link_start :: time
  link_end :: time
  link_kwh :: rat

record sale =
  sl_start :: time
  sl_end :: time
  sl_price :: rat
  sl_threshold :: "rat option"
  sl_energy :: rat
  sl_power :: rat
  sl_links :: "demand_link list"
  sl_surplus :: rat
  sl_surplus_threshold :: "rat option"

record ledger_entry =
  le_start :: time
  le_end :: time
  le_remaining :: rat
  le_import :: "rat option"

record hp_request =
  hp_slots :: "horizon_slot list"
  hp_batteries :: "snapshot list"
  hp_now :: "time option"
  hp_horizon :: "time option"
  hp_enabled :: bool
  hp_trigger_1 :: bool
  hp_cost :: pyval
  hp_max_export :: "pyval option"
  hp_efficiency :: pyval
  hp_margin :: pyval
  hp_fill_slots :: "horizon_slot list"
  hp_chronological :: bool

record hp_plan =
  hp_status :: hp_status
  hp_reason :: hp_reason
  hp_evaluated :: "time option"
  hp_end :: "time option"
  hp_protected :: rat
  hp_usable :: rat
  hp_sales :: "sale list"
  hp_total :: rat
  hp_budget :: rat
  hp_refill_price :: "rat option"
  hp_trigger_1_reason :: "hp_reason option"

definition empty_hp_plan :: "hp_status \<Rightarrow> hp_reason \<Rightarrow> time option \<Rightarrow> time option \<Rightarrow> hp_plan" where
  "empty_hp_plan st r now e = \<lparr>hp_status = st, hp_reason = r, hp_evaluated = now, hp_end = e, hp_protected = 0,
     hp_usable = 0, hp_sales = [], hp_total = 0, hp_budget = 0, hp_refill_price = None, hp_trigger_1_reason = None\<rparr>"

definition sale_at :: "hp_plan \<Rightarrow> time \<Rightarrow> sale option" where
  "sale_at p moment = List.find (\<lambda>a. sl_start a \<le> moment \<and> moment < sl_end a) (hp_sales p)"

definition remaining_kwh_of :: "hp_plan \<Rightarrow> time \<Rightarrow> rat" where
  "remaining_kwh_of p moment = sum_list (map sl_energy (filter (\<lambda>a. moment < sl_end a) (hp_sales p)))"

section \<open>The protected horizon\<close>

definition trim_one :: "time \<Rightarrow> time \<Rightarrow> horizon_slot \<Rightarrow> work_slot option" where
  "trim_one now horizon s = (case (hz_start s, hz_end s, hz_consumption s, hz_solar s) of
     (Some a, Some b, Some c, Some p) \<Rightarrow>
       (let a' = max a now; b' = min b horizon; hours = hours_between a b;
            fraction = (if HP_EPSILON < hours then hours_between a' b' / hours else 0)
        in if b \<le> a \<or> b \<le> now \<or> horizon \<le> a then None
           else if b' \<le> a' then None
           else Some \<lparr>ws_start = a', ws_end = b', ws_export = hz_export s, ws_import = hz_import s,
                      ws_consumption = c * fraction, ws_solar = p * fraction\<rparr>)
   | _ \<Rightarrow> None)"

definition trim_slots :: "horizon_slot list \<Rightarrow> time \<Rightarrow> time \<Rightarrow> work_slot list" where
  "trim_slots slots now horizon = sort_key ws_start (List.map_filter (trim_one now horizon) slots)"

fun chain_reason :: "time \<Rightarrow> work_slot list \<Rightarrow> time \<Rightarrow> hp_reason option" where
  "chain_reason previous_end [] horizon = (if previous_end < horizon then Some CoverageGap else None)"
| "chain_reason previous_end (s # ss) horizon =
     (if previous_end < ws_start s then Some CoverageGap
      else if ws_start s < previous_end then Some CoverageOverlap
      else chain_reason (ws_end s) ss horizon)"

definition coverage_gap_reason :: "work_slot list \<Rightarrow> time \<Rightarrow> time \<Rightarrow> hp_reason option" where
  "coverage_gap_reason working now horizon =
     (if now < ws_start (hd working) then Some CoverageGap
      else chain_reason (ws_end (hd working)) (tl working) horizon)"

definition slot_hours :: "work_slot \<Rightarrow> rat" where
  "slot_hours s = hours_between (ws_start s) (ws_end s)"

definition deficit :: "work_slot \<Rightarrow> rat" where
  "deficit s = max 0 (ws_consumption s - ws_solar s)"

section \<open>Ceilings\<close>

definition slot_capacity_kwh :: "work_slot \<Rightarrow> rat option \<Rightarrow> rat \<Rightarrow> rat" where
  "slot_capacity_kwh s ceiling_w discharge_w =
     (let duration = slot_hours s;
          own_export_w = max 0 (ws_solar s - ws_consumption s) / duration * 1000;
          battery_headroom_w = max 0 (discharge_w - max 0 (ws_consumption s - ws_solar s) / duration * 1000);
          export_w = (case ceiling_w of
              None \<Rightarrow> battery_headroom_w
            | Some w \<Rightarrow> min (max 0 (w - own_export_w)) battery_headroom_w)
      in if duration \<le> HP_EPSILON then 0 else export_w * duration / 1000)"

section \<open>Batteries\<close>

definition hp_valid :: "snapshot \<Rightarrow> bool" where
  "hp_valid s = (eligible s \<and> can_discharge s \<and> finite_val (soc_pct s) \<noteq> None
     \<and> (case finite_val (capacity_kwh s) of None \<Rightarrow> False | Some c \<Rightarrow> 0 < c)
     \<and> finite_val (floor_soc_pct s) \<noteq> None
     \<and> (case finite_val (max_discharge_power_w s) of None \<Rightarrow> False | Some w \<Rightarrow> 0 \<le> w))"

definition num_val :: "pyval \<Rightarrow> rat" where
  "num_val v = (case finite_val v of None \<Rightarrow> 0 | Some q \<Rightarrow> q)"

definition hp_usable_kwh :: "rat \<Rightarrow> snapshot list \<Rightarrow> rat" where
  "hp_usable_kwh efficiency bs =
     sum_list (map (\<lambda>s. max 0 ((num_val (soc_pct s) - num_val (floor_soc_pct s)) / 100 * num_val (capacity_kwh s)) * efficiency) bs)"

definition hp_discharge_w :: "snapshot list \<Rightarrow> rat" where
  "hp_discharge_w bs = sum_list (map (\<lambda>s. num_val (max_discharge_power_w s)) bs)"

text \<open>
  The room of a battery, \<open>max(0.0, x)\<close> of what is left to its maximum: Python keeps the 0.0 when
  the maximum is no number or negative infinity. \<open>None\<close> is a room without bound.
\<close>

definition room_to_full :: "snapshot \<Rightarrow> rat option" where
  "room_to_full s =
     (let room = (\<lambda>q. max 0 ((q - min (num_val (soc_pct s)) (num_val (floor_soc_pct s))) / 100 * num_val (capacity_kwh s)))
      in case max_soc_pct s of
          VFloat (Fin q) \<Rightarrow> Some (room q) | VFloat NaN \<Rightarrow> Some 0 | VFloat NegInf \<Rightarrow> Some 0
        | VInt n \<Rightarrow> Some (room (of_int n)) | _ \<Rightarrow> None)"

definition hp_full_level :: "rat \<Rightarrow> snapshot list \<Rightarrow> rat option" where
  "hp_full_level efficiency bs =
     (if list_ex (\<lambda>s. room_to_full s = None) bs then None
      else Some (sum_list (map (\<lambda>s. the (room_to_full s) * efficiency) bs)))"

section \<open>Trigger 1: surplus the sun replaces\<close>

text \<open>The refill: slot by slot from the horizon until full; anything unproven is no sale.\<close>

fun refill_walk :: "horizon_slot list \<Rightarrow> time \<Rightarrow> rat \<Rightarrow> rat \<Rightarrow> rat \<Rightarrow> rat \<Rightarrow> rat option" where
  "refill_walk [] previous_end level max_export full_level efficiency = None"
| "refill_walk (s # ss) previous_end level max_export full_level efficiency =
     (case (hz_start s, hz_end s, hz_solar s, hz_consumption s) of
        (Some a, Some b, Some p, Some c) \<Rightarrow>
          (let net = p - c;
               level' = (if 0 < net then level + net * efficiency else level + net)
           in if a \<noteq> previous_end \<or> b \<le> a then None
              else if 0 < net \<and> hz_export s = None then None
              else (let max_export' = (if 0 < net then max max_export (case hz_export s of None \<Rightarrow> 0 | Some q \<Rightarrow> q) else max_export)
                in if level' < - HP_EPSILON then None
                   else if full_level - HP_EPSILON \<le> level' then Some max_export'
                   else refill_walk ss b level' max_export' full_level efficiency))
      | _ \<Rightarrow> None)"

definition solar_refill_price :: "horizon_slot list \<Rightarrow> time \<Rightarrow> rat \<Rightarrow> rat option \<Rightarrow> rat \<Rightarrow> rat option" where
  "solar_refill_price fill horizon start_level full_level efficiency = (case full_level of
     None \<Rightarrow> None
   | Some full \<Rightarrow> (if full - HP_EPSILON \<le> start_level then Some 0
                   else refill_walk fill horizon start_level 0 full efficiency))"

definition dear_first :: "work_slot \<Rightarrow> rat \<times> rat" where
  "dear_first s = (- (case ws_export s of None \<Rightarrow> 0 | Some p \<Rightarrow> p), ws_start s)"

definition surplus_sale :: "rat \<Rightarrow> rat \<Rightarrow> work_slot \<Rightarrow> sale" where
  "surplus_sale threshold amount s = \<lparr>sl_start = ws_start s, sl_end = ws_end s,
     sl_price = (case ws_export s of None \<Rightarrow> 0 | Some p \<Rightarrow> p), sl_threshold = Some threshold, sl_energy = amount,
     sl_power = amount / slot_hours s * 1000, sl_links = [], sl_surplus = amount,
     sl_surplus_threshold = Some threshold\<rparr>"

fun sell_surplus :: "rat \<Rightarrow> (work_slot \<Rightarrow> rat) \<Rightarrow> work_slot list \<Rightarrow> rat \<Rightarrow> sale list" where
  "sell_surplus threshold cap [] left = []"
| "sell_surplus threshold cap (s # ss) left =
     (if left \<le> HP_EPSILON then []
      else (let amount = min (cap s) left in
        if amount \<le> HP_EPSILON then sell_surplus threshold cap ss left
        else surplus_sale threshold amount s # sell_surplus threshold cap ss (left - amount)))"

definition above :: "rat option \<Rightarrow> rat \<Rightarrow> bool" where
  "above p bound = (case p of None \<Rightarrow> False | Some q \<Rightarrow> bound < q)"

section \<open>Trigger 2: sales linked to later demand\<close>

definition ledger_of :: "work_slot list \<Rightarrow> ledger_entry list" where
  "ledger_of working = map (\<lambda>s. \<lparr>le_start = ws_start s, le_end = ws_end s, le_remaining = deficit s, le_import = ws_import s\<rparr>)
     (filter (\<lambda>s. HP_EPSILON < deficit s) working)"

text \<open>A trailing run without import prices is protected, never linked.\<close>

definition priced_part :: "work_slot list \<Rightarrow> work_slot list" where
  "priced_part working = rev (dropWhile (\<lambda>s. ws_import s = None) (rev working))"

definition unpriced_tail_kwh :: "work_slot list \<Rightarrow> rat" where
  "unpriced_tail_kwh working = sum_list (map deficit (takeWhile (\<lambda>s. ws_import s = None) (rev working)))"

text \<open>A battery that runs out covers the earliest demand.\<close>

fun cover_ledger :: "rat \<Rightarrow> ledger_entry list \<Rightarrow> ledger_entry list" where
  "cover_ledger left [] = []"
| "cover_ledger left (d # ds) =
     (let covered = min (le_remaining d) (max 0 left)
      in d\<lparr>le_remaining := covered\<rparr> # cover_ledger (left - covered) ds)"

definition take_link :: "rat \<Rightarrow> ledger_entry \<Rightarrow> ledger_entry \<times> demand_link" where
  "take_link amount d = (d\<lparr>le_remaining := le_remaining d - amount\<rparr>,
     \<lparr>link_start = le_start d, link_end = le_end d, link_kwh = amount\<rparr>)"

text \<open>The run-out case takes the latest demand first and stops at the first that does not pay.\<close>

fun assign_tail :: "time \<Rightarrow> rat \<Rightarrow> rat \<Rightarrow> rat \<Rightarrow> ledger_entry list \<Rightarrow> ledger_entry list \<times> demand_link list \<times> rat option" where
  "assign_tail e price cost left [] = ([], [], None)"
| "assign_tail e price cost left (d # ds) =
     (if left \<le> HP_EPSILON then (d # ds, [], None)
      else if le_remaining d \<le> HP_EPSILON
      then (let (ds', links, thr) = assign_tail e price cost left ds in (d # ds', links, thr))
      else (case le_import d of
          None \<Rightarrow> (d # ds, [], None)
        | Some q \<Rightarrow>
            (if le_start d < e \<or> price \<le> q + cost then (d # ds, [], None)
             else (let amount = min left (le_remaining d); (d', l) = take_link amount d;
                       (ds', links, thr) = assign_tail e price cost (left - amount) ds
                   in (d' # ds', l # links, Some (case thr of None \<Rightarrow> q + cost | Some t \<Rightarrow> max (q + cost) t))))))"

text \<open>Otherwise the earliest later demand is taken first. The ledger is in order of start.\<close>

definition linkable :: "time \<Rightarrow> ledger_entry \<Rightarrow> bool" where
  "linkable e d = (e \<le> le_start d \<and> HP_EPSILON < le_remaining d \<and> le_import d \<noteq> None)"

fun assign_later :: "time \<Rightarrow> rat \<Rightarrow> ledger_entry list \<Rightarrow> ledger_entry list \<times> demand_link list \<times> rat" where
  "assign_later e left [] = ([], [], left)"
| "assign_later e left (d # ds) =
     (if left \<le> HP_EPSILON then (d # ds, [], left)
      else if \<not> linkable e d then (let (ds', links, rest) = assign_later e left ds in (d # ds', links, rest))
      else (let amount = min left (le_remaining d); (d', l) = take_link amount d;
                (ds', links, rest) = assign_later e (left - amount) ds
            in (d' # ds', l # links, rest)))"

record sale_state =
  ss_ledger :: "ledger_entry list"
  ss_left :: rat
  ss_sales :: "sale list"

text \<open>A slot that already sells surplus keeps one sale with both parts.\<close>

definition book_sale :: "work_slot \<Rightarrow> rat \<Rightarrow> rat option \<Rightarrow> rat \<Rightarrow> demand_link list \<Rightarrow> sale list \<Rightarrow> sale list" where
  "book_sale s price threshold amount links sales =
     (let power = (if HP_EPSILON < slot_hours s then amount / slot_hours s * 1000 else 0) in
      if list_ex (\<lambda>a. sl_start a = ws_start s) sales
      then map (\<lambda>a. if sl_start a = ws_start s
             then a\<lparr>sl_threshold := threshold, sl_energy := sl_energy a + amount, sl_power := sl_power a + power, sl_links := links\<rparr>
             else a) sales
      else sales @ [\<lparr>sl_start = ws_start s, sl_end = ws_end s, sl_price = price, sl_threshold = threshold,
                     sl_energy = amount, sl_power = power, sl_links = links, sl_surplus = 0,
     sl_surplus_threshold = None\<rparr>])"

definition surplus_at :: "time \<Rightarrow> sale list \<Rightarrow> rat" where
  "surplus_at t sales = (case List.find (\<lambda>a. sl_start a = t) sales of None \<Rightarrow> 0 | Some a \<Rightarrow> sl_surplus a)"

record sale_rules =
  sr_cap :: "work_slot \<Rightarrow> rat"
  sr_cost :: rat
  sr_tail_coverage :: bool
  sr_tail_reserve :: rat

definition link_sum :: "demand_link list \<Rightarrow> rat" where
  "link_sum links = sum_list (map link_kwh links)"

definition sell_candidate :: "sale_rules \<Rightarrow> work_slot \<times> rat \<times> rat \<Rightarrow> sale_state \<Rightarrow> sale_state" where
  "sell_candidate r c st =
     (let (s, price, threshold) = c;
          capacity = max 0 (sr_cap r s - surplus_at (ws_start s) (ss_sales st))
      in if ss_left st \<le> HP_EPSILON \<or> capacity \<le> HP_EPSILON then st
         else if sr_tail_coverage r
         then (let (tail, links, thr) = assign_tail (ws_end s) price (sr_cost r) (min capacity (ss_left st)) (rev (ss_ledger st));
                   amount = link_sum links
               in if amount \<le> HP_EPSILON then st\<lparr>ss_ledger := rev tail\<rparr>
                  else st\<lparr>ss_ledger := rev tail, ss_left := ss_left st - amount,
                          ss_sales := book_sale s price thr amount links (ss_sales st)\<rparr>)
         else (let demand = sum_list (map le_remaining (filter (linkable (ws_end s)) (ss_ledger st)));
                   allowed = min capacity (min (ss_left st - sr_tail_reserve r) demand);
                   (ledger, links, rest) = assign_later (ws_end s) allowed (ss_ledger st);
                   amount = allowed - rest
               in if allowed \<le> HP_EPSILON then st
                  else st\<lparr>ss_ledger := ledger, ss_left := ss_left st - amount,
                          ss_sales := book_sale s price (Some threshold) amount links (ss_sales st)\<rparr>))"

text \<open>The candidates: every priced slot with priced demand after it that could pay.\<close>

fun sale_candidates :: "bool \<Rightarrow> rat \<Rightarrow> work_slot list \<Rightarrow> (work_slot \<times> rat \<times> rat) list" where
  "sale_candidates tail_coverage cost [] = []"
| "sale_candidates tail_coverage cost (s # later) =
     (case ws_export s of
        None \<Rightarrow> sale_candidates tail_coverage cost later
      | Some price \<Rightarrow>
          (if later = [] \<or> list_ex (\<lambda>l. ws_import l = None) later then sale_candidates tail_coverage cost later
           else (let threshold = Max (set (map (\<lambda>l. case ws_import l of None \<Rightarrow> 0 | Some q \<Rightarrow> q) later)) + cost
                 in if \<not> tail_coverage \<and> price \<le> threshold then sale_candidates tail_coverage cost later
                    else (s, price, threshold) # sale_candidates tail_coverage cost later)))"

section \<open>The plan\<close>

record hp_figures =
  fg_now :: time
  fg_horizon :: time
  fg_cost :: rat
  fg_margin :: rat
  fg_ceiling :: "rat option"
  fg_efficiency :: rat
  fg_working :: "work_slot list"
  fg_batteries :: "snapshot list"

definition hp_ceiling :: "pyval option \<Rightarrow> (rat option) option" where
  "hp_ceiling v = (case v of None \<Rightarrow> Some None
   | Some x \<Rightarrow> (case finite_val x of None \<Rightarrow> None | Some w \<Rightarrow> (if w < 0 then None else Some (Some w))))"

text \<open>The guards of the entry, in the order of the code.\<close>

definition hp_check :: "hp_request \<Rightarrow> hp_plan + hp_figures" where
  "hp_check r =
     (let refuse = (\<lambda>reason. Inl (empty_hp_plan HpFailSafe reason (hp_now r) (hp_horizon r))) in
      if \<not> hp_enabled r \<and> \<not> hp_trigger_1 r then Inl (empty_hp_plan HpDisabled IsDisabled (hp_now r) None)
      else (case (hp_now r, hp_horizon r) of
          (None, _) \<Rightarrow> Inl (empty_hp_plan HpFailSafe InvalidNow None None)
        | (_, None) \<Rightarrow> Inl (empty_hp_plan HpFailSafe InvalidHorizonEnd (hp_now r) None)
        | (Some now, Some horizon) \<Rightarrow>
            (if horizon \<le> now then refuse InvalidHorizonEnd
             else (case (finite_val (hp_cost r), finite_val (hp_margin r), hp_ceiling (hp_max_export r), finite_val (hp_efficiency r)) of
                 (Some cost, Some margin, Some ceil_w, Some efficiency) \<Rightarrow>
                   (let working = trim_slots (hp_slots r) now horizon in
                    if cost < 0 \<or> margin < 0 \<or> efficiency \<le> 0 then refuse InvalidConfiguration
                    else if working = [] then refuse NoSlotsInWindow
                    else (case coverage_gap_reason working now horizon of
                        Some reason \<Rightarrow> refuse reason
                      | None \<Rightarrow> Inr \<lparr>fg_now = now, fg_horizon = horizon, fg_cost = cost, fg_margin = margin,
                          fg_ceiling = ceil_w, fg_efficiency = efficiency, fg_working = working,
                          fg_batteries = filter hp_valid (hp_batteries r)\<rparr>))
               | _ \<Rightarrow> refuse InvalidConfiguration))))"

definition fg_demand :: "hp_figures \<Rightarrow> rat" where
  "fg_demand g = sum_list (map deficit (fg_working g))"

definition fg_usable :: "hp_figures \<Rightarrow> rat" where
  "fg_usable g = hp_usable_kwh (fg_efficiency g) (fg_batteries g)"

definition fg_cap :: "hp_figures \<Rightarrow> work_slot \<Rightarrow> rat" where
  "fg_cap g s = slot_capacity_kwh s (fg_ceiling g) (hp_discharge_w (fg_batteries g))"

definition fg_budget :: "hp_figures \<Rightarrow> rat" where
  "fg_budget g = max 0 (fg_usable g - fg_demand g - fg_margin g)"

definition trigger_1_sales :: "hp_request \<Rightarrow> hp_figures \<Rightarrow> sale list \<times> rat option \<times> hp_reason" where
  "trigger_1_sales r g =
     (if \<not> hp_trigger_1 r then ([], None, IsDisabled)
      else if fg_budget g \<le> HP_EPSILON then ([], None, NoSurplus)
      else (case solar_refill_price (hp_fill_slots r) (fg_horizon g) (max 0 (fg_usable g - fg_demand g - fg_budget g))
                   (hp_full_level (fg_efficiency g) (fg_batteries g)) (fg_efficiency g) of
          None \<Rightarrow> ([], None, NoRefillPrice)
        | Some price \<Rightarrow>
            (let threshold = price / fg_efficiency g + fg_cost g;
                 sales = sell_surplus threshold (fg_cap g)
                   (sort_key dear_first (filter (\<lambda>s. above (ws_export s) threshold) (fg_working g))) (fg_budget g)
             in (sales, Some price, if sales = [] then NoEligibleCandidates else IsPlanned))))"

definition runs_out :: "hp_request \<Rightarrow> hp_figures \<Rightarrow> rat \<Rightarrow> bool" where
  "runs_out r g left = (hp_chronological r \<and> left < fg_demand g - HP_EPSILON)"

definition tail_reserve_kwh :: "hp_request \<Rightarrow> hp_figures \<Rightarrow> rat" where
  "tail_reserve_kwh r g =
     (let tail = unpriced_tail_kwh (fg_working g) in
      if tail \<le> HP_EPSILON then 0 else if hp_chronological r then fg_demand g else tail)"

definition sale_rules_of :: "hp_request \<Rightarrow> hp_figures \<Rightarrow> rat \<Rightarrow> sale_rules" where
  "sale_rules_of r g left = \<lparr>sr_cap = fg_cap g, sr_cost = fg_cost g, sr_tail_coverage = runs_out r g left,
     sr_tail_reserve = tail_reserve_kwh r g\<rparr>"

definition sale_start :: "hp_request \<Rightarrow> hp_figures \<Rightarrow> sale list \<Rightarrow> sale_state" where
  "sale_start r g sales =
     (let left = fg_usable g - sum_list (map sl_surplus sales); ledger = ledger_of (fg_working g)
      in \<lparr>ss_ledger = (if runs_out r g left then cover_ledger left ledger else ledger), ss_left = left, ss_sales = sales\<rparr>)"

definition trigger_2_sales :: "hp_request \<Rightarrow> hp_figures \<Rightarrow> sale list \<Rightarrow> sale_state" where
  "trigger_2_sales r g sales =
     (let st = sale_start r g sales; rules = sale_rules_of r g (ss_left st);
          candidates = (if hp_enabled r then sale_candidates (sr_tail_coverage rules) (fg_cost g) (priced_part (fg_working g)) else [])
      in fold (sell_candidate rules) (sort_key (\<lambda>(s, price, threshold). (- price, ws_start s)) candidates) st)"

definition hp_outcome :: "hp_request \<Rightarrow> hp_figures \<Rightarrow> sale list \<Rightarrow> hp_reason \<Rightarrow> hp_status \<times> hp_reason" where
  "hp_outcome r g sales t1 =
     (if sales \<noteq> [] then (HpPlanned, IsPlanned)
      else if \<not> hp_enabled r then (HpNoOpportunity, t1)
      else if fg_demand g \<le> HP_EPSILON then (HpNoOpportunity, NoProtectedDemand)
      else if fg_usable g \<le> HP_EPSILON then (HpNoOpportunity, NoUsableEnergy)
      else (HpNoOpportunity, NoEligibleCandidates))"

definition plan_high_price_discharge :: "hp_request \<Rightarrow> hp_plan" where
  "plan_high_price_discharge r = (case hp_check r of
     Inl p \<Rightarrow> p
   | Inr g \<Rightarrow>
       (let (surplus, refill, t1) = trigger_1_sales r g;
            st = trigger_2_sales r g surplus;
            (status, reason) = hp_outcome r g (ss_sales st) t1
        in \<lparr>hp_status = status, hp_reason = reason, hp_evaluated = Some (fg_now g), hp_end = Some (fg_horizon g),
            hp_protected = fg_demand g, hp_usable = fg_usable g, hp_sales = sort_key sl_start (ss_sales st),
            hp_total = sum_list (map sl_energy (ss_sales st)),
            hp_budget = (if hp_trigger_1 r then fg_budget g else 0), hp_refill_price = refill,
            hp_trigger_1_reason = Some t1\<rparr>))"

section \<open>Moving demand from the ledger to links\<close>

definition owed :: "time \<Rightarrow> ledger_entry list \<Rightarrow> rat" where
  "owed t ds = sum_list (map le_remaining (filter (\<lambda>d. le_start d = t) ds))"

definition linked :: "time \<Rightarrow> demand_link list \<Rightarrow> rat" where
  "linked t ls = sum_list (map link_kwh (filter (\<lambda>l. link_start l = t) ls))"

definition entry_key :: "ledger_entry \<Rightarrow> time \<times> time \<times> rat option" where
  "entry_key d = (le_start d, le_end d, le_import d)"

definition in_credit :: "ledger_entry list \<Rightarrow> bool" where
  "in_credit ds = list_all (\<lambda>d. 0 \<le> le_remaining d) ds"

text \<open>\<open>grounded P ds l\<close>: the link is a positive part of an entry with \<open>P\<close> of its key.\<close>

definition grounded :: "(time \<times> time \<times> rat option \<Rightarrow> bool) \<Rightarrow> ledger_entry list \<Rightarrow> demand_link \<Rightarrow> bool" where
  "grounded P ds l = (0 < link_kwh l \<and> (\<exists>d \<in> set ds. P (entry_key d) \<and> link_start l = le_start d \<and> link_end l = le_end d))"

definition moves where
  "moves P ds ds' links = (map entry_key ds' = map entry_key ds \<and> in_credit ds'
     \<and> (\<forall>t. owed t ds = owed t ds' + linked t links)
     \<and> (\<forall>l \<in> set links. grounded P ds l))"

lemma owed_Cons: "owed t (d # ds) = (if le_start d = t then le_remaining d else 0) + owed t ds"
  by (simp add: owed_def)

lemma linked_Cons: "linked t (l # ls) = (if link_start l = t then link_kwh l else 0) + linked t ls"
  by (simp add: linked_def)

lemma linked_nil [simp]: "linked t [] = 0" and owed_nil [simp]: "owed t [] = 0"
  by (simp_all add: linked_def owed_def)

lemma owed_rev [simp]: "owed t (rev ds) = owed t ds"
  by (simp add: owed_def rev_filter [symmetric] rev_map [symmetric] sum_list_rev)

lemma in_credit_rev [simp]: "in_credit (rev ds) = in_credit ds"
  by (simp add: in_credit_def)

lemma in_credit_Cons [simp]: "in_credit (d # ds) = (0 \<le> le_remaining d \<and> in_credit ds)"
  by (simp add: in_credit_def)

lemma grounded_mono: "grounded P ds l \<Longrightarrow> set ds \<subseteq> set ds' \<Longrightarrow> (\<And>k. P k \<Longrightarrow> Q k) \<Longrightarrow> grounded Q ds' l"
  unfolding grounded_def by blast

lemma moves_refl: "in_credit ds \<Longrightarrow> moves P ds ds []"
  by (simp add: moves_def)

lemma moves_skip:
  assumes "moves P ds ds' links" "0 \<le> le_remaining d"
  shows "moves P (d # ds) (d # ds') links"
  using assms by (auto simp: moves_def owed_Cons intro: grounded_mono)

lemma moves_take:
  assumes "moves P ds ds' links" "P (entry_key d)" "0 < amount" "amount \<le> le_remaining d"
    and "take_link amount d = (d', l)"
  shows "moves P (d # ds) (d' # ds') (l # links)"
proof -
  have d': "entry_key d' = entry_key d" "le_start d' = le_start d" "le_remaining d' = le_remaining d - amount"
    and l: "link_start l = le_start d" "link_end l = le_end d" "link_kwh l = amount"
    using assms(5) by (auto simp: take_link_def entry_key_def)
  have "grounded P (d # ds) l" using assms(2,3) l by (auto simp: grounded_def)
  moreover have "\<forall>k \<in> set links. grounded P (d # ds) k" using assms(1) by (auto simp: moves_def intro: grounded_mono)
  moreover have "owed t (d # ds) = owed t (d' # ds') + linked t (l # links)" for t
    using assms(1) d' l by (simp add: moves_def owed_Cons linked_Cons)
  ultimately show ?thesis using assms(1,4) d' by (simp add: moves_def)
qed

text \<open>What the two assignments may link.\<close>

definition pays_back :: "time \<Rightarrow> rat \<Rightarrow> rat \<Rightarrow> time \<times> time \<times> rat option \<Rightarrow> bool" where
  "pays_back e price cost k = (case k of (a, b, q) \<Rightarrow> e \<le> a \<and> (case q of None \<Rightarrow> False | Some x \<Rightarrow> x + cost < price))"

definition comes_later :: "time \<Rightarrow> time \<times> time \<times> rat option \<Rightarrow> bool" where
  "comes_later e k = (case k of (a, b, q) \<Rightarrow> e \<le> a \<and> q \<noteq> None)"

lemma assign_tail_moves:
  "in_credit ds \<Longrightarrow> assign_tail e price cost left ds = (ds', links, thr) \<Longrightarrow>
     moves (pays_back e price cost) ds ds' links \<and> (0 \<le> left \<longrightarrow> link_sum links \<le> left)"
proof (induction ds arbitrary: left ds' links thr)
  case (Cons d ds)
  let ?stop = "(d # ds, [], None)"
  obtain ds1 links1 thr1 where rec: "assign_tail e price cost left ds = (ds1, links1, thr1)" by (cases "assign_tail e price cost left ds")
  let ?amount = "min left (le_remaining d)"
  obtain ds2 links2 thr2 where rec2: "assign_tail e price cost (left - ?amount) ds = (ds2, links2, thr2)"
    by (cases "assign_tail e price cost (left - ?amount) ds")
  obtain d' l where tk: "take_link ?amount d = (d', l)" by fastforce
  have credit: "in_credit ds" "0 \<le> le_remaining d" using Cons.prems(1) by simp_all
  consider (stop) "(ds', links, thr) = ?stop" | (skip) "ds' = d # ds1" "links = links1"
    | (taking) q where "\<not> left \<le> HP_EPSILON" "\<not> le_remaining d \<le> HP_EPSILON" "le_import d = Some q" "e \<le> le_start d"
        "q + cost < price" "ds' = d' # ds2" "links = l # links2"
    using Cons.prems(2) rec rec2 tk by (auto simp: Let_def split: if_splits option.splits)
  then show ?case
  proof cases
    case stop
    then show ?thesis using Cons.prems(1) by (simp add: moves_refl link_sum_def)
  next
    case skip
    then show ?thesis using Cons.IH [OF credit(1) rec] credit(2) by (simp add: moves_skip)
  next
    case taking
    have amount: "0 < ?amount" "?amount \<le> le_remaining d" "0 \<le> left - ?amount"
      using taking(1,2) by (auto simp: HP_EPSILON_def)
    have IH: "moves (pays_back e price cost) ds ds2 links2" "link_sum links2 \<le> left - ?amount"
      using Cons.IH [OF credit(1) rec2] amount(3) by auto
    have "pays_back e price cost (entry_key d)" using taking(3-5) by (simp add: pays_back_def entry_key_def)
    from moves_take [OF IH(1) this amount(1,2) tk] taking(6,7)
    have "moves (pays_back e price cost) (d # ds) ds' links" by simp
    moreover have "link_kwh l = ?amount" using tk by (auto simp: take_link_def)
    ultimately show ?thesis using IH(2) taking(7) by (simp add: link_sum_def)
  qed
qed (auto simp: moves_refl link_sum_def)

lemma assign_later_moves:
  "in_credit ds \<Longrightarrow> 0 \<le> left \<Longrightarrow> assign_later e left ds = (ds', links, rest) \<Longrightarrow>
     moves (comes_later e) ds ds' links \<and> rest = left - link_sum links \<and> 0 \<le> rest"
proof (induction ds arbitrary: left ds' links rest)
  case (Cons d ds)
  obtain ds1 links1 rest1 where rec: "assign_later e left ds = (ds1, links1, rest1)" by (cases "assign_later e left ds")
  let ?amount = "min left (le_remaining d)"
  obtain ds2 links2 rest2 where rec2: "assign_later e (left - ?amount) ds = (ds2, links2, rest2)"
    by (cases "assign_later e (left - ?amount) ds")
  obtain d' l where tk: "take_link ?amount d = (d', l)" by fastforce
  have credit: "in_credit ds" "0 \<le> le_remaining d" using Cons.prems(1) by simp_all
  consider (stop) "(ds', links, rest) = (d # ds, [], left)"
    | (skip) "ds' = d # ds1" "links = links1" "rest = rest1"
    | (taking) "\<not> left \<le> HP_EPSILON" "linkable e d" "ds' = d' # ds2" "links = l # links2" "rest = rest2"
    using Cons.prems(3) rec rec2 tk by (auto simp: Let_def split: if_splits)
  then show ?case
  proof cases
    case stop
    then show ?thesis using Cons.prems(1,2) by (simp add: moves_refl link_sum_def)
  next
    case skip
    then show ?thesis using Cons.IH [OF credit(1) Cons.prems(2) rec] credit(2) by (simp add: moves_skip)
  next
    case taking
    have amount: "0 < ?amount" "?amount \<le> le_remaining d" "0 \<le> left - ?amount"
      using taking(1,2) by (auto simp: HP_EPSILON_def linkable_def)
    have IH: "moves (comes_later e) ds ds2 links2" "rest2 = left - ?amount - link_sum links2" "0 \<le> rest2"
      using Cons.IH [OF credit(1) amount(3) rec2] by auto
    have "comes_later e (entry_key d)" using taking(2) by (simp add: comes_later_def entry_key_def linkable_def)
    from moves_take [OF IH(1) this amount(1,2) tk] taking(3,4)
    have "moves (comes_later e) (d # ds) ds' links" by simp
    moreover have "link_kwh l = ?amount" using tk by (auto simp: take_link_def)
    ultimately show ?thesis using IH(2,3) taking(4,5) by (simp add: link_sum_def)
  qed
qed (auto simp: moves_refl link_sum_def)

lemma link_sum_nonneg: "(\<And>l. l \<in> set links \<Longrightarrow> 0 < link_kwh l) \<Longrightarrow> 0 \<le> link_sum links"
  unfolding link_sum_def by (induction links) (auto simp: add_nonneg_nonneg less_imp_le)

lemma moves_rev: "moves P (rev ds) tail links \<Longrightarrow> moves P ds (rev tail) links"
  unfolding moves_def grounded_def by (auto simp: rev_map [symmetric] rev_swap)

section \<open>Booking\<close>

lemma grounded_keys: "map entry_key ds' = map entry_key ds \<Longrightarrow> grounded P ds' l = grounded P ds l"
proof -
  have *: "grounded P ds l = (0 < link_kwh l \<and> (\<exists>k \<in> set (map entry_key ds). P k \<and> link_start l = fst k \<and> link_end l = fst (snd k)))" for ds
    by (auto simp: grounded_def entry_key_def)
  assume "map entry_key ds' = map entry_key ds"
  then show ?thesis unfolding * by simp
qed

definition sale_ok :: "(work_slot \<Rightarrow> rat) \<Rightarrow> rat \<Rightarrow> work_slot list \<Rightarrow> ledger_entry list \<Rightarrow> sale \<Rightarrow> bool" where
  "sale_ok cap cost W L a =
     ((\<exists>s \<in> set W. sl_start a = ws_start s \<and> sl_end a = ws_end s \<and> ws_export s = Some (sl_price a)
         \<and> sl_energy a \<le> max 0 (cap s) \<and> sl_power a = sl_energy a / slot_hours s * 1000)
      \<and> 0 \<le> sl_surplus a \<and> sl_energy a = sl_surplus a + link_sum (sl_links a)
      \<and> (\<forall>l \<in> set (sl_links a). grounded (pays_back (sl_end a) (sl_price a) cost) L l))"

definition sold :: "sale list \<Rightarrow> rat" where
  "sold sales = sum_list (map sl_energy sales)"

definition linked_all :: "time \<Rightarrow> sale list \<Rightarrow> rat" where
  "linked_all t sales = sum_list (map (\<lambda>a. linked t (sl_links a)) sales)"

lemma sold_simps [simp]: "sold [] = 0" "sold (a # as) = sl_energy a + sold as" "sold (as @ bs) = sold as + sold bs"
  by (simp_all add: sold_def)

lemma linked_all_simps [simp]:
  "linked_all t [] = 0" "linked_all t (a # as) = linked t (sl_links a) + linked_all t as"
  "linked_all t (as @ bs) = linked_all t as + linked_all t bs"
  by (simp_all add: linked_all_def)

text \<open>Booking adds a new sale, or the links to the one sale of surplus in the slot.\<close>

definition with_links :: "work_slot \<Rightarrow> rat option \<Rightarrow> rat \<Rightarrow> demand_link list \<Rightarrow> sale \<Rightarrow> sale" where
  "with_links s thr amount links a = a\<lparr>sl_threshold := thr, sl_energy := sl_energy a + amount,
     sl_power := sl_power a + (if HP_EPSILON < slot_hours s then amount / slot_hours s * 1000 else 0), sl_links := links\<rparr>"

definition linked_sale :: "work_slot \<Rightarrow> rat \<Rightarrow> rat option \<Rightarrow> rat \<Rightarrow> demand_link list \<Rightarrow> sale" where
  "linked_sale s price thr amount links = \<lparr>sl_start = ws_start s, sl_end = ws_end s, sl_price = price,
     sl_threshold = thr, sl_energy = amount,
     sl_power = (if HP_EPSILON < slot_hours s then amount / slot_hours s * 1000 else 0), sl_links = links, sl_surplus = 0,
     sl_surplus_threshold = None\<rparr>"

lemma book_sale_cases:
  assumes "distinct (map sl_start sales)"
  shows "ws_start s \<notin> sl_start ` set sales \<and> surplus_at (ws_start s) sales = 0
        \<and> book_sale s price thr amount links sales = sales @ [linked_sale s price thr amount links]
    \<or> (\<exists>xs a ys. sales = xs @ a # ys \<and> sl_start a = ws_start s \<and> surplus_at (ws_start s) sales = sl_surplus a
        \<and> book_sale s price thr amount links sales = xs @ with_links s thr amount links a # ys)"
proof (cases "ws_start s \<in> sl_start ` set sales")
  case False
  then have none: "\<not> (\<exists>a. a \<in> set sales \<and> sl_start a = ws_start s)" by (metis image_eqI)
  then have "List.find (\<lambda>a. sl_start a = ws_start s) sales = None" by (simp add: find_None_iff)
  moreover have "\<not> list_ex (\<lambda>a. sl_start a = ws_start s) sales" using none by (auto simp: list_ex_iff)
  ultimately show ?thesis using False by (simp add: surplus_at_def book_sale_def linked_sale_def Let_def)
next
  case True
  then obtain a where "a \<in> set sales" and a: "sl_start a = ws_start s" by auto
  then obtain xs ys where sp: "sales = xs @ a # ys" by (auto dest: split_list)
  have others: "\<And>b. b \<in> set xs \<union> set ys \<Longrightarrow> sl_start b \<noteq> ws_start s"
  proof -
    fix b assume "b \<in> set xs \<union> set ys"
    moreover have "sl_start a \<notin> sl_start ` (set xs \<union> set ys)" using assms sp by auto
    ultimately show "sl_start b \<noteq> ws_start s" using a by (metis image_eqI)
  qed
  then have "map (\<lambda>b. if sl_start b = ws_start s then f b else b) zs = zs" if "set zs \<subseteq> set xs \<union> set ys" for f zs
    using that by (induction zs) auto
  moreover have "List.find (\<lambda>a. sl_start a = ws_start s) sales = Some a"
    using others by (simp add: sp a) (induction xs; simp add: a)
  moreover have "list_ex (\<lambda>a. sl_start a = ws_start s) sales" using sp a by (simp add: list_ex_iff)
  ultimately have "surplus_at (ws_start s) sales = sl_surplus a"
    "book_sale s price thr amount links sales = xs @ with_links s thr amount links a # ys"
    using a by (simp_all add: surplus_at_def book_sale_def with_links_def Let_def sp)
  then show ?thesis using sp a by blast
qed

lemma book_sale_ok:
  assumes dist: "distinct (map sl_start sales)" and ok: "\<forall>a \<in> set sales. sale_ok cap cost W L a"
    and fresh: "\<forall>a \<in> set sales. sl_start a = ws_start s \<longrightarrow> sl_links a = []"
    and s: "s \<in> set W" "ws_export s = Some price" "HP_EPSILON < slot_hours s"
    and starts: "\<forall>w \<in> set W. ws_start w = ws_start s \<longrightarrow> w = s"
    and amount: "amount = link_sum links" "0 \<le> amount" "amount \<le> max 0 (cap s - surplus_at (ws_start s) sales)"
    and links: "\<forall>l \<in> set links. grounded (pays_back (ws_end s) price cost) L l"
    and sales': "sales' = book_sale s price thr amount links sales"
  shows "distinct (map sl_start sales')" "\<forall>a \<in> set sales'. sale_ok cap cost W L a"
    "sold sales' = sold sales + amount" "\<And>t. linked_all t sales' = linked_all t sales + linked t links"
    "\<And>a. a \<in> set sales' \<Longrightarrow> sl_links a \<noteq> [] \<Longrightarrow> sl_start a = ws_start s \<or> a \<in> set sales"
    "map sl_start sales' = map sl_start sales \<or> map sl_start sales' = map sl_start sales @ [ws_start s]"
proof -
  consider (new) "ws_start s \<notin> sl_start ` set sales" "surplus_at (ws_start s) sales = 0"
      "sales' = sales @ [linked_sale s price thr amount links]"
    | (merge) xs a ys where "sales = xs @ a # ys" "sl_start a = ws_start s" "surplus_at (ws_start s) sales = sl_surplus a"
      "sales' = xs @ with_links s thr amount links a # ys"
    using book_sale_cases [OF dist, of s price thr amount links] sales' by blast
  then have "distinct (map sl_start sales') \<and> (\<forall>a \<in> set sales'. sale_ok cap cost W L a)
    \<and> sold sales' = sold sales + amount \<and> (\<forall>t. linked_all t sales' = linked_all t sales + linked t links)
    \<and> (\<forall>a \<in> set sales'. sl_links a \<noteq> [] \<longrightarrow> sl_start a = ws_start s \<or> a \<in> set sales)
    \<and> (map sl_start sales' = map sl_start sales \<or> map sl_start sales' = map sl_start sales @ [ws_start s])"
  proof cases
    case new
    have "sale_ok cap cost W L (linked_sale s price thr amount links)"
      using s amount links new(2) by (auto simp: sale_ok_def linked_sale_def)
    then show ?thesis using new dist ok by (auto simp: linked_sale_def)
  next
    case merge
    have a: "sale_ok cap cost W L a" "sl_links a = []" using ok fresh merge(1,2) by auto
    then obtain w where w: "w \<in> set W" "sl_start a = ws_start w" "sl_end a = ws_end w" "ws_export w = Some (sl_price a)"
        "sl_energy a \<le> max 0 (cap w)" "sl_power a = sl_energy a / slot_hours w * 1000"
      by (auto simp: sale_ok_def)
    have "w = s" using starts w(1,2) merge(2) by simp
    have e: "sl_energy a = sl_surplus a" "0 \<le> sl_surplus a" using a by (auto simp: sale_ok_def link_sum_def)
    have "sl_energy a + amount \<le> max 0 (cap s)"
      using amount(3) merge(3) e w(5) \<open>w = s\<close> by (auto simp: max_def split: if_splits)
    then have "sale_ok cap cost W L (with_links s thr amount links a)"
      using w e amount links s(2,3) \<open>w = s\<close> unfolding sale_ok_def with_links_def
      by (auto simp: add_divide_distrib ring_distribs)
    then show ?thesis using merge dist ok a(2) by (auto simp: with_links_def)
  qed
  then show "distinct (map sl_start sales')" "\<forall>a \<in> set sales'. sale_ok cap cost W L a"
    "sold sales' = sold sales + amount" "\<And>t. linked_all t sales' = linked_all t sales + linked t links"
    "\<And>a. a \<in> set sales' \<Longrightarrow> sl_links a \<noteq> [] \<Longrightarrow> sl_start a = ws_start s \<or> a \<in> set sales"
    "map sl_start sales' = map sl_start sales \<or> map sl_start sales' = map sl_start sales @ [ws_start s]"
    by blast+
qed

section \<open>The run over the candidates\<close>

definition in_order :: "work_slot list \<Rightarrow> bool" where
  "in_order W = (sorted_wrt (\<lambda>s w. ws_end s \<le> ws_start w) W \<and> list_all (\<lambda>s. ws_start s < ws_end s) W)"

lemma in_order_same:
  assumes "in_order W" "s \<in> set W" "w \<in> set W" "ws_start w = ws_start s"
  shows "w = s"
  using assms
proof (induction W)
  case (Cons x W)
  have "ws_start x < ws_start y" if "y \<in> set W" for y
    using Cons.prems(1) that by (fastforce simp: in_order_def)
  then show ?case using Cons by (fastforce simp: in_order_def)
qed simp

lemma in_order_distinct: "in_order W \<Longrightarrow> distinct (map ws_start W)"
proof (induction W)
  case (Cons x W)
  then have "ws_start x < ws_start y" if "y \<in> set W" for y using that by (fastforce simp: in_order_def)
  then show ?case using Cons by (fastforce simp: in_order_def)
qed simp

definition candidate_ok :: "bool \<Rightarrow> rat \<Rightarrow> work_slot list \<Rightarrow> work_slot \<times> rat \<times> rat \<Rightarrow> bool" where
  "candidate_ok tail cost W c = (case c of (s, price, threshold) \<Rightarrow>
     s \<in> set W \<and> ws_export s = Some price \<and> (tail \<or> threshold < price)
     \<and> (\<forall>w \<in> set W. \<forall>q. ws_end s \<le> ws_start w \<and> ws_import w = Some q \<longrightarrow> q + cost \<le> threshold))"

lemma sale_candidates_sub: "c \<in> set (sale_candidates tail cost W) \<Longrightarrow> fst c \<in> set W"
  by (induction W) (auto simp: Let_def split: option.splits if_splits)

lemma sale_candidates_distinct:
  "in_order W \<Longrightarrow> distinct (map (ws_start \<circ> fst) (sale_candidates tail cost W))"
proof (induction W)
  case (Cons s later)
  have io: "in_order later" using Cons.prems by (simp add: in_order_def)
  have "ws_start s \<noteq> ws_start (fst c)" if "c \<in> set (sale_candidates tail cost later)" for c
    using sale_candidates_sub [OF that] Cons.prems by (fastforce simp: in_order_def)
  then have "ws_start s \<notin> (ws_start \<circ> fst) ` set (sale_candidates tail cost later)" by auto
  moreover have "sale_candidates tail cost (s # later) = sale_candidates tail cost later
    \<or> (\<exists>price threshold. sale_candidates tail cost (s # later) = (s, price, threshold) # sale_candidates tail cost later)"
    by (auto simp: Let_def split: option.split)
  ultimately show ?case using Cons.IH [OF io] by (elim disjE exE) simp_all
qed simp

text \<open>\<open>tl\<close> is the part of the horizon without import prices.\<close>

lemma sale_candidates_ok:
  assumes "in_order (pre @ W @ rest)" "\<forall>w \<in> set rest. ws_import w = None" "c \<in> set (sale_candidates tail cost W)"
  shows "candidate_ok tail cost (pre @ W @ rest) c"
  using assms
proof (induction W arbitrary: pre)
  case (Cons s later)
  let ?all = "pre @ (s # later) @ rest"
  show ?case
  proof (cases "c \<in> set (sale_candidates tail cost later)")
    case True
    then show ?thesis using Cons.IH [of "pre @ [s]"] Cons.prems by simp
  next
    case False
    then obtain price threshold where c: "c = (s, price, threshold)" "ws_export s = Some price"
      "\<forall>l \<in> set later. ws_import l \<noteq> None" "tail \<or> threshold < price" "later \<noteq> []"
      "threshold = Max (set (map (\<lambda>l. case ws_import l of None \<Rightarrow> 0 | Some q \<Rightarrow> q) later)) + cost"
      using Cons.prems(3) by (auto simp: Let_def list_ex_iff split: option.splits if_splits)
    have "q + cost \<le> threshold" if w: "w \<in> set ?all" "ws_end s \<le> ws_start w" "ws_import w = Some q" for w q
    proof -
      have "w \<notin> set pre"
      proof
        assume "w \<in> set pre"
        then have "ws_end w \<le> ws_start s" "ws_start w < ws_end w" "ws_start s < ws_end s"
          using Cons.prems(1) by (auto simp: in_order_def sorted_wrt_append list_all_iff)
        then show False using w(2) by linarith
      qed
      moreover have "w \<noteq> s" using Cons.prems(1) w(2) by (auto simp: in_order_def)
      ultimately have "w \<in> set later" using w(1,3) Cons.prems(2) by auto
      then have "q \<in> set (map (\<lambda>l. case ws_import l of None \<Rightarrow> 0 | Some q \<Rightarrow> q) later)"
        using w(3) by (force simp: image_iff)
      then have "q \<le> Max (set (map (\<lambda>l. case ws_import l of None \<Rightarrow> 0 | Some q \<Rightarrow> q) later))" by (intro Max_ge) simp_all
      then show ?thesis using c(6) by simp
    qed
    then show ?thesis using c by (auto simp: candidate_ok_def)
  qed
qed simp

record run_ctx =
  rc_rules :: sale_rules
  rc_slots :: "work_slot list"
  rc_ledger :: "ledger_entry list"
  rc_usable :: rat

definition run_inv :: "run_ctx \<Rightarrow> time set \<Rightarrow> sale_state \<Rightarrow> bool" where
  "run_inv k done_starts st =
     (map entry_key (ss_ledger st) = map entry_key (rc_ledger k) \<and> in_credit (ss_ledger st)
      \<and> (\<forall>t. owed t (ss_ledger st) + linked_all t (ss_sales st) \<le> owed t (rc_ledger k))
      \<and> ss_left st + sold (ss_sales st) = rc_usable k \<and> 0 \<le> ss_left st
      \<and> (\<forall>a \<in> set (ss_sales st). sale_ok (sr_cap (rc_rules k)) (sr_cost (rc_rules k)) (rc_slots k) (rc_ledger k) a)
      \<and> distinct (map sl_start (ss_sales st))
      \<and> (\<forall>a \<in> set (ss_sales st). sl_links a \<noteq> [] \<longrightarrow> sl_start a \<in> done_starts)
      \<and> (\<not> sr_tail_coverage (rc_rules k) \<and> (\<exists>a \<in> set (ss_sales st). sl_links a \<noteq> []) \<longrightarrow> sr_tail_reserve (rc_rules k) \<le> ss_left st))"

definition ctx_ok :: "run_ctx \<Rightarrow> bool" where
  "ctx_ok k = (in_order (rc_slots k) \<and> 0 \<le> sr_tail_reserve (rc_rules k)
     \<and> (\<forall>s. 0 < sr_cap (rc_rules k) s \<longrightarrow> HP_EPSILON < slot_hours s)
     \<and> (\<forall>d \<in> set (rc_ledger k). \<exists>w \<in> set (rc_slots k). le_start d = ws_start w \<and> le_import d = ws_import w))"

lemma run_invI:
  assumes "map entry_key (ss_ledger st) = map entry_key (rc_ledger k)" "in_credit (ss_ledger st)"
    "\<And>t. owed t (ss_ledger st) + linked_all t (ss_sales st) \<le> owed t (rc_ledger k)"
    "ss_left st + sold (ss_sales st) = rc_usable k" "0 \<le> ss_left st"
    "\<forall>a \<in> set (ss_sales st). sale_ok (sr_cap (rc_rules k)) (sr_cost (rc_rules k)) (rc_slots k) (rc_ledger k) a"
    "distinct (map sl_start (ss_sales st))"
    "\<forall>a \<in> set (ss_sales st). sl_links a \<noteq> [] \<longrightarrow> sl_start a \<in> done_starts"
    "\<not> sr_tail_coverage (rc_rules k) \<and> (\<exists>a \<in> set (ss_sales st). sl_links a \<noteq> []) \<longrightarrow> sr_tail_reserve (rc_rules k) \<le> ss_left st"
  shows "run_inv k done_starts st"
  unfolding run_inv_def using assms by (intro conjI allI) assumption+

lemma surplus_at_nonneg: "(\<And>a. a \<in> set sales \<Longrightarrow> 0 \<le> sl_surplus a) \<Longrightarrow> 0 \<le> surplus_at t sales"
  by (induction sales) (auto simp: surplus_at_def)

lemma run_inv_book:
  assumes inv: "run_inv k done_starts st" and k: "ctx_ok k" and c: "candidate_ok tail cost (rc_slots k) (s, price, threshold)"
    and new: "ws_start s \<notin> done_starts"
    and mv: "moves P (ss_ledger st) ledger links"
    and P: "\<And>key. key \<in> entry_key ` set (rc_ledger k) \<Longrightarrow> P key \<Longrightarrow> pays_back (ws_end s) price (sr_cost (rc_rules k)) key"
    and amount: "amount = link_sum links" "amount \<le> ss_left st"
      "amount \<le> max 0 (sr_cap (rc_rules k) s - surplus_at (ws_start s) (ss_sales st))"
      "0 < max 0 (sr_cap (rc_rules k) s - surplus_at (ws_start s) (ss_sales st))"
    and reserve: "sr_tail_coverage (rc_rules k) \<or> sr_tail_reserve (rc_rules k) \<le> ss_left st - amount"
  shows "run_inv k (insert (ws_start s) done_starts)
    (st\<lparr>ss_ledger := ledger, ss_left := ss_left st - amount, ss_sales := book_sale s price thr amount links (ss_sales st)\<rparr>)"
proof -
  note i = inv [unfolded run_inv_def]
  let ?sales = "book_sale s price thr amount links (ss_sales st)"
  have keys: "map entry_key ledger = map entry_key (ss_ledger st)" "in_credit ledger"
    and owe: "\<And>t. owed t (ss_ledger st) = owed t ledger + linked t links"
    and gr: "\<forall>l \<in> set links. grounded P (ss_ledger st) l"
    using mv by (auto simp: moves_def)
  have kk: "map entry_key (ss_ledger st) = map entry_key (rc_ledger k)" using i by blast
  have pos: "0 \<le> amount" unfolding amount(1) using gr by (intro link_sum_nonneg) (auto simp: grounded_def)
  have grL: "\<forall>l \<in> set links. grounded (pays_back (ws_end s) price (sr_cost (rc_rules k))) (rc_ledger k) l"
  proof
    fix l assume "l \<in> set links"
    then have "grounded P (rc_ledger k) l" using gr grounded_keys [OF kk] by blast
    then show "grounded (pays_back (ws_end s) price (sr_cost (rc_rules k))) (rc_ledger k) l"
      using P unfolding grounded_def by blast
  qed
  have surplus: "0 \<le> surplus_at (ws_start s) (ss_sales st)"
    by (rule surplus_at_nonneg) (use i in \<open>simp add: sale_ok_def\<close>)
  have hours: "HP_EPSILON < slot_hours s"
    using k amount(4) surplus by (auto simp: ctx_ok_def max_def split: if_splits)
  have io: "in_order (rc_slots k)" using k by (simp add: ctx_ok_def)
  have sW: "s \<in> set (rc_slots k)" "ws_export s = Some price" using c by (auto simp: candidate_ok_def)
  have starts: "\<forall>w \<in> set (rc_slots k). ws_start w = ws_start s \<longrightarrow> w = s" using in_order_same [OF io sW(1)] by blast
  have dist: "distinct (map sl_start (ss_sales st))"
    and oks: "\<forall>a \<in> set (ss_sales st). sale_ok (sr_cap (rc_rules k)) (sr_cost (rc_rules k)) (rc_slots k) (rc_ledger k) a"
    and was_linked: "\<forall>a \<in> set (ss_sales st). sl_links a \<noteq> [] \<longrightarrow> sl_start a \<in> done_starts"
    and all: "ss_left st + sold (ss_sales st) = rc_usable k"
    and owed_before: "\<And>t. owed t (ss_ledger st) + linked_all t (ss_sales st) \<le> owed t (rc_ledger k)"
    using i by blast+
  have fresh: "\<forall>a \<in> set (ss_sales st). sl_start a = ws_start s \<longrightarrow> sl_links a = []"
    using was_linked new by auto
  note b = book_sale_ok [OF dist oks fresh sW hours starts amount(1) pos amount(3) grL refl, where thr = thr]
  have links: "\<forall>a \<in> set ?sales. sl_links a \<noteq> [] \<longrightarrow> sl_start a \<in> insert (ws_start s) done_starts"
  proof (intro ballI impI)
    fix a assume "a \<in> set ?sales" "sl_links a \<noteq> []"
    then show "sl_start a \<in> insert (ws_start s) done_starts" using b(5) [of a] was_linked by auto
  qed
  have total: "ss_left st - amount + sold ?sales = rc_usable k" using b(3) all by simp
  have share: "owed t ledger + linked_all t ?sales \<le> owed t (rc_ledger k)" for t
    using owed_before [of t] owe [of t] b(4) [of t] by simp
  have left: "0 \<le> ss_left st - amount" using amount(2) by simp
  have keys': "map entry_key ledger = map entry_key (rc_ledger k)" using keys(1) kk by simp
  let ?st = "st\<lparr>ss_ledger := ledger, ss_left := ss_left st - amount, ss_sales := ?sales\<rparr>"
  have f: "ss_ledger ?st = ledger" "ss_left ?st = ss_left st - amount" "ss_sales ?st = ?sales" by simp_all
  have kept: "\<not> sr_tail_coverage (rc_rules k) \<and> (\<exists>a \<in> set ?sales. sl_links a \<noteq> [])
      \<longrightarrow> sr_tail_reserve (rc_rules k) \<le> ss_left st - amount"
    using reserve by (elim disjE) simp_all
  show ?thesis
    by (rule run_invI; (unfold f)?) (rule keys' keys(2) share total left b(2) b(1) links kept)+
qed

lemma linked_nonneg: "\<forall>l \<in> set links. grounded P L l \<Longrightarrow> 0 \<le> linked t links"
  unfolding linked_def by (induction links) (auto simp: grounded_def)

lemma run_inv_more:
  assumes "run_inv k D st" shows "run_inv k (insert x D) st"
  using assms unfolding run_inv_def by (elim conjE, intro conjI; (assumption | auto))

lemma run_inv_ledger:
  assumes inv: "run_inv k D st" and mv: "moves P (ss_ledger st) ledger links"
  shows "run_inv k D (st\<lparr>ss_ledger := ledger\<rparr>)"
proof -
  have m: "map entry_key ledger = map entry_key (ss_ledger st)" "in_credit ledger"
    "\<And>t. owed t (ss_ledger st) = owed t ledger + linked t links" "\<And>t. 0 \<le> linked t links"
    using mv by (auto simp: moves_def linked_nonneg)
  have "owed t ledger + linked_all t (ss_sales st) \<le> owed t (rc_ledger k)" for t
  proof -
    have "owed t (ss_ledger st) + linked_all t (ss_sales st) \<le> owed t (rc_ledger k)" using inv by (simp add: run_inv_def)
    then show ?thesis using m(3,4) [of t] by linarith
  qed
  then show ?thesis using inv m(1,2) by (intro run_invI) (simp_all add: run_inv_def)
qed

lemma HP_EPSILON_nonneg [simp]: "0 \<le> HP_EPSILON"
  by (simp add: HP_EPSILON_def)

lemma sell_candidate_cases:
  assumes cap: "capacity = max 0 (sr_cap r s - surplus_at (ws_start s) (ss_sales st))"
    and t: "assign_tail (ws_end s) price (sr_cost r) (min capacity (ss_left st)) (rev (ss_ledger st)) = (tail, links, thr)"
    and al: "allowed = min capacity (min (ss_left st - sr_tail_reserve r)
          (sum_list (map le_remaining (filter (linkable (ws_end s)) (ss_ledger st)))))"
    and l: "assign_later (ws_end s) allowed (ss_ledger st) = (ledger, links2, rest)"
  obtains (idle) "sell_candidate r (s, price, threshold) st = st"
    | (tail0) "sell_candidate r (s, price, threshold) st = st\<lparr>ss_ledger := rev tail\<rparr>"
    | (tail) "HP_EPSILON < capacity" "sr_tail_coverage r"
      "sell_candidate r (s, price, threshold) st = st\<lparr>ss_ledger := rev tail, ss_left := ss_left st - link_sum links,
          ss_sales := book_sale s price thr (link_sum links) links (ss_sales st)\<rparr>"
    | (later) "HP_EPSILON < capacity" "\<not> sr_tail_coverage r" "HP_EPSILON < allowed"
      "sell_candidate r (s, price, threshold) st = st\<lparr>ss_ledger := ledger, ss_left := ss_left st - (allowed - rest),
          ss_sales := book_sale s price (Some threshold) (allowed - rest) links2 (ss_sales st)\<rparr>"
proof (cases "ss_left st \<le> HP_EPSILON \<or> capacity \<le> HP_EPSILON")
  case True
  then show ?thesis by (intro idle) (auto simp: sell_candidate_def Let_def cap)
next
  case False
  show ?thesis
  proof (cases "sr_tail_coverage r")
    case True
    then have "sell_candidate r (s, price, threshold) st = (if link_sum links \<le> HP_EPSILON then st\<lparr>ss_ledger := rev tail\<rparr>
        else st\<lparr>ss_ledger := rev tail, ss_left := ss_left st - link_sum links,
          ss_sales := book_sale s price thr (link_sum links) links (ss_sales st)\<rparr>)"
      using False t unfolding cap by (simp add: sell_candidate_def Let_def)
    then show ?thesis using False True tail0 tail by (cases "link_sum links \<le> HP_EPSILON") simp_all
  next
    case tc: False
    then have "sell_candidate r (s, price, threshold) st = (if allowed \<le> HP_EPSILON then st
        else st\<lparr>ss_ledger := ledger, ss_left := ss_left st - (allowed - rest),
          ss_sales := book_sale s price (Some threshold) (allowed - rest) links2 (ss_sales st)\<rparr>)"
      using False cap l unfolding al by (simp add: sell_candidate_def Let_def)
    then show ?thesis using False tc idle later by (cases "allowed \<le> HP_EPSILON") simp_all
  qed
qed

lemma sell_candidate_inv:
  assumes inv: "run_inv k D st" and k: "ctx_ok k"
    and c: "candidate_ok (sr_tail_coverage (rc_rules k)) (sr_cost (rc_rules k)) (rc_slots k) (s, price, threshold)"
    and new: "ws_start s \<notin> D"
  shows "run_inv k (insert (ws_start s) D) (sell_candidate (rc_rules k) (s, price, threshold) st)"
proof -
  let ?r = "rc_rules k"
  define capacity where cap: "capacity = max 0 (sr_cap ?r s - surplus_at (ws_start s) (ss_sales st))"
  define allowed where al: "allowed = min capacity (min (ss_left st - sr_tail_reserve ?r)
          (sum_list (map le_remaining (filter (linkable (ws_end s)) (ss_ledger st)))))"
  have credit: "in_credit (ss_ledger st)" and left: "0 \<le> ss_left st" using inv by (simp_all add: run_inv_def)
  obtain tail links thr where t: "assign_tail (ws_end s) price (sr_cost ?r) (min capacity (ss_left st)) (rev (ss_ledger st)) = (tail, links, thr)"
    by (metis prod_cases3)
  obtain ledger links2 rest where l: "assign_later (ws_end s) allowed (ss_ledger st) = (ledger, links2, rest)" by (metis prod_cases3)
  have al': "allowed \<le> capacity" "allowed \<le> ss_left st - sr_tail_reserve ?r" and cap0: "0 \<le> capacity" unfolding al cap by simp_all
  show ?thesis
  proof (cases rule: sell_candidate_cases [OF cap t al l, where threshold = threshold, case_names idle tail0 tail later])
    case idle
    then show ?thesis using run_inv_more [OF inv] by simp
  next
    case tail0
    have "moves (pays_back (ws_end s) price (sr_cost ?r)) (ss_ledger st) (rev tail) links"
      using assign_tail_moves [OF _ t] credit by (auto intro: moves_rev)
    then show ?thesis using tail0 run_inv_ledger [OF run_inv_more [OF inv]] by simp
  next
    case tail
    have mv: "moves (pays_back (ws_end s) price (sr_cost ?r)) (ss_ledger st) (rev tail) links"
      and bound: "link_sum links \<le> min capacity (ss_left st)"
      using assign_tail_moves [OF _ t] credit left cap0 by (auto intro: moves_rev)
    have "0 < capacity" using tail(1) HP_EPSILON_nonneg by linarith
    then show ?thesis unfolding tail(3) using bound tail(2) cap
      by (intro run_inv_book [OF inv k c new mv]) simp_all
  next
    case later
    have pos: "0 \<le> allowed" using later(3) by (simp add: HP_EPSILON_def)
    have mv: "moves (comes_later (ws_end s)) (ss_ledger st) ledger links2" and rest: "rest = allowed - link_sum links2" "0 \<le> rest"
      using assign_later_moves [OF credit pos l] by blast+
    have pays: "pays_back (ws_end s) price (sr_cost ?r) key" if key: "key \<in> entry_key ` set (rc_ledger k)" "comes_later (ws_end s) key" for key
    proof -
      obtain d where d: "d \<in> set (rc_ledger k)" "key = entry_key d" using key by auto
      then obtain w where w: "w \<in> set (rc_slots k)" "le_start d = ws_start w" "le_import d = ws_import w"
        using k by (auto simp: ctx_ok_def)
      obtain q where q: "le_import d = Some q" "ws_end s \<le> le_start d" using key(2) d(2) by (auto simp: comes_later_def entry_key_def)
      have "q + sr_cost ?r \<le> threshold" "threshold < price"
        using c later(2) w q by (auto simp: candidate_ok_def)
      then show ?thesis using d(2) q by (simp add: pays_back_def entry_key_def)
    qed
    have sum: "allowed - rest = link_sum links2" using rest by simp
    have bounds: "link_sum links2 \<le> allowed" using rest by simp
    have "0 < capacity" using later(1) by (simp add: HP_EPSILON_def)
    moreover have "0 \<le> sr_tail_reserve ?r" using k by (simp add: ctx_ok_def)
    ultimately show ?thesis unfolding later(4) sum using bounds al' cap
      by (intro run_inv_book [OF inv k c new mv pays]) simp_all
  qed
qed

lemma sell_fold_inv:
  assumes "ctx_ok k" "run_inv k D st"
    "\<forall>c \<in> set cs. candidate_ok (sr_tail_coverage (rc_rules k)) (sr_cost (rc_rules k)) (rc_slots k) c"
    "distinct (map (ws_start \<circ> fst) cs)" "\<forall>c \<in> set cs. ws_start (fst c) \<notin> D"
  shows "\<exists>D'. run_inv k D' (fold (sell_candidate (rc_rules k)) cs st)"
  using assms(2-)
proof (induction cs arbitrary: D st)
  case (Cons c cs)
  obtain s price threshold where c: "c = (s, price, threshold)" by (cases c)
  have "run_inv k (insert (ws_start s) D) (sell_candidate (rc_rules k) c st)"
    unfolding c by (rule sell_candidate_inv [OF Cons.prems(1) assms(1)]) (use Cons.prems c in auto)
  moreover have "\<forall>d \<in> set cs. ws_start (fst d) \<notin> insert (ws_start s) D"
    using Cons.prems(3,4) c by (auto simp: image_iff)
  ultimately show ?case using Cons.IH Cons.prems(2,3) by simp
qed auto

section \<open>The figures of an accepted request\<close>

lemma trim_one_span: "trim_one now horizon s = Some w \<Longrightarrow> now \<le> ws_start w \<and> ws_start w < ws_end w \<and> ws_end w \<le> horizon"
  by (auto simp: trim_one_def Let_def split: option.splits if_splits)

lemma trim_slots_span: "w \<in> set (trim_slots slots now horizon) \<Longrightarrow> now \<le> ws_start w \<and> ws_start w < ws_end w \<and> ws_end w \<le> horizon"
  by (auto simp: trim_slots_def map_filter_def dest: trim_one_span)

lemma chain_in_order:
  "chain_reason e ss horizon = None \<Longrightarrow> \<forall>s \<in> set ss. ws_start s < ws_end s \<Longrightarrow>
     in_order ss \<and> (\<forall>s \<in> set ss. e \<le> ws_start s)"
proof (induction ss arbitrary: e)
  case (Cons s ss)
  then have s: "ws_start s = e" "chain_reason (ws_end s) ss horizon = None" by (auto split: if_splits)
  have IH: "in_order ss" "\<forall>w \<in> set ss. ws_end s \<le> ws_start w" using Cons.IH [OF s(2)] Cons.prems(2) by auto
  then have "\<forall>w \<in> set ss. e \<le> ws_start w" using Cons.prems(2) s(1) by force
  then show ?case using IH s(1) Cons.prems(2) by (simp add: in_order_def)
qed (simp add: in_order_def)

lemma chain_covers:
  "chain_reason e ss horizon = None \<Longrightarrow> e \<le> t \<Longrightarrow> t < horizon \<Longrightarrow> \<exists>s \<in> set ss. ws_start s \<le> t \<and> t < ws_end s"
proof (induction ss arbitrary: e)
  case (Cons s ss)
  then have "ws_start s = e" "chain_reason (ws_end s) ss horizon = None" by (auto split: if_splits)
  then show ?case using Cons.IH [of "ws_end s"] Cons.prems(2,3) by (cases "t < ws_end s") auto
qed (simp split: if_splits)

lemma hp_checkD:
  assumes "hp_check r = Inr g"
  shows "hp_now r = Some (fg_now g)" "hp_horizon r = Some (fg_horizon g)" "fg_now g < fg_horizon g"
    "0 \<le> fg_cost g" "0 \<le> fg_margin g" "0 < fg_efficiency g"
    "fg_working g = trim_slots (hp_slots r) (fg_now g) (fg_horizon g)" "fg_working g \<noteq> []"
    "coverage_gap_reason (fg_working g) (fg_now g) (fg_horizon g) = None"
    "fg_batteries g = filter hp_valid (hp_batteries r)" "hp_enabled r \<or> hp_trigger_1 r"
    "fg_ceiling g = None \<longleftrightarrow> hp_max_export r = None" "\<And>w. fg_ceiling g = Some w \<Longrightarrow> 0 \<le> w"
  using assms
  by (auto simp: hp_check_def hp_ceiling_def Let_def split: if_splits option.splits dest: sym)

lemma working_in_order:
  assumes "hp_check r = Inr g" shows "in_order (fg_working g)"
proof -
  note h = hp_checkD [OF assms]
  obtain s ss where w: "fg_working g = s # ss" using h(8) by (cases "fg_working g") auto
  have pos: "\<forall>x \<in> set (s # ss). ws_start x < ws_end x" using trim_slots_span h(7) w by metis
  have "chain_reason (ws_end s) ss (fg_horizon g) = None" using h(9) w by (simp add: coverage_gap_reason_def split: if_splits)
  from chain_in_order [OF this] pos w show ?thesis by (simp add: in_order_def)
qed

lemma working_covers:
  assumes "hp_check r = Inr g" "fg_now g \<le> t" "t < fg_horizon g"
  shows "\<exists>!s. s \<in> set (fg_working g) \<and> ws_start s \<le> t \<and> t < ws_end s"
proof -
  note h = hp_checkD [OF assms(1)]
  obtain s ss where w: "fg_working g = s # ss" using h(8) by (cases "fg_working g") auto
  have c: "chain_reason (ws_end s) ss (fg_horizon g) = None" "ws_start s \<le> fg_now g"
    using h(9) w by (auto simp: coverage_gap_reason_def split: if_splits)
  have ex: "\<exists>s \<in> set (fg_working g). ws_start s \<le> t \<and> t < ws_end s"
    using chain_covers [OF c(1), of t] assms(2,3) c(2) w by (cases "t < ws_end s") auto
  have one: "x = y" if "x \<in> set W" "y \<in> set W" "ws_start x \<le> t" "t < ws_end x" "ws_start y \<le> t" "t < ws_end y" "in_order W" for x y W
    using that by (induction W) (fastforce simp: in_order_def)+
  show ?thesis using ex one working_in_order [OF assms(1)] by blast
qed

lemma deficit_nonneg: "0 \<le> deficit s" by (simp add: deficit_def)

lemma slot_capacity_hours: "0 < slot_capacity_kwh s c d \<Longrightarrow> HP_EPSILON < slot_hours s"
  by (auto simp: slot_capacity_kwh_def Let_def split: if_splits)

lemma cover_ledger_keys: "map entry_key (cover_ledger left ds) = map entry_key ds"
  by (induction ds arbitrary: left) (auto simp: Let_def entry_key_def)

lemma cover_ledger_credit: "in_credit ds \<Longrightarrow> in_credit (cover_ledger left ds)"
  by (induction ds arbitrary: left) (auto simp: Let_def)

lemma cover_ledger_owed: "in_credit ds \<Longrightarrow> owed t (cover_ledger left ds) \<le> owed t ds"
proof (induction ds arbitrary: left)
  case (Cons d ds)
  have "owed t (cover_ledger (left - min (le_remaining d) (max 0 left)) ds) \<le> owed t ds" using Cons by simp
  then show ?case by (auto simp: Let_def owed_Cons intro: order_trans)
qed simp

lemma ledger_credit: "in_credit (ledger_of W)"
  by (auto simp: in_credit_def ledger_of_def list_all_iff deficit_nonneg)

lemma ledger_owed:
  "in_order W \<Longrightarrow> w \<in> set W \<Longrightarrow> owed (ws_start w) (ledger_of W) \<le> deficit w"
proof (induction W)
  case (Cons s W)
  have io: "in_order W" using Cons.prems(1) by (simp add: in_order_def)
  have apart: "ws_start s < ws_start x" if "x \<in> set W" for x using Cons.prems(1) that by (fastforce simp: in_order_def)
  show ?case
  proof (cases "w = s")
    case True
    have "owed (ws_start s) (ledger_of W) = 0"
    proof -
      have "filter (\<lambda>d. le_start d = ws_start s) (ledger_of W) = []"
        using apart by (fastforce simp: ledger_of_def filter_empty_conv)
      then show ?thesis by (simp add: owed_def)
    qed
    then show ?thesis using True deficit_nonneg [of s] by (simp add: ledger_of_def owed_Cons)
  next
    case False
    then have "w \<in> set W" "ws_start s \<noteq> ws_start w" using Cons.prems(2) apart by force+
    then show ?thesis using Cons.IH [OF io] by (simp add: ledger_of_def owed_Cons)
  qed
qed simp

section \<open>The sales of surplus\<close>

lemma sell_surplus_spec:
  "0 \<le> left \<Longrightarrow> distinct (map ws_start ss) \<Longrightarrow>
     sold (sell_surplus threshold cap ss left) \<le> left
     \<and> distinct (map sl_start (sell_surplus threshold cap ss left))
     \<and> (\<forall>a \<in> set (sell_surplus threshold cap ss left). \<exists>s \<in> set ss. \<exists>amount. a = surplus_sale threshold amount s
          \<and> HP_EPSILON < amount \<and> amount \<le> cap s)"
proof (induction ss arbitrary: left)
  case (Cons s ss)
  let ?amount = "min (cap s) left"
  have rec0: "sell_surplus threshold cap ss left = [] \<or> True" by simp
  consider "left \<le> HP_EPSILON" | "\<not> left \<le> HP_EPSILON" "?amount \<le> HP_EPSILON" | (sell) "\<not> left \<le> HP_EPSILON" "\<not> ?amount \<le> HP_EPSILON"
    by blast
  then show ?case
  proof cases
    case sell
    let ?rest = "sell_surplus threshold cap ss (left - ?amount)"
    have left0: "0 \<le> left - ?amount" by simp
    have dist: "distinct (map ws_start ss)" using Cons.prems(2) by simp
    note IH = Cons.IH [OF left0 dist]
    have e: "sell_surplus threshold cap (s # ss) left = surplus_sale threshold ?amount s # ?rest"
      using sell by (simp add: Let_def)
    have IH3: "\<forall>a \<in> set ?rest. \<exists>x \<in> set ss. \<exists>amount. a = surplus_sale threshold amount x
        \<and> HP_EPSILON < amount \<and> amount \<le> cap x" using IH by (elim conjE)
    have "sl_start a \<noteq> ws_start s" if "a \<in> set ?rest" for a
    proof -
      from bspec [OF IH3 that] obtain x where "x \<in> set ss" "sl_start a = ws_start x" by (auto simp: surplus_sale_def)
      then show ?thesis using Cons.prems(2) by (metis distinct.simps(2) image_eqI list.set_map list.simps(9))
    qed
    then have "ws_start s \<notin> set (map sl_start ?rest)" by (metis imageE list.set_map)
    moreover have "sl_energy (surplus_sale threshold ?amount s) = ?amount" "sl_start (surplus_sale threshold ?amount s) = ws_start s"
      by (simp_all add: surplus_sale_def)
    moreover have "\<exists>x \<in> set (s # ss). \<exists>amount. surplus_sale threshold ?amount s = surplus_sale threshold amount x
        \<and> HP_EPSILON < amount \<and> amount \<le> cap x"
      using sell(2) by (intro bexI [of _ s] exI [of _ ?amount] conjI refl) (simp_all only: not_le min.cobounded1 list.set_intros)
    moreover have "sold ?rest \<le> left - ?amount" "distinct (map sl_start ?rest)" by (rule IH [THEN conjunct1], rule IH [THEN conjunct2, THEN conjunct1])
    moreover have "\<forall>a \<in> set ?rest. \<exists>x \<in> set (s # ss). \<exists>amount. a = surplus_sale threshold amount x
        \<and> HP_EPSILON < amount \<and> amount \<le> cap x" using IH3 unfolding set_simps by blast
    ultimately show ?thesis unfolding e by simp
  qed (use Cons in \<open>auto simp: Let_def\<close>)
qed simp

definition run_of :: "hp_request \<Rightarrow> hp_figures \<Rightarrow> sale list \<Rightarrow> run_ctx" where
  "run_of r g surplus = \<lparr>rc_rules = sale_rules_of r g (ss_left (sale_start r g surplus)), rc_slots = fg_working g,
     rc_ledger = ledger_of (fg_working g), rc_usable = fg_usable g\<rparr>"

lemma fg_usable_nonneg: "hp_check r = Inr g \<Longrightarrow> 0 \<le> fg_usable g"
  unfolding fg_usable_def hp_usable_kwh_def using hp_checkD(6) [of r g]
  by (intro sum_list_nonneg) (auto intro!: mult_nonneg_nonneg)

lemma fg_demand_nonneg: "0 \<le> fg_demand g"
  unfolding fg_demand_def by (intro sum_list_nonneg) (auto simp: deficit_nonneg)

lemma fg_budget_bounds:
  assumes "hp_check r = Inr g" shows "0 \<le> fg_budget g" "fg_budget g \<le> fg_usable g"
  using hp_checkD(5) [OF assms] fg_usable_nonneg [OF assms] fg_demand_nonneg [of g] by (auto simp: fg_budget_def)

lemma trigger_1_cases:
  assumes "trigger_1_sales r g = (surplus, refill, t1)"
  obtains "surplus = []" "refill = None"
    | price where "hp_trigger_1 r" "HP_EPSILON < fg_budget g" "refill = Some price"
      "solar_refill_price (hp_fill_slots r) (fg_horizon g) (max 0 (fg_usable g - fg_demand g - fg_budget g))
                   (hp_full_level (fg_efficiency g) (fg_batteries g)) (fg_efficiency g) = Some price"
      "surplus = sell_surplus (price / fg_efficiency g + fg_cost g) (fg_cap g)
         (sort_key dear_first (filter (\<lambda>s. above (ws_export s) (price / fg_efficiency g + fg_cost g)) (fg_working g))) (fg_budget g)"
proof (cases "hp_trigger_1 r \<and> HP_EPSILON < fg_budget g")
  case True
  then show ?thesis
  proof (cases "solar_refill_price (hp_fill_slots r) (fg_horizon g) (max 0 (fg_usable g - fg_demand g - fg_budget g))
        (hp_full_level (fg_efficiency g) (fg_batteries g)) (fg_efficiency g)")
    case None
    then show ?thesis using True assms by (intro that(1)) (simp_all add: trigger_1_sales_def)
  next
    case (Some price)
    then show ?thesis using True assms by (intro that(2) [of price]) (simp_all add: trigger_1_sales_def Let_def)
  qed
next
  case False
  then show ?thesis using assms by (intro that(1)) (auto simp: trigger_1_sales_def not_less split: if_splits)
qed

lemma distinct_map_filter_sort:
  "distinct (map f xs) \<Longrightarrow> distinct (map f (sort_key k (filter P xs)))"
proof -
  assume "distinct (map f xs)"
  then have "inj_on f (set (sort_key k (filter P xs)))" "distinct (sort_key k (filter P xs))"
    by (auto simp: distinct_map intro: inj_on_subset)
  then show ?thesis by (simp add: distinct_map)
qed

lemma trigger_1_spec:
  assumes g: "hp_check r = Inr g" and t: "trigger_1_sales r g = (surplus, refill, t1)"
  shows "sold surplus \<le> fg_budget g" "distinct (map sl_start surplus)"
    "\<forall>a \<in> set surplus. hp_trigger_1 r \<and> (\<exists>s \<in> set (fg_working g). \<exists>amount price. refill = Some price
        \<and> a = surplus_sale (price / fg_efficiency g + fg_cost g) amount s
        \<and> above (ws_export s) (price / fg_efficiency g + fg_cost g) \<and> HP_EPSILON < amount \<and> amount \<le> fg_cap g s)"
proof -
  note b = fg_budget_bounds [OF g]
  have "sold surplus \<le> fg_budget g \<and> distinct (map sl_start surplus) \<and>
    (\<forall>a \<in> set surplus. hp_trigger_1 r \<and> (\<exists>s \<in> set (fg_working g). \<exists>amount price. refill = Some price
        \<and> a = surplus_sale (price / fg_efficiency g + fg_cost g) amount s
        \<and> above (ws_export s) (price / fg_efficiency g + fg_cost g) \<and> HP_EPSILON < amount \<and> amount \<le> fg_cap g s))"
    using t
  proof (cases rule: trigger_1_cases)
    case (2 price)
    let ?thr = "price / fg_efficiency g + fg_cost g"
    have "distinct (map ws_start (sort_key dear_first (filter (\<lambda>s. above (ws_export s) ?thr) (fg_working g))))"
      by (intro distinct_map_filter_sort in_order_distinct working_in_order [OF g])
    from sell_surplus_spec [OF b(1) this, of ?thr "fg_cap g"] 2 show ?thesis by (simp add: Bex_def) blast
  qed (use b in simp)
  then show "sold surplus \<le> fg_budget g" "distinct (map sl_start surplus)"
    "\<forall>a \<in> set surplus. hp_trigger_1 r \<and> (\<exists>s \<in> set (fg_working g). \<exists>amount price. refill = Some price
        \<and> a = surplus_sale (price / fg_efficiency g + fg_cost g) amount s
        \<and> above (ws_export s) (price / fg_efficiency g + fg_cost g) \<and> HP_EPSILON < amount \<and> amount \<le> fg_cap g s)"
    by blast+
qed

lemma sale_ok_surplus:
  assumes "s \<in> set W" "above (ws_export s) thr" "0 \<le> amount" "amount \<le> cap s"
  shows "sale_ok cap cost W L (surplus_sale thr amount s)"
  using assms by (auto simp: sale_ok_def surplus_sale_def above_def link_sum_def split: option.splits intro!: bexI [of _ s])

lemma run_of_ok:
  assumes g: "hp_check r = Inr g" shows "ctx_ok (run_of r g surplus)"
proof -
  have "0 \<le> tail_reserve_kwh r g"
    unfolding tail_reserve_kwh_def Let_def using fg_demand_nonneg [of g] HP_EPSILON_nonneg by (auto intro: order_trans [OF HP_EPSILON_nonneg less_imp_le])
  moreover have "0 < fg_cap g s \<Longrightarrow> HP_EPSILON < slot_hours s" for s unfolding fg_cap_def by (rule slot_capacity_hours)
  ultimately show ?thesis using working_in_order [OF g]
    by (auto simp: ctx_ok_def run_of_def sale_rules_of_def ledger_of_def)
qed

lemma sum_list_zero: "(\<And>x. x \<in> set xs \<Longrightarrow> f x = 0) \<Longrightarrow> sum_list (map f xs) = (0 :: rat)"
  by (induction xs) auto

lemma run_start:
  assumes g: "hp_check r = Inr g" and t: "trigger_1_sales r g = (surplus, refill, t1)"
  shows "run_inv (run_of r g surplus) {} (sale_start r g surplus)"
proof -
  note t1 = trigger_1_spec [OF g t]
  let ?st = "sale_start r g surplus" and ?L = "ledger_of (fg_working g)"
  have surplus: "sl_surplus a = sl_energy a" "sl_links a = []" if "a \<in> set surplus" for a
    using t1(3) that by (auto simp: surplus_sale_def)
  have sum: "sum_list (map sl_surplus surplus) = sold surplus"
    unfolding sold_def using surplus by (metis (mono_tags, lifting) map_eq_conv)
  have none: "linked_all u surplus = 0" for u
    unfolding linked_all_def by (rule sum_list_zero) (use surplus(2) in auto)
  have f: "ss_ledger ?st = (if runs_out r g (fg_usable g - sold surplus) then cover_ledger (fg_usable g - sold surplus) ?L else ?L)"
    "ss_left ?st = fg_usable g - sold surplus" "ss_sales ?st = surplus"
    by (simp_all add: sale_start_def Let_def sum)
  have k: "rc_ledger (run_of r g surplus) = ?L" "rc_usable (run_of r g surplus) = fg_usable g"
    "rc_slots (run_of r g surplus) = fg_working g" "sr_cap (rc_rules (run_of r g surplus)) = fg_cap g"
    by (simp_all add: run_of_def sale_rules_of_def)
  show ?thesis
  proof (rule run_invI; unfold f k)
    show "0 \<le> fg_usable g - sold surplus" using t1(1) fg_budget_bounds [OF g] by linarith
    show "\<forall>a \<in> set surplus. sale_ok (fg_cap g) (sr_cost (rc_rules (run_of r g surplus))) (fg_working g) ?L a"
    proof
      fix a assume "a \<in> set surplus"
      from bspec [OF t1(3) this] obtain s amount price where s: "s \<in> set (fg_working g)" "a = surplus_sale (price / fg_efficiency g + fg_cost g) amount s"
          "above (ws_export s) (price / fg_efficiency g + fg_cost g)" "HP_EPSILON < amount" "amount \<le> fg_cap g s"
        by (elim conjE bexE exE) (rule that)
      have "0 \<le> amount" using s(4) HP_EPSILON_nonneg by linarith
      then show "sale_ok (fg_cap g) (sr_cost (rc_rules (run_of r g surplus))) (fg_working g) ?L a"
        unfolding s(2) by (intro sale_ok_surplus s)
    qed
  qed (use t1 surplus none ledger_credit in \<open>auto simp: cover_ledger_keys cover_ledger_credit cover_ledger_owed\<close>)
qed

lemma run_end:
  assumes g: "hp_check r = Inr g" and t: "trigger_1_sales r g = (surplus, refill, t1)"
  shows "\<exists>D. run_inv (run_of r g surplus) D (trigger_2_sales r g surplus)"
proof -
  let ?st = "sale_start r g surplus" and ?k = "run_of r g surplus"
  let ?rules = "sale_rules_of r g (ss_left ?st)"
  define cands where "cands = (if hp_enabled r then sale_candidates (sr_tail_coverage ?rules) (fg_cost g) (priced_part (fg_working g)) else [])"
  let ?sorted = "sort_key (\<lambda>(s, price, threshold). (- price, ws_start s)) cands"
  have io: "in_order (fg_working g)" by (rule working_in_order [OF g])
  let ?tl = "rev (takeWhile (\<lambda>s. ws_import s = None) (rev (fg_working g)))"
  have split: "fg_working g = [] @ priced_part (fg_working g) @ ?tl"
    unfolding priced_part_def by (metis append_Nil rev_append rev_rev_ident takeWhile_dropWhile_id)
  have io': "in_order ([] @ priced_part (fg_working g) @ ?tl)" unfolding split [symmetric] by (rule io)
  have tl: "\<forall>w \<in> set ?tl. ws_import w = None" by (auto dest: set_takeWhileD)
  have ok: "\<forall>c \<in> set ?sorted. candidate_ok (sr_tail_coverage (rc_rules ?k)) (sr_cost (rc_rules ?k)) (rc_slots ?k) c"
  proof
    fix c assume "c \<in> set ?sorted"
    then have "c \<in> set (sale_candidates (sr_tail_coverage ?rules) (fg_cost g) (priced_part (fg_working g)))"
      by (auto simp: cands_def split: if_splits)
    from sale_candidates_ok [OF io' tl this, unfolded split [symmetric]]
    show "candidate_ok (sr_tail_coverage (rc_rules ?k)) (sr_cost (rc_rules ?k)) (rc_slots ?k) c"
      by (simp add: run_of_def sale_rules_of_def)
  qed
  have "in_order (priced_part (fg_working g))" using io' by (simp add: in_order_def sorted_wrt_append)
  then have "distinct (map (ws_start \<circ> fst) cands)" by (auto simp: cands_def intro: sale_candidates_distinct)
  then have dist: "distinct (map (ws_start \<circ> fst) ?sorted)"
    using distinct_map_filter_sort [where P = "\<lambda>_. True"] by fastforce
  have "trigger_2_sales r g surplus = fold (sell_candidate (rc_rules ?k)) ?sorted ?st"
    by (simp add: trigger_2_sales_def Let_def cands_def run_of_def sale_rules_of_def)
  then show ?thesis using sell_fold_inv [OF run_of_ok [OF g] run_start [OF g t] ok dist] by simp
qed

section \<open>What the plan promises\<close>

lemma plan_sales:
  assumes "hp_check r = Inr g" "trigger_1_sales r g = (surplus, refill, t1)"
  shows "hp_sales (plan_high_price_discharge r) = sort_key sl_start (ss_sales (trigger_2_sales r g surplus))"
    "hp_total (plan_high_price_discharge r) = sold (ss_sales (trigger_2_sales r g surplus))"
    "hp_refill_price (plan_high_price_discharge r) = refill"
    "hp_usable (plan_high_price_discharge r) = fg_usable g"
  using assms by (simp_all add: plan_high_price_discharge_def sold_def split_beta Let_def)

lemma plan_refused: "hp_check r = Inl p \<Longrightarrow> plan_high_price_discharge r = p \<and> hp_sales p = []"
  by (auto simp: plan_high_price_discharge_def hp_check_def empty_hp_plan_def Let_def split: if_splits option.splits)

lemma linked_all_sort [simp]: "linked_all t (sort_key k sales) = linked_all t sales"
  by (simp add: linked_all_def sum_list_sort_key)

text \<open>The facts of the finished run that every property reads.\<close>

lemma plan_facts:
  assumes g: "hp_check r = Inr g" and P: "P = plan_high_price_discharge r"
  shows "\<forall>a \<in> set (hp_sales P). sale_ok (fg_cap g) (fg_cost g) (fg_working g) (ledger_of (fg_working g)) a"
    "\<And>t. linked_all t (hp_sales P) \<le> owed t (ledger_of (fg_working g))"
    "distinct (map sl_start (hp_sales P))" "sorted (map sl_start (hp_sales P))"
    "hp_total P = sold (hp_sales P)" "hp_total P \<le> fg_usable g" "hp_usable P = fg_usable g"
proof -
  obtain surplus refill t1 where t: "trigger_1_sales r g = (surplus, refill, t1)" by (metis prod_cases3)
  let ?st = "trigger_2_sales r g surplus"
  obtain D where i: "run_inv (run_of r g surplus) D ?st" using run_end [OF g t] by blast
  have inv: "in_credit (ss_ledger ?st)"
    "\<And>t. owed t (ss_ledger ?st) + linked_all t (ss_sales ?st) \<le> owed t (ledger_of (fg_working g))"
    "ss_left ?st + sold (ss_sales ?st) = fg_usable g" "0 \<le> ss_left ?st"
    "\<forall>a \<in> set (ss_sales ?st). sale_ok (fg_cap g) (fg_cost g) (fg_working g) (ledger_of (fg_working g)) a"
    "distinct (map sl_start (ss_sales ?st))"
    using i unfolding run_inv_def by (simp_all add: run_of_def sale_rules_of_def)
  note p = plan_sales [OF g t, folded P]
  have owed: "0 \<le> owed t (ss_ledger ?st)" for t
    unfolding owed_def using inv(1) by (intro sum_list_nonneg) (auto simp: in_credit_def list_all_iff)
  show "\<forall>a \<in> set (hp_sales P). sale_ok (fg_cap g) (fg_cost g) (fg_working g) (ledger_of (fg_working g)) a"
    unfolding p using inv(5) by simp
  show "linked_all t (hp_sales P) \<le> owed t (ledger_of (fg_working g))" for t
    unfolding p using inv(2) [of t] owed [of t] by simp
  show "distinct (map sl_start (hp_sales P))"
    unfolding p using distinct_map_filter_sort [OF inv(6), of sl_start "\<lambda>_. True"] by simp
  show "sorted (map sl_start (hp_sales P))" unfolding p by simp
  show "hp_total P = sold (hp_sales P)" unfolding p by (simp add: sold_def sum_list_sort_key)
  show "hp_total P \<le> fg_usable g" unfolding p using inv(3,4) by linarith
  show "hp_usable P = fg_usable g" by (rule p)
qed

text \<open>
  C17. Protected demand is never sold without a later buy-back: every kilowatt-hour a sale links
  belongs to a slot that starts no earlier than the sale ends, whose import price plus the added
  cost is below the export price, and all the sales together link to a slot no more than the
  household lacks there.
\<close>

theorem sold_energy_is_bought_back:
  assumes g: "hp_check r = Inr g" and P: "P = plan_high_price_discharge r"
  shows "(\<forall>a \<in> set (hp_sales P). \<forall>l \<in> set (sl_links a). 0 < link_kwh l
        \<and> (\<exists>w \<in> set (fg_working g). \<exists>q. ws_import w = Some q \<and> link_start l = ws_start w \<and> link_end l = ws_end w
              \<and> sl_end a \<le> ws_start w \<and> q + fg_cost g < sl_price a))
    \<and> (\<forall>w \<in> set (fg_working g). linked_all (ws_start w) (hp_sales P) \<le> deficit w)"
proof (intro conjI ballI)
  note f = plan_facts [OF g P]
  fix a l assume a: "a \<in> set (hp_sales P)" and l: "l \<in> set (sl_links a)"
  have gr: "grounded (pays_back (sl_end a) (sl_price a) (fg_cost g)) (ledger_of (fg_working g)) l"
    using f(1) a l by (simp add: sale_ok_def)
  then show "0 < link_kwh l" by (simp add: grounded_def)
  show "\<exists>w \<in> set (fg_working g). \<exists>q. ws_import w = Some q \<and> link_start l = ws_start w \<and> link_end l = ws_end w
              \<and> sl_end a \<le> ws_start w \<and> q + fg_cost g < sl_price a"
    using gr by (auto simp: grounded_def pays_back_def entry_key_def ledger_of_def split: option.splits)
next
  fix w assume "w \<in> set (fg_working g)"
  then show "linked_all (ws_start w) (hp_sales P) \<le> deficit w"
    using plan_facts(2) [OF g P, of "ws_start w"] ledger_owed [OF working_in_order [OF g]] by force
qed

lemma capacity_power:
  assumes "0 \<le> energy" "energy \<le> max 0 (slot_capacity_kwh s c d)" "HP_EPSILON < slot_hours s"
  shows "energy / slot_hours s * 1000 \<le> max 0 (d - deficit s / slot_hours s * 1000)"
    "c = Some w \<Longrightarrow> energy / slot_hours s * 1000 \<le> max 0 (w - max 0 (ws_solar s - ws_consumption s) / slot_hours s * 1000)"
proof -
  have h: "0 < slot_hours s" using assms(3) HP_EPSILON_nonneg by linarith
  let ?x = "case c of None \<Rightarrow> max 0 (d - deficit s / slot_hours s * 1000)
     | Some w \<Rightarrow> min (max 0 (w - max 0 (ws_solar s - ws_consumption s) / slot_hours s * 1000)) (max 0 (d - deficit s / slot_hours s * 1000))"
  have x: "slot_capacity_kwh s c d = ?x * slot_hours s / 1000"
    using assms(3) by (simp add: slot_capacity_kwh_def deficit_def Let_def split: option.split)
  have "0 \<le> ?x" by (simp split: option.split)
  then have "0 \<le> ?x * slot_hours s / 1000" using h by (intro divide_nonneg_pos mult_nonneg_nonneg) simp_all
  then have "energy \<le> ?x * slot_hours s / 1000" using assms(2) x by linarith
  then have p: "energy / slot_hours s * 1000 \<le> ?x" using h by (simp add: field_simps)
  then show "energy / slot_hours s * 1000 \<le> max 0 (d - deficit s / slot_hours s * 1000)" by (auto split: option.splits)
  show "c = Some w \<Longrightarrow> energy / slot_hours s * 1000 \<le> max 0 (w - max 0 (ws_solar s - ws_consumption s) / slot_hours s * 1000)"
    using p by simp
qed

lemma sale_power_bounds:
  assumes ok: "sale_ok (fg_cap g) cost W L a"
  shows "\<exists>s \<in> set W. sl_start a = ws_start s \<and> sl_end a = ws_end s \<and> ws_export s = Some (sl_price a)
     \<and> sl_energy a = sl_surplus a + link_sum (sl_links a) \<and> 0 \<le> sl_energy a
     \<and> sl_power a = sl_energy a / slot_hours s * 1000
     \<and> sl_power a \<le> max 0 (hp_discharge_w (fg_batteries g) - deficit s / slot_hours s * 1000)
     \<and> (\<forall>w. fg_ceiling g = Some w \<longrightarrow> sl_power a \<le> max 0 (w - max 0 (ws_solar s - ws_consumption s) / slot_hours s * 1000))"
proof -
  obtain s where s: "s \<in> set W" "sl_start a = ws_start s" "sl_end a = ws_end s" "ws_export s = Some (sl_price a)"
      "sl_energy a \<le> max 0 (fg_cap g s)" "sl_power a = sl_energy a / slot_hours s * 1000"
    and e: "sl_energy a = sl_surplus a + link_sum (sl_links a)" "0 \<le> sl_surplus a"
    and l: "\<forall>l \<in> set (sl_links a). grounded (pays_back (sl_end a) (sl_price a) cost) L l"
    using ok by (auto simp: sale_ok_def)
  have "0 \<le> link_sum (sl_links a)" by (rule link_sum_nonneg) (use l in \<open>simp add: grounded_def\<close>)
  then have pos: "0 \<le> sl_energy a" using e by simp
  have "sl_power a \<le> max 0 (hp_discharge_w (fg_batteries g) - deficit s / slot_hours s * 1000)
     \<and> (\<forall>w. fg_ceiling g = Some w \<longrightarrow> sl_power a \<le> max 0 (w - max 0 (ws_solar s - ws_consumption s) / slot_hours s * 1000))"
  proof (cases "HP_EPSILON < slot_hours s")
    case True
    then show ?thesis using capacity_power [OF pos s(5) [unfolded fg_cap_def] True] s(6) by simp
  next
    case False
    then have "\<not> 0 < fg_cap g s" using slot_capacity_hours unfolding fg_cap_def by blast
    then have "sl_energy a = 0" using s(5) pos by simp
    then show ?thesis using s(6) by simp
  qed
  then show ?thesis using s e(1) pos by blast
qed

text \<open>
  C15. A plan stays within what the batteries and the meter allow: its sales are in order with one
  per slot, each at the slot's own price and times, its energy is the surplus and the links
  together, its power fits beside the household's own deficit and, with an export limit, beside
  what the sun already exports; and all the sales together fit in the usable energy.
\<close>

theorem sales_within_bounds:
  assumes g: "hp_check r = Inr g" and P: "P = plan_high_price_discharge r"
  shows "sorted (map sl_start (hp_sales P)) \<and> distinct (map sl_start (hp_sales P))
    \<and> hp_total P = sum_list (map sl_energy (hp_sales P)) \<and> hp_total P \<le> hp_usable P
    \<and> (\<forall>a \<in> set (hp_sales P). \<exists>s \<in> set (fg_working g). sl_start a = ws_start s \<and> sl_end a = ws_end s
         \<and> ws_export s = Some (sl_price a) \<and> sl_energy a = sl_surplus a + link_sum (sl_links a) \<and> 0 \<le> sl_energy a
         \<and> sl_power a = sl_energy a / slot_hours s * 1000
         \<and> sl_power a \<le> max 0 (hp_discharge_w (fg_batteries g) - deficit s / slot_hours s * 1000)
         \<and> (\<forall>w. fg_ceiling g = Some w \<longrightarrow>
              sl_power a \<le> max 0 (w - max 0 (ws_solar s - ws_consumption s) / slot_hours s * 1000)))"
proof (intro conjI)
  note f = plan_facts [OF g P]
  show "sorted (map sl_start (hp_sales P))" "distinct (map sl_start (hp_sales P))"
    "hp_total P = sum_list (map sl_energy (hp_sales P))" "hp_total P \<le> hp_usable P"
    using f by (simp_all add: sold_def)
qed (intro ballI sale_power_bounds [OF bspec [OF plan_facts(1) [OF g P]]])

lemma nothing_left: "ss_left st \<le> HP_EPSILON \<Longrightarrow> fold (sell_candidate rules) xs st = st"
proof (induction xs)
  case (Cons x xs)
  have "sell_candidate rules x st = st" using Cons.prems by (cases x) (auto simp: sell_candidate_def Let_def)
  then show ?case using Cons by simp
qed simp

lemma sales_need_a_battery:
  assumes "hp_sales (plan_high_price_discharge r) \<noteq> []" "hp_check r = Inr g"
  shows "\<exists>s \<in> set (hp_batteries r). hp_valid s \<and> num_val (floor_soc_pct s) < num_val (soc_pct s)"
proof (rule ccontr)
  assume n: "\<not> ?thesis"
  note h = hp_checkD [OF assms(2)]
  have "max 0 ((num_val (soc_pct s) - num_val (floor_soc_pct s)) / 100 * num_val (capacity_kwh s)) * fg_efficiency g = 0"
    if s: "s \<in> set (fg_batteries g)" for s
  proof -
    have "num_val (soc_pct s) - num_val (floor_soc_pct s) \<le> 0" using n s unfolding h(10) by force
    moreover have "0 \<le> num_val (capacity_kwh s)" using s unfolding h(10) by (auto simp: hp_valid_def num_val_def split: option.splits)
    ultimately have "(num_val (soc_pct s) - num_val (floor_soc_pct s)) / 100 * num_val (capacity_kwh s) \<le> 0"
      by (intro mult_nonpos_nonneg) simp_all
    then show ?thesis by simp
  qed
  then have "hp_usable_kwh (fg_efficiency g) (fg_batteries g) = sum_list (map (\<lambda>s. 0) (fg_batteries g))"
    unfolding hp_usable_kwh_def by (intro arg_cong [where f = sum_list] map_cong) auto
  then have u: "fg_usable g = 0" by (simp add: fg_usable_def)
  have "0 \<le> fg_demand g" unfolding fg_demand_def by (intro sum_list_nonneg) (auto simp: deficit_def)
  then have "fg_budget g = 0" using u h(5) by (simp add: fg_budget_def)
  then have t1: "fst (trigger_1_sales r g) = []" by (simp add: trigger_1_sales_def HP_EPSILON_def)
  have "ss_sales (trigger_2_sales r g []) = []"
    using u by (simp add: trigger_2_sales_def Let_def nothing_left sale_start_def HP_EPSILON_def)
  then show False using assms t1 by (simp add: plan_high_price_discharge_def Let_def case_prod_unfold)
qed

text \<open>
  C21. A plan that sells rests on checked inputs: one of the two switches, a known present before
  a known end, a cost and a margin that are finite and not negative, a finite positive efficiency,
  an export limit that is absent or finite and not negative, a battery that may discharge with
  finite SOC, floor, power and capacity and a SOC above its floor, and trimmed slots exactly one of
  which covers each moment until the end; any other status than a plan sells nothing. (The maximum
  SOC is not among them: see \<open>nan_maximum_sells\<close>.)
\<close>

theorem sells_only_over_full_coverage:
  "(hp_status (plan_high_price_discharge r) \<noteq> HpPlanned \<longrightarrow> hp_sales (plan_high_price_discharge r) = [])
   \<and> (hp_sales (plan_high_price_discharge r) \<noteq> [] \<longrightarrow>
       (\<exists>g. hp_check r = Inr g \<and> (hp_enabled r \<or> hp_trigger_1 r)
          \<and> hp_now r = Some (fg_now g) \<and> hp_horizon r = Some (fg_horizon g) \<and> fg_now g < fg_horizon g
          \<and> finite_val (hp_cost r) = Some (fg_cost g) \<and> 0 \<le> fg_cost g
          \<and> finite_val (hp_margin r) = Some (fg_margin g) \<and> 0 \<le> fg_margin g
          \<and> finite_val (hp_efficiency r) = Some (fg_efficiency g) \<and> 0 < fg_efficiency g
          \<and> (case hp_max_export r of None \<Rightarrow> fg_ceiling g = None
              | Some x \<Rightarrow> \<exists>w. finite_val x = Some w \<and> 0 \<le> w \<and> fg_ceiling g = Some w)
          \<and> (\<exists>s \<in> set (hp_batteries r). eligible s \<and> can_discharge s
               \<and> (\<exists>soc low cap w. finite_val (soc_pct s) = Some soc \<and> finite_val (floor_soc_pct s) = Some low \<and> low < soc
                    \<and> finite_val (capacity_kwh s) = Some cap \<and> 0 < cap \<and> finite_val (max_discharge_power_w s) = Some w \<and> 0 \<le> w))
          \<and> (\<forall>t. fg_now g \<le> t \<and> t < fg_horizon g \<longrightarrow>
               (\<exists>!s. s \<in> set (trim_slots (hp_slots r) (fg_now g) (fg_horizon g)) \<and> ws_start s \<le> t \<and> t < ws_end s))))"
proof (cases "hp_check r")
  case (Inl p)
  then show ?thesis using plan_refused [OF Inl] by simp
next
  case (Inr g)
  have planned: "hp_status (plan_high_price_discharge r) \<noteq> HpPlanned \<Longrightarrow> hp_sales (plan_high_price_discharge r) = []"
    using Inr by (auto simp: plan_high_price_discharge_def hp_outcome_def Let_def split: prod.splits if_splits)
  have numbers: "finite_val (hp_cost r) = Some (fg_cost g)" "finite_val (hp_margin r) = Some (fg_margin g)"
      "finite_val (hp_efficiency r) = Some (fg_efficiency g)"
      "hp_ceiling (hp_max_export r) = Some (fg_ceiling g)"
    using Inr by (auto simp: hp_check_def Let_def split: if_splits option.splits)
  have limit: "case hp_max_export r of None \<Rightarrow> fg_ceiling g = None
      | Some x \<Rightarrow> \<exists>w. finite_val x = Some w \<and> 0 \<le> w \<and> fg_ceiling g = Some w"
    using numbers(4) by (auto simp: hp_ceiling_def split: option.splits if_splits)
  have battery: "\<exists>s \<in> set (hp_batteries r). eligible s \<and> can_discharge s
      \<and> (\<exists>soc low cap w. finite_val (soc_pct s) = Some soc \<and> finite_val (floor_soc_pct s) = Some low \<and> low < soc
           \<and> finite_val (capacity_kwh s) = Some cap \<and> 0 < cap \<and> finite_val (max_discharge_power_w s) = Some w \<and> 0 \<le> w)"
    if "hp_sales (plan_high_price_discharge r) \<noteq> []"
    using sales_need_a_battery [OF that Inr] by (fastforce simp: hp_valid_def num_val_def split: option.splits)
  show ?thesis
    using Inr hp_checkD [OF Inr] working_covers [OF Inr] planned numbers limit battery by (intro conjI impI exI [of _ g]) auto
qed

text \<open>The refill a sale of surplus rests on, as a plain reading of the slots.\<close>

definition refill_net :: "horizon_slot \<Rightarrow> rat" where
  "refill_net s = (case (hz_solar s, hz_consumption s) of (Some p, Some c) \<Rightarrow> p - c | _ \<Rightarrow> 0)"

definition refill_gain :: "rat \<Rightarrow> horizon_slot \<Rightarrow> rat" where
  "refill_gain efficiency s = (if 0 < refill_net s then refill_net s * efficiency else refill_net s)"

definition level_after :: "rat \<Rightarrow> rat \<Rightarrow> horizon_slot list \<Rightarrow> rat" where
  "level_after efficiency level ss = level + sum_list (map (refill_gain efficiency) ss)"

fun chained :: "time \<Rightarrow> horizon_slot list \<Rightarrow> bool" where
  "chained t [] = True"
| "chained t (s # ss) = (case (hz_start s, hz_end s) of (Some a, Some b) \<Rightarrow> a = t \<and> a < b \<and> chained b ss | _ \<Rightarrow> False)"

definition refills :: "rat \<Rightarrow> time \<Rightarrow> rat \<Rightarrow> rat \<Rightarrow> rat \<Rightarrow> horizon_slot list \<Rightarrow> bool" where
  "refills efficiency t level full price ss = (chained t ss \<and> full - HP_EPSILON \<le> level_after efficiency level ss
     \<and> (\<forall>n \<le> length ss. 0 < n \<longrightarrow> - HP_EPSILON \<le> level_after efficiency level (take n ss))
     \<and> (\<forall>s \<in> set ss. hz_solar s \<noteq> None \<and> hz_consumption s \<noteq> None
          \<and> (0 < refill_net s \<longrightarrow> (\<exists>p. hz_export s = Some p \<and> p \<le> price))))"

lemma level_after_Cons: "level_after e level (s # ss) = level_after e (level + refill_gain e s) ss"
  by (simp add: level_after_def)

lemma refills_Cons:
  assumes "refills e b (level + refill_gain e s) full price ss"
    and "hz_start s = Some t" "hz_end s = Some b" "t < b" "hz_solar s \<noteq> None" "hz_consumption s \<noteq> None"
    and "- HP_EPSILON \<le> level + refill_gain e s"
    and "0 < refill_net s \<longrightarrow> (\<exists>p. hz_export s = Some p \<and> p \<le> price)"
  shows "refills e t level full price (s # ss)"
proof -
  have "- HP_EPSILON \<le> level_after e level (take n (s # ss))" if n: "n \<le> length (s # ss)" "0 < n" for n
  proof -
    obtain m where m: "n = Suc m" using n(2) by (cases n) auto
    show ?thesis
    proof (cases "m = 0")
      case True
      then show ?thesis using m assms(7) by (simp add: level_after_def)
    next
      case False
      then show ?thesis using m n(1) assms(1) by (simp add: refills_def level_after_Cons)
    qed
  qed
  then show ?thesis using assms unfolding refills_def by (simp add: level_after_Cons)
qed

lemma refill_walk_refills:
  "refill_walk ss t level m full e = Some price \<Longrightarrow> m \<le> price \<and> (\<exists>n. refills e t level full price (take n ss))"
proof (induction ss arbitrary: t level m)
  case (Cons s ss)
  obtain a b p c where f: "hz_start s = Some a" "hz_end s = Some b" "hz_solar s = Some p" "hz_consumption s = Some c"
    using Cons.prems by (auto split: option.splits)
  let ?net = "p - c"
  let ?level = "if 0 < ?net then level + ?net * e else level + ?net"
  let ?m = "if 0 < ?net then max m (case hz_export s of None \<Rightarrow> 0 | Some q \<Rightarrow> q) else m"
  have eq: "a = t" "t < b" "0 < ?net \<Longrightarrow> hz_export s \<noteq> None" "- HP_EPSILON \<le> ?level"
    and go: "(if full - HP_EPSILON \<le> ?level then Some ?m else refill_walk ss b ?level ?m full e) = Some price"
    using Cons.prems f by (auto simp: Let_def not_le split: if_splits)
  have net: "refill_net s = ?net" "level + refill_gain e s = ?level" using f by (auto simp: refill_net_def refill_gain_def)
  have rest: "?m \<le> price \<and> (\<exists>n. refills e b ?level full price (take n ss))"
  proof (cases "full - HP_EPSILON \<le> ?level")
    case True
    then have "refills e b ?level full price (take 0 ss)" by (simp add: refills_def level_after_def)
    then show ?thesis using go True by (intro conjI exI [of _ 0]) simp_all
  next
    case False
    then show ?thesis using go by (intro Cons.IH) simp
  qed
  then obtain n where n: "refills e b (level + refill_gain e s) full price (take n ss)" and mp: "?m \<le> price"
    unfolding net(2) by blast
  have exp: "0 < refill_net s \<longrightarrow> (\<exists>p. hz_export s = Some p \<and> p \<le> price)"
    using eq(3) mp net(1) by auto
  have "refills e t level full price (take (Suc n) (s # ss))"
    unfolding take_Suc_Cons using refills_Cons [OF n] f eq net(2) exp by simp
  moreover have "m \<le> price" using mp by (auto split: if_splits)
  ultimately show ?case by blast
qed simp

lemma refill_price_honest:
  assumes "solar_refill_price fill t start full_level e = Some price"
  shows "\<exists>full n. full_level = Some full \<and> refills e t start full price (take n fill)"
proof -
  obtain full where f: "full_level = Some full" using assms by (auto simp: solar_refill_price_def split: option.splits)
  show ?thesis
  proof (cases "full - HP_EPSILON \<le> start")
    case True
    then have "refills e t start full price (take 0 fill)" by (simp add: refills_def level_after_def)
    then show ?thesis using f by blast
  next
    case False
    then have "refill_walk fill t start 0 full e = Some price" using assms f by (simp add: solar_refill_price_def)
    then show ?thesis using refill_walk_refills f by blast
  qed
qed

text \<open>The linked sales leave the parts of surplus as they are.\<close>

definition surplus_key :: "sale \<Rightarrow> time \<times> rat \<times> rat" where
  "surplus_key a = (sl_start a, sl_price a, sl_surplus a)"

definition same_surplus :: "sale list \<Rightarrow> sale list \<Rightarrow> bool" where
  "same_surplus sales sales' = (sum_list (map sl_surplus sales') = sum_list (map sl_surplus sales)
     \<and> (\<forall>a \<in> set sales'. 0 < sl_surplus a \<longrightarrow> surplus_key a \<in> surplus_key ` set sales))"

lemma same_surplus_refl: "same_surplus sales sales"
  by (simp add: same_surplus_def)

lemma same_surplus_trans:
  assumes "same_surplus as bs" "same_surplus bs cs" shows "same_surplus as cs"
proof -
  have "surplus_key c \<in> surplus_key ` set as" if "c \<in> set cs" "0 < sl_surplus c" for c
  proof -
    obtain b where "b \<in> set bs" "surplus_key c = surplus_key b" using assms(2) \<open>c \<in> set cs\<close> \<open>0 < sl_surplus c\<close> by (auto simp: same_surplus_def)
    then show ?thesis using assms(1) that(2) by (auto simp: same_surplus_def surplus_key_def)
  qed
  then show ?thesis using assms by (simp add: same_surplus_def)
qed

lemma book_sale_surplus: "same_surplus sales (book_sale s price thr amount links sales)"
proof (cases "list_ex (\<lambda>a. sl_start a = ws_start s) sales")
  case True
  let ?f = "\<lambda>a. if sl_start a = ws_start s then with_links s thr amount links a else a"
  have e: "book_sale s price thr amount links sales = map ?f sales"
    using True by (simp add: book_sale_def with_links_def Let_def)
  have k: "surplus_key (?f a) = surplus_key a" "sl_surplus (?f a) = sl_surplus a" for a
    by (simp_all add: surplus_key_def with_links_def)
  have "map sl_surplus (map ?f sales) = map sl_surplus sales" using k(2) by (simp only: list.map_comp o_def)
  then show ?thesis unfolding e same_surplus_def using k(1) by (simp only: list.set_map) (metis (no_types, lifting) image_iff)
next
  case False
  then show ?thesis by (auto simp: same_surplus_def book_sale_def Let_def)
qed

lemma sell_candidate_surplus: "same_surplus (ss_sales st) (ss_sales (sell_candidate r c st))"
proof (cases c)
  case (fields s price threshold)
  show ?thesis
    unfolding fields sell_candidate_def Let_def
    by (auto simp: same_surplus_refl book_sale_surplus split: prod.splits)
qed

lemma sell_fold_surplus: "same_surplus (ss_sales st) (ss_sales (fold (sell_candidate r) cs st))"
  by (induction cs arbitrary: st) (auto simp: same_surplus_refl intro: same_surplus_trans sell_candidate_surplus)

lemma plan_surplus:
  assumes g: "hp_check r = Inr g" and P: "P = plan_high_price_discharge r" and t: "trigger_1_sales r g = (surplus, refill, t1)"
  shows "same_surplus surplus (hp_sales P)"
proof -
  have "same_surplus surplus (ss_sales (trigger_2_sales r g surplus))"
    using sell_fold_surplus [of "sale_start r g surplus"] by (simp add: trigger_2_sales_def Let_def sale_start_def)
  then show ?thesis unfolding P plan_sales(1) [OF g t] by (simp add: same_surplus_def sum_list_sort_key)
qed

text \<open>
  Surplus is sold only where tomorrow's sun refills the batteries for less: all the surplus of
  a plan together is no more than the usable energy beyond the protected demand and the margin, and
  each sale of it pays more than the refill price over the efficiency plus the cost, where slots
  that follow the horizon without a gap bring the batteries back to full without running below
  empty, and no slot of sun among them exports for more than the refill price.
\<close>

theorem surplus_rests_on_a_refill:
  assumes g: "hp_check r = Inr g" and P: "P = plan_high_price_discharge r"
  shows "sum_list (map sl_surplus (hp_sales P)) \<le> max 0 (fg_usable g - fg_demand g - fg_margin g)
    \<and> (\<forall>a \<in> set (hp_sales P). 0 < sl_surplus a \<longrightarrow> hp_trigger_1 r
         \<and> (\<exists>price full n. hp_refill_price P = Some price \<and> price / fg_efficiency g + fg_cost g < sl_price a
              \<and> hp_full_level (fg_efficiency g) (fg_batteries g) = Some full
              \<and> refills (fg_efficiency g) (fg_horizon g) (max 0 (fg_usable g - fg_demand g - fg_budget g)) full price
                   (take n (hp_fill_slots r))))"
proof -
  obtain surplus refill t1 where t: "trigger_1_sales r g = (surplus, refill, t1)" by (metis prod_cases3)
  note s = plan_surplus [OF g P t] and t1 = trigger_1_spec [OF g t]
  have energy: "sl_surplus a = sl_energy a" if "a \<in> set surplus" for a using bspec [OF t1(3) that] by (auto simp: surplus_sale_def)
  have "sum_list (map sl_surplus (hp_sales P)) = sum_list (map sl_surplus surplus)" using s by (simp add: same_surplus_def)
  also have "\<dots> = sold surplus" unfolding sold_def using energy by (metis (mono_tags, lifting) map_eq_conv)
  finally have total: "sum_list (map sl_surplus (hp_sales P)) \<le> fg_budget g" using t1(1) by simp
  have each: "hp_trigger_1 r \<and> (\<exists>price. hp_refill_price P = Some price \<and> price / fg_efficiency g + fg_cost g < sl_price a)"
    if a: "a \<in> set (hp_sales P)" "0 < sl_surplus a" for a
  proof -
    obtain b where b: "b \<in> set surplus" "surplus_key a = surplus_key b" using s a by (auto simp: same_surplus_def)
    from bspec [OF t1(3) b(1)] show ?thesis using b(2) plan_sales(3) [OF g t]
      by (auto simp: surplus_key_def surplus_sale_def above_def P split: option.splits)
  qed
  have proven: "\<exists>full n. hp_full_level (fg_efficiency g) (fg_batteries g) = Some full
      \<and> refills (fg_efficiency g) (fg_horizon g) (max 0 (fg_usable g - fg_demand g - fg_budget g)) full price (take n (hp_fill_slots r))"
    if "hp_refill_price P = Some price" for price
    using t
  proof (cases rule: trigger_1_cases)
    case (2 q)
    then show ?thesis using refill_price_honest that plan_sales(3) [OF g t] P by simp
  qed (use that plan_sales(3) [OF g t] P in simp)
  show ?thesis using total each proven unfolding fg_budget_def by blast
qed

section \<open>A worked example\<close>

text \<open>
  A dear hour before a cheap one: the battery sells its surplus and, with the power that is
  left, 0.3 kWh of the demand of the second hour; the sun after the horizon fills it again.
\<close>

definition dear_hour :: horizon_slot where
  "dear_hour = \<lparr>hz_start = Some 0, hz_end = Some 3600, hz_export = Some (1/2), hz_import = Some (1/10),
     hz_consumption = Some (1/5), hz_solar = Some 0\<rparr>"

definition cheap_hour :: horizon_slot where
  "cheap_hour = \<lparr>hz_start = Some 3600, hz_end = Some 7200, hz_export = Some (1/10), hz_import = Some (1/5),
     hz_consumption = Some 1, hz_solar = Some 0\<rparr>"

definition sunny_hour :: horizon_slot where
  "sunny_hour = \<lparr>hz_start = Some 7200, hz_end = Some 10800, hz_export = Some (1/20), hz_import = None,
     hz_consumption = Some 0, hz_solar = Some 12\<rparr>"

definition dear_request :: hp_request where
  "dear_request = \<lparr>hp_slots = [cheap_hour, dear_hour],
     hp_batteries = [\<lparr>snap_name = ''a'', soc_pct = VInt 50, capacity_kwh = VInt 10, max_soc_pct = VInt 100,
        floor_soc_pct = VInt 10, max_discharge_power_w = VInt 3000, eligible = True, can_discharge = True\<rparr>],
     hp_now = Some 0, hp_horizon = Some 7200, hp_enabled = True, hp_trigger_1 = True, hp_cost = VInt 0,
     hp_max_export = Some (VInt 5000), hp_efficiency = VInt 1, hp_margin = VFloat (Fin (3/10)),
     hp_fill_slots = [sunny_hour], hp_chronological = True\<rparr>"

definition dear_figures :: hp_figures where
  "dear_figures = \<lparr>fg_now = 0, fg_horizon = 7200, fg_cost = 0, fg_margin = 3/10, fg_ceiling = Some 5000, fg_efficiency = 1,
     fg_working = [\<lparr>ws_start = 0, ws_end = 3600, ws_export = Some (1/2), ws_import = Some (1/10), ws_consumption = 1/5, ws_solar = 0\<rparr>,
        \<lparr>ws_start = 3600, ws_end = 7200, ws_export = Some (1/10), ws_import = Some (1/5), ws_consumption = 1, ws_solar = 0\<rparr>],
     fg_batteries = hp_batteries dear_request\<rparr>"

definition dear_sale :: sale where
  "dear_sale = \<lparr>sl_start = 0, sl_end = 3600, sl_price = 1/2, sl_threshold = Some (1/5), sl_energy = 14/5, sl_power = 2800,
     sl_links = [\<lparr>link_start = 3600, link_end = 7200, link_kwh = 3/10\<rparr>], sl_surplus = 5/2, sl_surplus_threshold = Some (1/20)\<rparr>"

lemma dear_check: "hp_check dear_request = Inr dear_figures"
  by code_simp

lemma dear_plan: "hp_sales (plan_high_price_discharge dear_request) = [dear_sale]"
  by code_simp

lemmas dear_values = dear_figures_def dear_sale_def dear_request_def

text \<open>
  A battery whose maximum SOC is not a number has no room to fill: the refill counts as proven and
  the surplus is sold over it.
\<close>

definition nan_request :: hp_request where
  "nan_request = dear_request\<lparr>hp_batteries := map (\<lambda>s. s\<lparr>max_soc_pct := VFloat NaN\<rparr>) (hp_batteries dear_request), hp_fill_slots := []\<rparr>"

lemma nan_maximum_sells:
  "hp_full_level 1 (hp_batteries nan_request) = Some 0
   \<and> map sl_surplus (hp_sales (plan_high_price_discharge nan_request)) = [5/2]
   \<and> map sl_surplus (hp_sales (plan_high_price_discharge (dear_request\<lparr>hp_fill_slots := []\<rparr>))) = [0]"
  by code_simp

theorem sold_energy_is_bought_back_witness:
  "linked_all 3600 [dear_sale] \<le> 1 \<and> map link_kwh (sl_links dear_sale) = [3/10]
   \<and> (\<exists>w q. w \<in> set (fg_working dear_figures) \<and> ws_import w = Some q
        \<and> link_start (hd (sl_links dear_sale)) = ws_start w \<and> sl_end dear_sale \<le> ws_start w \<and> q < sl_price dear_sale)"
proof -
  have cost: "fg_cost dear_figures = 0" by (simp add: dear_figures_def)
  have w: "\<lparr>ws_start = 3600, ws_end = 7200, ws_export = Some (1/10), ws_import = Some (1/5), ws_consumption = 1, ws_solar = 0\<rparr>
      \<in> set (fg_working dear_figures)" by (simp add: dear_figures_def)
  have l: "hd (sl_links dear_sale) \<in> set (sl_links dear_sale)" by (simp add: dear_sale_def)
  note p = sold_energy_is_bought_back [OF dear_check refl, unfolded dear_plan cost]
  have "linked_all 3600 [dear_sale] \<le> 1" using bspec [OF conjunct2 [OF p] w] by (simp add: deficit_def)
  moreover have "\<exists>w q. w \<in> set (fg_working dear_figures) \<and> ws_import w = Some q
      \<and> link_start (hd (sl_links dear_sale)) = ws_start w \<and> sl_end dear_sale \<le> ws_start w \<and> q < sl_price dear_sale"
    using conjunct1 [OF p] l by fastforce
  ultimately show ?thesis by (simp add: dear_sale_def)
qed

theorem sales_within_bounds_witness:
  "hp_total (plan_high_price_discharge dear_request) \<le> 4 \<and> sl_power dear_sale \<le> 2800 \<and> sl_power dear_sale \<le> 5000"
proof -
  have usable: "hp_usable (plan_high_price_discharge dear_request) = 4" by code_simp
  note p = sales_within_bounds [OF dear_check refl, unfolded dear_plan usable]
  obtain s where s: "s \<in> set (fg_working dear_figures)" "sl_start dear_sale = ws_start s"
      "sl_power dear_sale \<le> max 0 (hp_discharge_w (fg_batteries dear_figures) - deficit s / slot_hours s * 1000)"
      "\<forall>w. fg_ceiling dear_figures = Some w \<longrightarrow> sl_power dear_sale \<le> max 0 (w - max 0 (ws_solar s - ws_consumption s) / slot_hours s * 1000)"
    using p by auto
  have "s = \<lparr>ws_start = 0, ws_end = 3600, ws_export = Some (1/2), ws_import = Some (1/10), ws_consumption = 1/5, ws_solar = 0\<rparr>"
    using s(1,2) by (auto simp: dear_figures_def dear_sale_def)
  then show ?thesis using s(3,4) p
    by (simp add: dear_values hp_discharge_w_def num_val_def deficit_def slot_hours_def hours_between_def finite_val_def)
qed

theorem sells_only_over_full_coverage_witness:
  "\<exists>g. hp_check dear_request = Inr g \<and> fg_now g < fg_horizon g \<and> 0 < fg_efficiency g \<and> fg_ceiling g = Some 5000"
  using sells_only_over_full_coverage [of dear_request] dear_plan by (auto simp: dear_request_def finite_val_def)

theorem surplus_rests_on_a_refill_witness:
  "sl_surplus dear_sale \<le> 5/2
   \<and> (\<exists>price full n. price < sl_price dear_sale \<and> hp_full_level 1 (hp_batteries dear_request) = Some full
        \<and> refills 1 7200 (3/10) full price (take n [sunny_hour]))"
proof -
  have f: "fg_efficiency dear_figures = 1" "fg_cost dear_figures = 0" "fg_horizon dear_figures = 7200"
    "fg_batteries dear_figures = hp_batteries dear_request" "hp_fill_slots dear_request = [sunny_hour]"
    by (simp_all add: dear_values)
  have v: "fg_usable dear_figures = 4" "fg_demand dear_figures = 6/5" "fg_budget dear_figures = 5/2" "fg_margin dear_figures = 3/10"
    by code_simp+
  note p = surplus_rests_on_a_refill [OF dear_check refl, unfolded dear_plan f v]
  have "0 < sl_surplus dear_sale" by (simp add: dear_sale_def)
  then show ?thesis using p by fastforce
qed

end
