(* ===== verification/Plan_Cache.thy ===== *)
theory Plan_Cache
  imports Curtailment
begin

text \<open>
  What the managers of the price-aware plans share (\<open>control/discharge_reserve.py\<close>,
  \<open>control/surplus_price_hold.py\<close>): the gate of the feature and the cached plan with its
  day and the monotonic time of its last rebuild. Such a manager is a step over events that
  forgets the plan, adjusts it, or stores one it has just built; the locale \<open>plan_manager\<close>
  states what follows for every run: a cached plan comes from a rebuild of the day it carries.
\<close>

section \<open>The gate\<close>

record plan_scope =
  feature_on :: bool
  predictive_on :: bool
  predictive_paused :: bool
  dynamic_pricing :: bool

definition scope_enabled :: "plan_scope \<Rightarrow> bool" where
  "scope_enabled s = (feature_on s \<and> predictive_on s \<and> \<not> predictive_paused s \<and> dynamic_pricing s)"

text \<open>\<open>energy_horizon_end\<close>: the next day's sunrise, within its first twelve hours.\<close>

definition energy_horizon_end :: "(int \<Rightarrow> rat option) \<Rightarrow> time \<Rightarrow> time" where
  "energy_horizon_end sunrise now =
     (let day = day_of now + 1
      in of_int day * 86400 + (case sunrise day of None \<Rightarrow> 0 | Some h \<Rightarrow> max 0 (min 12 h) * 3600))"

text \<open>The modes of the anti-curtailment runtime that both managers give way to.\<close>

definition curtailment_acts :: "string option \<Rightarrow> bool" where
  "curtailment_acts status = (status = Some ''protected_window'' \<or> status = Some ''predischarging'')"

section \<open>The cache\<close>

definition REBUILD_INTERVAL_S :: rat where "REBUILD_INTERVAL_S = 300"

record 'p plan_cache =
  cached :: "'p option"
  cached_day :: "int option"
  rebuilt_at :: "rat option"

definition no_plan :: "'p plan_cache" where
  "no_plan = \<lparr>cached = None, cached_day = None, rebuilt_at = None\<rparr>"

definition mark_stale :: "'p plan_cache \<Rightarrow> 'p plan_cache" where
  "mark_stale c = c\<lparr>rebuilt_at := None\<rparr>"

definition store_plan :: "'p \<Rightarrow> int \<Rightarrow> rat \<Rightarrow> 'p plan_cache" where
  "store_plan p day tick = \<lparr>cached = Some p, cached_day = Some day, rebuilt_at = Some tick\<rparr>"

text \<open>A plan of another day; a plan without a day is not one.\<close>

definition of_another_day :: "'p plan_cache \<Rightarrow> int \<Rightarrow> bool" where
  "of_another_day c day = (case cached_day c of None \<Rightarrow> False | Some d \<Rightarrow> d \<noteq> day)"

definition rebuild_due :: "'p plan_cache \<Rightarrow> int \<Rightarrow> rat \<Rightarrow> bool" where
  "rebuild_due c day tick =
     (if cached c = None then True
      else (case rebuilt_at c of
          None \<Rightarrow> True
        | Some t \<Rightarrow> of_another_day c day \<or> REBUILD_INTERVAL_S \<le> tick - t))"

lemma store_plan_fresh: "\<not> rebuild_due (store_plan p day tick) day tick"
  by (simp add: rebuild_due_def store_plan_def of_another_day_def REBUILD_INTERVAL_S_def)

lemma no_plan_fields [simp]: "cached no_plan = None" "cached_day no_plan = None" "rebuilt_at no_plan = None"
  by (simp_all add: no_plan_def)

lemma store_plan_fields [simp]:
  "cached (store_plan p day tick) = Some p" "cached_day (store_plan p day tick) = Some day"
  "rebuilt_at (store_plan p day tick) = Some tick"
  by (simp_all add: store_plan_def)

lemma mark_stale_fields [simp]:
  "cached (mark_stale c) = cached c" "cached_day (mark_stale c) = cached_day c" "rebuilt_at (mark_stale c) = None"
  by (simp_all add: mark_stale_def)

section \<open>The managers\<close>

text \<open>
  \<open>built p d e\<close>: the event makes the plan on that day. \<open>adjusted p q\<close>: the plan with live
  settings and figures put in.
\<close>

locale plan_manager =
  fixes cache :: "'s \<Rightarrow> 'p plan_cache"
    and step :: "'s \<Rightarrow> 'e \<Rightarrow> 's"
    and built :: "'p \<Rightarrow> int \<Rightarrow> 'e \<Rightarrow> bool"
    and adjusted :: "'p \<Rightarrow> 'p \<Rightarrow> bool"
  assumes moves: "cached (cache (step s e)) = None
      \<or> (\<exists>p q. cached (cache s) = Some p \<and> cached (cache (step s e)) = Some q \<and> adjusted p q
           \<and> cached_day (cache (step s e)) = cached_day (cache s))
      \<or> (\<exists>p day. cached (cache (step s e)) = Some p \<and> cached_day (cache (step s e)) = Some day \<and> built p day e)"
    and adjust_built: "built p day e \<Longrightarrow> adjusted p q \<Longrightarrow> built q day e"
begin

lemma plan_from_rebuild:
  assumes "cached (cache s) = None" "cached (cache (run step s es)) = Some p"
  shows "\<exists>day. cached_day (cache (run step s es)) = Some day \<and> (\<exists>e \<in> set es. built p day e)"
proof -
  have "\<forall>p. cached (cache (run step s es)) = Some p \<longrightarrow>
      (\<exists>day. cached_day (cache (run step s es)) = Some day \<and> (\<exists>e \<in> set (seen @ es). built p day e))"
    if "\<forall>p. cached (cache s) = Some p \<longrightarrow> (\<exists>day. cached_day (cache s) = Some day \<and> (\<exists>e \<in> set seen. built p day e))"
    for seen s
    using that
  proof (induction es arbitrary: s seen)
    case (Cons e es)
    have "\<forall>p. cached (cache (step s e)) = Some p \<longrightarrow>
        (\<exists>day. cached_day (cache (step s e)) = Some day \<and> (\<exists>x \<in> set (seen @ [e]). built p day x))"
    proof (intro allI impI)
      fix p assume p: "cached (cache (step s e)) = Some p"
      consider (adjust) q where "cached (cache s) = Some q" "adjusted q p" "cached_day (cache (step s e)) = cached_day (cache s)"
        | (build) day where "cached_day (cache (step s e)) = Some day" "built p day e"
        using moves [of s e] p by auto
      then show "\<exists>day. cached_day (cache (step s e)) = Some day \<and> (\<exists>x \<in> set (seen @ [e]). built p day x)"
      proof cases
        case adjust
        then obtain day x where x: "cached_day (cache s) = Some day" "x \<in> set seen" "built q day x" using Cons.prems by blast
        have "built p day x" by (rule adjust_built [OF x(3) adjust(2)])
        then show ?thesis using adjust(3) x(1,2) by auto
      qed auto
    qed
    from Cons.IH [OF this] show ?case by simp
  qed simp
  from this [where seen = "[]" and s = s] assms show ?thesis by simp
qed

text \<open>A plan that is not of another day was built by an event of today.\<close>

lemma plan_of_today:
  assumes "cached (cache s) = None" "cached (cache (run step s es)) = Some p"
    and "\<not> of_another_day (cache (run step s es)) today"
  shows "\<exists>e \<in> set es. built p today e"
  using plan_from_rebuild [OF assms(1,2)] assms(3) by (auto simp: of_another_day_def)

end

end
