(* ===== verification/Reserve_Control.thy ===== *)
theory Reserve_Control
  imports Plan_Cache Reserve Charge_Limits
begin

text \<open>
  The runtime owner of the discharge reserve (\<open>control/discharge_reserve.py\<close>) and the blockers
  it feeds (\<open>_refresh_price_reserve_blocks\<close> of \<open>__init__.py\<close>): the gate, the guards, the
  cached plan and its rebuild, the figure read in every cycle, and the batteries held by it.
  What the pricing engine answers is a record of functions; prices are finite numbers. The
  status keeps the plan itself where the code publishes its figures rounded.
\<close>

section \<open>State and inputs\<close>

text \<open>\<open>ReservePlan\<close>: the audit is the outcome of the last evaluation.\<close>

record reserve_plan =
  rp_slots :: "reserve_slot list"
  rp_reserving :: bool
  rp_reason :: reserve_reason
  rp_min_saving :: rat
  rp_usable :: rat
  rp_capacity :: rat
  rp_space :: rat
  rp_horizon :: time
  rp_reference :: "rat option"
  rp_outcome :: reserve_outcome

datatype reserve_guard = NotEnabled | NoReservePlan | ManualControl | CurtailmentActive
  | CapacityProtection | NewDay | FleetUnknown

datatype status_reason = Guarded reserve_guard | Outcome reserve_reason | ClearedBy string

datatype reserve_mode = ReserveDisabled | ReserveReleased | ReserveReserving

record reserve_status =
  st_mode :: reserve_mode
  st_reason :: status_reason
  st_pct :: rat
  st_plan :: "reserve_plan option"

record reserve_mgr =
  rm_cache :: "reserve_plan plan_cache"
  rm_status :: reserve_status

definition new_reserve_mgr :: reserve_mgr where
  "new_reserve_mgr = \<lparr>rm_cache = no_plan,
     rm_status = \<lparr>st_mode = ReserveDisabled, st_reason = Guarded NotEnabled, st_pct = 0, st_plan = None\<rparr>\<rparr>"

record pricing_reads =
  pr_price :: pyval
  pr_slots :: "time \<Rightarrow> tariff_slot list"
  pr_sunrise :: "int \<Rightarrow> rat option"
  pr_profile :: "time \<Rightarrow> ((int, pyval list) dict \<times> pyval list) option"
  pr_solar :: "(rat \<times> fraction_fn) option"
  pr_remaining :: bool

record reserve_inputs =
  ri_scope :: plan_scope
  ri_manual_mode :: bool
  ri_any_slot_owned :: bool
  ri_curtailment :: "string option"
  ri_protection :: bool
  ri_fleet :: "bat_limits list"
  ri_min_saving :: rat
  ri_charge_power :: rat
  ri_now :: time
  ri_tick :: rat
  ri_pricing :: "pricing_reads option"
  ri_hold :: "(time list \<times> time list) option"

definition SURPLUS_CREDIT_FACTOR :: rat where "SURPLUS_CREDIT_FACTOR = 3/4"

section \<open>The fleet behind the reserve\<close>

definition tele_float :: "data option \<Rightarrow> string \<Rightarrow> py_error + pyfloat" where
  "tele_float od key = py_float (dict_get VNone (case od of None \<Rightarrow> [] | Some d \<Rightarrow> d) key)"

definition fleet_snapshot :: "bat_limits \<Rightarrow> snapshot option" where
  "fleet_snapshot v =
     (if \<not> in_play v then None
      else (case (tele_float (tele v) ''battery_soc'', tele_float (tele v) ''battery_total_energy'') of
          (Inr soc, Inr cap) \<Rightarrow> Some \<lparr>snap_name = label v, soc_pct = VFloat soc, capacity_kwh = VFloat cap,
             max_soc_pct = num (configured_max_soc v), floor_soc_pct = num (configured_min_soc v),
             max_discharge_power_w = num 0, eligible = True, can_discharge = True\<rparr>
        | _ \<Rightarrow> None))"

definition fleet_snapshots :: "bat_limits list \<Rightarrow> snapshot list option" where
  "fleet_snapshots vs = (let snapshots = List.map_filter fleet_snapshot vs
     in if snapshots = [] then None else Some snapshots)"

definition manual_control_active :: "reserve_inputs \<Rightarrow> bool" where
  "manual_control_active i = (ri_manual_mode i \<or> ri_any_slot_owned i \<or> list_ex manual_mode (ri_fleet i))"

definition release_guard :: "reserve_inputs \<Rightarrow> reserve_guard option" where
  "release_guard i =
     (if manual_control_active i then Some ManualControl
      else if curtailment_acts (ri_curtailment i) then Some CurtailmentActive
      else if ri_protection i then Some CapacityProtection
      else None)"

section \<open>Demand and creditable sun\<close>

definition as_price :: "tariff_slot \<Rightarrow> price_slot" where
  "as_price s = \<lparr>slot_start = t_start s, slot_end = t_end s, slot_price = Fin (t_price s)\<rparr>"

definition known :: "rat option \<Rightarrow> rat" where
  "known x = (case x of None \<Rightarrow> 0 | Some q \<Rightarrow> q)"

text \<open>The sun of a slot that can land in the battery, after losses and the forecast's haircut.\<close>

definition creditable_kwh :: "rat \<Rightarrow> (time list \<times> time list) option \<Rightarrow> price_slot \<Rightarrow> rat \<Rightarrow> rat" where
  "creditable_kwh charge_power hold s raw =
     (let absorbed = min raw (max 0 charge_power * hours_between (slot_start s) (slot_end s) / 1000);
          exported = (case hold of None \<Rightarrow> False
             | Some (planned, selected) \<Rightarrow> slot_start s \<in> set planned \<and> slot_start s \<notin> set selected)
      in SURPLUS_CREDIT_FACTOR * (if exported then 0 else absorbed) * CHARGE_EFFICIENCY)"

definition demand_and_surplus :: "reserve_inputs \<Rightarrow> pricing_reads \<Rightarrow> tariff_slot list \<Rightarrow> time
    \<Rightarrow> (price_slot, rat) dict \<times> (price_slot, rat) dict" where
  "demand_and_surplus i p slots horizon =
     (if slots = [] then ([], [])
      else (case pr_profile p horizon of
          None \<Rightarrow> ([], [])
        | Some (dated, flat) \<Rightarrow>
            (let consumption = map (\<lambda>(s, x). (s, known x)) (consumption_by_slot (map as_price slots) dated flat);
                 solar = (case pr_solar p of
                     None \<Rightarrow> []
                   | Some (kwh, fraction) \<Rightarrow> (if 0 < kwh
                       then map (\<lambda>(s, x). (as_price s, x)) (distribute_solar_forecast slots (num kwh) fraction (pr_remaining p))
                       else []))
             in (net_demand_by_slot (map (\<lambda>(s, x). (s, num x)) consumption) (map (\<lambda>(s, x). (s, num x)) solar),
                 map (\<lambda>(s, x). (s, creditable_kwh (ri_charge_power i) (ri_hold i) s (max 0 (dict_get 0 solar s - x)))) consumption))))"

section \<open>Operations of the manager\<close>

definition clear_reserve :: "string \<Rightarrow> reserve_mgr \<Rightarrow> reserve_mgr" where
  "clear_reserve why m = \<lparr>rm_cache = no_plan,
     rm_status = \<lparr>st_mode = ReserveDisabled, st_reason = ClearedBy why, st_pct = 0, st_plan = None\<rparr>\<rparr>"

definition stale_reserve :: "reserve_mgr \<Rightarrow> reserve_mgr" where
  "stale_reserve m = m\<lparr>rm_cache := mark_stale (rm_cache m)\<rparr>"

definition current_price :: "reserve_inputs \<Rightarrow> pyval" where
  "current_price i = (case ri_pricing i of None \<Rightarrow> VNone | Some p \<Rightarrow> pr_price p)"

text \<open>The plan a rebuild makes, \<open>None\<close> where no battery can be read.\<close>

definition reserve_plan_of :: "reserve_inputs \<Rightarrow> pricing_reads \<Rightarrow> reserve_plan option" where
  "reserve_plan_of i p = (case fleet_snapshots (ri_fleet i) of
     None \<Rightarrow> None
   | Some fleet \<Rightarrow>
      (let horizon = energy_horizon_end (pr_sunrise p) (ri_now i);
           slots = pr_slots p horizon;
           (demand, surplus) = demand_and_surplus i p slots horizon;
           (planned, outcome) = plan_discharge_reserve (map as_price slots)
              (map (\<lambda>(s, x). (s, num x)) demand) (map (\<lambda>(s, x). (s, num x)) surplus)
              (num (usable_energy_kwh fleet)) (num (eligible_capacity_kwh fleet)) (num (free_space_kwh fleet))
              (current_price i) (num (ri_min_saving i)) (ri_now i)
       in Some \<lparr>rp_slots = planned, rp_reserving = EPSILON < out_reserve outcome, rp_reason = out_reason outcome,
            rp_min_saving = max 0 (ri_min_saving i), rp_usable = usable_energy_kwh fleet,
            rp_capacity = eligible_capacity_kwh fleet, rp_space = free_space_kwh fleet, rp_horizon = horizon,
            rp_reference = finite_val (current_price i), rp_outcome = outcome\<rparr>))"

definition rebuild_reserve :: "bool \<Rightarrow> reserve_inputs \<Rightarrow> reserve_mgr \<Rightarrow> reserve_mgr" where
  "rebuild_reserve force i m =
     (if \<not> scope_enabled (ri_scope i)
      then (if cached (rm_cache m) \<noteq> None then clear_reserve ''feature_disabled'' m else m)
      else if \<not> force \<and> \<not> rebuild_due (rm_cache m) (day_of (ri_now i)) (ri_tick i) then m
      else (case ri_pricing i of
          None \<Rightarrow> clear_reserve ''no_pricing_manager'' m
        | Some p \<Rightarrow> (case reserve_plan_of i p of
            None \<Rightarrow> m
          | Some plan \<Rightarrow> m\<lparr>rm_cache := store_plan plan (day_of (ri_now i)) (ri_tick i)\<rparr>)))"

definition round2 :: "rat \<Rightarrow> rat" where
  "round2 x = of_int (py_round (x * 100)) / 100"

definition released :: "reserve_mode \<Rightarrow> reserve_guard \<Rightarrow> reserve_status" where
  "released mode g = \<lparr>st_mode = mode, st_reason = Guarded g, st_pct = 0, st_plan = None\<rparr>"

text \<open>\<open>reserve_soc_pct\<close> of the manager: the figure of this cycle.\<close>

definition read_reserve :: "reserve_inputs \<Rightarrow> reserve_mgr \<Rightarrow> reserve_mgr \<times> rat" where
  "read_reserve i m =
     (if \<not> scope_enabled (ri_scope i) then (m\<lparr>rm_status := released ReserveDisabled NotEnabled\<rparr>, 0)
      else (case release_guard i of
          Some g \<Rightarrow> (m\<lparr>rm_status := released ReserveReleased g\<rparr>, 0)
        | None \<Rightarrow> (case cached (rm_cache m) of
            None \<Rightarrow> (m\<lparr>rm_status := released ReserveReleased NoReservePlan\<rparr>, 0)
          | Some plan \<Rightarrow>
             (if of_another_day (rm_cache m) (day_of (ri_now i))
              then (m\<lparr>rm_cache := no_plan, rm_status := released ReserveReleased NewDay\<rparr>, 0)
              else (let plan1 = plan\<lparr>rp_min_saving := max 0 (ri_min_saving i)\<rparr> in
                case fleet_snapshots (ri_fleet i) of
                  None \<Rightarrow> (m\<lparr>rm_cache := (rm_cache m)\<lparr>cached := Some plan1\<rparr>, rm_status := released ReserveReleased FleetUnknown\<rparr>, 0)
                | Some fleet \<Rightarrow>
                   (let outcome = reserve_kwh_at (rp_slots plan1) (rp_min_saving plan1) (ri_now i) (current_price i)
                          (usable_energy_kwh fleet) (free_space_kwh fleet);
                        pct = reserve_soc_pct (num (out_reserve outcome)) (num (eligible_capacity_kwh fleet));
                        plan2 = plan1\<lparr>rp_outcome := outcome, rp_capacity := eligible_capacity_kwh fleet,
                          rp_usable := usable_energy_kwh fleet, rp_space := free_space_kwh fleet\<rparr>
                    in (m\<lparr>rm_cache := (rm_cache m)\<lparr>cached := Some plan2\<rparr>,
                          rm_status := \<lparr>st_mode = (if 0 < pct then ReserveReserving else ReserveReleased),
                            st_reason = Outcome (out_reason outcome), st_pct = round2 pct, st_plan = Some plan2\<rparr>\<rparr>, pct)))))))"

section \<open>The blockers\<close>

definition price_reserve_verdict :: "limit_ctx \<Rightarrow> rat \<Rightarrow> bat \<Rightarrow> bat_limits \<Rightarrow> py_error + block_details option" where
  "price_reserve_verdict x pct c v =
     (if pct \<le> 0 \<or> manual_mode v \<or> tele v = None \<or> \<not> reachable v then Inr None
      else (case tele_float (tele v) ''battery_soc'' of
          Inl _ \<Rightarrow> Inr None
        | Inr soc \<Rightarrow> (case effective_discharge_min_soc x c v of
            Inl OverflowError \<Rightarrow> Inl OverflowError
          | Inl _ \<Rightarrow> Inr None
          | Inr (floor_soc, _) \<Rightarrow>
              (let reserved_floor = min 100 (floor_soc + pct);
                   low = (case soc_vs_floor (tele v) None of
                       Some packs \<Rightarrow> packs \<le> reserved_floor | None \<Rightarrow> pf_le soc (Fin reserved_floor))
               in Inr (if low
                  then Some [(''battery'', VStr (label v)), (''soc'', VFloat soc), (''min_soc'', num floor_soc),
                     (''reserved_floor'', num (round2 reserved_floor)), (''reserve_soc_pct'', num (round2 pct))]
                  else None)))))"

fun refresh_price_reserve_blocks :: "limit_ctx \<Rightarrow> rat \<Rightarrow> (bat \<Rightarrow> bat_limits) \<Rightarrow> rat \<Rightarrow> bat list
    \<Rightarrow> gate_state \<Rightarrow> py_error + gate_state" where
  "refresh_price_reserve_blocks x pct view now [] gates = Inr gates"
| "refresh_price_reserve_blocks x pct view now (c # cs) gates =
     and_then (price_reserve_verdict x pct c (view c)) (\<lambda>od.
       refresh_price_reserve_blocks x pct view now cs
         (put_block False ''price_reserve'' ''price_reserve'' now c od gates))"

section \<open>Runs of the manager\<close>

datatype reserve_event = Rebuild bool reserve_inputs | MarkStale | Clear string | Read reserve_inputs

fun reserve_step :: "reserve_mgr \<Rightarrow> reserve_event \<Rightarrow> reserve_mgr" where
  "reserve_step m (Rebuild force i) = rebuild_reserve force i m"
| "reserve_step m MarkStale = stale_reserve m"
| "reserve_step m (Clear why) = clear_reserve why m"
| "reserve_step m (Read i) = fst (read_reserve i m)"

section \<open>Where the reserve of a cycle comes from\<close>

text \<open>\<open>made_by p day e\<close>: the event is a rebuild of that day whose plan has these slots.\<close>

definition made_by :: "reserve_plan \<Rightarrow> int \<Rightarrow> reserve_event \<Rightarrow> bool" where
  "made_by p day e = (\<exists>force j q plan. e = Rebuild force j \<and> scope_enabled (ri_scope j) \<and> ri_pricing j = Some q
     \<and> reserve_plan_of j q = Some plan \<and> rp_slots p = rp_slots plan \<and> day = day_of (ri_now j))"

definition same_slots :: "reserve_plan \<Rightarrow> reserve_plan \<Rightarrow> bool" where
  "same_slots p q = (rp_slots p = rp_slots q)"

lemma rebuild_reserve_cases:
  obtains "rebuild_reserve force i m = m" | "cached (rm_cache (rebuild_reserve force i m)) = None"
  | q plan where "scope_enabled (ri_scope i)" "ri_pricing i = Some q" "reserve_plan_of i q = Some plan"
      "rebuild_reserve force i m = m\<lparr>rm_cache := store_plan plan (day_of (ri_now i)) (ri_tick i)\<rparr>"
proof (cases "scope_enabled (ri_scope i) \<and> (force \<or> rebuild_due (rm_cache m) (day_of (ri_now i)) (ri_tick i))")
  case False
  then show ?thesis using that(1,2) by (cases "scope_enabled (ri_scope i)"; cases "cached (rm_cache m)")
    (simp_all add: rebuild_reserve_def clear_reserve_def)
next
  case True
  show ?thesis
  proof (cases "ri_pricing i")
    case None
    then show ?thesis using True that(2) by (auto simp: rebuild_reserve_def clear_reserve_def)
  next
    case (Some q)
    then show ?thesis using True that(1,3) by (cases "reserve_plan_of i q") (auto simp: rebuild_reserve_def)
  qed
qed

text \<open>What one reading of the reserve can be.\<close>

lemma read_reserve_cases:
  obtains (nothing) m' where "read_reserve i m = (m', 0)" "rm_cache m' = rm_cache m \<or> rm_cache m' = no_plan"
  | (unknown) m' plan where "read_reserve i m = (m', 0)" "cached (rm_cache m) = Some plan"
      "rm_cache m' = (rm_cache m)\<lparr>cached := Some (plan\<lparr>rp_min_saving := max 0 (ri_min_saving i)\<rparr>)\<rparr>"
  | (figure) m' plan q fleet outcome where
      "scope_enabled (ri_scope i)" "release_guard i = None" "cached (rm_cache m) = Some plan"
      "\<not> of_another_day (rm_cache m) (day_of (ri_now i))" "fleet_snapshots (ri_fleet i) = Some fleet"
      "outcome = reserve_kwh_at (rp_slots plan) (max 0 (ri_min_saving i)) (ri_now i) (current_price i)
         (usable_energy_kwh fleet) (free_space_kwh fleet)"
      "read_reserve i m = (m', reserve_soc_pct (num (out_reserve outcome)) (num (eligible_capacity_kwh fleet)))"
      "rm_cache m' = (rm_cache m)\<lparr>cached := Some q\<rparr>" "same_slots plan q"
proof (cases "scope_enabled (ri_scope i) \<and> release_guard i = None \<and> cached (rm_cache m) \<noteq> None
    \<and> \<not> of_another_day (rm_cache m) (day_of (ri_now i))")
  case False
  then have *: "snd (read_reserve i m) = 0 \<and> (rm_cache (fst (read_reserve i m)) = rm_cache m \<or> rm_cache (fst (read_reserve i m)) = no_plan)"
    by (cases "scope_enabled (ri_scope i)"; cases "release_guard i"; cases "cached (rm_cache m)")
      (simp_all add: read_reserve_def)
  show ?thesis by (rule nothing [of "fst (read_reserve i m)"]) (use * in \<open>auto simp: prod_eq_iff\<close>)
next
  case True
  then obtain plan where t: "scope_enabled (ri_scope i)" "release_guard i = None" "cached (rm_cache m) = Some plan"
    "\<not> of_another_day (rm_cache m) (day_of (ri_now i))" by auto
  show ?thesis
  proof (cases "fleet_snapshots (ri_fleet i)")
    case None
    show ?thesis by (rule unknown [OF _ t(3), of "fst (read_reserve i m)"]) (use t None in \<open>simp_all add: read_reserve_def Let_def\<close>)
  next
    case (Some fleet)
    show ?thesis
      by (rule figure [OF t Some refl, of "fst (read_reserve i m)" "the (cached (rm_cache (fst (read_reserve i m))))"])
        (use t Some in \<open>simp_all add: read_reserve_def Let_def same_slots_def\<close>)
  qed
qed

lemma reserve_step_moves:
  "cached (rm_cache (reserve_step m e)) = None
   \<or> (\<exists>p q. cached (rm_cache m) = Some p \<and> cached (rm_cache (reserve_step m e)) = Some q \<and> same_slots p q
        \<and> cached_day (rm_cache (reserve_step m e)) = cached_day (rm_cache m))
   \<or> (\<exists>p day. cached (rm_cache (reserve_step m e)) = Some p \<and> cached_day (rm_cache (reserve_step m e)) = Some day \<and> made_by p day e)"
proof (cases e)
  case (Rebuild force i)
  show ?thesis
  proof (cases rule: rebuild_reserve_cases [of force i m])
    case (3 q plan)
    then have "made_by plan (day_of (ri_now i)) e" using Rebuild by (auto simp: made_by_def)
    then show ?thesis using Rebuild 3 by auto
  qed (use Rebuild in \<open>auto simp: same_slots_def\<close>)
next
  case (Read i)
  show ?thesis
    by (cases rule: read_reserve_cases [of i m]) (use Read in \<open>auto simp: same_slots_def\<close>)
qed (auto simp: stale_reserve_def clear_reserve_def same_slots_def)

interpretation reserve: plan_manager rm_cache reserve_step made_by same_slots
  by (unfold_locales, rule reserve_step_moves) (auto simp: made_by_def same_slots_def)

lemma reserve_soc_pct_range: "0 \<le> reserve_soc_pct r c \<and> reserve_soc_pct r c \<le> 100"
  by (simp add: reserve_soc_pct_def Let_def)

lemma reserve_plan_sorted: "reserve_plan_of j q = Some plan \<Longrightarrow> sorted (map rs_start (rp_slots plan))"
  by (auto simp: reserve_plan_of_def Let_def plan_slots_sorted split: option.splits prod.splits)

lemma usable_nonneg: "0 \<le> usable_energy_kwh fleet"
  unfolding usable_energy_kwh_def by (rule sum_list_nonneg) auto

text \<open>
  C34. A reserve is only ever held on today's plan: in every run of rebuilds, readings, stale
  marks and clears, a positive figure means that the feature is on, no guard applies, and a
  rebuild of this very day made the slots it is read from; the figure is that of these slots
  at the live price, saving, energy and space, at most 100 per cent, and soundly claimed.
\<close>

theorem reserve_from_todays_plan:
  assumes "read_reserve i (run reserve_step new_reserve_mgr es) = (m', pct)" and "0 < pct"
  shows "scope_enabled (ri_scope i) \<and> release_guard i = None \<and> pct \<le> 100
    \<and> (\<exists>force j q plan fleet r. Rebuild force j \<in> set es \<and> day_of (ri_now j) = day_of (ri_now i)
        \<and> ri_pricing j = Some q \<and> reserve_plan_of j q = Some plan \<and> fleet_snapshots (ri_fleet i) = Some fleet
        \<and> r = reserve_kwh_at (rp_slots plan) (max 0 (ri_min_saving i)) (ri_now i) (current_price i)
                (usable_energy_kwh fleet) (free_space_kwh fleet)
        \<and> pct = reserve_soc_pct (num (out_reserve r)) (num (eligible_capacity_kwh fleet))
        \<and> sound_outcome (rp_slots plan) (ri_now i) (usable_energy_kwh fleet) r)"
proof -
  let ?m = "run reserve_step new_reserve_mgr es"
  show ?thesis
  proof (cases rule: read_reserve_cases [of i ?m])
    case (figure m1 plan q fleet r)
    have "cached (rm_cache new_reserve_mgr) = None" by (simp add: new_reserve_mgr_def)
    from reserve.plan_of_today [OF this figure(3,4)] obtain e where e: "e \<in> set es" "made_by plan (day_of (ri_now i)) e" by blast
    then obtain force j p plan0 where j: "e = Rebuild force j" "ri_pricing j = Some p" "reserve_plan_of j p = Some plan0"
      "rp_slots plan = rp_slots plan0" "day_of (ri_now i) = day_of (ri_now j)" by (auto simp: made_by_def)
    have pct: "pct = reserve_soc_pct (num (out_reserve r)) (num (eligible_capacity_kwh fleet))"
      using assms(1) figure(7) by simp
    have "sound_outcome (rp_slots plan0) (ri_now i) (usable_energy_kwh fleet) r"
      using reserve_kwh_at_sound [OF reserve_plan_sorted [OF j(3)] usable_nonneg] figure(6) j(4) by simp
    then show ?thesis using figure e(1) j pct reserve_soc_pct_range by metis
  qed (use assms in auto)
qed

text \<open>A rebuild with prices and a readable battery leaves a plan that is not due.\<close>

lemma rebuild_is_fresh:
  assumes "scope_enabled (ri_scope i)" "ri_pricing i = Some q" "fleet_snapshots (ri_fleet i) \<noteq> None"
  shows "\<not> rebuild_due (rm_cache (rebuild_reserve force i m)) (day_of (ri_now i)) (ri_tick i)"
proof -
  have "reserve_plan_of i q \<noteq> None" using assms(3) by (auto simp: reserve_plan_of_def Let_def split: prod.splits)
  then obtain plan where "reserve_plan_of i q = Some plan" by blast
  then show ?thesis using assms(1,2)
    by (cases "force \<or> rebuild_due (rm_cache m) (day_of (ri_now i)) (ri_tick i)") (auto simp: rebuild_reserve_def store_plan_fresh)
qed

section \<open>The batteries held by the reserve\<close>

definition reserve_held :: "gate_state \<Rightarrow> bat \<Rightarrow> bool" where
  "reserve_held gates c = (''price_reserve'' \<in> active gates False (Some c))"

lemma reserve_held_put:
  "reserve_held (put_block False ''price_reserve'' rsn now c od gates) c' = (if c' = c then od \<noteq> None else reserve_held gates c')"
  by (auto simp: reserve_held_def put_block_def active_set_block active_remove_block split: option.split)

lemma reserve_held_spec:
  assumes "refresh_price_reserve_blocks x pct view now cs gates = Inr gates'" "distinct cs"
  shows "(c \<in> set cs \<longrightarrow> (\<exists>od. price_reserve_verdict x pct c (view c) = Inr od \<and> reserve_held gates' c = (od \<noteq> None)))
    \<and> (c \<notin> set cs \<longrightarrow> reserve_held gates' c = reserve_held gates c)"
  using assms
proof (induction cs arbitrary: gates)
  case (Cons b cs)
  then obtain od where od: "price_reserve_verdict x pct b (view b) = Inr od"
    and rest: "refresh_price_reserve_blocks x pct view now cs (put_block False ''price_reserve'' ''price_reserve'' now b od gates) = Inr gates'"
    by (auto simp: and_then_eq_Inr)
  have d: "b \<notin> set cs" "distinct cs" using Cons.prems(2) by simp_all
  show ?case using Cons.IH [OF rest d(2)] od d(1) reserve_held_put by (cases "c = b") auto
qed simp

text \<open>A battery whose numbers are plain: one pack, no slot that moves the floor.\<close>

definition plain :: "bat_limits \<Rightarrow> rat \<Rightarrow> rat \<Rightarrow> bool" where
  "plain v soc cap = (in_play v \<and> tele_float (tele v) ''battery_soc'' = Inr (Fin soc)
     \<and> tele_float (tele v) ''battery_total_energy'' = Inr (Fin cap) \<and> pack_socs (tele v) = [] \<and> discharge_slot v = None
     \<and> 0 \<le> soc \<and> soc \<le> 100 \<and> 0 \<le> cap \<and> 0 \<le> configured_min_soc v)"

lemma finite_val_num [simp]: "finite_val (num q) = Some q" "finite_val (VFloat (Fin q)) = Some q"
  by (simp_all add: finite_val_def num_def)

lemma positive_num: "0 \<le> q \<Longrightarrow> positive (num q) = q" "0 \<le> q \<Longrightarrow> positive (VFloat (Fin q)) = q"
  by (simp_all add: positive_def)

lemma plain_verdict:
  assumes "plain v soc cap" "0 < pct"
  shows "\<exists>od. price_reserve_verdict x pct c v = Inr od \<and> (od \<noteq> None \<longleftrightarrow> soc \<le> min 100 (configured_min_soc v + pct))"
proof -
  have "soc_vs_floor (tele v) None = None" using assms(1) by (simp add: soc_vs_floor_def plain_def)
  then show ?thesis using assms
    by (auto simp: plain_def in_play_def price_reserve_verdict_def effective_discharge_min_soc_def Let_def)
qed

definition battery_energy :: "bat_limits \<Rightarrow> rat \<Rightarrow> rat \<Rightarrow> rat" where
  "battery_energy v soc cap = max 0 (cap * (soc - configured_min_soc v) / 100)"

lemma fleet_sums:
  assumes "\<forall>c \<in> set cs. plain (view c) (soc c) (cap c)"
  shows "usable_energy_kwh (List.map_filter (fleet_snapshot \<circ> view) cs) = sum_list (map (\<lambda>c. battery_energy (view c) (soc c) (cap c)) cs)"
    "eligible_capacity_kwh (List.map_filter (fleet_snapshot \<circ> view) cs) = sum_list (map cap cs)"
  using assms
proof (induction cs)
  case (Cons c cs)
  {
    case 1
    have p: "plain (view c) (soc c) (cap c)" using 1 by simp
    then show ?case using Cons.IH(1) 1
      by (simp add: plain_def fleet_snapshot_def usable_energy_kwh_def map_filter_simps battery_energy_def positive_num num_def [symmetric])
  next
    case 2
    have p: "plain (view c) (soc c) (cap c)" using 2 by simp
    then show ?case using Cons.IH(2) 2
      by (simp add: plain_def fleet_snapshot_def eligible_capacity_kwh_def map_filter_simps positive_num)
  }
qed (simp_all add: map_filter_simps usable_energy_kwh_def eligible_capacity_kwh_def)

lemma sum_list_scaled: "sum_list (map (\<lambda>c. f c * k) cs) = sum_list (map f cs) * (k :: rat)"
  by (induction cs) (auto simp: algebra_simps)

text \<open>
  C12. Spending stops at the reserve, for batteries that are automatic and in play, have one pack
  and no slot that moves their floor, and all back the reserve: as long as the blockers leave
  all of them free the energy above the floors is at least the reserve, and once they hold all
  of them it is at most the reserve.
\<close>

theorem spending_stops_at_the_reserve:
  assumes refresh: "refresh_price_reserve_blocks x pct view now cs gates = Inr gates'" "distinct cs"
    and fleet: "fleet_snapshots (map view cs) = Some fleet"
    and pct: "pct = reserve_soc_pct (num reserve) (num (eligible_capacity_kwh fleet))" "0 < pct" "0 \<le> reserve"
    and plain: "\<forall>c \<in> set cs. plain (view c) (soc c) (cap c)"
  shows "((\<forall>c \<in> set cs. \<not> reserve_held gates' c) \<longrightarrow> reserve \<le> usable_energy_kwh fleet)
    \<and> ((\<forall>c \<in> set cs. reserve_held gates' c) \<longrightarrow> usable_energy_kwh fleet \<le> reserve)"
proof -
  have f: "fleet = List.map_filter (fleet_snapshot \<circ> view) cs" "cs \<noteq> []"
    using fleet by (auto simp: fleet_snapshots_def Let_def map_filter_def comp_def filter_map split: if_splits)
  note sums = fleet_sums [of cs view soc cap, OF plain, folded f(1)]
  have held: "reserve_held gates' c = (soc c \<le> min 100 (configured_min_soc (view c) + pct))" if "c \<in> set cs" for c
    using reserve_held_spec [OF refresh, of c] plain_verdict [OF bspec [OF plain that] pct(2), of x c] that by auto
  have b: "0 \<le> cap c" "soc c \<le> 100" "0 \<le> configured_min_soc (view c)" if "c \<in> set cs" for c
    using bspec [OF plain that] by (simp_all add: plain_def)
  define C where "C = sum_list (map cap cs)"
  have C: "0 \<le> C" unfolding C_def by (rule sum_list_nonneg) (use b in auto)
  have p: "EPSILON < C" "pct = max 0 (min 100 (100 * reserve / C))"
    using pct C sums(2) by (auto simp: reserve_soc_pct_def positive_num C_def [symmetric] Let_def split: if_splits)
  have C0: "0 < C" using p(1) by (simp add: EPSILON_def)
  show ?thesis
  proof (intro conjI impI)
    assume free: "\<forall>c \<in> set cs. \<not> reserve_held gates' c"
    have e: "cap c * (pct / 100) \<le> battery_energy (view c) (soc c) (cap c)" and lt: "pct < 100" if "c \<in> set cs" for c
    proof -
      have s: "configured_min_soc (view c) + pct < soc c" using held [OF that] free that b(2) [OF that] by (auto simp: min_def split: if_splits)
      then show "pct < 100" using b [OF that] by linarith
      have "cap c * pct \<le> cap c * (soc c - configured_min_soc (view c))" using s b(1) [OF that] by (intro mult_left_mono) auto
      then show "cap c * (pct / 100) \<le> battery_energy (view c) (soc c) (cap c)" by (simp add: battery_energy_def)
    qed
    have "C * (pct / 100) \<le> usable_energy_kwh fleet"
      unfolding sums(1) C_def sum_list_scaled [symmetric] using e by (intro sum_list_mono) auto
    moreover have "pct < 100" using lt f(2) by (cases cs) auto
    then have "pct = 100 * reserve / C" using p(2) C0 pct(3) by (auto simp: min_def max_def split: if_splits)
    ultimately show "reserve \<le> usable_energy_kwh fleet" using C0 by simp
  next
    assume all: "\<forall>c \<in> set cs. reserve_held gates' c"
    have "battery_energy (view c) (soc c) (cap c) \<le> cap c * (pct / 100)" if "c \<in> set cs" for c
    proof -
      have "soc c - configured_min_soc (view c) \<le> pct" using held [OF that] all that by auto
      then have "cap c * (soc c - configured_min_soc (view c)) \<le> cap c * pct" using b(1) [OF that] by (intro mult_left_mono)
      moreover have "0 \<le> cap c * pct" using b(1) [OF that] pct(2) by simp
      ultimately show ?thesis by (simp add: battery_energy_def)
    qed
    then have "usable_energy_kwh fleet \<le> C * (pct / 100)"
      unfolding sums(1) C_def sum_list_scaled [symmetric] by (intro sum_list_mono) auto
    moreover have "pct \<le> 100 * reserve / C" using p(2) C0 pct(3) by (auto simp: max_def)
    then have "C * (pct / 100) \<le> reserve" using C0 by (simp add: field_simps)
    ultimately show "usable_energy_kwh fleet \<le> reserve" by linarith
  qed
qed

section \<open>A worked example\<close>

declare walk_bins.simps [code]

definition home_battery :: "rat \<Rightarrow> bool \<Rightarrow> bat_limits" where
  "home_battery soc excluded = \<lparr>label = ''a'', tele = Some [(''battery_soc'', num soc), (''battery_total_energy'', num 5)],
     manual_mode = False, reachable = True, non_responsive = excluded, backup_active = False, rs485_user_disabled = False,
     manual_slot_owned = False, configured_max_soc = 100, configured_min_soc = 10, enable_charge_hysteresis = False,
     charge_hysteresis_percent = 0, charge_slot = None, discharge_slot = None, recal_override = False,
     bms_charge_due = False, bms_retry_pending = False, battery_full = False\<rparr>"

text \<open>A dear hour from one to two o'clock in which the house needs 1 kWh.\<close>

definition dear_night :: pricing_reads where
  "dear_night = \<lparr>pr_price = num (1/10), pr_slots = (\<lambda>_. [\<lparr>t_start = 3600, t_end = 7200, t_price = 3/10\<rparr>]),
     pr_sunrise = (\<lambda>_. Some 6), pr_profile = (\<lambda>_. Some ([], replicate 96 (num (1/4)))), pr_solar = None, pr_remaining = True\<rparr>"

definition night_inputs :: reserve_inputs where
  "night_inputs = \<lparr>ri_scope = \<lparr>feature_on = True, predictive_on = True, predictive_paused = False, dynamic_pricing = True\<rparr>,
     ri_manual_mode = False, ri_any_slot_owned = False, ri_curtailment = None, ri_protection = False,
     ri_fleet = [home_battery 50 False], ri_min_saving = 1/20, ri_charge_power = 2500, ri_now = 0, ri_tick = 0,
     ri_pricing = Some dear_night, ri_hold = None\<rparr>"

lemma reserve_from_todays_plan_witness:
  "(0::rat) < 20 \<and> 0 < out_reserve (reserve_kwh_at (rp_slots (the (reserve_plan_of night_inputs dear_night))) (1/20) 0 (num (1/10)) 2 (5/2))
   \<and> scope_enabled (ri_scope night_inputs)"
proof -
  have "read_reserve night_inputs (run reserve_step new_reserve_mgr [Rebuild False night_inputs])
      = (fst (read_reserve night_inputs (run reserve_step new_reserve_mgr [Rebuild False night_inputs])), 20)"
    by (simp only: prod_eq_iff fst_conv snd_conv) (intro conjI refl; code_simp)
  from reserve_from_todays_plan [OF this] have "scope_enabled (ri_scope night_inputs)" by simp
  moreover have "0 < out_reserve (reserve_kwh_at (rp_slots (the (reserve_plan_of night_inputs dear_night))) (1/20) 0 (num (1/10)) 2 (5/2))"
    by code_simp
  ultimately show ?thesis by simp
qed

definition night_limits :: limit_ctx where
  "night_limits = \<lparr>slot_order = [0], weekly_active = False, charge_delay_enabled = False, charge_delay_unlocked = False,
     balance_overrides_delay = False, grid_charging_active = False, predictive_charge_target_soc = None\<rparr>"

lemma spending_stops_at_the_reserve_witness:
  "1 \<le> usable_energy_kwh (the (fleet_snapshots [home_battery 50 False]))"
proof -
  let ?view = "\<lambda>_::bat. home_battery 50 False"
  obtain gates' where g: "refresh_price_reserve_blocks night_limits 20 ?view 0 [0] empty_gates = Inr gates'"
    and free: "\<not> reserve_held gates' 0"
  proof -
    have "price_reserve_verdict night_limits 20 0 (home_battery 50 False) = Inr None" by code_simp
    then have "refresh_price_reserve_blocks night_limits 20 ?view 0 [0] empty_gates
        = Inr (put_block False ''price_reserve'' ''price_reserve'' 0 0 None empty_gates)" by (simp add: and_then_def)
    then show ?thesis by (rule that) (subst reserve_held_put, simp)
  qed
  have "fleet_snapshots [home_battery 50 False] \<noteq> None" by code_simp
  then obtain fleet where f: "fleet_snapshots (map ?view [0]) = Some fleet" by auto
  have "eligible_capacity_kwh (the (fleet_snapshots [home_battery 50 False])) = 5" by code_simp
  then have "20 = reserve_soc_pct (num 1) (num (eligible_capacity_kwh fleet))" using f by (simp add: reserve_soc_pct_def positive_num EPSILON_def)
  moreover have "\<forall>c \<in> set [0]. plain (?view c) ((\<lambda>_. 50) c) ((\<lambda>_. 5) c)" by (simp add: plain_def) code_simp
  ultimately show ?thesis using spending_stops_at_the_reserve [OF g _ f, of 1 "\<lambda>_. 50" "\<lambda>_. 5"] free f by simp
qed

text \<open>
  The blocks do not ask what the sizing asks: a battery left out of the fleet for not
  responding backs no reserve, and is held by it all the same.
\<close>

lemma excluded_battery_is_held:
  "fleet_snapshot (home_battery 20 True) = None
   \<and> (\<exists>d. price_reserve_verdict night_limits 20 0 (home_battery 20 True) = Inr (Some d))"
proof
  show "fleet_snapshot (home_battery 20 True) = None" by code_simp
  have "pack_socs (tele (home_battery 20 True)) = []" by code_simp
  then show "\<exists>d. price_reserve_verdict night_limits 20 0 (home_battery 20 True) = Inr (Some d)"
    by (auto simp: price_reserve_verdict_def home_battery_def tele_float_def effective_discharge_min_soc_def dict_get_def num_def soc_vs_floor_def)
qed

end
