(* ===== verification/Hold_Control.thy ===== *)
theory Hold_Control
  imports Reserve_Control Absorption
begin

text \<open>
  The manager that holds the charge back while dear feed-in hours pass
  (\<open>control/surplus_price_hold.py\<close>) and its blocker (\<open>_refresh_surplus_price_hold_block\<close> of
  \<open>__init__.py\<close>): the gate, the guards in their order, the solar deadline, the surplus per slot,
  the plan with its live target, and the state the discharge reserve reads from it. What the
  pricing engine and the consumption tracker answer is part of the inputs; an answer of \<open>None\<close>
  in place of the snapshots, of a time or of an evaluation is one that raised.
\<close>

section \<open>State and inputs\<close>

record hold_status =
  hs_hold :: bool
  hs_state :: string
  hs_reason :: string
  hs_plan :: "absorption_plan option"
  hs_remaining_target :: "rat option"
  hs_next_release :: "time option"

record hold_mgr =
  hm_cache :: "absorption_plan plan_cache"
  hm_live_target :: "rat option"
  hm_target_failed :: bool
  hm_remaining_consumption :: "rat option"
  hm_status :: hold_status

definition HOLD_SOURCE :: string where "HOLD_SOURCE = ''surplus_price_hold''"

definition opt_num :: "rat option \<Rightarrow> pyval" where
  "opt_num x = (case x of None \<Rightarrow> VNone | Some q \<Rightarrow> num q)"

definition status_without_plan :: "string \<Rightarrow> string \<Rightarrow> hold_status" where
  "status_without_plan state why = \<lparr>hs_hold = False, hs_state = state, hs_reason = why, hs_plan = None,
     hs_remaining_target = None, hs_next_release = None\<rparr>"

definition new_hold_mgr :: hold_mgr where
  "new_hold_mgr = \<lparr>hm_cache = no_plan, hm_live_target = None, hm_target_failed = False,
     hm_remaining_consumption = None, hm_status = status_without_plan ''disabled'' ''disabled''\<rparr>"

text \<open>\<open>hr_evaluation\<close>: the remaining consumption and sun of \<open>_evaluate_remaining_grid_charging\<close>.\<close>

record hold_pricing =
  hr_in_slot :: bool
  hr_negative_price :: bool
  hr_snapshots :: "snapshot list option"
  hr_export_slots :: "time option \<Rightarrow> tariff_slot list"
  hr_evaluation :: "(rat option \<times> rat option) option"
  hr_forecast :: "rat option"
  hr_fraction :: fraction_fn

record solar_reads =
  so_t_start :: "rat option"
  so_t_end :: "rat option"
  so_sunrise :: "rat option"
  so_noon :: "rat option"

record hold_inputs =
  hi_scope :: plan_scope
  hi_delay_enabled :: bool
  hi_pricing :: "hold_pricing option"
  hi_tracker :: "solar_reads option"
  hi_slot_active :: bool
  hi_curtailment :: "string option"
  hi_opportunistic_w :: rat
  hi_weekly :: bool
  hi_force_full :: bool
  hi_protection :: bool
  hi_manual_mode :: bool
  hi_any_slot_owned :: bool
  hi_batteries :: "(bat \<times> bool) list"
  hi_charge_power :: pyval
  hi_margin :: pyval
  hi_min_saving :: rat
  hi_now :: time
  hi_tick :: rat

section \<open>The guards\<close>

datatype hold_guard = GuardDelay | GuardPriceSlot | GuardNegativePrice | GuardCurtailment | GuardWeekly
  | GuardProtection | GuardEvPause | GuardManual | GuardFloor

primrec guard_name :: "hold_guard \<Rightarrow> string" where
  "guard_name GuardDelay = ''charge_delay_active''"
| "guard_name GuardPriceSlot = ''dynamic_pricing_slot''"
| "guard_name GuardNegativePrice = ''negative_price_charging''"
| "guard_name GuardCurtailment = ''curtailment_active''"
| "guard_name GuardWeekly = ''weekly_full_charge''"
| "guard_name GuardProtection = ''capacity_protection''"
| "guard_name GuardEvPause = ''ev_pause''"
| "guard_name GuardManual = ''manual_control''"
| "guard_name GuardFloor = ''at_soc_floor''"

definition any_charge_delay_blocker :: "gate_state \<Rightarrow> bat list \<Rightarrow> bool" where
  "any_charge_delay_blocker gates cs =
     (list_ex (\<lambda>(k, _). starts_with ''charge_delay'' k) (get_charge_blockers gates None)
      \<or> list_ex (\<lambda>c. list_ex (\<lambda>(k, _). starts_with ''charge_delay'' k) (get_charge_blockers gates (Some c))) cs)"

definition at_soc_floor :: "hold_pricing option \<Rightarrow> bool" where
  "at_soc_floor p = (case p of None \<Rightarrow> False
   | Some q \<Rightarrow> (case hr_snapshots q of None \<Rightarrow> True
     | Some snapshots \<Rightarrow> list_ex (\<lambda>s. eligible s \<and>
         (case (py_float (soc_pct s), py_float (floor_soc_pct s)) of
            (Inr soc, Inr low) \<Rightarrow> pf_le soc (case low of Fin q \<Rightarrow> Fin (q + 1 / 1000000) | x \<Rightarrow> x)
          | _ \<Rightarrow> False)) snapshots))"

definition hold_guard_of :: "hold_inputs \<Rightarrow> gate_state \<Rightarrow> hold_guard option" where
  "hold_guard_of i gates =
     (if hi_delay_enabled i \<and> any_charge_delay_blocker gates (map fst (hi_batteries i)) then Some GuardDelay
      else if (case hi_pricing i of None \<Rightarrow> False | Some q \<Rightarrow> hr_in_slot q) then Some GuardPriceSlot
      else if hi_slot_active i then Some GuardPriceSlot
      else if (case hi_pricing i of None \<Rightarrow> False | Some q \<Rightarrow> hr_negative_price q) then Some GuardNegativePrice
      else if curtailment_acts (hi_curtailment i) then Some GuardCurtailment
      else if 0 < hi_opportunistic_w i then Some GuardCurtailment
      else if hi_weekly i then Some GuardWeekly
      else if hi_force_full i then Some GuardWeekly
      else if hi_protection i then Some GuardProtection
      else if ''ev_pause'' \<in> fst ` set (get_charge_blockers gates None) then Some GuardEvPause
      else if hi_manual_mode i \<or> hi_any_slot_owned i \<or> list_ex snd (hi_batteries i) then Some GuardManual
      else if at_soc_floor (hi_pricing i) then Some GuardFloor
      else None)"

section \<open>Deadline and surplus\<close>

definition solar_deadline :: "hold_inputs \<Rightarrow> time option" where
  "solar_deadline i = (case hi_tracker i of None \<Rightarrow> None
   | Some s \<Rightarrow>
      (let t = (case so_t_start s of
             Some _ \<Rightarrow> so_t_end s
           | None \<Rightarrow> (case (so_sunrise s, so_noon s) of (Some rise, Some noon) \<Rightarrow> Some (2 * noon - rise) | _ \<Rightarrow> None))
       in case t of None \<Rightarrow> None
          | Some h \<Rightarrow> (if 0 < h \<and> h \<le> 24 then Some (of_int (day_of (hi_now i)) * 86400 + h * 3600) else None)))"

definition daylight_share :: "rat \<Rightarrow> time \<Rightarrow> time option \<Rightarrow> rat" where
  "daylight_share load now due = (case due of
     None \<Rightarrow> max 0 load
   | Some d \<Rightarrow> (if load \<le> 0 then max 0 load
      else (let now_h = hour_of_day now;
                end_h = min 24 (24 - (of_int (day_of now + 1) * 86400 - d) / 3600)
            in if end_h \<le> now_h then 0 else load * (end_h - now_h) / (24 - now_h))))"

definition surplus_by_slot :: "hold_pricing \<Rightarrow> tariff_slot list \<Rightarrow> time \<Rightarrow> time option \<Rightarrow> (price_slot, pyval) dict" where
  "surplus_by_slot q slots now due =
     (let (load, sun0) = (case hr_evaluation q of None \<Rightarrow> (None, None) | Some e \<Rightarrow> e);
          sun = (if sun0 = None then hr_forecast q else sun0)
      in if slots = [] then []
         else (case (sun, load) of
             (Some s, Some l) \<Rightarrow>
               (let solar = distribute_solar_forecast slots (num s) (hr_fraction q) True;
                    loads = estimate_consumption_by_slot slots (num (daylight_share l now due)) None True
                in map (\<lambda>s. (as_price s, num (max 0 (dict_get 0 solar s - dict_get 0 loads s)))) slots)
           | _ \<Rightarrow> []))"

section \<open>Operations of the manager\<close>

definition reset_plan_state :: "hold_mgr \<Rightarrow> hold_mgr" where
  "reset_plan_state m = m\<lparr>hm_cache := no_plan, hm_live_target := None, hm_target_failed := False,
     hm_remaining_consumption := None\<rparr>"

text \<open>\<open>clear\<close> also takes the blocker out of the registry.\<close>

definition clear_hold :: "string \<Rightarrow> hold_mgr \<times> gate_state \<Rightarrow> hold_mgr \<times> gate_state" where
  "clear_hold why st = ((reset_plan_state (fst st))\<lparr>hm_status := status_without_plan ''disabled'' why\<rparr>,
     remove_operation_block True HOLD_SOURCE None (snd st))"

definition stale_hold :: "hold_mgr \<Rightarrow> hold_mgr" where
  "stale_hold m = m\<lparr>hm_cache := mark_stale (hm_cache m)\<rparr>"

definition set_hold_status :: "bool \<Rightarrow> string \<Rightarrow> string \<Rightarrow> time \<Rightarrow> hold_mgr \<Rightarrow> hold_mgr" where
  "set_hold_status hold state why now m = m\<lparr>hm_status := \<lparr>hs_hold = hold, hs_state = state, hs_reason = why,
     hs_plan = cached (hm_cache m),
     hs_remaining_target = (if cached (hm_cache m) = None then None else hm_live_target m),
     hs_next_release = (case cached (hm_cache m) of None \<Rightarrow> None
        | Some p \<Rightarrow> map_option ab_start (List.find (\<lambda>s. now < ab_start s) (ab_selected_slots p)))\<rparr>\<rparr>"

definition is_hold_active :: "hold_inputs \<Rightarrow> gate_state \<Rightarrow> hold_mgr \<Rightarrow> hold_mgr \<times> bool" where
  "is_hold_active i gates m =
     (let release = (\<lambda>m why. (set_hold_status False ''released'' why (hi_now i) m, False)) in
      if \<not> scope_enabled (hi_scope i) then (set_hold_status False ''disabled'' ''not_enabled'' (hi_now i) m, False)
      else (case hold_guard_of i gates of
          Some g \<Rightarrow> release m (guard_name g)
        | None \<Rightarrow> (case cached (hm_cache m) of
            None \<Rightarrow> release m ''no_plan''
          | Some plan \<Rightarrow>
             (if of_another_day (hm_cache m) (day_of (hi_now i)) then release (reset_plan_state m) ''new_day''
              else if hm_target_failed m then release m ''target_unavailable''
              else (let plan1 = plan\<lparr>ab_min_saving := max 0 (hi_min_saving i)\<rparr>;
                        m1 = m\<lparr>hm_cache := (hm_cache m)\<lparr>cached := Some plan1\<rparr>\<rparr>;
                        (hold, why) = hold_decision (Some plan1) (hi_now i)
                          (opt_num (hm_live_target m))
                    in (set_hold_status hold (if hold then ''holding'' else ''released'') why (hi_now i) m1, hold))))))"

definition refresh_live_target :: "hold_inputs \<Rightarrow> hold_mgr \<Rightarrow> hold_mgr" where
  "refresh_live_target i m = (case (hi_pricing i, cached (hm_cache m)) of
     (Some q, Some _) \<Rightarrow> (case hr_snapshots q of
         None \<Rightarrow> m\<lparr>hm_target_failed := True\<rparr>
       | Some snapshots \<Rightarrow>
           (let target = calculate_absorption_target_kwh (opt_num (hm_remaining_consumption m))
                  (num (calculate_usable_energy_kwh snapshots)) (num (calculate_free_space_kwh snapshots)) (hi_margin i)
            in m\<lparr>hm_live_target := target, hm_target_failed := target = None\<rparr>))
   | _ \<Rightarrow> m)"

definition remaining_load :: "hold_pricing \<Rightarrow> rat option" where
  "remaining_load q = (case hr_evaluation q of None \<Rightarrow> None | Some (load, _) \<Rightarrow> load)"

definition absorption_input_of :: "hold_inputs \<Rightarrow> hold_pricing \<Rightarrow> snapshot list \<Rightarrow> absorption_input" where
  "absorption_input_of i q snapshots =
     (let due = solar_deadline i; slots = hr_export_slots q due
      in \<lparr>in_prices = map as_price slots, in_surplus = surplus_by_slot q slots (hi_now i) due,
          in_batteries = snapshots, in_remaining = opt_num (remaining_load q),
          in_usable = num (calculate_usable_energy_kwh snapshots), in_margin = hi_margin i,
          in_max_power = hi_charge_power i, in_deadline = due, in_saving = num (hi_min_saving i)\<rparr>)"

text \<open>A rebuild; the snapshots of the pricing engine are read outside any \<open>try\<close>, and exist here.\<close>

definition rebuild_hold :: "bool \<Rightarrow> hold_inputs \<Rightarrow> hold_mgr \<times> gate_state \<Rightarrow> hold_mgr \<times> gate_state" where
  "rebuild_hold force i st =
     (let m = fst st in
      if \<not> scope_enabled (hi_scope i) then (if cached (hm_cache m) \<noteq> None then clear_hold ''feature_disabled'' st else st)
      else if \<not> force \<and> \<not> rebuild_due (hm_cache m) (day_of (hi_now i)) (hi_tick i) then (refresh_live_target i m, snd st)
      else (case hi_pricing i of
          None \<Rightarrow> clear_hold ''no_pricing_manager'' st
        | Some q \<Rightarrow> (case hr_snapshots q of
            None \<Rightarrow> clear_hold ''rebuild_error'' st
          | Some snapshots \<Rightarrow>
              (let plan = plan_surplus_absorption (absorption_input_of i q snapshots) (hi_now i)
               in (m\<lparr>hm_cache := store_plan plan (day_of (hi_now i)) (hi_tick i), hm_live_target := Some (ab_target_kwh plan),
                     hm_target_failed := False,
                     hm_remaining_consumption := remaining_load q\<rparr>, snd st)))))"

text \<open>What the discharge reserve may read: the slots planned and the slots selected.\<close>

definition hold_plan_state :: "hold_mgr \<Rightarrow> int \<Rightarrow> (time list \<times> time list) option" where
  "hold_plan_state m today = (case cached (hm_cache m) of None \<Rightarrow> None
   | Some p \<Rightarrow> (if ab_status p \<noteq> AbPlanned \<or> hm_target_failed m \<or> cached_day (hm_cache m) \<noteq> Some today then None
       else Some (map ab_start (ab_slots p), map ab_start (ab_selected_slots p))))"

section \<open>The blocker and the runs\<close>

definition refresh_hold_block :: "hold_inputs \<Rightarrow> rat \<Rightarrow> hold_mgr \<times> gate_state \<Rightarrow> hold_mgr \<times> gate_state" where
  "refresh_hold_block i now st =
     (let (m, hold) = is_hold_active i (snd st) (fst st);
          status = hm_status m
      in (m, if hold then set_operation_block True HOLD_SOURCE ''surplus_price_hold''
               (Some [(''state'', VStr (hs_state status)), (''reason'', VStr (hs_reason status)),
                      (''next_release_at'', opt_num (hs_next_release status))]) None now (snd st)
             else remove_operation_block True HOLD_SOURCE None (snd st)))"

datatype hold_event = HoldRebuild bool hold_inputs | HoldStale | HoldClear string | HoldRefresh hold_inputs rat
  | Elsewhere block_op

fun hold_step :: "hold_mgr \<times> gate_state \<Rightarrow> hold_event \<Rightarrow> hold_mgr \<times> gate_state" where
  "hold_step st (HoldRebuild force i) = rebuild_hold force i st"
| "hold_step st HoldStale = (stale_hold (fst st), snd st)"
| "hold_step st (HoldClear why) = clear_hold why st"
| "hold_step st (HoldRefresh i now) = refresh_hold_block i now st"
| "hold_step st (Elsewhere x) = (fst st, apply_block_op (snd st) x)"

section \<open>Where a hold comes from\<close>

definition same_plan :: "absorption_plan \<Rightarrow> absorption_plan \<Rightarrow> bool" where
  "same_plan p q = (q = p\<lparr>ab_min_saving := ab_min_saving q\<rparr>)"

definition hold_made_by :: "absorption_plan \<Rightarrow> int \<Rightarrow> hold_event \<Rightarrow> bool" where
  "hold_made_by p day e = (\<exists>force j q snapshots. e = HoldRebuild force j \<and> scope_enabled (hi_scope j)
     \<and> hi_pricing j = Some q \<and> hr_snapshots q = Some snapshots \<and> day = day_of (hi_now j)
     \<and> same_plan (plan_surplus_absorption (absorption_input_of j q snapshots) (hi_now j)) p)"

lemma refresh_live_target_cache [simp]: "hm_cache (refresh_live_target i m) = hm_cache m"
  by (simp add: refresh_live_target_def Let_def split: option.split)

lemma set_hold_status_cache [simp]: "hm_cache (set_hold_status h s w t m) = hm_cache m"
  "hm_target_failed (set_hold_status h s w t m) = hm_target_failed m"
  by (simp_all add: set_hold_status_def)

lemma clear_hold_cache [simp]: "hm_cache (fst (clear_hold why st)) = no_plan"
  by (simp add: clear_hold_def reset_plan_state_def)

lemma rebuild_hold_cases:
  obtains "hm_cache (fst (rebuild_hold force i st)) = hm_cache (fst st)" | "hm_cache (fst (rebuild_hold force i st)) = no_plan"
  | q snapshots where "scope_enabled (hi_scope i)" "hi_pricing i = Some q" "hr_snapshots q = Some snapshots"
      "hm_cache (fst (rebuild_hold force i st))
         = store_plan (plan_surplus_absorption (absorption_input_of i q snapshots) (hi_now i)) (day_of (hi_now i)) (hi_tick i)"
proof (cases "scope_enabled (hi_scope i) \<and> (force \<or> rebuild_due (hm_cache (fst st)) (day_of (hi_now i)) (hi_tick i))")
  case False
  then show ?thesis using that(1,2)
    by (cases "scope_enabled (hi_scope i)"; cases "cached (hm_cache (fst st))") (simp_all add: rebuild_hold_def Let_def)
next
  case True
  show ?thesis
  proof (cases "hi_pricing i")
    case None
    then show ?thesis using True that(2) by (auto simp: rebuild_hold_def Let_def)
  next
    case (Some q)
    then show ?thesis using True that(2,3) by (cases "hr_snapshots q") (auto simp: rebuild_hold_def Let_def)
  qed
qed

text \<open>What one look at the hold can be.\<close>

lemma is_hold_active_cases:
  obtains (release) m' where "is_hold_active i gates m = (m', False)" "hm_cache m' = hm_cache m \<or> hm_cache m' = no_plan"
  | (decided) m' plan hold why where
      "is_hold_active i gates m = (m', hold)" "scope_enabled (hi_scope i)" "hold_guard_of i gates = None"
      "cached (hm_cache m) = Some plan" "\<not> of_another_day (hm_cache m) (day_of (hi_now i))" "\<not> hm_target_failed m"
      "hm_cache m' = (hm_cache m)\<lparr>cached := Some (plan\<lparr>ab_min_saving := max 0 (hi_min_saving i)\<rparr>)\<rparr>"
      "hold_decision (Some (plan\<lparr>ab_min_saving := max 0 (hi_min_saving i)\<rparr>)) (hi_now i) (opt_num (hm_live_target m)) = (hold, why)"
proof (cases "scope_enabled (hi_scope i) \<and> hold_guard_of i gates = None \<and> cached (hm_cache m) \<noteq> None
    \<and> \<not> of_another_day (hm_cache m) (day_of (hi_now i)) \<and> \<not> hm_target_failed m")
  case False
  then have *: "\<not> snd (is_hold_active i gates m) \<and> (hm_cache (fst (is_hold_active i gates m)) = hm_cache m
      \<or> hm_cache (fst (is_hold_active i gates m)) = no_plan)"
    by (cases "scope_enabled (hi_scope i)"; cases "hold_guard_of i gates"; cases "cached (hm_cache m)";
        cases "of_another_day (hm_cache m) (day_of (hi_now i))"; cases "hm_target_failed m")
      (simp_all add: is_hold_active_def reset_plan_state_def)
  show ?thesis by (rule release [of "fst (is_hold_active i gates m)"]) (use * in \<open>auto simp: prod_eq_iff\<close>)
next
  case True
  then obtain plan where t: "scope_enabled (hi_scope i)" "hold_guard_of i gates = None" "cached (hm_cache m) = Some plan"
    "\<not> of_another_day (hm_cache m) (day_of (hi_now i))" "\<not> hm_target_failed m" by auto
  obtain hold why where d: "hold_decision (Some (plan\<lparr>ab_min_saving := max 0 (hi_min_saving i)\<rparr>)) (hi_now i)
      (opt_num (hm_live_target m)) = (hold, why)" by fastforce
  show ?thesis
    by (rule decided [OF _ t(1,2,3,4,5) _ d, of "fst (is_hold_active i gates m)"]) (use t d in \<open>simp_all add: is_hold_active_def Let_def\<close>)
qed

lemma hold_step_moves:
  fixes st :: "hold_mgr \<times> gate_state"
  shows "cached (hm_cache (fst (hold_step st e))) = None
   \<or> (\<exists>p q. cached (hm_cache (fst st)) = Some p \<and> cached (hm_cache (fst (hold_step st e))) = Some q \<and> same_plan p q
        \<and> cached_day (hm_cache (fst (hold_step st e))) = cached_day (hm_cache (fst st)))
   \<or> (\<exists>p day. cached (hm_cache (fst (hold_step st e))) = Some p \<and> cached_day (hm_cache (fst (hold_step st e))) = Some day
        \<and> hold_made_by p day e)"
proof (cases e)
  case (HoldRebuild force i)
  show ?thesis
  proof (cases rule: rebuild_hold_cases [of force i st])
    case (3 q snapshots)
    then have "hold_made_by (plan_surplus_absorption (absorption_input_of i q snapshots) (hi_now i)) (day_of (hi_now i)) e"
      using HoldRebuild by (auto simp: hold_made_by_def same_plan_def)
    then show ?thesis using HoldRebuild 3(4) by auto
  qed (use HoldRebuild in \<open>auto simp: same_plan_def\<close>)
next
  case (HoldRefresh i now)
  show ?thesis
    by (cases rule: is_hold_active_cases [of i "snd st" "fst st"])
      (use HoldRefresh in \<open>auto simp: same_plan_def refresh_hold_block_def Let_def\<close>)
qed (auto simp: stale_hold_def same_plan_def)

interpretation hold: plan_manager "\<lambda>st :: hold_mgr \<times> gate_state. hm_cache (fst st)" hold_step hold_made_by same_plan
proof (unfold_locales, rule hold_step_moves)
  fix p q :: absorption_plan and day e
  assume "hold_made_by p day e" "same_plan p q"
  moreover have "same_plan r q" if "same_plan r p" "same_plan p q" for r
    using that by (cases r; cases p; cases q) (simp add: same_plan_def)
  ultimately show "hold_made_by q day e" unfolding hold_made_by_def by blast
qed

lemma refresh_hold_block_active:
  "HOLD_SOURCE \<in> active (snd (refresh_hold_block i now st)) True None \<longleftrightarrow> snd (is_hold_active i (snd st) (fst st))"
  by (simp add: refresh_hold_block_def Let_def split_beta active_set_block active_remove_block)

lemma planned_has_deadline: "ab_status (plan_surplus_absorption x t) = AbPlanned \<Longrightarrow> ab_deadline (plan_surplus_absorption x t) = in_deadline x \<and> in_deadline x \<noteq> None"
  by (auto simp: plan_surplus_absorption_def schedule_absorption_def mark_selected_def Let_def split: option.splits if_splits)

text \<open>
  C38. The sun is only ever held back on today's plan: in every run of rebuilds, stale marks,
  clears, looks and other changes of the registry, a look that leaves the charge blocked means
  that the feature is on, no guard applies and the live target is known; a rebuild of this very
  day made the plan, and with the live saving put in it the solar deadline lies ahead, the
  selected hours left still hold the live target, and a later hour that can absorb is cheaper
  by the saving than the hour held back.
\<close>

theorem hold_from_todays_plan:
  assumes "run hold_step (new_hold_mgr, gates0) es = (m, gates)"
    and "HOLD_SOURCE \<in> active (snd (refresh_hold_block i now (m, gates))) True None"
  shows "scope_enabled (hi_scope i) \<and> hold_guard_of i gates = None \<and> \<not> hm_target_failed m
    \<and> (\<exists>force j q snapshots p due c. HoldRebuild force j \<in> set es \<and> day_of (hi_now j) = day_of (hi_now i)
        \<and> hi_pricing j = Some q \<and> hr_snapshots q = Some snapshots
        \<and> p = (plan_surplus_absorption (absorption_input_of j q snapshots) (hi_now j))\<lparr>ab_min_saving := max 0 (hi_min_saving i)\<rparr>
        \<and> solar_deadline j = Some due \<and> hi_now i < due
        \<and> (case hm_live_target m of Some x \<Rightarrow> x | None \<Rightarrow> ab_target_kwh p) \<le> remaining_absorbable_kwh p (hi_now i) + ABSORPTION_EPSILON
        \<and> slot_at p (hi_now i) = Some c \<and> \<not> ab_selected c
        \<and> list_ex (\<lambda>u. ab_end c \<le> ab_start u \<and> ABSORPTION_EPSILON < absorbable_kwh u
              \<and> export_price u + max 0 (hi_min_saving i) \<le> export_price c) (ab_slots p))"
proof -
  have st: "fst (run hold_step (new_hold_mgr, gates0) es) = m" "snd (run hold_step (new_hold_mgr, gates0) es) = gates"
    using assms(1) by simp_all
  have act: "snd (is_hold_active i gates m)" using assms(2) refresh_hold_block_active by simp
  show ?thesis
  proof (cases rule: is_hold_active_cases [of i gates m])
    case (decided m' plan h why)
    have "cached (hm_cache (fst (new_hold_mgr, gates0))) = None" by (simp add: new_hold_mgr_def)
    from hold.plan_of_today [OF this, of es, unfolded st, OF decided(4,5)] obtain e
      where e: "e \<in> set es" "hold_made_by plan (day_of (hi_now i)) e" by blast
    then obtain force j q snapshots where j: "e = HoldRebuild force j" "hi_pricing j = Some q" "hr_snapshots q = Some snapshots"
      "day_of (hi_now i) = day_of (hi_now j)" "same_plan (plan_surplus_absorption (absorption_input_of j q snapshots) (hi_now j)) plan"
      by (auto simp: hold_made_by_def)
    define made where "made = plan_surplus_absorption (absorption_input_of j q snapshots) (hi_now j)"
    let ?p = "plan\<lparr>ab_min_saving := max 0 (hi_min_saving i)\<rparr>"
    have p: "?p = made\<lparr>ab_min_saving := max 0 (hi_min_saving i)\<rparr>"
      using j(5) unfolding made_def [symmetric] by (cases made; cases plan) (simp add: same_plan_def)
    have "hold_decision (Some ?p) (hi_now i) (opt_num (hm_live_target m)) = (True, why)" using decided(1,8) act by simp
    note means = hold_means [OF this]
    have "ab_status made = AbPlanned" using means unfolding p by simp
    then have d: "ab_deadline made = solar_deadline j" "solar_deadline j \<noteq> None"
      using planned_has_deadline [of "absorption_input_of j q snapshots" "hi_now j"] unfolding made_def [symmetric]
      by (simp_all add: absorption_input_of_def Let_def)
    then obtain due where due: "solar_deadline j = Some due" "hi_now i < due" using means unfolding p by auto
    obtain c where c: "slot_at ?p (hi_now i) = Some c" "\<not> ab_selected c"
      "list_ex (\<lambda>u. ab_end c \<le> ab_start u \<and> ABSORPTION_EPSILON < absorbable_kwh u
              \<and> export_price u + max 0 (hi_min_saving i) \<le> export_price c) (ab_slots ?p)"
      using means by (auto simp: list_ex_iff)
    have t: "(case hm_live_target m of Some x \<Rightarrow> x | None \<Rightarrow> ab_target_kwh ?p) \<le> remaining_absorbable_kwh ?p (hi_now i) + ABSORPTION_EPSILON"
      using means by (cases "hm_live_target m") (simp_all add: opt_num_def finite_val_def num_def)
    show ?thesis
      by (intro conjI exI [of _ force] exI [of _ j] exI [of _ q] exI [of _ snapshots] exI [of _ ?p] exI [of _ due] exI [of _ c])
        (fact decided(2,3,6) e(1) [unfolded j(1)] j(2,3) j(4) [symmetric] p [unfolded made_def] due t c)+
  qed (use act in auto)
qed


section \<open>A worked example\<close>

text \<open>A dear hour followed by a cheap one, 6 kWh of sun, 3 kWh of load to midnight.\<close>

definition sunny_pricing :: hold_pricing where
  "sunny_pricing = \<lparr>hr_in_slot = False, hr_negative_price = False, hr_snapshots = Some (in_batteries sunny_input),
     hr_export_slots = (\<lambda>_. [\<lparr>t_start = 0, t_end = 3600, t_price = 3/10\<rparr>, \<lparr>t_start = 3600, t_end = 7200, t_price = 1/10\<rparr>]),
     hr_evaluation = Some (Some 3, Some 6), hr_forecast = None, hr_fraction = None\<rparr>"

definition sunny_hour :: "time \<Rightarrow> hold_inputs" where
  "sunny_hour t = \<lparr>hi_scope = \<lparr>feature_on = True, predictive_on = True, predictive_paused = False, dynamic_pricing = True\<rparr>,
     hi_delay_enabled = True, hi_pricing = Some sunny_pricing,
     hi_tracker = Some \<lparr>so_t_start = Some 0, so_t_end = Some 2, so_sunrise = None, so_noon = None\<rparr>, hi_slot_active = False,
     hi_curtailment = None, hi_opportunistic_w = 0, hi_weekly = False, hi_force_full = False, hi_protection = False,
     hi_manual_mode = False, hi_any_slot_owned = False, hi_batteries = [(0, False)], hi_charge_power = num 2500,
     hi_margin = num 0, hi_min_saving = 1/20, hi_now = t, hi_tick = t\<rparr>"


lemma hold_from_todays_plan_witness:
  "scope_enabled (hi_scope (sunny_hour 1800))
   \<and> \<not> hm_target_failed (fst (run hold_step (new_hold_mgr, empty_gates) [HoldRebuild False (sunny_hour 0)]))"
proof -
  let ?r = "run hold_step (new_hold_mgr, empty_gates) [HoldRebuild False (sunny_hour 0)]"
  have "HOLD_SOURCE \<in> active (snd (refresh_hold_block (sunny_hour 1800) 0 (fst ?r, snd ?r))) True None"
    unfolding refresh_hold_block_active by code_simp
  from hold_from_todays_plan [OF _ this, of empty_gates "[HoldRebuild False (sunny_hour 0)]"] show ?thesis by simp
qed

text \<open>The cheap hour itself lets the sun in.\<close>

lemma cheap_hour_releases:
  "HOLD_SOURCE \<notin> active (snd (refresh_hold_block (sunny_hour 3600) 0
     (run hold_step (new_hold_mgr, empty_gates) [HoldRebuild False (sunny_hour 0), HoldRefresh (sunny_hour 1800) 0]))) True None"
  unfolding refresh_hold_block_active by code_simp

section \<open>The hold and the reserve\<close>

lemma schedule_selected:
  "ab_status (schedule_absorption q) = AbPlanned \<Longrightarrow> ab_status q \<noteq> AbPlanned \<Longrightarrow>
     ab_selected_slots (schedule_absorption q) = filter ab_selected (ab_slots (schedule_absorption q))"
  "map ab_start (ab_slots (schedule_absorption q)) = map ab_start (ab_slots q)"
  by (auto simp: schedule_absorption_def mark_selected_def Let_def comp_def split: if_splits)

lemma planned_starts:
  assumes "distinct (map slot_start (in_prices x))"
  shows "distinct (map ab_start (ab_slots (plan_surplus_absorption x t)))"
    "ab_status (plan_surplus_absorption x t) = AbPlanned \<Longrightarrow>
       ab_selected_slots (plan_surplus_absorption x t) = filter ab_selected (ab_slots (plan_surplus_absorption x t))"
proof -
  have "distinct (map ab_start (absorption_slots (in_prices x) surplus watts t due))" for surplus watts due
    unfolding absorption_slots_def
    by (rule distinct_map_option_filter [where g = slot_start])
      (auto simp: distinct_sort_key List.distinct_map_filter assms Let_def split: pyfloat.splits)
  then show "distinct (map ab_start (ab_slots (plan_surplus_absorption x t)))"
    by (auto simp: plan_surplus_absorption_def Let_def schedule_selected(2) split: option.split)
  show "ab_status (plan_surplus_absorption x t) = AbPlanned \<Longrightarrow>
       ab_selected_slots (plan_surplus_absorption x t) = filter ab_selected (ab_slots (plan_surplus_absorption x t))"
    by (auto simp: plan_surplus_absorption_def Let_def schedule_selected(1) split: option.splits if_splits)
qed

text \<open>The export slots of a rebuild start at different times.\<close>

fun distinct_export :: "hold_event \<Rightarrow> bool" where
  "distinct_export (HoldRebuild force j) = (case hi_pricing j of None \<Rightarrow> True
     | Some q \<Rightarrow> distinct (map t_start (hr_export_slots q (solar_deadline j))))"
| "distinct_export _ = True"

text \<open>
  C33. What the hold sends to the grid the reserve does not count on: while the hold blocks the
  charge, the plan state it publishes makes the reserve credit no sun to the slot held back.
\<close>

theorem held_sun_is_not_credited:
  assumes "run hold_step (new_hold_mgr, gates0) es = st" and "list_all distinct_export es"
    and "refresh_hold_block i now st = (m', gates')" and "HOLD_SOURCE \<in> active gates' True None"
  shows "\<exists>plan c. cached (hm_cache m') = Some plan \<and> slot_at plan (hi_now i) = Some c
    \<and> creditable_kwh charge_power (hold_plan_state m' (day_of (hi_now i))) \<lparr>slot_start = ab_start c, slot_end = e, slot_price = x\<rparr> raw = 0"
proof -
  have act: "snd (is_hold_active i (snd st) (fst st))" and m': "m' = fst (is_hold_active i (snd st) (fst st))"
    using assms(3,4) refresh_hold_block_active [of i now st] by (auto simp: refresh_hold_block_def Let_def split_beta)
  show ?thesis
  proof (cases rule: is_hold_active_cases [of i "snd st" "fst st"])
    case (decided m1 plan h why)
    have "cached (hm_cache (fst (new_hold_mgr, gates0))) = None" by (simp add: new_hold_mgr_def)
    from hold.plan_from_rebuild [OF this, of es, unfolded assms(1), OF decided(4)] obtain day e
      where e: "cached_day (hm_cache (fst st)) = Some day" "e \<in> set es" "hold_made_by plan day e" by blast
    obtain force j q snapshots where j: "e = HoldRebuild force j" "hi_pricing j = Some q"
      "same_plan (plan_surplus_absorption (absorption_input_of j q snapshots) (hi_now j)) plan"
      using e(3) by (auto simp: hold_made_by_def)
    define made where "made = plan_surplus_absorption (absorption_input_of j q snapshots) (hi_now j)"
    let ?p = "plan\<lparr>ab_min_saving := max 0 (hi_min_saving i)\<rparr>"
    have p: "ab_slots ?p = ab_slots made" "ab_selected_slots ?p = ab_selected_slots made" "ab_status ?p = ab_status made"
      using j(3) unfolding made_def [symmetric] by (cases made; cases plan; simp add: same_plan_def)+
    have "hold_decision (Some ?p) (hi_now i) (opt_num (hm_live_target (fst st))) = (True, why)" using decided(1,8) act by simp
    note means = hold_means [OF this]
    then obtain c where c: "slot_at ?p (hi_now i) = Some c" "\<not> ab_selected c" by blast
    have "distinct (map t_start (hr_export_slots q (solar_deadline j)))"
      using assms(2) e(2) j(1,2) by (auto simp: list_all_iff)
    then have "distinct (map slot_start (in_prices (absorption_input_of j q snapshots)))"
      by (simp add: absorption_input_of_def Let_def comp_def as_price_def)
    note starts = planned_starts [OF this, of "hi_now j", folded made_def]
    have "c \<in> set (ab_slots made)" using c(1) p(1) by (auto simp: slot_at_def find_Some_iff)
    moreover have "ab_selected_slots made = filter ab_selected (ab_slots made)" using starts(2) means p(3) by simp
    ultimately have out: "ab_start c \<in> ab_start ` set (ab_slots ?p)" "ab_start c \<notin> ab_start ` set (ab_selected_slots ?p)"
      using starts(1) c(2) p by (auto simp: distinct_map dest: inj_onD)
    have f: "hm_target_failed m' = hm_target_failed (fst st)"
      using decided(1,8) m' act by (auto simp: is_hold_active_def Let_def decided(2-6))
    have day: "day = day_of (hi_now i)" using decided(5) e(1) by (simp add: of_another_day_def)
    have cache: "hm_cache m' = (hm_cache (fst st))\<lparr>cached := Some ?p\<rparr>" using decided(1,7) m' by simp
    have "hold_plan_state m' (day_of (hi_now i)) = Some (map ab_start (ab_slots ?p), map ab_start (ab_selected_slots ?p))"
      using means e(1) decided(6) by (simp add: hold_plan_state_def cache f day)
    then show ?thesis using c(1) out cache
      by (intro exI [of _ ?p] exI [of _ c]) (simp add: creditable_kwh_def)
  qed (use act in auto)
qed

lemma held_sun_is_not_credited_witness:
  "creditable_kwh 2500 (hold_plan_state (fst (refresh_hold_block (sunny_hour 1800) 0
     (run hold_step (new_hold_mgr, empty_gates) [HoldRebuild False (sunny_hour 0)]))) 0)
     \<lparr>slot_start = 0, slot_end = 3600, slot_price = Fin (3/10)\<rparr> 2 = 0"
proof -
  let ?st = "run hold_step (new_hold_mgr, empty_gates) [HoldRebuild False (sunny_hour 0)]"
  let ?r = "refresh_hold_block (sunny_hour 1800) 0 ?st"
  have "list_all distinct_export [HoldRebuild False (sunny_hour 0)]" by code_simp
  moreover have "HOLD_SOURCE \<in> active (snd ?r) True None" unfolding refresh_hold_block_active by code_simp
  ultimately obtain plan c where c: "cached (hm_cache (fst ?r)) = Some plan" "slot_at plan (hi_now (sunny_hour 1800)) = Some c"
    "creditable_kwh 2500 (hold_plan_state (fst ?r) (day_of (hi_now (sunny_hour 1800))))
       \<lparr>slot_start = ab_start c, slot_end = 3600, slot_price = Fin (3/10)\<rparr> 2 = 0"
    using held_sun_is_not_credited [OF refl _ prod.collapse [symmetric]] by blast
  have "map_option ab_start (slot_at (the (cached (hm_cache (fst ?r)))) 1800) = Some 0" by code_simp
  moreover have "hi_now (sunny_hour 1800) = 1800" "day_of 1800 = 0" by (simp add: sunny_hour_def) code_simp
  ultimately show ?thesis using c by simp
qed

end
