(* ===== verification/Export_Control.thy ===== *)
theory Export_Control
  imports Reserve_Control High_Price
begin

text \<open>
  The manager of deliberate export at high prices (\<open>control/high_price_discharge.py\<close>), which
  \<open>_refresh_operation_blockers\<close> calls last: the gate, the configuration, the horizon built
  from prices, forecast and learned consumption, the refill window, the cached plan and its
  rebuild, the guards, and the setpoint override of the cycle. Times are naive local ones; the
  zone that carries them into the planner is a function of the input, as are the answers of
  the pricing engine. Settings are numbers, an absent one 0; prices and forecasts are finite.
\<close>

section \<open>State and inputs\<close>

definition EXPORT_SOURCE :: string where "EXPORT_SOURCE = ''high_price_discharge''"

definition EXPORT_PRIORITY :: int where "EXPORT_PRIORITY = 4"

definition SOLAR_REFRESH_INTERVAL_S :: rat where "SOLAR_REFRESH_INTERVAL_S = 1800"

datatype export_guard = GuardNoPricing | GuardChargeOrder | GuardWeeklyFull | GuardCurtailed
  | GuardCapacity | GuardManualControl | GuardDischargeBlocked | GuardGridMeter

datatype export_state = ExportDisabled | ExportInvalid | ExportNoData | ExportBlocked | ExportWaiting | ExportActive

datatype export_reason = ExportNotEnabled | NoMaxPower | NoExportPlan | PlanSays hp_reason | GuardSays export_guard
  | NoAllocationNow | HighPriceSlot | ReleasedFor string

record export_config =
  xc_power :: rat
  xc_cost :: rat
  xc_trigger_2 :: bool
  xc_trigger_1 :: bool
  xc_margin :: pyfloat
  xc_chronological :: bool

record export_status =
  xs_state :: export_state
  xs_reason :: export_reason
  xs_target :: "rat option"
  xs_plan :: "hp_plan option"

text \<open>The forecast periods: start in local time and energy, \<open>None\<close> where one cannot be read.\<close>

type_synonym wh_periods = "(time option \<times> rat option) list"

record export_mgr =
  xm_plan :: "hp_plan option"
  xm_rebuilt :: "rat option"
  xm_config :: "export_config option"
  xm_solar :: wh_periods
  xm_solar_fetched :: "rat option"
  xm_fetching :: bool
  xm_status :: export_status

definition new_export_mgr :: export_mgr where
  "new_export_mgr = \<lparr>xm_plan = None, xm_rebuilt = None, xm_config = None, xm_solar = [], xm_solar_fetched = None,
     xm_fetching = False, xm_status = \<lparr>xs_state = ExportDisabled, xs_reason = ExportNotEnabled, xs_target = None, xs_plan = None\<rparr>\<rparr>"

text \<open>\<open>xp_in_slot\<close>: in a charging slot, or the question failed; \<open>xp_snapshots\<close>: \<open>None\<close> if it raised.\<close>

record export_pricing =
  xp_sunrise :: "int \<Rightarrow> rat option"
  xp_export_slots :: "time \<Rightarrow> tariff_slot list"
  xp_import_slots :: "time \<Rightarrow> tariff_slot list"
  xp_forecast :: "rat option"
  xp_fraction :: fraction_fn
  xp_forecast_configured :: bool
  xp_profile :: "time \<Rightarrow> ((int, pyval list) dict \<times> pyval list) option"
  xp_snapshots :: "snapshot list option"
  xp_in_slot :: bool

text \<open>\<open>mt_fresh\<close>: within the stale tolerance, \<open>None\<close> where the state has no time of its report.\<close>

record meter_view =
  mt_sensor :: bool
  mt_value :: "rat option"
  mt_fresh :: "bool option"

record export_inputs =
  xi_trigger_2 :: bool
  xi_trigger_1 :: bool
  xi_predictive_on :: bool
  xi_predictive_paused :: bool
  xi_dynamic_pricing :: bool
  xi_power :: pyfloat
  xi_cost :: pyfloat
  xi_margin :: pyfloat
  xi_reserve_enabled :: bool
  xi_efficiency :: pyfloat
  xi_pricing :: "export_pricing option"
  xi_slot_active :: bool
  xi_force_full :: bool
  xi_weekly :: bool
  xi_curtailment :: "string option"
  xi_protection :: bool
  xi_manual_mode :: bool
  xi_any_slot_owned :: bool
  xi_meter :: meter_view
  xi_zone :: "time \<Rightarrow> time"
  xi_now :: time
  xi_tick :: rat

definition export_scope :: "export_inputs \<Rightarrow> plan_scope" where
  "export_scope i = \<lparr>feature_on = xi_trigger_2 i \<or> xi_trigger_1 i, predictive_on = xi_predictive_on i,
     predictive_paused = xi_predictive_paused i, dynamic_pricing = xi_dynamic_pricing i\<rparr>"

definition export_config_of :: "export_inputs \<Rightarrow> export_config option" where
  "export_config_of i = (case (xi_power i, xi_cost i) of
     (Fin w, Fin c) \<Rightarrow> (if w \<le> 0 \<or> c < 0 then None
        else Some \<lparr>xc_power = w, xc_cost = c, xc_trigger_2 = xi_trigger_2 i, xc_trigger_1 = xi_trigger_1 i,
               xc_margin = xi_margin i, xc_chronological = \<not> xi_reserve_enabled i\<rparr>)
   | _ \<Rightarrow> None)"

section \<open>The horizon\<close>

definition import_price :: "tariff_slot list \<Rightarrow> tariff_slot \<Rightarrow> rat option" where
  "import_price import_slots s =
     (let overlapping = map t_price (filter (\<lambda>x. t_start x < t_end s \<and> t_start s < t_end x) import_slots)
      in if overlapping = [] then None else Some (Max (set overlapping)))"

text \<open>The night after the last published price: a slot without a price.\<close>

definition unpriced_slot :: "time \<Rightarrow> time \<Rightarrow> price_slot" where
  "unpriced_slot a b = \<lparr>slot_start = a, slot_end = b, slot_price = NaN\<rparr>"

definition build_horizon :: "(time \<Rightarrow> time) \<Rightarrow> export_pricing \<Rightarrow> time \<Rightarrow> horizon_slot list" where
  "build_horizon zone q horizon_end =
     (let slots = xp_export_slots q horizon_end; import_slots = xp_import_slots q horizon_end in
      if slots = [] \<or> import_slots = [] then []
      else if xp_forecast q = None \<and> xp_forecast_configured q then []
      else (let (forecast, fraction) = (case xp_forecast q of None \<Rightarrow> (0, None) | Some kwh \<Rightarrow> (kwh, xp_fraction q));
                solar = distribute_solar_forecast slots (num forecast) fraction True;
                priced_end = Max (set (map t_end slots));
                tail = (if priced_end < horizon_end then [unpriced_slot priced_end horizon_end] else [])
            in case xp_profile q horizon_end of
                None \<Rightarrow> []
              | Some (dated, flat) \<Rightarrow>
                  (let consumption = consumption_by_slot (map as_price slots @ tail) dated flat in
                   if consumption = [] then []
                   else map (\<lambda>s. \<lparr>hz_start = Some (zone (t_start s)), hz_end = Some (zone (t_end s)), hz_export = Some (t_price s),
                            hz_import = import_price import_slots s,
                            hz_consumption = Some (known (dict_get None consumption (as_price s))),
                            hz_solar = Some (dict_get 0 solar s)\<rparr>) slots
                     @ map (\<lambda>s. \<lparr>hz_start = Some (zone (slot_start s)), hz_end = Some (zone (slot_end s)), hz_export = None,
                            hz_import = None, hz_consumption = Some (known (dict_get None consumption s)), hz_solar = Some 0\<rparr>) tail)))"

section \<open>The refill window\<close>

definition period_length :: "(time \<times> rat) list \<Rightarrow> time" where
  "period_length entries =
     (let gaps = filter (\<lambda>d. 0 < d) (map2 (\<lambda>(a, _) (b, _). b - a) entries (tl entries))
      in if gaps = [] then 3600 else Min (set gaps))"

definition period_overlap :: "time \<Rightarrow> time \<Rightarrow> time \<Rightarrow> time \<Rightarrow> rat" where
  "period_overlap start stop moment period = max 0 (min stop (moment + period) - max start moment)"

definition solar_wh_by_slot :: "tariff_slot list \<Rightarrow> wh_periods \<Rightarrow> time \<Rightarrow> (tariff_slot, rat) dict" where
  "solar_wh_by_slot slots wh_hours horizon_end =
     (let entries = sort (List.map_filter (\<lambda>(t, wh). case (t, wh) of (Some m, Some x) \<Rightarrow> Some (m, x) | _ \<Rightarrow> None) wh_hours) in
      if entries = [] then []
      else (let period = period_length entries; covered_end = fst (last entries) + period
            in dict_of (\<lambda>s. sum_list (map (\<lambda>(m, wh).
                     wh * period_overlap (max (t_start s) horizon_end) (t_end s) m period / period) entries) / 1000)
                 (filter (\<lambda>s. max (t_start s) horizon_end < t_end s \<and> max (t_start s) horizon_end < covered_end) slots)))"

definition build_fill_slots :: "(time \<Rightarrow> time) \<Rightarrow> export_pricing \<Rightarrow> wh_periods \<Rightarrow> time \<Rightarrow> horizon_slot list" where
  "build_fill_slots zone q wh_hours horizon_end =
     (if wh_hours = [] then []
      else (let slots = sort_key t_start (filter (\<lambda>s. horizon_end < t_end s) (xp_export_slots q (horizon_end + 86400)));
                solar = solar_wh_by_slot slots wh_hours horizon_end;
                covered = map fst solar
            in if solar = [] \<or> horizon_end < t_start (hd slots) then []
               else if \<not> successively (\<lambda>a b. t_end a = t_start b) covered then []
               else (case xp_profile q (t_end (last covered)) of
                   None \<Rightarrow> []
                 | Some (dated, flat) \<Rightarrow>
                     (let consumption = consumption_by_slot (map as_price covered) dated flat in
                      if consumption = [] then []
                      else map (\<lambda>s. \<lparr>hz_start = Some (zone (max (t_start s) horizon_end)), hz_end = Some (zone (t_end s)),
                             hz_export = Some (t_price s), hz_import = None,
                             hz_consumption = Some (known (dict_get None consumption (as_price s))
                               * ((t_end s - max (t_start s) horizon_end) / (t_end s - t_start s))),
                             hz_solar = Some (dict_get 0 solar s)\<rparr>) covered))))"

section \<open>The plan\<close>

text \<open>Before sunrise the night ends at today's sunrise, after it at tomorrow's.\<close>

definition protected_until :: "export_pricing \<Rightarrow> time \<Rightarrow> time" where
  "protected_until q now =
     (let t = energy_horizon_end (xp_sunrise q) (now - 86400)
      in if t \<le> now then energy_horizon_end (xp_sunrise q) now else t)"

definition export_request :: "export_inputs \<Rightarrow> export_config \<Rightarrow> export_pricing \<Rightarrow> wh_periods \<Rightarrow> snapshot list \<Rightarrow> hp_request" where
  "export_request i cfg q wh_hours snapshots =
     (let t = protected_until q (xi_now i)
      in \<lparr>hp_slots = build_horizon (xi_zone i) q t, hp_batteries = snapshots, hp_now = Some (xi_zone i (xi_now i)),
          hp_horizon = Some (xi_zone i t), hp_enabled = xc_trigger_2 cfg, hp_trigger_1 = xc_trigger_1 cfg,
          hp_cost = num (xc_cost cfg), hp_max_export = Some (num (xc_power cfg)),
          hp_efficiency = VFloat (if xi_efficiency i = Fin 0 then Fin 1 else xi_efficiency i),
          hp_margin = VFloat (xc_margin cfg),
          hp_fill_slots = (if xc_trigger_1 cfg then build_fill_slots (xi_zone i) q wh_hours t else []),
          hp_chronological = xc_chronological cfg\<rparr>)"

text \<open>Two configurations compare equal; NaN does not equal itself.\<close>

definition same_config :: "export_config option \<Rightarrow> export_config \<Rightarrow> bool" where
  "same_config c cfg = (c = Some cfg \<and> xc_margin cfg \<noteq> NaN)"

definition maybe_rebuild :: "export_inputs \<Rightarrow> export_config \<Rightarrow> export_mgr \<Rightarrow> export_mgr" where
  "maybe_rebuild i cfg m =
     (let fetch = xc_trigger_1 cfg \<and> (case xm_solar_fetched m of None \<Rightarrow> True | Some t \<Rightarrow> SOLAR_REFRESH_INTERVAL_S \<le> xi_tick i - t);
          m = (if fetch then m\<lparr>xm_fetching := True\<rparr> else m);
          due = (xm_plan m = None \<or> \<not> same_config (xm_config m) cfg
             \<or> (case xm_rebuilt m of None \<Rightarrow> True | Some t \<Rightarrow> REBUILD_INTERVAL_S \<le> xi_tick i - t))
      in if \<not> due then m
         else m\<lparr>xm_rebuilt := Some (xi_tick i), xm_config := Some cfg,
                xm_plan := (case xi_pricing i of None \<Rightarrow> None
                  | Some q \<Rightarrow> map_option (\<lambda>snapshots. plan_high_price_discharge (export_request i cfg q (xm_solar m) snapshots))
                      (xp_snapshots q))\<rparr>)"

section \<open>The guards\<close>

definition grid_meter_ok :: "meter_view \<Rightarrow> bool" where
  "grid_meter_ok v = (mt_sensor v \<and> mt_value v \<noteq> None \<and> mt_fresh v \<noteq> Some False)"

definition block_guard :: "export_inputs \<Rightarrow> gate_state \<Rightarrow> export_guard option" where
  "block_guard i gates = (case xi_pricing i of
     None \<Rightarrow> Some GuardNoPricing
   | Some q \<Rightarrow>
      (if xp_in_slot q \<or> xi_slot_active i then Some GuardChargeOrder
       else if xi_force_full i \<or> xi_weekly i then Some GuardWeeklyFull
       else if curtailment_acts (xi_curtailment i) then Some GuardCurtailed
       else if xi_protection i then Some GuardCapacity
       else if xi_manual_mode i \<or> xi_any_slot_owned i then Some GuardManualControl
       else if is_discharge_blocked gates None False then Some GuardDischargeBlocked
       else if \<not> grid_meter_ok (xi_meter i) then Some GuardGridMeter
       else None))"

section \<open>The override of a cycle\<close>

definition release_export :: "export_state \<Rightarrow> export_reason \<Rightarrow> export_mgr \<times> gate_state \<Rightarrow> export_mgr \<times> gate_state" where
  "release_export s why st =
     ((fst st)\<lparr>xm_status := \<lparr>xs_state = s, xs_reason = why, xs_target = None, xs_plan = xm_plan (fst st)\<rparr>\<rparr>,
      remove_setpoint_override EXPORT_SOURCE (snd st))"

definition refresh_override :: "export_inputs \<Rightarrow> export_mgr \<times> gate_state \<Rightarrow> export_mgr \<times> gate_state" where
  "refresh_override i st =
     (if \<not> scope_enabled (export_scope i) then release_export ExportDisabled ExportNotEnabled st
      else (case export_config_of i of
          None \<Rightarrow> release_export ExportInvalid NoMaxPower st
        | Some cfg \<Rightarrow>
           (let m = maybe_rebuild i cfg (fst st); st1 = (m, snd st) in
            case xm_plan m of
              None \<Rightarrow> release_export ExportNoData NoExportPlan st1
            | Some plan \<Rightarrow>
               (if hp_status plan = HpFailSafe then release_export ExportNoData (PlanSays (hp_reason plan)) st1
                else (case block_guard i (snd st) of
                    Some g \<Rightarrow> release_export ExportBlocked (GuardSays g) st1
                  | None \<Rightarrow>
                     (let waiting = (if hp_status plan \<noteq> HpPlanned then PlanSays (hp_reason plan) else NoAllocationNow) in
                      case sale_at plan (xi_zone i (xi_now i)) of
                        None \<Rightarrow> release_export ExportWaiting waiting st1
                      | Some a \<Rightarrow>
                         (if sl_power a \<le> 0 then release_export ExportWaiting waiting st1
                          else (m\<lparr>xm_status := \<lparr>xs_state = ExportActive, xs_reason = HighPriceSlot, xs_target = Some (- sl_power a), xs_plan = Some plan\<rparr>\<rparr>,
                                set_setpoint_override EXPORT_SOURCE (- sl_power a) EXPORT_PRIORITY (snd st)))))))))"

definition clear_export :: "string \<Rightarrow> export_mgr \<times> gate_state \<Rightarrow> export_mgr \<times> gate_state" where
  "clear_export why st = release_export ExportDisabled (ReleasedFor why) st"

text \<open>The end of \<open>_fetch_solar_forecast\<close>; what the platform answered is its argument.\<close>

definition solar_fetched :: "wh_periods \<Rightarrow> rat \<Rightarrow> export_mgr \<Rightarrow> export_mgr" where
  "solar_fetched wh_hours tick m =
     m\<lparr>xm_solar := wh_hours, xm_solar_fetched := Some tick, xm_rebuilt := None, xm_fetching := False\<rparr>"

text \<open>\<open>GatesMove\<close>: everything else that changes the registries.\<close>

datatype export_event = ExportCycle export_inputs | SolarFetched wh_periods rat | ExportClear string | GatesMove gate_state

fun export_step :: "export_mgr \<times> gate_state \<Rightarrow> export_event \<Rightarrow> export_mgr \<times> gate_state" where
  "export_step st (ExportCycle i) = refresh_override i st"
| "export_step st (SolarFetched wh_hours tick) = (solar_fetched wh_hours tick (fst st), snd st)"
| "export_step st (ExportClear why) = clear_export why st"
| "export_step st (GatesMove gates) = (fst st, gates)"

section \<open>What an export rests on\<close>

text \<open>The plan of a manager with a rebuild time is what a cycle of that time planned.\<close>

definition planned_at :: "export_inputs \<Rightarrow> export_config \<Rightarrow> hp_plan \<Rightarrow> bool" where
  "planned_at j cfg p = (\<exists>q wh_hours snapshots. xi_pricing j = Some q \<and> xp_snapshots q = Some snapshots
     \<and> p = plan_high_price_discharge (export_request j cfg q wh_hours snapshots))"

definition sound_export :: "export_event set \<Rightarrow> export_mgr \<times> gate_state \<Rightarrow> bool" where
  "sound_export E st = (\<forall>p t. xm_plan (fst st) = Some p \<longrightarrow> xm_rebuilt (fst st) = Some t \<longrightarrow>
     (\<exists>j cfg. ExportCycle j \<in> E \<and> xi_tick j = t \<and> xm_config (fst st) = Some cfg \<and> planned_at j cfg p))"

lemma maybe_rebuild_cases:
  obtains (kept) t where "xm_plan (maybe_rebuild i cfg m) = xm_plan m" "xm_config (maybe_rebuild i cfg m) = Some cfg"
      "xm_config m = Some cfg" "xm_rebuilt (maybe_rebuild i cfg m) = Some t" "xm_rebuilt m = Some t" "xi_tick i - t < REBUILD_INTERVAL_S"
  | (rebuilt) "xm_config (maybe_rebuild i cfg m) = Some cfg" "xm_rebuilt (maybe_rebuild i cfg m) = Some (xi_tick i)"
      "\<And>p. xm_plan (maybe_rebuild i cfg m) = Some p \<Longrightarrow> planned_at i cfg p"
proof (cases "xm_plan m = None \<or> \<not> same_config (xm_config m) cfg
    \<or> (case xm_rebuilt m of None \<Rightarrow> True | Some t \<Rightarrow> REBUILD_INTERVAL_S \<le> xi_tick i - t)")
  case True
  have "planned_at i cfg p" if "xm_plan (maybe_rebuild i cfg m) = Some p" for p
    using that True unfolding planned_at_def
    by (cases "xi_pricing i") (auto simp: maybe_rebuild_def Let_def split: if_splits)
  moreover have "xm_config (maybe_rebuild i cfg m) = Some cfg \<and> xm_rebuilt (maybe_rebuild i cfg m) = Some (xi_tick i)"
    using True by (auto simp: maybe_rebuild_def Let_def)
  ultimately show ?thesis using rebuilt by blast
next
  case False
  then obtain t where "xm_rebuilt m = Some t" "xi_tick i - t < REBUILD_INTERVAL_S" "xm_config m = Some cfg"
    by (auto simp: same_config_def split: option.splits)
  then show ?thesis using False by (intro kept) (auto simp: maybe_rebuild_def Let_def)
qed

lemma sound_rebuild:
  assumes "sound_export E st" "ExportCycle i \<in> E"
  shows "sound_export E (maybe_rebuild i cfg (fst st), g)"
  using maybe_rebuild_cases [of i cfg "fst st"] assms unfolding sound_export_def fst_conv
  by cases (metis, metis option.inject)

lemma release_export_fields [simp]:
  "xm_plan (fst (release_export s w st)) = xm_plan (fst st)" "xm_rebuilt (fst (release_export s w st)) = xm_rebuilt (fst st)"
  "xm_config (fst (release_export s w st)) = xm_config (fst st)"
  "map_of (setpoint_overrides (snd (release_export s w st))) EXPORT_SOURCE = None"
  by (simp_all add: release_export_def remove_setpoint_override_def delete_conv')

lemma sound_same:
  "xm_plan (fst st') = xm_plan (fst st) \<Longrightarrow> xm_rebuilt (fst st') = xm_rebuilt (fst st) \<Longrightarrow> xm_config (fst st') = xm_config (fst st)
     \<Longrightarrow> sound_export E st' = sound_export E st"
  by (simp add: sound_export_def)

text \<open>A cycle either exports one sale of its plan, or leaves no override.\<close>

lemma refresh_override_cases:
  obtains (none) m where "map_of (setpoint_overrides (snd (refresh_override i st))) EXPORT_SOURCE = None"
      "xm_plan (fst (refresh_override i st)) = xm_plan m" "xm_rebuilt (fst (refresh_override i st)) = xm_rebuilt m"
      "xm_config (fst (refresh_override i st)) = xm_config m" "m = fst st \<or> (\<exists>cfg. m = maybe_rebuild i cfg (fst st))"
  | (exports) cfg p a where "scope_enabled (export_scope i)" "export_config_of i = Some cfg" "block_guard i (snd st) = None"
      "xm_plan (maybe_rebuild i cfg (fst st)) = Some p" "sale_at p (xi_zone i (xi_now i)) = Some a" "0 < sl_power a"
      "map_of (setpoint_overrides (snd (refresh_override i st))) EXPORT_SOURCE = Some (EXPORT_PRIORITY, - sl_power a)"
      "xm_plan (fst (refresh_override i st)) = Some p"
      "xm_rebuilt (fst (refresh_override i st)) = xm_rebuilt (maybe_rebuild i cfg (fst st))"
      "xm_config (fst (refresh_override i st)) = xm_config (maybe_rebuild i cfg (fst st))"
proof (cases "scope_enabled (export_scope i) \<and> export_config_of i \<noteq> None")
  case False
  then show ?thesis using none [of "fst st"] by (cases "scope_enabled (export_scope i)") (auto simp: refresh_override_def)
next
  case True
  then obtain cfg where c: "scope_enabled (export_scope i)" "export_config_of i = Some cfg" by blast
  let ?m = "maybe_rebuild i cfg (fst st)"
  show ?thesis
  proof (cases "\<exists>p a. xm_plan ?m = Some p \<and> hp_status p \<noteq> HpFailSafe \<and> block_guard i (snd st) = None
      \<and> sale_at p (xi_zone i (xi_now i)) = Some a \<and> 0 < sl_power a")
    case True
    then obtain p a where pa: "xm_plan ?m = Some p" "hp_status p \<noteq> HpFailSafe" "block_guard i (snd st) = None"
      "sale_at p (xi_zone i (xi_now i)) = Some a" "0 < sl_power a" by blast
    show ?thesis
      by (rule exports [OF c pa(3,1,4,5)])
        (use c pa in \<open>simp_all add: refresh_override_def Let_def set_setpoint_override_def update_conv'\<close>)
  next
    case False
    show ?thesis
      by (rule none [of ?m])
        (use False c in \<open>auto simp: refresh_override_def Let_def not_less split: option.split\<close>)
  qed
qed

lemma sound_export_step:
  assumes "sound_export E st" "e \<in> E"
  shows "sound_export E (export_step st e)"
proof (cases e)
  case (ExportCycle i)
  note sound = sound_rebuild [OF assms(1), of i _ undefined]
  show ?thesis
  proof (cases rule: refresh_override_cases [of i st])
    case (none m)
    then have "sound_export E (m, undefined)"
      using sound assms ExportCycle sound_same [of "(fst st, undefined)" st] by auto
    then show ?thesis using none ExportCycle sound_same [of "refresh_override i st" "(m, undefined)"] by simp
  next
    case (exports cfg p a)
    then show ?thesis using sound [of cfg] assms(2) ExportCycle sound_same [of "refresh_override i st" "(maybe_rebuild i cfg (fst st), undefined)"] by simp
  qed
next
  case (ExportClear why)
  then show ?thesis using assms(1) sound_same [of "clear_export why st" st] by (simp add: clear_export_def)
qed (use assms(1) in \<open>simp_all add: sound_export_def solar_fetched_def\<close>)

interpretation exporting: invariant_machine export_step "sound_export E" "\<lambda>e. e \<in> E" for E
  by unfold_locales (rule sound_export_step)

text \<open>The power of a sale stays under the configured limit.\<close>

lemma planned_power:
  assumes "planned_at j cfg p" "a \<in> set (hp_sales p)" "0 < xc_power cfg"
  shows "sl_power a \<le> xc_power cfg \<and> (\<exists>q. xi_pricing j = Some q \<and> build_horizon (xi_zone j) q (protected_until q (xi_now j)) \<noteq> [])"
proof -
  obtain q wh_hours snapshots where q: "xi_pricing j = Some q" "p = plan_high_price_discharge (export_request j cfg q wh_hours snapshots)"
    using assms(1) by (auto simp: planned_at_def)
  let ?r = "export_request j cfg q wh_hours snapshots"
  obtain g where g: "hp_check ?r = Inr g" using plan_refused [of ?r] q(2) assms(2) by (cases "hp_check ?r") auto
  have c: "fg_ceiling g = Some (xc_power cfg)"
    using g assms(3) by (auto simp: hp_check_def hp_ceiling_def export_request_def Let_def split: if_splits option.splits)
  obtain s where s: "s \<in> set (fg_working g)" "sl_power a \<le> max 0 (xc_power cfg - max 0 (ws_solar s - ws_consumption s) / slot_hours s * 1000)"
    using sale_power_bounds [OF bspec [OF plan_facts(1) [OF g q(2)] assms(2)]] c by blast
  have "0 \<le> max 0 (ws_solar s - ws_consumption s) / slot_hours s * 1000"
    by (intro mult_nonneg_nonneg divide_nonneg_nonneg) (simp_all add: slot_hours_def hours_between_def)
  then have "sl_power a \<le> xc_power cfg" using s(2) assms(3) by linarith
  moreover have "hp_slots ?r \<noteq> []" using hp_checkD(7,8) [OF g] by (auto simp: trim_slots_def map_filter_simps)
  ultimately show ?thesis using q(1) by (auto simp: export_request_def Let_def)
qed

text \<open>
  C32. An export rests on a fresh plan of the present settings: in every run of cycles, forecast
  fetches, clears and any other changes of the registries, an override that a cycle leaves means
  that the feature is on with a valid configuration and no guard applies to the registries of
  the cycle; its value is the sale covering now, positive and at most the export limit set now,
  in a plan that a cycle less than five minutes before made under this very configuration from
  both price curves, the forecast and the learned consumption.
\<close>

theorem exports_rest_on_a_fresh_plan:
  assumes "run export_step (new_export_mgr, gates0) es = st"
    and "map_of (setpoint_overrides (snd (refresh_override i st))) EXPORT_SOURCE = Some (priority, w)"
  shows "\<exists>cfg j q p a. scope_enabled (export_scope i) \<and> export_config_of i = Some cfg \<and> block_guard i (snd st) = None
    \<and> ExportCycle j \<in> set (es @ [ExportCycle i]) \<and> xi_tick i - xi_tick j < 300
    \<and> planned_at j cfg p \<and> xi_pricing j = Some q \<and> build_horizon (xi_zone j) q (protected_until q (xi_now j)) \<noteq> []
    \<and> sale_at p (xi_zone i (xi_now i)) = Some a \<and> w = - sl_power a \<and> 0 < sl_power a \<and> sl_power a \<le> xc_power cfg"
proof (cases rule: refresh_override_cases [of i st])
  case (exports cfg p a)
  let ?E = "set (es @ [ExportCycle i])" and ?m = "maybe_rebuild i cfg (fst st)"
  have "sound_export ?E (new_export_mgr, gates0)" by (simp add: sound_export_def new_export_mgr_def)
  then have "sound_export ?E st" using exporting.run_inv [of ?E "(new_export_mgr, gates0)" es] assms(1) by simp
  then have sound: "sound_export ?E (?m, undefined)" by (rule sound_rebuild) simp
  have config: "xm_config ?m = Some cfg" and fresh: "\<exists>t. xm_rebuilt ?m = Some t \<and> xi_tick i - t < 300"
    by (cases rule: maybe_rebuild_cases [of i cfg "fst st"]; auto simp: REBUILD_INTERVAL_S_def)+
  from fresh obtain t where t: "xm_rebuilt ?m = Some t" "xi_tick i - t < 300" by blast
  then obtain j where j: "ExportCycle j \<in> ?E" "xi_tick j = t" "planned_at j cfg p"
    using sound exports(4) config unfolding sound_export_def by auto
  have "a \<in> set (hp_sales p)" using exports(5) by (auto simp: sale_at_def find_Some_iff)
  moreover have "0 < xc_power cfg" using exports(2) by (auto simp: export_config_of_def split: pyfloat.splits if_splits)
  ultimately obtain q where "xi_pricing j = Some q" "build_horizon (xi_zone j) q (protected_until q (xi_now j)) \<noteq> []" "sl_power a \<le> xc_power cfg"
    using planned_power [OF j(3)] by blast
  then show ?thesis using exports j t assms(2) by (intro exI [of _ cfg] exI [of _ j] exI [of _ q] exI [of _ p] exI [of _ a]) auto
qed (use assms in auto)

section \<open>The sun of the refill window\<close>

definition one_after_another :: "tariff_slot list \<Rightarrow> bool" where
  "one_after_another slots = sorted_wrt (\<lambda>a b. t_end a \<le> t_start b) slots"

lemma one_after_another_distinct:
  "one_after_another slots \<Longrightarrow> \<forall>s \<in> set slots. t_start s < t_end s \<Longrightarrow> distinct slots"
  unfolding one_after_another_def by (induction slots) fastforce+

lemma overlap_step:
  "r \<le> max 0 (m + period - max (max low stop) m) \<Longrightarrow>
     period_overlap (max start low) stop m period + r \<le> max 0 (m + period - max low m)"
  unfolding period_overlap_def by (auto simp: max_def min_def split: if_splits)

text \<open>Slots that do not overlap share a period between them.\<close>

lemma overlaps_within_period:
  "one_after_another slots \<Longrightarrow>
     sum_list (map (\<lambda>s. period_overlap (max (t_start s) low) (t_end s) m period) slots) \<le> max 0 (m + period - max low m)"
proof (induction slots arbitrary: low)
  case (Cons s ss)
  have eq: "map (\<lambda>x. period_overlap (max (t_start x) low) (t_end x) m period) ss
      = map (\<lambda>x. period_overlap (max (t_start x) (max low (t_end s))) (t_end x) m period) ss"
  proof (intro map_cong refl)
    fix x assume "x \<in> set ss"
    then have "t_end s \<le> t_start x" using Cons.prems by (simp add: one_after_another_def)
    then have "max (t_start x) low = max (t_start x) (max low (t_end s))" by (simp add: max_def)
    then show "period_overlap (max (t_start x) low) (t_end x) m period
        = period_overlap (max (t_start x) (max low (t_end s))) (t_end x) m period" by simp
  qed
  have "one_after_another ss" using Cons.prems by (simp add: one_after_another_def)
  from Cons.IH [OF this, of "max low (t_end s)"] show ?case
    unfolding list.map sum_list.Cons eq by (rule overlap_step)
qed (simp add: one_after_another_def)

lemma period_length_pos: "0 < period_length entries"
proof -
  define gaps where "gaps = filter (\<lambda>d. 0 < d) (map2 (\<lambda>(a, _) (b, _). b - a) entries (tl entries))"
  have "Min (set gaps) \<in> set gaps" if "gaps \<noteq> []" using that by (intro Min_in) auto
  then have "gaps \<noteq> [] \<Longrightarrow> 0 < Min (set gaps)" unfolding gaps_def by auto
  then show ?thesis by (simp add: period_length_def gaps_def [symmetric])
qed

lemma sum_list_swap:
  "sum_list (map (\<lambda>x. sum_list (map (f x) ys)) xs) = sum_list (map (\<lambda>y. sum_list (map (\<lambda>x. f x y) xs)) ys)"
  for f :: "'a \<Rightarrow> 'b \<Rightarrow> rat"
  by (induction xs) (simp_all add: sum_list_addf)

lemma sum_list_thousandth: "sum_list (map (\<lambda>x. f x / 1000) xs) = sum_list (map f xs) / (1000 :: rat)"
  by (induction xs) (simp_all add: add_divide_distrib)

lemma sum_list_share: "sum_list (map (\<lambda>x. k * f x / p) xs) = k * (sum_list (map f xs) / (p :: rat))"
  by (induction xs) (simp_all add: algebra_simps add_divide_distrib)

text \<open>The periods that can be read, and their energy.\<close>

definition forecast_wh :: "wh_periods \<Rightarrow> rat list" where
  "forecast_wh wh_hours = List.map_filter (\<lambda>(t, wh). if t = None then None else wh) wh_hours"

text \<open>
  C27. The refill is never credited with more sun than is forecast: over slots that do not
  overlap, the sun spread over the window after the horizon is at most the energy of the
  readable forecast periods, whatever their length, order and gaps.
\<close>

theorem refill_sun_within_forecast:
  assumes "one_after_another slots" and "list_all (\<lambda>wh. 0 \<le> wh) (forecast_wh wh_hours)"
  shows "sum_list (map snd (solar_wh_by_slot slots wh_hours horizon_end)) \<le> sum_list (forecast_wh wh_hours) / 1000"
proof -
  let ?read = "\<lambda>(t, wh). case (t, wh) of (Some m, Some x) \<Rightarrow> Some (m, x :: rat) | _ \<Rightarrow> None"
  let ?raw = "List.map_filter ?read wh_hours"
  define entries where "entries = sort ?raw"
  have wh: "forecast_wh wh_hours = map snd ?raw"
    by (induction wh_hours) (auto simp: forecast_wh_def map_filter_simps split: option.splits)
  have total: "sum_list (forecast_wh wh_hours) = sum_list (map snd entries)"
    unfolding wh entries_def by (simp add: sum_list_sort_key [of snd "\<lambda>x. x"])
  have pos: "0 \<le> snd e" if "e \<in> set entries" for e
    using assms(2) that unfolding wh entries_def by (auto simp: list_all_iff)
  show ?thesis
  proof (cases "entries = []")
    case True
    then show ?thesis using total unfolding solar_wh_by_slot_def entries_def [symmetric] by simp
  next
    case False
    let ?p = "period_length entries"
    let ?ok = "\<lambda>s. max (t_start s) horizon_end < t_end s \<and> max (t_start s) horizon_end < fst (last entries) + ?p"
    let ?ss = "filter ?ok slots"
    let ?o = "\<lambda>s e. period_overlap (max (t_start s) horizon_end) (t_end s) (fst e) ?p"
    have after: "one_after_another ?ss" using assms(1) by (simp add: one_after_another_def sorted_wrt_filter)
    have "distinct ?ss" by (rule one_after_another_distinct [OF after]) auto
    then have eq: "sum_list (map snd (solar_wh_by_slot slots wh_hours horizon_end))
        = sum_list (map (\<lambda>s. sum_list (map (\<lambda>e. snd e * ?o s e / ?p) entries)) ?ss) / 1000"
      using False unfolding solar_wh_by_slot_def entries_def [symmetric] Let_def
      by (simp add: dict_of_distinct comp_def case_prod_unfold sum_list_thousandth)
    have "sum_list (map (\<lambda>s. snd e * ?o s e / ?p) ?ss) \<le> snd e" if e: "e \<in> set entries" for e
    proof -
      have "sum_list (map (\<lambda>s. ?o s e) ?ss) \<le> max 0 (fst e + ?p - max horizon_end (fst e))"
        using overlaps_within_period [OF after, of horizon_end "fst e" ?p] by simp
      also have "\<dots> \<le> ?p" using period_length_pos [of entries] by simp
      finally have "sum_list (map (\<lambda>s. ?o s e) ?ss) / ?p \<le> 1" using period_length_pos [of entries] by simp
      then have "snd e * (sum_list (map (\<lambda>s. ?o s e) ?ss) / ?p) \<le> snd e * 1" by (intro mult_left_mono pos e)
      moreover have "sum_list (map (\<lambda>s. snd e * ?o s e / ?p) ?ss) = snd e * (sum_list (map (\<lambda>s. ?o s e) ?ss) / ?p)"
        by (rule sum_list_share)
      ultimately show ?thesis by simp
    qed
    then have "sum_list (map (\<lambda>e. sum_list (map (\<lambda>s. snd e * ?o s e / ?p) ?ss)) entries) \<le> sum_list (map snd entries)"
      by (intro sum_list_mono) simp
    then show ?thesis unfolding eq total sum_list_swap [of _ entries] by (simp add: divide_right_mono)
  qed
qed

section \<open>A worked example\<close>

text \<open>A dear hour, then one whose demand of 1 kWh can be bought back.\<close>

definition dear_pricing :: export_pricing where
  "dear_pricing = \<lparr>xp_sunrise = (\<lambda>_. Some 2),
     xp_export_slots = (\<lambda>_. [\<lparr>t_start = 0, t_end = 3600, t_price = 1/2\<rparr>, \<lparr>t_start = 3600, t_end = 7200, t_price = 1/10\<rparr>]),
     xp_import_slots = (\<lambda>_. [\<lparr>t_start = 0, t_end = 7200, t_price = 1/5\<rparr>]), xp_forecast = None, xp_fraction = None,
     xp_forecast_configured = False, xp_profile = (\<lambda>_. Some ([], replicate 4 (num (1/20)) @ replicate 92 (num (1/4)))),
     xp_snapshots = Some [\<lparr>snap_name = ''a'', soc_pct = VInt 50, capacity_kwh = VInt 10, max_soc_pct = VInt 100,
        floor_soc_pct = VInt 10, max_discharge_power_w = VInt 3000, eligible = True, can_discharge = True\<rparr>],
     xp_in_slot = False\<rparr>"

definition dear_cycle :: export_inputs where
  "dear_cycle = \<lparr>xi_trigger_2 = True, xi_trigger_1 = False, xi_predictive_on = True, xi_predictive_paused = False,
     xi_dynamic_pricing = True, xi_power = Fin 5000, xi_cost = Fin 0, xi_margin = Fin 0, xi_reserve_enabled = False,
     xi_efficiency = Fin 1, xi_pricing = Some dear_pricing, xi_slot_active = False, xi_force_full = False, xi_weekly = False,
     xi_curtailment = None, xi_protection = False, xi_manual_mode = False, xi_any_slot_owned = False,
     xi_meter = \<lparr>mt_sensor = True, mt_value = Some 0, mt_fresh = Some True\<rparr>, xi_zone = (\<lambda>t. t), xi_now = 0, xi_tick = 0\<rparr>"

lemma exports_rest_on_a_fresh_plan_witness:
  "block_guard dear_cycle empty_gates = None \<and> (\<exists>cfg. export_config_of dear_cycle = Some cfg \<and> 1000 \<le> xc_power cfg)"
proof -
  have "map_of (setpoint_overrides (snd (refresh_override dear_cycle (new_export_mgr, empty_gates)))) EXPORT_SOURCE = Some (4, - 1000)"
    by code_simp
  from exports_rest_on_a_fresh_plan [OF _ this, of empty_gates "[]"] show ?thesis by auto
qed

text \<open>A vehicle that stops the discharge withdraws the export in the next cycle.\<close>

lemma blocked_discharge_withdraws:
  "map_of (setpoint_overrides (snd (run export_step (new_export_mgr, empty_gates)
     [ExportCycle dear_cycle, GatesMove (set_operation_block False ''ev_pause'' ''ev_pause'' None None 0 empty_gates),
      ExportCycle dear_cycle]))) EXPORT_SOURCE = None"
  by code_simp

lemma refill_sun_within_forecast_witness:
  "sum_list (map snd (solar_wh_by_slot [\<lparr>t_start = 0, t_end = 3600, t_price = 0\<rparr>, \<lparr>t_start = 3600, t_end = 9000, t_price = 0\<rparr>]
     [(Some 1800, Some 2000), (None, Some 9000), (Some 5400, Some 1000)] 900)) \<le> 3"
  using refill_sun_within_forecast [of "[\<lparr>t_start = 0, t_end = 3600, t_price = 0\<rparr>, \<lparr>t_start = 3600, t_end = 9000, t_price = 0\<rparr>]"
    "[(Some 1800, Some 2000), (None, Some 9000), (Some 5400, Some 1000)]" 900]
  by (simp add: one_after_another_def forecast_wh_def map_filter_simps)

end
