(* ===== verification/Hourly_Balance.thy ===== *)
theory Hourly_Balance
  imports Blockers Time_Slots Curtailment
begin

text \<open>
  The hourly net balance (\<open>tracking/hourly_balance.py\<close>): the energy imported and exported in
  the clock hour, from an external energy sensor or by integrating the grid power, and the
  setpoint offset that brings the hour to its target. Local times are seconds, powers W,
  energies Wh; readings are finite numbers. The saved state is a field of its own, and a
  sensor is seen as its value, unit and class.
\<close>

section \<open>State and inputs\<close>

definition MIN_REMAINING_MIN :: rat where "MIN_REMAINING_MIN = 1"

definition FORCE_RECALC_REMAINING_MIN :: rat where "FORCE_RECALC_REMAINING_MIN = 10"

definition RAMP_IN_MIN :: rat where "RAMP_IN_MIN = 5"

definition EXTERNAL_DETECT_WINDOW_S :: rat where "EXTERNAL_DETECT_WINDOW_S = 50"

definition SAVE_INTERVAL_S :: rat where "SAVE_INTERVAL_S = 300"

definition NET_BALANCE_CANDIDATES :: "string list" where "NET_BALANCE_CANDIDATES = [''sensor.balance_neto'']"

definition BALANCE_SOURCE :: string where "BALANCE_SOURCE = ''hourly_balance''"

datatype ext_mode = SnapshotKwh | SnapshotWh | DirectKwh | DirectWh | PowerW | PowerKw

text \<open>\<open>ev_readable\<close>: neither unavailable nor unknown; \<open>ev_value\<close>: \<open>None\<close> if not a number.\<close>

record ext_view =
  ev_readable :: bool
  ev_value :: "rat option"
  ev_unit :: string
  ev_cumulative :: bool

type_synonym ext_states = "string \<Rightarrow> ext_view option"

record saved_hour =
  sv_hour :: "time option"
  sv_imp :: rat
  sv_exp :: rat
  sv_offset :: rat

record balance_mgr =
  hb_hour :: "int option"
  hb_started :: "time option"
  hb_imp :: rat
  hb_exp :: rat
  hb_last_w :: "rat option"
  hb_last_sample :: "rat option"
  hb_last_offset :: rat
  hb_theoretical :: rat
  hb_block_reason :: "string option"
  hb_last_save :: rat
  hb_ext_sensor :: "string option"
  hb_ext_mode :: "ext_mode option"
  hb_ext_snapshot :: "rat option"
  hb_detected :: bool
  hb_detect_started :: "rat option"
  hb_store :: "saved_hour option"

definition new_balance_mgr :: "saved_hour option \<Rightarrow> balance_mgr" where
  "new_balance_mgr store = \<lparr>hb_hour = None, hb_started = None, hb_imp = 0, hb_exp = 0, hb_last_w = None, hb_last_sample = None,
     hb_last_offset = 0, hb_theoretical = 0, hb_block_reason = None, hb_last_save = 0, hb_ext_sensor = None, hb_ext_mode = None,
     hb_ext_snapshot = None, hb_detected = False, hb_detect_started = None, hb_store = store\<rparr>"

text \<open>A battery: its hysteresis flag, and its SOC where it has data.\<close>

record balance_battery =
  bb_hysteresis :: bool
  bb_soc :: "rat option"
  bb_max_soc :: rat

record balance_inputs =
  bi_enabled :: bool
  bi_manual_mode :: bool
  bi_slots :: "time_slot list"
  bi_weekday :: nat
  bi_clock :: nat
  bi_states :: ext_states
  bi_grid :: "rat option"
  bi_now :: time
  bi_tick :: rat
  bi_target_kwh :: rat
  bi_deadband_kwh :: rat
  bi_max_offset :: rat
  bi_hysteresis :: rat
  bi_batteries :: "balance_battery list"

definition clock_hour :: "time \<Rightarrow> int" where
  "clock_hour t = \<lfloor>t / 3600\<rfloor> mod 24"

definition hour_start :: "time \<Rightarrow> time" where
  "hour_start t = of_int \<lfloor>t / 3600\<rfloor> * 3600"

section \<open>The window and the sources\<close>

text \<open>Enabled slots open the balance on their days; without one it always runs.\<close>

definition in_balance_slot :: "balance_inputs \<Rightarrow> bool" where
  "in_balance_slot i =
     (let slots = filter slot_enabled (bi_slots i) in
      slots = [] \<or> list_ex (\<lambda>s. bi_weekday i \<in> set (days s) \<and> (case (start_time s, end_time s) of
          (Some start, Some finish) \<Rightarrow> start \<le> bi_clock i \<and> bi_clock i \<le> finish | _ \<Rightarrow> False)) slots)"

definition mode_of_unit :: "string \<Rightarrow> bool \<Rightarrow> ext_mode option" where
  "mode_of_unit unit cumulative =
     (if unit = ''kWh'' then Some (if cumulative then SnapshotKwh else DirectKwh)
      else if unit = ''Wh'' then Some (if cumulative then SnapshotWh else DirectWh)
      else if unit = ''W'' then Some PowerW
      else if unit = ''kW'' then Some PowerKw
      else None)"

text \<open>The first candidate of a known unit, and whether every candidate passed was in the states.\<close>

fun find_external :: "ext_states \<Rightarrow> string list \<Rightarrow> (string \<times> ext_mode) option \<times> bool" where
  "find_external states [] = (None, True)"
| "find_external states (c # cs) = (case states c of
     None \<Rightarrow> (fst (find_external states cs), False)
   | Some v \<Rightarrow> (case mode_of_unit (ev_unit v) (ev_cumulative v) of
       None \<Rightarrow> find_external states cs
     | Some mode \<Rightarrow> (Some (c, mode), True)))"

definition detect_external_sensor :: "ext_states \<Rightarrow> rat \<Rightarrow> balance_mgr \<Rightarrow> balance_mgr" where
  "detect_external_sensor states tick m =
     (let begun = (case hb_detect_started m of None \<Rightarrow> tick | Some t \<Rightarrow> t); m = m\<lparr>hb_detect_started := Some begun\<rparr>
      in case find_external states NET_BALANCE_CANDIDATES of
          (Some (c, mode), _) \<Rightarrow> m\<lparr>hb_ext_sensor := Some c, hb_ext_mode := Some mode, hb_detected := True\<rparr>
        | (None, all_found) \<Rightarrow> (if all_found \<or> EXTERNAL_DETECT_WINDOW_S \<le> tick - begun then m\<lparr>hb_detected := True\<rparr> else m))"

definition ext_state :: "ext_states \<Rightarrow> balance_mgr \<Rightarrow> ext_view option" where
  "ext_state states m = (case hb_ext_sensor m of None \<Rightarrow> None | Some c \<Rightarrow>
     (case states c of None \<Rightarrow> None | Some v \<Rightarrow> if ev_readable v then Some v else None))"

text \<open>\<open>_read_external_net_wh\<close>; a snapshot is taken on the first reading.\<close>

definition read_external_net_wh :: "ext_states \<Rightarrow> balance_mgr \<Rightarrow> balance_mgr \<times> rat option" where
  "read_external_net_wh states m = (case ext_state states m of None \<Rightarrow> (m, None)
   | Some v \<Rightarrow> (case ev_value v of None \<Rightarrow> (m, None)
     | Some raw \<Rightarrow> (case hb_ext_mode m of
         Some SnapshotKwh \<Rightarrow> (case hb_ext_snapshot m of None \<Rightarrow> (m\<lparr>hb_ext_snapshot := Some raw\<rparr>, Some 0) | Some s \<Rightarrow> (m, Some ((raw - s) * 1000)))
       | Some SnapshotWh \<Rightarrow> (case hb_ext_snapshot m of None \<Rightarrow> (m\<lparr>hb_ext_snapshot := Some raw\<rparr>, Some 0) | Some s \<Rightarrow> (m, Some (raw - s)))
       | Some DirectKwh \<Rightarrow> (m, Some (raw * 1000))
       | Some DirectWh \<Rightarrow> (m, Some raw)
       | _ \<Rightarrow> (m, None))))"

definition energy_mode :: "balance_mgr \<Rightarrow> bool" where
  "energy_mode m = (hb_ext_sensor m \<noteq> None \<and> hb_ext_mode m \<noteq> Some PowerW \<and> hb_ext_mode m \<noteq> Some PowerKw)"

text \<open>The grid power, import positive; an external sensor counts the export.\<close>

definition power_reading :: "balance_inputs \<Rightarrow> balance_mgr \<Rightarrow> rat option" where
  "power_reading i m =
     (if hb_ext_sensor m = None then bi_grid i
      else (case ext_state (bi_states i) m of None \<Rightarrow> None
        | Some v \<Rightarrow> map_option (\<lambda>x. - (if hb_ext_mode m = Some PowerKw then x * 1000 else x)) (ev_value v)))"

section \<open>The energy of the hour\<close>

definition add_wh :: "rat \<Rightarrow> rat \<times> rat \<Rightarrow> rat \<times> rat" where
  "add_wh wh acc = (if 0 \<le> wh then (fst acc + wh, snd acc) else (fst acc, snd acc - wh))"

text \<open>The trapezoid between two samples, split where the power changes its sign.\<close>

definition trapezoid :: "rat \<Rightarrow> rat \<Rightarrow> rat \<Rightarrow> rat \<times> rat \<Rightarrow> rat \<times> rat" where
  "trapezoid prev next_w dt_h acc =
     (if (0 \<le> prev) = (0 \<le> next_w) then add_wh ((prev + next_w) / 2 * dt_h) acc
      else (let first = dt_h * (\<bar>prev\<bar> / (\<bar>prev\<bar> + \<bar>next_w\<bar>))
            in add_wh (next_w / 2 * (dt_h - first)) (add_wh (prev / 2 * first) acc)))"

definition integrate_power :: "rat \<Rightarrow> rat \<Rightarrow> balance_mgr \<Rightarrow> balance_mgr" where
  "integrate_power w tick m =
     (let acc = (case (hb_last_sample m, hb_last_w m) of
          (Some t, Some prev) \<Rightarrow> trapezoid prev w ((tick - t) / 3600) (hb_imp m, hb_exp m)
        | _ \<Rightarrow> (hb_imp m, hb_exp m))
      in m\<lparr>hb_imp := fst acc, hb_exp := snd acc, hb_last_sample := Some tick, hb_last_w := Some w\<rparr>)"

definition integrate_external :: "ext_states \<Rightarrow> balance_mgr \<Rightarrow> balance_mgr" where
  "integrate_external states m = (case read_external_net_wh states m of
     (m, None) \<Rightarrow> m
   | (m, Some net) \<Rightarrow> m\<lparr>hb_imp := max 0 (- net), hb_exp := max 0 net\<rparr>)"

definition open_hour :: "time \<Rightarrow> balance_mgr \<Rightarrow> balance_mgr" where
  "open_hour now m =
     (if hb_hour m = Some (clock_hour now) then m
      else m\<lparr>hb_hour := Some (clock_hour now), hb_started := Some (hour_start now), hb_imp := 0, hb_exp := 0,
             hb_last_sample := None, hb_last_w := None, hb_last_offset := 0, hb_ext_snapshot := None\<rparr>)"

section \<open>The offset\<close>

definition elapsed_min :: "time \<Rightarrow> balance_mgr \<Rightarrow> rat" where
  "elapsed_min now m = (case hb_started m of None \<Rightarrow> 0 | Some t \<Rightarrow> (now - t) / 60)"

definition remaining_min :: "time \<Rightarrow> balance_mgr \<Rightarrow> rat" where
  "remaining_min now m = max 0 (60 - elapsed_min now m)"

definition fresh_offset :: "balance_inputs \<Rightarrow> balance_mgr \<Rightarrow> rat" where
  "fresh_offset i m =
     (let remaining = remaining_min (bi_now i) m; elapsed = elapsed_min (bi_now i) m;
          missing = bi_target_kwh i * 1000 - (hb_imp m - hb_exp m)
      in if remaining < MIN_REMAINING_MIN then 0
         else if \<bar>missing\<bar> \<le> bi_deadband_kwh i * 1000 then 0
         else (let needed = missing / (remaining / 60);
                   ramped = (if elapsed < RAMP_IN_MIN then needed * (elapsed / RAMP_IN_MIN) else needed)
               in max (- bi_max_offset i) (min (bi_max_offset i) ramped)))"

definition balance_offset :: "balance_inputs \<Rightarrow> balance_mgr \<Rightarrow> rat" where
  "balance_offset i m =
     (let offset = fresh_offset i m
      in if FORCE_RECALC_REMAINING_MIN \<le> remaining_min (bi_now i) m \<and> \<bar>offset - hb_last_offset m\<bar> < bi_hysteresis i
         then hb_last_offset m else offset)"

definition compensation_block_reason :: "gate_state \<Rightarrow> balance_battery list \<Rightarrow> rat \<Rightarrow> string option" where
  "compensation_block_reason gates cs offset =
     (let blockers = fst ` set (get_charge_blockers gates None); with_data = List.map_filter (\<lambda>c. map_option (\<lambda>soc. (soc, bb_max_soc c)) (bb_soc c)) cs
      in if offset \<le> 0 then None
         else if ''charge_delay'' \<in> blockers then Some ''solar_charge_delay''
         else if ''time_slot_charge'' \<in> blockers then Some ''time_slot''
         else if ''ev_pause'' \<in> blockers then Some ''ev_pause''
         else if list_ex bb_hysteresis cs then Some ''hysteresis''
         else if with_data \<noteq> [] \<and> list_all (\<lambda>(soc, limit). limit \<le> soc) with_data then Some ''max_soc''
         else None)"

section \<open>The cycle\<close>

definition clear_offset :: "balance_mgr \<times> gate_state \<Rightarrow> balance_mgr \<times> gate_state" where
  "clear_offset st = ((fst st)\<lparr>hb_last_offset := 0, hb_theoretical := 0, hb_block_reason := None, hb_last_sample := None, hb_last_w := None\<rparr>,
     remove_setpoint_offset BALANCE_SOURCE (snd st))"

definition save_hour :: "balance_mgr \<Rightarrow> balance_mgr" where
  "save_hour m = m\<lparr>hb_store := Some \<lparr>sv_hour = hb_started m, sv_imp = hb_imp m, sv_exp = hb_exp m, sv_offset = hb_last_offset m\<rparr>\<rparr>"

definition apply_offset :: "balance_inputs \<Rightarrow> balance_mgr \<Rightarrow> gate_state \<Rightarrow> balance_mgr \<times> gate_state" where
  "apply_offset i m gates =
     (let offset = balance_offset i m;
          m = m\<lparr>hb_theoretical := offset, hb_block_reason := compensation_block_reason gates (bi_batteries i) offset, hb_last_offset := offset\<rparr>;
          m = (if SAVE_INTERVAL_S \<le> bi_tick i - hb_last_save m then save_hour (m\<lparr>hb_last_save := bi_tick i\<rparr>) else m)
      in (m, set_setpoint_offset BALANCE_SOURCE offset gates))"

definition balance_process :: "balance_inputs \<Rightarrow> balance_mgr \<times> gate_state \<Rightarrow> balance_mgr \<times> gate_state" where
  "balance_process i st =
     (if \<not> bi_enabled i \<or> bi_manual_mode i \<or> \<not> in_balance_slot i then clear_offset st
      else (let m = (if hb_detected (fst st) then fst st else detect_external_sensor (bi_states i) (bi_tick i) (fst st)) in
        if energy_mode m
        then (if ext_state (bi_states i) m = None then (m, snd st)
              else apply_offset i (integrate_external (bi_states i) (open_hour (bi_now i) m)) (snd st))
        else (case power_reading i m of
            None \<Rightarrow> (m\<lparr>hb_last_sample := None, hb_last_w := None\<rparr>, snd st)
          | Some w \<Rightarrow> apply_offset i (integrate_power w (bi_tick i) (open_hour (bi_now i) m)) (snd st))))"

section \<open>Restart\<close>

definition restore_hour :: "time \<Rightarrow> saved_hour option \<Rightarrow> balance_mgr \<Rightarrow> balance_mgr" where
  "restore_hour now stored m = (case stored of None \<Rightarrow> m
   | Some s \<Rightarrow> (if map_option hour_start (sv_hour s) = Some (hour_start now)
       then m\<lparr>hb_imp := sv_imp s, hb_exp := sv_exp s, hb_last_offset := sv_offset s, hb_hour := Some (clock_hour now),
              hb_started := Some (hour_start now)\<rparr>
       else m))"

text \<open>A snapshot sensor is primed so that its next reading gives the restored net.\<close>

definition prime_snapshot :: "ext_states \<Rightarrow> balance_mgr \<Rightarrow> balance_mgr" where
  "prime_snapshot states m =
     (let scale = (if hb_ext_mode m = Some SnapshotKwh then 1000 else 1) in
      if (hb_ext_mode m = Some SnapshotKwh \<or> hb_ext_mode m = Some SnapshotWh) \<and> hb_hour m \<noteq> None
      then (case ext_state states m of None \<Rightarrow> m
        | Some v \<Rightarrow> (case ev_value v of None \<Rightarrow> m
          | Some raw \<Rightarrow> m\<lparr>hb_ext_snapshot := Some (raw - (- (hb_imp m - hb_exp m)) / scale)\<rparr>))
      else m)"

definition balance_setup :: "ext_states \<Rightarrow> time \<Rightarrow> rat \<Rightarrow> saved_hour option \<Rightarrow> balance_mgr" where
  "balance_setup states now tick stored =
     prime_snapshot states (detect_external_sensor states tick (restore_hour now stored (new_balance_mgr stored)))"

definition state_label :: "balance_inputs \<Rightarrow> balance_mgr \<Rightarrow> string" where
  "state_label i m =
     (if \<not> in_balance_slot i then ''out_of_slot''
      else if hb_hour m = None then ''idle''
      else if hb_block_reason m \<noteq> None then ''compensation_stopped''
      else if bi_max_offset i - 1/2 \<le> \<bar>hb_theoretical m\<bar> then ''capped''
      else if 0 < hb_theoretical m then ''compensating_import''
      else if hb_theoretical m < 0 then ''compensating_export''
      else ''idle'')"

text \<open>A restart loses the registries and keeps the store.\<close>

datatype balance_event = BalanceCycle balance_inputs | BalanceClear | BalanceUnload | BalanceRestart ext_states time rat

fun balance_step :: "balance_mgr \<times> gate_state \<Rightarrow> balance_event \<Rightarrow> balance_mgr \<times> gate_state" where
  "balance_step st (BalanceCycle i) = balance_process i st"
| "balance_step st BalanceClear = clear_offset st"
| "balance_step st BalanceUnload = (save_hour (fst st), snd st)"
| "balance_step st (BalanceRestart states now tick) = (balance_setup states now tick (hb_store (fst st)), empty_gates)"

section \<open>The integral\<close>

lemma add_wh_net: "fst (add_wh wh acc) - snd (add_wh wh acc) = fst acc - snd acc + wh"
  by (simp add: add_wh_def)

lemma add_wh_grows: "fst acc \<le> fst (add_wh wh acc)" "snd acc \<le> snd (add_wh wh acc)"
  by (simp_all add: add_wh_def)

lemma trapezoid_net:
  "fst (trapezoid p q t acc) - snd (trapezoid p q t acc) = fst acc - snd acc + (p + q) / 2 * t"
proof (cases "(0 \<le> p) = (0 \<le> q)")
  case True
  then show ?thesis by (simp add: trapezoid_def add_wh_net)
next
  case False
  define f where "f = \<bar>p\<bar> / (\<bar>p\<bar> + \<bar>q\<bar>)"
  have s: "0 < \<bar>p\<bar> + \<bar>q\<bar>" using False by (cases "p = 0") auto
  have "p * \<bar>p\<bar> + q * \<bar>q\<bar> = (p + q) * (\<bar>p\<bar> + \<bar>q\<bar>)"
    using False by (cases "0 \<le> p") (auto simp: algebra_simps)
  moreover have "1 - f = \<bar>q\<bar> / (\<bar>p\<bar> + \<bar>q\<bar>)" using s by (simp add: f_def field_simps)
  ultimately have "p * f + q * (1 - f) = p + q"
    using s by (simp add: f_def add_divide_distrib [symmetric])
  moreover have "p / 2 * (t * f) + q / 2 * (t - t * f) = (p * f + q * (1 - f)) / 2 * t" by (simp add: field_simps)
  ultimately have "p / 2 * (t * f) + q / 2 * (t - t * f) = (p + q) / 2 * t" by simp
  then show ?thesis using False unfolding trapezoid_def Let_def f_def [symmetric] by (simp add: add_wh_net)
qed

lemma trapezoid_grows: "fst acc \<le> fst (trapezoid p q t acc)" "snd acc \<le> snd (trapezoid p q t acc)"
  by (cases "(0 \<le> p) = (0 \<le> q)";
      simp add: trapezoid_def Let_def add_wh_grows order_trans [OF add_wh_grows(1) add_wh_grows(1)] order_trans [OF add_wh_grows(2) add_wh_grows(2)])+

fun trapezoid_sum :: "(rat \<times> rat) list \<Rightarrow> rat" where
  "trapezoid_sum ((t, p) # (u, q) # samples) = (p + q) / 2 * ((u - t) / 3600) + trapezoid_sum ((u, q) # samples)"
| "trapezoid_sum _ = 0"

text \<open>A cycle that samples the configured meter in the given clock hour.\<close>

definition sampled :: "int \<Rightarrow> balance_inputs \<Rightarrow> bool" where
  "sampled h i = (bi_enabled i \<and> \<not> bi_manual_mode i \<and> in_balance_slot i \<and> bi_grid i \<noteq> None \<and> clock_hour (bi_now i) = h)"

definition sample_of :: "balance_inputs \<Rightarrow> rat \<times> rat" where
  "sample_of i = (bi_tick i, the (bi_grid i))"

lemma apply_offset_keeps:
  "hb_imp (fst (apply_offset i m g)) = hb_imp m" "hb_exp (fst (apply_offset i m g)) = hb_exp m"
  "hb_hour (fst (apply_offset i m g)) = hb_hour m" "hb_started (fst (apply_offset i m g)) = hb_started m"
  "hb_last_sample (fst (apply_offset i m g)) = hb_last_sample m" "hb_last_w (fst (apply_offset i m g)) = hb_last_w m"
  "hb_ext_sensor (fst (apply_offset i m g)) = hb_ext_sensor m" "hb_detected (fst (apply_offset i m g)) = hb_detected m"
  "hb_last_offset (fst (apply_offset i m g)) = balance_offset i m"
  by (simp_all add: apply_offset_def save_hour_def Let_def)

lemma apply_offset_registers: "get_setpoint_offset (snd (apply_offset i m g)) BALANCE_SOURCE = balance_offset i m"
  by (simp add: apply_offset_def Let_def get_setpoint_offset_def set_setpoint_offset_def dict_get_update)

lemma sampled_step:
  assumes "sampled h i" "hb_detected m" "hb_ext_sensor m = None"
  shows "balance_process i (m, g) = apply_offset i (integrate_power (the (bi_grid i)) (bi_tick i) (open_hour (bi_now i) m)) g"
  using assms by (auto simp: balance_process_def sampled_def energy_mode_def power_reading_def)

lemma sampled_run:
  assumes "list_all (sampled h) is" "hb_detected m" "hb_ext_sensor m = None" "hb_hour m = Some h"
    "hb_last_sample m = Some t" "hb_last_w m = Some w" "run balance_step (m, g) (map BalanceCycle is) = (m', g')"
  shows "hb_imp m' - hb_exp m' = hb_imp m - hb_exp m + trapezoid_sum ((t, w) # map sample_of is)
    \<and> hb_imp m \<le> hb_imp m' \<and> hb_exp m \<le> hb_exp m'"
  using assms
proof (induction "is" arbitrary: m g t w)
  case (Cons i js)
  let ?m = "integrate_power (the (bi_grid i)) (bi_tick i) m" and ?w = "the (bi_grid i)"
  have i: "sampled h i" "list_all (sampled h) js" using Cons.prems(1) by simp_all
  have o: "open_hour (bi_now i) m = m" using i(1) Cons.prems(4) by (simp add: open_hour_def sampled_def)
  obtain m1 g1 where m1: "apply_offset i ?m g = (m1, g1)" by fastforce
  note keeps = apply_offset_keeps [of i ?m g, unfolded m1 fst_conv]
  have fields: "hb_detected m1" "hb_ext_sensor m1 = None" "hb_hour m1 = Some h" "hb_last_sample m1 = Some (bi_tick i)" "hb_last_w m1 = Some ?w"
    using keeps Cons.prems(2-4) by (simp_all add: integrate_power_def Let_def)
  have rest: "run balance_step (m1, g1) (map BalanceCycle js) = (m', g')"
    using Cons.prems(7) sampled_step [OF i(1) Cons.prems(2,3), of g] o m1 by simp
  have "hb_imp m1 - hb_exp m1 = hb_imp m - hb_exp m + (w + ?w) / 2 * ((bi_tick i - t) / 3600)"
    "hb_imp m \<le> hb_imp m1" "hb_exp m \<le> hb_exp m1"
    unfolding keeps using Cons.prems(5,6) trapezoid_net trapezoid_grows [of "(hb_imp m, hb_exp m)"]
    by (simp_all add: integrate_power_def Let_def)
  then show ?case using Cons.IH [OF i(2) fields rest] by (simp add: sample_of_def)
qed simp

text \<open>
  C30. The net energy of an hour is the integral of its metered power: whatever the manager held
  before, from the first sample in a new clock hour and over any samples of that hour, zero
  crossings included, import less export is the sum of the trapezoids between the samples of
  this hour alone, and neither of the two is negative.
\<close>

theorem hour_net_is_the_integral:
  assumes "list_all (sampled h) is" and "is \<noteq> []"
    and "hb_detected m0" and "hb_ext_sensor m0 = None" and "hb_hour m0 \<noteq> Some h"
    and "run balance_step (m0, g) (map BalanceCycle is) = (m, g')"
  shows "hb_imp m - hb_exp m = trapezoid_sum (map sample_of is) \<and> 0 \<le> hb_imp m \<and> 0 \<le> hb_exp m"
proof -
  obtain i js where Cons: "is = i # js" using assms(2) by (cases "is") auto
  define m1 where "m1 = integrate_power (the (bi_grid i)) (bi_tick i) (open_hour (bi_now i) m0)"
  have i: "sampled h i" "list_all (sampled h) js" using assms(1) Cons by simp_all
  obtain m2 g2 where m2: "apply_offset i m1 g = (m2, g2)" by fastforce
  note keeps = apply_offset_keeps [of i m1 g, unfolded m2 fst_conv]
  have m1: "hb_imp m1 = 0" "hb_exp m1 = 0" "hb_detected m1" "hb_ext_sensor m1 = None" "hb_hour m1 = Some h"
    "hb_last_sample m1 = Some (bi_tick i)" "hb_last_w m1 = Some (the (bi_grid i))"
    using i(1) assms(3-5) by (auto simp: m1_def integrate_power_def open_hour_def sampled_def)
  have rest: "run balance_step (m2, g2) (map BalanceCycle js) = (m, g')"
    using assms(6) unfolding Cons list.map run.simps balance_step.simps sampled_step [OF i(1) assms(3,4)] m1_def [symmetric] m2 .
  have "hb_imp m - hb_exp m = hb_imp m2 - hb_exp m2 + trapezoid_sum ((bi_tick i, the (bi_grid i)) # map sample_of js)
      \<and> hb_imp m2 \<le> hb_imp m \<and> hb_exp m2 \<le> hb_exp m"
    by (rule sampled_run [OF i(2) _ _ _ _ _ rest]) (simp_all add: keeps m1)
  then show ?thesis by (simp add: keeps m1 Cons sample_of_def)
qed

section \<open>The offset\<close>

lemma clamp_between: "0 \<le> (b :: rat) \<Longrightarrow> \<bar>max (- b) (min b x)\<bar> \<le> b"
  by (auto simp: max_def min_def)

lemma clamp_share:
  assumes "0 \<le> (b :: rat)" "x \<noteq> 0" shows "\<exists>k. 0 \<le> k \<and> k \<le> 1 \<and> max (- b) (min b x) = k * x"
proof (cases "\<bar>x\<bar> \<le> b")
  case True
  then show ?thesis by (intro exI [of _ 1]) (auto simp: max_def min_def)
next
  case False
  then have "max (- b) (min b x) = b / \<bar>x\<bar> * x" using assms by (cases "0 < x") (simp_all add: max_def min_def)
  then show ?thesis using assms False by (intro exI [of _ "b / \<bar>x\<bar>"]) (simp add: divide_le_eq)
qed

text \<open>The energy of the hour if the grid follows the offset to its end.\<close>

definition hour_ends_at :: "balance_inputs \<Rightarrow> balance_mgr \<Rightarrow> rat \<Rightarrow> rat" where
  "hour_ends_at i m w = hb_imp m - hb_exp m + w * (remaining_min (bi_now i) m / 60)"

lemma fresh_offset_share:
  assumes "0 \<le> bi_max_offset i" "0 \<le> elapsed_min (bi_now i) m"
  shows "\<exists>k. 0 \<le> k \<and> k \<le> 1 \<and> fresh_offset i m * (remaining_min (bi_now i) m / 60)
    = k * (bi_target_kwh i * 1000 - (hb_imp m - hb_exp m))"
proof (cases "remaining_min (bi_now i) m < MIN_REMAINING_MIN \<or> \<bar>bi_target_kwh i * 1000 - (hb_imp m - hb_exp m)\<bar> \<le> bi_deadband_kwh i * 1000")
  case True
  then show ?thesis by (intro exI [of _ 0]) (auto simp: fresh_offset_def Let_def)
next
  case False
  define missing where "missing = bi_target_kwh i * 1000 - (hb_imp m - hb_exp m)"
  define r where "r = remaining_min (bi_now i) m / 60"
  define ramped where "ramped = (if elapsed_min (bi_now i) m < RAMP_IN_MIN then missing / r * (elapsed_min (bi_now i) m / RAMP_IN_MIN) else missing / r)"
  have r: "0 < r" using False by (simp add: r_def MIN_REMAINING_MIN_def)
  have w: "fresh_offset i m = max (- bi_max_offset i) (min (bi_max_offset i) ramped)"
    using False by (simp add: fresh_offset_def ramped_def missing_def r_def Let_def)
  obtain a where a: "0 \<le> a" "a \<le> 1" "ramped = a * (missing / r)"
  proof (cases "elapsed_min (bi_now i) m < RAMP_IN_MIN")
    case True
    then show ?thesis using assms(2) by (intro that [of "elapsed_min (bi_now i) m / RAMP_IN_MIN"]) (simp_all add: ramped_def RAMP_IN_MIN_def ac_simps)
  qed (auto intro: that [of 1] simp: ramped_def)
  show ?thesis
  proof (cases "ramped = 0")
    case True
    then show ?thesis using assms(1) by (intro exI [of _ 0]) (simp add: w)
  next
    case False
    define w where "w = fresh_offset i m"
    obtain k where k: "0 \<le> k" "k \<le> 1" "w = k * ramped"
      using clamp_share [OF assms(1) False] w unfolding w_def by auto
    have "ramped * r = a * missing" using a(3) r by simp
    then have "w * r = (k * a) * missing" by (simp add: k(3) mult.assoc)
    moreover have "0 \<le> k * a" "k * a \<le> 1" using k a by (simp_all add: mult_le_one)
    ultimately show ?thesis unfolding w_def r_def missing_def by blast
  qed
qed

text \<open>
  C29. The offset steers the hour to its target and never past it: if the grid follows a freshly
  computed offset to the end of the hour the net energy ends between what it is and the target,
  and at the target when five minutes are over, at least one is left, more than the deadband is
  missing and the limit is not reached; with less than a minute left or no more than the
  deadband missing the offset is zero. The hysteresis moves the end by no more than its width
  over the time left, and not at all in the last ten minutes.
\<close>

theorem offset_steers_to_target:
  assumes "0 \<le> bi_max_offset i" and "0 \<le> elapsed_min (bi_now i) m"
    and "missing = bi_target_kwh i * 1000 - (hb_imp m - hb_exp m)"
  shows "min (hb_imp m - hb_exp m) (bi_target_kwh i * 1000) \<le> hour_ends_at i m (fresh_offset i m)
    \<and> hour_ends_at i m (fresh_offset i m) \<le> max (hb_imp m - hb_exp m) (bi_target_kwh i * 1000)
    \<and> (5 \<le> elapsed_min (bi_now i) m \<longrightarrow> 1 \<le> remaining_min (bi_now i) m \<longrightarrow>
        bi_deadband_kwh i * 1000 < \<bar>missing\<bar> \<longrightarrow> \<bar>fresh_offset i m\<bar> < bi_max_offset i \<longrightarrow>
        hour_ends_at i m (fresh_offset i m) = bi_target_kwh i * 1000)
    \<and> (remaining_min (bi_now i) m < 1 \<or> \<bar>missing\<bar> \<le> bi_deadband_kwh i * 1000 \<longrightarrow> fresh_offset i m = 0)
    \<and> (if remaining_min (bi_now i) m < 10
       then hour_ends_at i m (balance_offset i m) = hour_ends_at i m (fresh_offset i m)
       else \<bar>hour_ends_at i m (balance_offset i m) - hour_ends_at i m (fresh_offset i m)\<bar>
              \<le> max 0 (bi_hysteresis i) * (remaining_min (bi_now i) m / 60))"
proof (intro conjI)
  note missing_def = assms(3)
  obtain k where k: "0 \<le> k" "k \<le> 1" "fresh_offset i m * (remaining_min (bi_now i) m / 60) = k * missing"
    using fresh_offset_share [OF assms(1,2)] unfolding missing_def by blast
  define x where "x = k * missing"
  have e: "hour_ends_at i m (fresh_offset i m) = hb_imp m - hb_exp m + x" unfolding hour_ends_at_def k(3) x_def ..
  have t: "bi_target_kwh i * 1000 = hb_imp m - hb_exp m + missing" by (simp add: missing_def)
  have "0 \<le> x \<and> x \<le> missing" if "0 \<le> missing" using that k(1,2) by (simp add: x_def mult_left_le_one_le)
  moreover have "missing \<le> x \<and> x \<le> 0" if "\<not> 0 \<le> missing"
    using that k(1,2) mult_left_le_one_le [of "- missing" k] by (simp add: x_def mult_nonneg_nonpos)
  ultimately have "min (hb_imp m - hb_exp m) (hb_imp m - hb_exp m + missing) \<le> hb_imp m - hb_exp m + x
      \<and> hb_imp m - hb_exp m + x \<le> max (hb_imp m - hb_exp m) (hb_imp m - hb_exp m + missing)"
    by (cases "0 \<le> missing") (auto simp: min_def max_def)
  then show "min (hb_imp m - hb_exp m) (bi_target_kwh i * 1000) \<le> hour_ends_at i m (fresh_offset i m)"
    "hour_ends_at i m (fresh_offset i m) \<le> max (hb_imp m - hb_exp m) (bi_target_kwh i * 1000)"
    unfolding e t by (rule conjunct1, rule conjunct2)
  show "5 \<le> elapsed_min (bi_now i) m \<longrightarrow> 1 \<le> remaining_min (bi_now i) m \<longrightarrow>
        bi_deadband_kwh i * 1000 < \<bar>missing\<bar> \<longrightarrow> \<bar>fresh_offset i m\<bar> < bi_max_offset i \<longrightarrow>
        hour_ends_at i m (fresh_offset i m) = bi_target_kwh i * 1000"
  proof (intro impI)
    assume a: "5 \<le> elapsed_min (bi_now i) m" "1 \<le> remaining_min (bi_now i) m"
      "bi_deadband_kwh i * 1000 < \<bar>missing\<bar>" "\<bar>fresh_offset i m\<bar> < bi_max_offset i"
    have r: "0 < remaining_min (bi_now i) m" using a(2) by simp
    have "fresh_offset i m = max (- bi_max_offset i) (min (bi_max_offset i) (missing / (remaining_min (bi_now i) m / 60)))"
      using a(1,2,3) by (simp add: fresh_offset_def missing_def RAMP_IN_MIN_def MIN_REMAINING_MIN_def Let_def)
    then have "fresh_offset i m = missing / (remaining_min (bi_now i) m / 60)" using a(4) by (auto simp: max_def min_def split: if_splits)
    then have "fresh_offset i m * (remaining_min (bi_now i) m / 60) = missing" using r by simp
    then show "hour_ends_at i m (fresh_offset i m) = bi_target_kwh i * 1000" unfolding hour_ends_at_def t by simp
  qed
  show "remaining_min (bi_now i) m < 1 \<or> \<bar>missing\<bar> \<le> bi_deadband_kwh i * 1000 \<longrightarrow> fresh_offset i m = 0"
    by (auto simp: fresh_offset_def missing_def MIN_REMAINING_MIN_def Let_def)
  show "if remaining_min (bi_now i) m < 10
       then hour_ends_at i m (balance_offset i m) = hour_ends_at i m (fresh_offset i m)
       else \<bar>hour_ends_at i m (balance_offset i m) - hour_ends_at i m (fresh_offset i m)\<bar>
              \<le> max 0 (bi_hysteresis i) * (remaining_min (bi_now i) m / 60)"
  proof -
    have d: "\<bar>balance_offset i m - fresh_offset i m\<bar> \<le> max 0 (bi_hysteresis i)" by (auto simp: balance_offset_def Let_def)
    have "\<bar>(balance_offset i m - fresh_offset i m) * (remaining_min (bi_now i) m / 60)\<bar>
        \<le> max 0 (bi_hysteresis i) * (remaining_min (bi_now i) m / 60)"
      unfolding abs_mult using d by (intro mult_mono) (simp_all add: remaining_min_def)
    then show ?thesis by (auto simp: hour_ends_at_def balance_offset_def FORCE_RECALC_REMAINING_MIN_def Let_def algebra_simps)
  qed
qed

section \<open>Limits\<close>

text \<open>The offsets the manager holds, registers and has saved are within the limit.\<close>

definition offsets_within :: "rat \<Rightarrow> balance_mgr \<times> gate_state \<Rightarrow> bool" where
  "offsets_within b st = (\<bar>hb_last_offset (fst st)\<bar> \<le> b \<and> \<bar>get_setpoint_offset (snd st) BALANCE_SOURCE\<bar> \<le> b
     \<and> (case hb_store (fst st) of None \<Rightarrow> True | Some s \<Rightarrow> \<bar>sv_offset s\<bar> \<le> b))"

fun limits_within :: "rat \<Rightarrow> balance_event \<Rightarrow> bool" where
  "limits_within b (BalanceCycle i) = (0 \<le> bi_max_offset i \<and> bi_max_offset i \<le> b)"
| "limits_within b _ = True"

lemma fresh_offset_within: "0 \<le> bi_max_offset i \<Longrightarrow> \<bar>fresh_offset i m\<bar> \<le> bi_max_offset i"
  by (simp add: fresh_offset_def Let_def clamp_between)

lemma balance_offset_within:
  "limits_within b (BalanceCycle i) \<Longrightarrow> \<bar>hb_last_offset m\<bar> \<le> b \<Longrightarrow> \<bar>balance_offset i m\<bar> \<le> b"
  using fresh_offset_within [of i m] by (auto simp: balance_offset_def Let_def)

lemma source_removed: "get_setpoint_offset (remove_setpoint_offset s g) s = 0"
  by (simp add: get_setpoint_offset_def remove_setpoint_offset_def dict_get_delete)

lemma detect_keeps [simp]:
  "hb_last_offset (detect_external_sensor states t m) = hb_last_offset m" "hb_store (detect_external_sensor states t m) = hb_store m"
  "hb_hour (detect_external_sensor states t m) = hb_hour m" "hb_started (detect_external_sensor states t m) = hb_started m"
  "hb_imp (detect_external_sensor states t m) = hb_imp m" "hb_exp (detect_external_sensor states t m) = hb_exp m"
  by (simp_all add: detect_external_sensor_def Let_def split: option.split prod.split)

lemma integrate_keeps [simp]:
  "hb_last_offset (integrate_power w t m) = hb_last_offset m" "hb_store (integrate_power w t m) = hb_store m"
  "hb_hour (integrate_power w t m) = hb_hour m" "hb_started (integrate_power w t m) = hb_started m"
  "hb_last_offset (integrate_external states m) = hb_last_offset m" "hb_store (integrate_external states m) = hb_store m"
  "hb_hour (integrate_external states m) = hb_hour m" "hb_started (integrate_external states m) = hb_started m"
  by (simp_all add: integrate_power_def integrate_external_def read_external_net_wh_def Let_def split: option.split ext_mode.split)

lemma apply_offset_store:
  "hb_store (fst (apply_offset i m g)) = hb_store m
   \<or> (\<exists>s. hb_store (fst (apply_offset i m g)) = Some s \<and> sv_offset s = balance_offset i m)"
  by (simp add: apply_offset_def save_hour_def Let_def)

text \<open>What a cycle does: nothing to the offset, its removal, or an application.\<close>

lemma balance_process_cases:
  obtains (cleared) "balance_process i st = clear_offset st"
  | (idle) m where "balance_process i st = (m, snd st)" "hb_last_offset m = hb_last_offset (fst st)" "hb_store m = hb_store (fst st)"
      "hb_hour m = hb_hour (fst st)" "hb_started m = hb_started (fst st)"
  | (applied) m where "in_balance_slot i" "bi_enabled i" "\<not> bi_manual_mode i" "balance_process i st = apply_offset i m (snd st)"
      "hb_last_offset m = hb_last_offset (open_hour (bi_now i) (fst st))" "hb_store m = hb_store (fst st)"
      "hb_hour m = hb_hour (open_hour (bi_now i) (fst st))" "hb_started m = hb_started (open_hour (bi_now i) (fst st))"
proof (cases "bi_enabled i \<and> \<not> bi_manual_mode i \<and> in_balance_slot i")
  case False
  then show ?thesis using cleared by (auto simp: balance_process_def)
next
  case True
  let ?m = "if hb_detected (fst st) then fst st else detect_external_sensor (bi_states i) (bi_tick i) (fst st)"
  have m: "hb_last_offset ?m = hb_last_offset (fst st)" "hb_store ?m = hb_store (fst st)" "hb_hour ?m = hb_hour (fst st)" "hb_started ?m = hb_started (fst st)"
    by simp_all
  define mm where "mm = ?m"
  have not_open: "(\<not> bi_enabled i \<or> bi_manual_mode i \<or> \<not> in_balance_slot i) = False" using True by simp
  have o: "hb_last_offset (open_hour now mm) = hb_last_offset (open_hour now (fst st))" "hb_store (open_hour now mm) = hb_store (fst st)"
    "hb_hour (open_hour now mm) = hb_hour (open_hour now (fst st))" "hb_started (open_hour now mm) = hb_started (open_hour now (fst st))" for now
    using m unfolding mm_def [symmetric] by (simp_all add: open_hour_def)
  have p: "balance_process i st = (if energy_mode mm
        then (if ext_state (bi_states i) mm = None then (mm, snd st)
              else apply_offset i (integrate_external (bi_states i) (open_hour (bi_now i) mm)) (snd st))
        else (case power_reading i mm of
            None \<Rightarrow> (mm\<lparr>hb_last_sample := None, hb_last_w := None\<rparr>, snd st)
          | Some w \<Rightarrow> apply_offset i (integrate_power w (bi_tick i) (open_hour (bi_now i) mm)) (snd st)))"
    unfolding balance_process_def not_open if_False Let_def mm_def ..
  note m = m [folded mm_def]
  consider (e1) "energy_mode mm" "ext_state (bi_states i) mm = None" | (e2) "energy_mode mm" "ext_state (bi_states i) mm \<noteq> None"
    | (p1) "\<not> energy_mode mm" "power_reading i mm = None" | (p2) w where "\<not> energy_mode mm" "power_reading i mm = Some w" by fastforce
  then show ?thesis
  proof cases
    case e1
    then show ?thesis using idle [of mm] p m by simp
  next
    case e2
    then have "balance_process i st = apply_offset i (integrate_external (bi_states i) (open_hour (bi_now i) mm)) (snd st)" using p by auto
    from applied [OF _ _ _ this] show ?thesis using True o by simp
  next
    case p1
    then show ?thesis using idle [of "mm\<lparr>hb_last_sample := None, hb_last_w := None\<rparr>"] p m by simp
  next
    case p2
    then have "balance_process i st = apply_offset i (integrate_power w (bi_tick i) (open_hour (bi_now i) mm)) (snd st)" using p by simp
    from applied [OF _ _ _ this] show ?thesis using True o by simp
  qed
qed

lemma offsets_within_step:
  assumes "offsets_within b st" "limits_within b e" "0 \<le> b"
  shows "offsets_within b (balance_step st e)"
proof (cases e)
  case (BalanceCycle i)
  show ?thesis
  proof (cases rule: balance_process_cases [of i st])
    case cleared
    then show ?thesis using assms BalanceCycle by (simp add: offsets_within_def clear_offset_def source_removed)
  next
    case (idle m)
    then show ?thesis using assms BalanceCycle by (simp add: offsets_within_def)
  next
    case (applied m)
    have "\<bar>hb_last_offset m\<bar> \<le> b" using assms(1,3) applied(5) by (simp add: open_hour_def offsets_within_def)
    then have w: "\<bar>balance_offset i m\<bar> \<le> b" using balance_offset_within assms(2) BalanceCycle by simp
    have s: "case hb_store m of None \<Rightarrow> True | Some s \<Rightarrow> \<bar>sv_offset s\<bar> \<le> b" using assms(1) applied(6) by (simp add: offsets_within_def)
    have "case hb_store (fst (apply_offset i m (snd st))) of None \<Rightarrow> True | Some s \<Rightarrow> \<bar>sv_offset s\<bar> \<le> b"
      using apply_offset_store [of i m "snd st"] s w by auto
    then show ?thesis using BalanceCycle applied(4) w by (simp add: offsets_within_def apply_offset_keeps apply_offset_registers)
  qed
next
  case (BalanceRestart states now tick)
  have p: "hb_last_offset (prime_snapshot states m) = hb_last_offset m \<and> hb_store (prime_snapshot states m) = hb_store m" for m
    by (simp add: prime_snapshot_def Let_def split: option.split)
  show ?thesis using assms BalanceRestart
    by (auto simp: offsets_within_def balance_setup_def p restore_hour_def new_balance_mgr_def get_setpoint_offset_def empty_gates_def dict_get_def split: option.splits)
qed (use assms in \<open>simp_all add: offsets_within_def clear_offset_def save_hour_def source_removed\<close>)

section \<open>A window within one clock hour\<close>

text \<open>The hour of the state has begun at least an hour ago and the offset is gone.\<close>

definition hour_gone :: "int \<Rightarrow> time \<Rightarrow> balance_mgr \<times> gate_state \<Rightarrow> bool" where
  "hour_gone h begun st = (hb_hour (fst st) = Some h \<and> hb_started (fst st) = Some begun
     \<and> get_setpoint_offset (snd st) BALANCE_SOURCE = 0)"

text \<open>A cycle of a later day whose window only opens in that clock hour.\<close>

fun same_clock_hour :: "int \<Rightarrow> time \<Rightarrow> balance_event \<Rightarrow> bool" where
  "same_clock_hour h begun (BalanceCycle i) = (begun + 3600 \<le> bi_now i \<and> (in_balance_slot i \<longrightarrow> clock_hour (bi_now i) = h))"
| "same_clock_hour h begun BalanceClear = True"
| "same_clock_hour h begun BalanceUnload = True"
| "same_clock_hour h begun (BalanceRestart _ _ _) = False"

lemma hour_gone_step:
  assumes "hour_gone h begun st" "same_clock_hour h begun e"
  shows "hour_gone h begun (balance_step st e)"
proof (cases e)
  case (BalanceCycle i)
  show ?thesis
  proof (cases rule: balance_process_cases [of i st])
    case cleared
    then show ?thesis using assms BalanceCycle by (simp add: hour_gone_def clear_offset_def source_removed)
  next
    case (idle m)
    then show ?thesis using assms BalanceCycle by (simp add: hour_gone_def)
  next
    case (applied m)
    have "open_hour (bi_now i) (fst st) = fst st" using assms applied(1) BalanceCycle by (simp add: hour_gone_def open_hour_def)
    then have m: "hb_hour m = Some h" "hb_started m = Some begun" using applied(7,8) assms(1) by (simp_all add: hour_gone_def)
    have "remaining_min (bi_now i) m = 0" using assms(2) BalanceCycle m(2) by (simp add: remaining_min_def elapsed_min_def)
    then have "balance_offset i m = 0"
      by (simp add: balance_offset_def fresh_offset_def Let_def MIN_REMAINING_MIN_def FORCE_RECALC_REMAINING_MIN_def)
    then show ?thesis using BalanceCycle applied(4) m by (simp add: hour_gone_def apply_offset_keeps apply_offset_registers)
  qed
qed (use assms in \<open>auto simp: hour_gone_def clear_offset_def save_hour_def source_removed\<close>)

interpretation within: invariant_machine balance_step "\<lambda>st. 0 \<le> b \<and> offsets_within b st" "limits_within b" for b
  by unfold_locales (use offsets_within_step in auto)

interpretation gone: invariant_machine balance_step "hour_gone h begun" "same_clock_hour h begun" for h begun
  by unfold_locales (rule hour_gone_step)

text \<open>
  The offset never exceeds the largest limit configured: in every run of cycles, clears,
  unloads and restarts the offset that is registered stays within any bound of the limits set
  in the run, whatever the hysteresis keeps and whatever a restart restores.
\<close>

theorem balance_offset_bounded:
  assumes "list_all (limits_within b) es" "0 \<le> b"
  shows "\<bar>get_setpoint_offset (snd (run balance_step (new_balance_mgr None, empty_gates) es)) BALANCE_SOURCE\<bar> \<le> b"
proof -
  have "offsets_within b (new_balance_mgr None, empty_gates)"
    using assms(2) by (simp add: offsets_within_def new_balance_mgr_def get_setpoint_offset_def empty_gates_def dict_get_def)
  then have "offsets_within b (run balance_step (new_balance_mgr None, empty_gates) es)"
    using within.run_inv [of b "(new_balance_mgr None, empty_gates)" es] assms by (auto simp: list_all_iff)
  then show ?thesis by (simp add: offsets_within_def)
qed

text \<open>
  C37. A window that lies within one clock hour is balanced on its first day only: a new hour
  is seen by its number alone, so once the window has closed no later cycle of any day ever
  registers an offset again, whatever is imported or exported, until the manager restarts.
\<close>

theorem one_hour_window_balances_once:
  assumes "hb_hour m = Some h" "hb_started m = Some begun" "get_setpoint_offset g BALANCE_SOURCE = 0"
    and "list_all (same_clock_hour h begun) es"
  shows "get_setpoint_offset (snd (run balance_step (m, g) es)) BALANCE_SOURCE = 0"
proof -
  have "hour_gone h begun (run balance_step (m, g) es)"
    using assms by (intro gone.run_inv) (auto simp: hour_gone_def list_all_iff)
  then show ?thesis by (simp add: hour_gone_def)
qed

section \<open>Worked examples\<close>

text \<open>Day, second of the day and grid power, in a window of every day from ten to 10:59.\<close>

definition ten_slot :: time_slot where
  "ten_slot = \<lparr>slot_enabled = True, battery_scope = ScopeAll, allow_charge = True, allow_discharge = True, days = [0..<7],
     start_time = Some 600, end_time = Some 659, power_override_enabled = False, mode_manual = False,
     soc_override_enabled = False, battery_limits = []\<rparr>"

definition grid_cycle :: "time \<Rightarrow> nat \<Rightarrow> rat \<Rightarrow> balance_inputs" where
  "grid_cycle now minute w = \<lparr>bi_enabled = True, bi_manual_mode = False, bi_slots = [ten_slot], bi_weekday = 0, bi_clock = minute,
     bi_states = (\<lambda>_. None), bi_grid = Some w, bi_now = now, bi_tick = now, bi_target_kwh = 0, bi_deadband_kwh = 0,
     bi_max_offset = 1000, bi_hysteresis = 15, bi_batteries = []\<rparr>"

definition first_day :: "balance_event list" where
  "first_day = [BalanceCycle (grid_cycle 36000 600 600), BalanceCycle (grid_cycle 37800 630 600), BalanceCycle (grid_cycle 39600 660 600)]"

lemma hour_net_is_the_integral_witness:
  "hb_imp (fst (run balance_step ((new_balance_mgr None)\<lparr>hb_detected := True, hb_hour := Some 9, hb_imp := 700,
       hb_last_sample := Some 35940, hb_last_w := Some 50\<rparr>, empty_gates)
      (map BalanceCycle [grid_cycle 36000 600 600, grid_cycle 37800 630 (- 400)])))
   - hb_exp (fst (run balance_step ((new_balance_mgr None)\<lparr>hb_detected := True, hb_hour := Some 9, hb_imp := 700,
       hb_last_sample := Some 35940, hb_last_w := Some 50\<rparr>, empty_gates)
      (map BalanceCycle [grid_cycle 36000 600 600, grid_cycle 37800 630 (- 400)]))) = 50"
proof -
  let ?m0 = "(new_balance_mgr None)\<lparr>hb_detected := True, hb_hour := Some 9, hb_imp := 700,
       hb_last_sample := Some 35940, hb_last_w := Some 50\<rparr>"
  have "list_all (sampled 10) [grid_cycle 36000 600 600, grid_cycle 37800 630 (- 400)]" by code_simp
  from hour_net_is_the_integral [OF this _ _ _ _ prod.collapse [symmetric], of ?m0 empty_gates] show ?thesis
    by (simp add: sample_of_def grid_cycle_def new_balance_mgr_def)
qed

lemma offset_steers_to_target_witness:
  "- 300 \<le> hour_ends_at (grid_cycle 37800 630 0) ((new_balance_mgr None)\<lparr>hb_started := Some 36000, hb_exp := 300\<rparr>)
     (fresh_offset (grid_cycle 37800 630 0) ((new_balance_mgr None)\<lparr>hb_started := Some 36000, hb_exp := 300\<rparr>))"
  using offset_steers_to_target [of "grid_cycle 37800 630 0" "(new_balance_mgr None)\<lparr>hb_started := Some 36000, hb_exp := 300\<rparr>", OF _ _ refl]
  by (simp add: grid_cycle_def elapsed_min_def new_balance_mgr_def)

lemma balance_offset_bounded_witness:
  "\<bar>get_setpoint_offset (snd (run balance_step (new_balance_mgr None, empty_gates) first_day)) BALANCE_SOURCE\<bar> \<le> 1000"
  by (rule balance_offset_bounded) (simp_all add: first_day_def grid_cycle_def)

text \<open>On the first day the import is answered; on the next day the same import is not.\<close>

lemma first_day_balances:
  "get_setpoint_offset (snd (run balance_step (new_balance_mgr None, empty_gates) (take 2 first_day))) BALANCE_SOURCE = - 600"
  by code_simp

lemma one_hour_window_balances_once_witness:
  "get_setpoint_offset (snd (run balance_step (run balance_step (new_balance_mgr None, empty_gates) first_day)
     [BalanceCycle (grid_cycle 122400 600 600), BalanceCycle (grid_cycle 124200 630 600)])) BALANCE_SOURCE = 0"
proof -
  let ?st = "run balance_step (new_balance_mgr None, empty_gates) first_day"
  have st: "hb_hour (fst ?st) = Some 10" "hb_started (fst ?st) = Some 36000" "get_setpoint_offset (snd ?st) BALANCE_SOURCE = 0"
    by code_simp+
  have "list_all (same_clock_hour 10 36000) [BalanceCycle (grid_cycle 122400 600 600), BalanceCycle (grid_cycle 124200 630 600)]"
    by code_simp
  from one_hour_window_balances_once [OF st this] show ?thesis by (simp only: prod.collapse)
qed

text \<open>A window over midnight is open for the batteries and never for the balance.\<close>

lemma overnight_window_never_opens:
  assumes "\<forall>s \<in> set (bi_slots i). \<exists>a b. start_time s = Some a \<and> end_time s = Some b \<and> b < a" "filter slot_enabled (bi_slots i) \<noteq> []"
  shows "\<not> in_balance_slot i"
  using assms by (fastforce simp: in_balance_slot_def list_ex_iff)

end
