(* ===== verification/External_Loads.thy ===== *)
theory External_Loads
  imports Blockers Price_Base
begin

text \<open>
  Devices that the home meter sees and the batteries shall not serve
  (\<open>infra/external_loads.py\<close>) and the blockers fed from them (\<open>_refresh_ev_blocks\<close>,
  \<open>_refresh_dynamic_power_control_block\<close> of \<open>__init__.py\<close>): the adjustment of the grid reading
  with the sun shared among the devices, the claims on the sun, the pause for a charging
  vehicle, and the latches of the dynamic power control. Times are seconds of UTC. A sensor is
  seen as its text (stripped, in lower case), number and unit; readings are finite.
\<close>

section \<open>Devices and sensors\<close>

record load_view =
  lv_known :: bool
  lv_text :: string
  lv_value :: "rat option"
  lv_in_watts :: bool
  lv_kwh :: "rat option"
  lv_quality :: "string option"

type_synonym load_states = "string \<Rightarrow> load_view option"

record load_device =
  xd_enabled :: bool
  xd_no_telemetry :: bool
  xd_included :: bool
  xd_surplus :: bool
  xd_dynamic :: bool
  xd_cover_home :: bool
  xd_exclusion :: "pyfloat option"
  xd_power_sensor :: "string option"
  xd_activity_sensor :: "string option"
  xd_demand_sensor :: "string option"
  xd_presence_sensor :: "string option"

definition CHARGING_SUBSTRINGS :: "string list" where
  "CHARGING_SUBSTRINGS = [''charg'', ''cargand'', ''carreg'', ''laden'', ''caricand'', ''carica'', ''ladd'', ''lading'']"

definition PRESENT_STATES :: "string list" where
  "PRESENT_STATES = [''on'', ''true'', ''home'', ''present'', ''connected'', ''plugged'', ''plugged in'', ''verbunden'',
     ''aangesloten'', ''aanwezig'', ''connesso'', ''connect'' @ [CHR 0xE9], ''branch'' @ [CHR 0xE9], ''conectado'',
     ''connectat'', ''charging'', ''cargando'', ''laden'']"

fun contains_text :: "string \<Rightarrow> string \<Rightarrow> bool" where
  "contains_text s [] = (s = [])"
| "contains_text s (c # cs) = (take (length s) (c # cs) = s \<or> contains_text s cs)"

definition known_state :: "load_states \<Rightarrow> string option \<Rightarrow> load_view option" where
  "known_state states sensor = (case sensor of None \<Rightarrow> None | Some k \<Rightarrow>
     (case states k of None \<Rightarrow> None | Some v \<Rightarrow> if lv_known v then Some v else None))"

definition state_is_active :: "load_view option \<Rightarrow> bool" where
  "state_is_active od = (case od of None \<Rightarrow> False
   | Some v \<Rightarrow> lv_text v \<in> {''on'', ''true'', ''1''} \<or> list_ex (\<lambda>s. contains_text s (lv_text v)) CHARGING_SUBSTRINGS)"

definition read_sensor_w_opt :: "load_states \<Rightarrow> string option \<Rightarrow> rat option" where
  "read_sensor_w_opt states sensor = (case known_state states sensor of None \<Rightarrow> None
   | Some v \<Rightarrow> map_option (\<lambda>x. if lv_in_watts v then x else x * 1000) (lv_value v))"

definition read_sensor_w :: "load_states \<Rightarrow> string option \<Rightarrow> rat" where
  "read_sensor_w states sensor = (case read_sensor_w_opt states sensor of None \<Rightarrow> 0 | Some w \<Rightarrow> w)"

definition read_home_consumption :: "load_states \<Rightarrow> string option \<Rightarrow> rat option" where
  "read_home_consumption states sensor = (case known_state states sensor of None \<Rightarrow> None
   | Some v \<Rightarrow> (if lv_quality v = None \<or> lv_quality v = Some ''calculated'' then read_sensor_w_opt states sensor else None))"

text \<open>\<open>max(0, min(100, pct)) / 100\<close>, and 1 for what is no number.\<close>

definition exclusion_factor :: "load_device \<Rightarrow> rat" where
  "exclusion_factor d = (case xd_exclusion d of
     Some (Fin pct) \<Rightarrow> max 0 (min 100 pct) / 100 | Some NegInf \<Rightarrow> 0 | _ \<Rightarrow> 1)"

definition metered_device :: "load_device \<Rightarrow> bool" where
  "metered_device d = (xd_enabled d \<and> \<not> xd_no_telemetry d)"

section \<open>The adjustment of the grid reading\<close>

definition included_device_power_w :: "load_states \<Rightarrow> load_device list \<Rightarrow> rat" where
  "included_device_power_w states ds =
     sum_list (map (\<lambda>d. read_sensor_w states (xd_power_sensor d)) (filter (\<lambda>d. metered_device d \<and> xd_included d) ds))"

record adjustment =
  aj_total :: rat
  aj_included :: rat
  aj_solar :: rat
  aj_surplus :: "rat option"
  aj_blocks :: bool

text \<open>The sun a device gets: all of it left, or what the home leaves; \<open>None\<close> is no reading of the home.\<close>

definition solar_offset :: "load_device \<Rightarrow> rat \<Rightarrow> adjustment \<Rightarrow> rat" where
  "solar_offset d w a = (case (aj_surplus a, xd_cover_home d) of
     (_, True) \<Rightarrow> min w (aj_solar a)
   | (None, False) \<Rightarrow> 0
   | (Some surplus, False) \<Rightarrow> min w surplus)"

definition exclude_part :: "rat \<Rightarrow> adjustment \<Rightarrow> adjustment" where
  "exclude_part w a = a\<lparr>aj_total := aj_total a + w, aj_included := aj_included a + w\<rparr>"

definition adjust_device :: "load_states \<Rightarrow> bool \<Rightarrow> load_device \<Rightarrow> adjustment \<Rightarrow> adjustment" where
  "adjust_device states has_solar d a =
     (if \<not> metered_device d then a
      else (case read_sensor_w_opt states (xd_power_sensor d) of
          None \<Rightarrow> a
        | Some w \<Rightarrow>
           (if \<not> xd_included d then a\<lparr>aj_total := aj_total a - w\<rparr>
            else if \<not> xd_surplus d then exclude_part (w * exclusion_factor d) a
            else if \<not> has_solar then a\<lparr>aj_blocks := aj_blocks a \<or> 10 < w\<rparr>
            else if aj_surplus a = None \<and> \<not> xd_cover_home d then exclude_part (w * exclusion_factor d) a
            else (let offset = solar_offset d w a
                  in exclude_part ((w - offset) * exclusion_factor d)
                       (a\<lparr>aj_solar := max 0 (aj_solar a - offset),
                          aj_surplus := map_option (\<lambda>x. max 0 (x - offset)) (aj_surplus a)\<rparr>)))))"

definition start_adjustment :: "load_states \<Rightarrow> string option \<Rightarrow> string option \<Rightarrow> load_device list \<Rightarrow> adjustment" where
  "start_adjustment states solar_sensor home_sensor ds =
     (let solar = (if solar_sensor = None then 0 else read_sensor_w states solar_sensor);
          home = (if solar_sensor = None then None else read_home_consumption states home_sensor)
      in \<lparr>aj_total = 0, aj_included = 0, aj_solar = solar,
          aj_surplus = map_option (\<lambda>h. max 0 (solar - max 0 (h - included_device_power_w states ds))) home, aj_blocks = False\<rparr>)"

definition calculate_adjustment :: "load_states \<Rightarrow> string option \<Rightarrow> string option \<Rightarrow> load_device list \<Rightarrow> adjustment" where
  "calculate_adjustment states solar_sensor home_sensor ds =
     fold (adjust_device states (solar_sensor \<noteq> None)) ds (start_adjustment states solar_sensor home_sensor ds)"

text \<open>What the controller keeps; without a device the discharge block stays as it was.\<close>

definition store_adjustment :: "load_device list \<Rightarrow> adjustment \<Rightarrow> rat \<times> bool \<Rightarrow> rat \<times> bool" where
  "store_adjustment ds a kept = (if ds = [] then (0, snd kept) else (aj_included a, aj_blocks a))"

definition consumption_delta_kw :: "load_states \<Rightarrow> load_device list \<Rightarrow> rat" where
  "consumption_delta_kw states ds = sum_list (List.map_filter (\<lambda>d.
     if \<not> metered_device d then None
     else map_option (\<lambda>w. if xd_included d then - (w / 1000 * exclusion_factor d) else w / 1000)
            (read_sensor_w_opt states (xd_power_sensor d))) ds)"

section \<open>Claims on the sun\<close>

definition demand_is_present :: "load_states \<Rightarrow> load_device \<Rightarrow> bool" where
  "demand_is_present states d = (case xd_presence_sensor d of None \<Rightarrow> True
   | Some k \<Rightarrow> (case states k of None \<Rightarrow> False | Some v \<Rightarrow> lv_text v \<in> set PRESENT_STATES))"

definition read_sensor_kwh_opt :: "load_states \<Rightarrow> string option \<Rightarrow> rat option" where
  "read_sensor_kwh_opt states sensor = (case known_state states sensor of None \<Rightarrow> None
   | Some v \<Rightarrow> map_option (max 0) (lv_kwh v))"

definition claim_of :: "load_states \<Rightarrow> load_device \<Rightarrow> rat option" where
  "claim_of states d =
     (if xd_demand_sensor d = None \<or> \<not> metered_device d \<or> \<not> xd_included d then None
      else if \<not> demand_is_present states d then Some 0
      else map_option (\<lambda>x. x * exclusion_factor d) (read_sensor_kwh_opt states (xd_demand_sensor d)))"

definition claimable_solar_demand_kwh :: "load_states \<Rightarrow> load_device list \<Rightarrow> rat option" where
  "claimable_solar_demand_kwh states ds =
     (let claims = List.map_filter (claim_of states) ds in if claims = [] then None else Some (sum_list claims))"

section \<open>Vehicles without telemetry\<close>

definition EV_PAUSE_S :: rat where "EV_PAUSE_S = 300"

record ev_state =
  ev_charging :: "(string, bool) dict"
  ev_pause_until :: "(string, time) dict"

definition ev_sensor :: "load_device \<Rightarrow> string option" where
  "ev_sensor d = (if \<not> xd_enabled d \<or> \<not> xd_no_telemetry d then None
     else if xd_activity_sensor d \<noteq> None then xd_activity_sensor d else xd_power_sensor d)"

text \<open>One vehicle: the new state, whether its pause runs, and whether it charges after it.\<close>

definition check_ev :: "time \<Rightarrow> string \<Rightarrow> bool \<Rightarrow> ev_state \<Rightarrow> ev_state \<times> bool \<times> bool" where
  "check_ev now k charging st =
     (let before = dict_get False (ev_charging st) k;
          pauses = (if charging \<and> \<not> before then AList.update k (now + EV_PAUSE_S) (ev_pause_until st)
                    else if \<not> charging \<and> before then AList.delete k (ev_pause_until st) else ev_pause_until st);
          st = st\<lparr>ev_charging := AList.update k charging (ev_charging st), ev_pause_until := pauses\<rparr>
      in case map_of pauses k of
          None \<Rightarrow> (st, False, charging)
        | Some t \<Rightarrow> (if now < t then (st, True, False)
                     else (st\<lparr>ev_pause_until := AList.delete k pauses\<rparr>, False, charging)))"

fun check_ev_charger_state :: "load_states \<Rightarrow> time \<Rightarrow> load_device list \<Rightarrow> ev_state \<Rightarrow> ev_state \<times> bool \<times> bool" where
  "check_ev_charger_state states now [] st = (st, False, False)"
| "check_ev_charger_state states now (d # ds) st =
     (case (ev_sensor d, known_state states (ev_sensor d)) of
        (Some k, Some v) \<Rightarrow>
          (let (st1, pause, active) = check_ev now k (state_is_active (Some v)) st;
               (st2, pauses, actives) = check_ev_charger_state states now ds st1
           in (st2, pause \<or> pauses, active \<or> actives))
      | _ \<Rightarrow> check_ev_charger_state states now ds st)"

definition put_global :: "bool \<Rightarrow> string \<Rightarrow> string \<Rightarrow> (string, pyval) dict option \<Rightarrow> rat \<Rightarrow> bool \<Rightarrow> gate_state \<Rightarrow> gate_state" where
  "put_global is_charge source why dets now on gates =
     (if on then set_operation_block is_charge source why dets None now gates
      else remove_operation_block is_charge source None gates)"

definition refresh_ev_blocks :: "load_states \<Rightarrow> time \<Rightarrow> load_device list \<Rightarrow> rat \<Rightarrow> ev_state \<times> gate_state \<Rightarrow> ev_state \<times> gate_state" where
  "refresh_ev_blocks states now ds stamp s =
     (let (st, pause, active) = check_ev_charger_state states now ds (fst s);
          pause_dets = Some [(''duration'', VStr ''5_min'')]
      in (st, put_global False ''ev_charging'' ''ev_charging'' None stamp active
               (put_global False ''ev_pause'' ''ev_pause'' pause_dets stamp pause
                 (put_global True ''ev_pause'' ''ev_pause'' pause_dets stamp pause (snd s)))))"

section \<open>Dynamic power control\<close>

definition DYNAMIC_CONTROL_ACTIVE_POWER_W :: rat where "DYNAMIC_CONTROL_ACTIVE_POWER_W = 100"
definition DYNAMIC_CONTROL_HOLD_S :: rat where "DYNAMIC_CONTROL_HOLD_S = 300"
definition DYNAMIC_CONTROL_INITIAL_YIELD_S :: rat where "DYNAMIC_CONTROL_INITIAL_YIELD_S = 30"
definition DYNAMIC_CONTROL_REYIELD_S :: rat where "DYNAMIC_CONTROL_REYIELD_S = 20"
definition DYNAMIC_CONTROL_SOLAR_STEP_W :: rat where "DYNAMIC_CONTROL_SOLAR_STEP_W = 200"
definition DYNAMIC_CONTROL_FALLBACK_PROBE_S :: rat where "DYNAMIC_CONTROL_FALLBACK_PROBE_S = 300"

text \<open>The entries of the runtime dictionaries under one key.\<close>

record dyn_latch =
  dl_hold :: "time option"
  dl_yield :: "time option"
  dl_probe :: "time option"
  dl_solar :: "rat option"
  dl_device :: "rat option"
  dl_was_drawing :: bool

definition no_latch :: dyn_latch where
  "no_latch = \<lparr>dl_hold = None, dl_yield = None, dl_probe = None, dl_solar = None, dl_device = None, dl_was_drawing = False\<rparr>"

datatype dyn_phase = Yielding | MonitoringResidual | WaitingForLoad | RestartHold

record dyn_verdict =
  dv_priority :: bool
  dv_charge :: bool
  dv_discharge :: bool
  dv_phase :: "dyn_phase option"
  dv_hold_s :: int
  dv_yield_s :: int

definition no_verdict :: dyn_verdict where
  "no_verdict = \<lparr>dv_priority = False, dv_charge = False, dv_discharge = False, dv_phase = None, dv_hold_s = 0, dv_yield_s = 0\<rparr>"

definition or_else :: "'a option \<Rightarrow> 'a \<Rightarrow> 'a" where
  "or_else x z = (case x of None \<Rightarrow> z | Some y \<Rightarrow> y)"

definition remember :: "rat \<Rightarrow> rat option \<Rightarrow> dyn_latch \<Rightarrow> dyn_latch" where
  "remember s watts l = (let l = l\<lparr>dl_solar := Some s\<rparr> in case watts of None \<Rightarrow> l | Some p \<Rightarrow> l\<lparr>dl_device := Some p\<rparr>)"

text \<open>A load that draws: the first detection yields, a risen margin or a probe yields again.\<close>

definition drawing_latch :: "time \<Rightarrow> rat option \<Rightarrow> rat \<Rightarrow> dyn_latch \<Rightarrow> dyn_latch" where
  "drawing_latch now solar p l0 =
     (let l = l0\<lparr>dl_hold := Some (now + DYNAMIC_CONTROL_HOLD_S)\<rparr>;
          l = (if dl_was_drawing l0 then l
               else (let l = l\<lparr>dl_yield := Some (now + DYNAMIC_CONTROL_INITIAL_YIELD_S), dl_probe := Some (now + DYNAMIC_CONTROL_FALLBACK_PROBE_S)\<rparr>
                     in case solar of None \<Rightarrow> l | Some s \<Rightarrow> remember s (Some p) l));
          l = l\<lparr>dl_was_drawing := True\<rparr>;
          yield = or_else (dl_yield l) now
      in case solar of
          Some s \<Rightarrow>
            (let reference = or_else (dl_solar l) s - or_else (dl_device l) p; margin = s - p in
             if margin < reference \<or> now < yield then remember s (Some p) l
             else if DYNAMIC_CONTROL_SOLAR_STEP_W \<le> margin - reference
             then remember s (Some p) (l\<lparr>dl_yield := Some (now + DYNAMIC_CONTROL_REYIELD_S)\<rparr>)
             else l)
        | None \<Rightarrow>
            (if or_else (dl_probe l) now \<le> now \<and> yield \<le> now
             then l\<lparr>dl_yield := Some (now + DYNAMIC_CONTROL_REYIELD_S), dl_probe := Some (now + DYNAMIC_CONTROL_FALLBACK_PROBE_S)\<rparr>
             else l))"

text \<open>A load that paused within its hold.\<close>

definition held_latch :: "time \<Rightarrow> rat option \<Rightarrow> rat option \<Rightarrow> dyn_latch \<Rightarrow> dyn_latch" where
  "held_latch now solar watts l0 =
     (let l = l0\<lparr>dl_was_drawing := False\<rparr>;
          l = (if \<not> dl_was_drawing l0 then l
               else (let l = l\<lparr>dl_yield := Some (now + DYNAMIC_CONTROL_INITIAL_YIELD_S)\<rparr>
                     in case solar of None \<Rightarrow> l | Some s \<Rightarrow> remember s watts l))
      in case solar of None \<Rightarrow> l
        | Some s \<Rightarrow>
           (let rise = (case watts of
                  None \<Rightarrow> s - or_else (dl_solar l) s
                | Some p \<Rightarrow> s - p - (or_else (dl_solar l) s - or_else (dl_device l) p))
            in if rise < 0 then remember s watts l
               else if DYNAMIC_CONTROL_SOLAR_STEP_W \<le> rise
               then remember s watts (l\<lparr>dl_yield := Some (max (or_else (dl_yield l) now) (now + DYNAMIC_CONTROL_REYIELD_S))\<rparr>)
               else l))"

definition yielding :: "time \<Rightarrow> dyn_latch \<Rightarrow> bool" where
  "yielding now l = (now < or_else (dl_yield l) now)"

definition yield_seconds :: "time \<Rightarrow> dyn_latch \<Rightarrow> int" where
  "yield_seconds now l = (if yielding now l then py_trunc (or_else (dl_yield l) now - now) else 0)"

definition dyn_step :: "load_device \<Rightarrow> time \<Rightarrow> rat option \<Rightarrow> rat option \<Rightarrow> bool \<Rightarrow> dyn_latch \<Rightarrow> dyn_latch \<times> dyn_verdict" where
  "dyn_step d now solar watts requested l =
     (let block = \<not> xd_cover_home d in
      if (case watts of None \<Rightarrow> False | Some p \<Rightarrow> DYNAMIC_CONTROL_ACTIVE_POWER_W < p)
      then (let l1 = drawing_latch now solar (the watts) l
            in (l1, \<lparr>dv_priority = True, dv_charge = yielding now l1, dv_discharge = block,
                  dv_phase = Some (if yielding now l1 then Yielding else MonitoringResidual), dv_hold_s = 0, dv_yield_s = yield_seconds now l1\<rparr>))
      else if requested
      then (l\<lparr>dl_was_drawing := False\<rparr>, \<lparr>dv_priority = True, dv_charge = True, dv_discharge = block,
              dv_phase = Some WaitingForLoad, dv_hold_s = 0, dv_yield_s = 0\<rparr>)
      else if xd_activity_sensor d \<noteq> None then (no_latch, no_verdict)
      else (case dl_hold l of
          None \<Rightarrow> (no_latch, no_verdict)
        | Some hold \<Rightarrow>
           (if now < hold
            then (let l1 = held_latch now solar watts l
                  in (l1, \<lparr>dv_priority = True, dv_charge = yielding now l1, dv_discharge = block, dv_phase = Some RestartHold,
                        dv_hold_s = py_trunc (hold - now), dv_yield_s = yield_seconds now l1\<rparr>))
            else (no_latch, no_verdict))))"

type_synonym dyn_key = "nat \<times> string option \<times> string option"

definition dyn_eligible :: "load_device \<Rightarrow> bool" where
  "dyn_eligible d = (metered_device d \<and> xd_included d \<and> xd_surplus d \<and> xd_dynamic d \<and> xd_power_sensor d \<noteq> None)"

definition dyn_key_of :: "nat \<Rightarrow> load_device \<Rightarrow> dyn_key" where
  "dyn_key_of n d = (n, xd_power_sensor d, xd_activity_sensor d)"

fun dyn_devices :: "load_states \<Rightarrow> time \<Rightarrow> rat option \<Rightarrow> nat \<Rightarrow> load_device list \<Rightarrow> (dyn_key \<Rightarrow> dyn_latch)
    \<Rightarrow> (dyn_key \<Rightarrow> dyn_latch) \<times> (string \<times> dyn_verdict) list" where
  "dyn_devices states now solar n [] ls = (ls, [])"
| "dyn_devices states now solar n (d # ds) ls =
     (let k = dyn_key_of n d in
      if \<not> dyn_eligible d then dyn_devices states now solar (Suc n) ds (ls(k := no_latch))
      else (let (l, v) = dyn_step d now solar (read_sensor_w_opt states (xd_power_sensor d))
                           (state_is_active (known_state states (xd_activity_sensor d))) (ls k);
                (ls', vs) = dyn_devices states now solar (Suc n) ds (ls(k := l))
            in (ls', (the (xd_power_sensor d), v) # vs)))"

text \<open>The keys of devices that are gone are forgotten.\<close>

definition forget_stale :: "load_device list \<Rightarrow> (dyn_key \<Rightarrow> dyn_latch) \<Rightarrow> dyn_key \<Rightarrow> dyn_latch" where
  "forget_stale ds ls k =
     (if (dl_hold (ls k) \<noteq> None \<or> dl_yield (ls k) \<noteq> None \<or> dl_device (ls k) \<noteq> None)
         \<and> \<not> list_ex (\<lambda>(n, d). dyn_eligible d \<and> dyn_key_of n d = k) (enumerate 0 ds)
      then no_latch else ls k)"

record dyn_status =
  ds_devices :: "string list"
  ds_charge :: "string list"
  ds_discharge :: "string list"
  ds_phases :: "(string, dyn_phase) dict"
  ds_hold_s :: int
  ds_yield_s :: int

definition dyn_status_of :: "(string \<times> dyn_verdict) list \<Rightarrow> dyn_status" where
  "dyn_status_of vs = \<lparr>ds_devices = map fst (filter (dv_priority \<circ> snd) vs), ds_charge = map fst (filter (dv_charge \<circ> snd) vs),
     ds_discharge = map fst (filter (dv_discharge \<circ> snd) vs),
     ds_phases = fold (\<lambda>(k, v) d. case dv_phase v of None \<Rightarrow> d | Some p \<Rightarrow> AList.update k p d) vs [],
     ds_hold_s = fold (\<lambda>(k, v) n. max n (dv_hold_s v)) vs 0, ds_yield_s = fold (\<lambda>(k, v) n. max n (dv_yield_s v)) vs 0\<rparr>"

definition refresh_dynamic_power_control :: "load_states \<Rightarrow> string option \<Rightarrow> time \<Rightarrow> load_device list
    \<Rightarrow> (dyn_key \<Rightarrow> dyn_latch) \<Rightarrow> (dyn_key \<Rightarrow> dyn_latch) \<times> dyn_status" where
  "refresh_dynamic_power_control states solar_sensor now ds ls =
     (let (ls', vs) = dyn_devices states now (read_sensor_w_opt states solar_sensor) 0 ds ls
      in (forget_stale ds ls', dyn_status_of vs))"

definition DYNAMIC_SOURCE :: string where "DYNAMIC_SOURCE = ''excluded_device_dynamic_power_control''"

fun comma_joined :: "string list \<Rightarrow> string" where
  "comma_joined [] = []"
| "comma_joined [x] = x"
| "comma_joined (x # xs) = x @ '','' @ comma_joined xs"

text \<open>The details of a block: the phases, a dictionary of their own, are left out.\<close>

definition dynamic_details :: "dyn_status \<Rightarrow> string list \<Rightarrow> (string, pyval) dict option" where
  "dynamic_details status ks = Some [(''devices'', VStr (comma_joined ks)), (''hold_remaining_s'', VInt (ds_hold_s status)),
     (''yield_remaining_s'', VInt (ds_yield_s status))]"

definition refresh_dynamic_block :: "load_states \<Rightarrow> string option \<Rightarrow> time \<Rightarrow> load_device list \<Rightarrow> rat
    \<Rightarrow> (dyn_key \<Rightarrow> dyn_latch) \<times> gate_state \<Rightarrow> (dyn_key \<Rightarrow> dyn_latch) \<times> gate_state" where
  "refresh_dynamic_block states solar_sensor now ds stamp s =
     (let (ls, status) = refresh_dynamic_power_control states solar_sensor now ds (fst s);
          put = (\<lambda>is_charge ks. put_global is_charge DYNAMIC_SOURCE ''dynamic_power_control'' (dynamic_details status ks) stamp (ks \<noteq> []))
      in (ls, put False (ds_discharge status) (put True (ds_charge status) (snd s))))"

section \<open>The sun is shared\<close>

definition device_w :: "load_states \<Rightarrow> load_device \<Rightarrow> rat" where
  "device_w states d = read_sensor_w states (xd_power_sensor d)"

text \<open>A device whose power is taken off the reading, in part or whole.\<close>

definition is_excluded :: "load_states \<Rightarrow> bool \<Rightarrow> load_device \<Rightarrow> bool" where
  "is_excluded states has_solar d = (metered_device d \<and> xd_included d \<and> read_sensor_w_opt states (xd_power_sensor d) \<noteq> None
     \<and> (xd_surplus d \<longrightarrow> has_solar))"

definition excluded_w :: "load_states \<Rightarrow> bool \<Rightarrow> load_device \<Rightarrow> rat \<Rightarrow> rat" where
  "excluded_w states has_solar d x = (if is_excluded states has_solar d then (device_w states d - x) * exclusion_factor d else 0)"

text \<open>
  The sun a device is offset by when the devices before it have taken \<open>taken\<close>: its own power,
  no more than what is left of the whole sun for a device that covers the home, and of what the
  home leaves for any other.
\<close>

definition sun_share :: "load_states \<Rightarrow> bool \<Rightarrow> rat \<Rightarrow> rat \<Rightarrow> load_device \<Rightarrow> rat \<Rightarrow> rat" where
  "sun_share states has_solar sun left d taken =
     (if is_excluded states has_solar d \<and> xd_surplus d
      then min (device_w states d) (max 0 ((if xd_cover_home d then sun else left) - taken)) else 0)"

text \<open>The power of a device whose power the reading lacks; it is added.\<close>

definition missing_w :: "load_states \<Rightarrow> load_device \<Rightarrow> rat" where
  "missing_w states d = (if metered_device d \<and> \<not> xd_included d then device_w states d else 0)"

text \<open>The running state after the devices before took \<open>taken\<close>; \<open>home\<close> is what the home leaves, if read.\<close>

definition sun_after :: "rat \<Rightarrow> rat option \<Rightarrow> rat \<Rightarrow> adjustment \<Rightarrow> bool" where
  "sun_after sun home taken a = (aj_solar a = max 0 (sun - taken)
     \<and> aj_surplus a = map_option (\<lambda>s. max 0 (s - taken)) home)"

abbreviation left_of :: "rat option \<Rightarrow> rat" where
  "left_of home \<equiv> (case home of None \<Rightarrow> 0 | Some s \<Rightarrow> s)"

lemma adjust_device_step:
  assumes "sun_after sun home taken a" "0 \<le> device_w states d" "0 \<le> taken"
    and "x = sun_share states has_solar sun (left_of home) d taken"
  shows "sun_after sun home (taken + x) (adjust_device states has_solar d a)
    \<and> aj_included (adjust_device states has_solar d a) = aj_included a + excluded_w states has_solar d x
    \<and> aj_total (adjust_device states has_solar d a) = aj_total a + excluded_w states has_solar d x - missing_w states d"
proof (cases "is_excluded states has_solar d \<and> xd_surplus d \<and> (home \<noteq> None \<or> xd_cover_home d)")
  case False
  then have "x = 0" using assms(2-4) by (auto simp: sun_share_def)
  then show ?thesis using False assms(1)
    by (auto simp: adjust_device_def exclude_part_def sun_after_def excluded_w_def is_excluded_def missing_w_def device_w_def
        read_sensor_w_def split: option.split)
next
  case True
  then obtain w where w: "read_sensor_w_opt states (xd_power_sensor d) = Some w" by (auto simp: is_excluded_def)
  then have dw: "device_w states d = w" by (simp add: device_w_def read_sensor_w_def)
  have x: "x = solar_offset d w a"
    using True assms(1,4) dw by (auto simp: sun_share_def solar_offset_def sun_after_def split: option.split bool.split)
  have "0 \<le> x" using assms(2,4) by (simp add: sun_share_def)
  have "adjust_device states has_solar d a = exclude_part ((w - x) * exclusion_factor d)
      (a\<lparr>aj_solar := max 0 (aj_solar a - x), aj_surplus := map_option (\<lambda>y. max 0 (y - x)) (aj_surplus a)\<rparr>)"
    using True w assms(1) unfolding x by (auto simp: adjust_device_def is_excluded_def sun_after_def Let_def)
  then show ?thesis using True assms(1) dw \<open>0 \<le> x\<close>
    by (cases home) (auto simp: exclude_part_def excluded_w_def missing_w_def is_excluded_def sun_after_def)
qed

lemma sun_share_within:
  assumes "0 \<le> device_w states d" "0 \<le> left" "left \<le> sun"
  shows "0 \<le> sun_share states has_solar sun left d taken"
    "sun_share states has_solar sun left d taken \<le> max 0 (sun - taken)"
    "\<not> xd_cover_home d \<Longrightarrow> sun_share states has_solar sun left d taken \<le> max 0 (left - taken)"
  using assms by (auto simp: sun_share_def)

lemma adjust_devices_sum:
  assumes "sun_after sun home taken a" "list_all (\<lambda>d. 0 \<le> device_w states d) ds" "0 \<le> taken"
    "0 \<le> left_of home" "left_of home \<le> sun"
  shows "\<exists>xs. length xs = length ds
    \<and> (\<forall>k < length ds. xs ! k = sun_share states has_solar sun (left_of home) (ds ! k) (taken + sum_list (take k xs)))
    \<and> sum_list xs \<le> max 0 (sun - taken)
    \<and> sum_list (map2 (\<lambda>d x. if xd_cover_home d then 0 else x) ds xs) \<le> max 0 (left_of home - taken)
    \<and> aj_included (fold (adjust_device states has_solar) ds a) = aj_included a + sum_list (map2 (excluded_w states has_solar) ds xs)
    \<and> aj_total (fold (adjust_device states has_solar) ds a)
        = aj_total a + sum_list (map2 (excluded_w states has_solar) ds xs) - sum_list (map (missing_w states) ds)"
  using assms
proof (induction ds arbitrary: a taken)
  case (Cons d ds)
  define x where "x = sun_share states has_solar sun (left_of home) d taken"
  define a' where "a' = adjust_device states has_solar d a"
  have d: "0 \<le> device_w states d" "list_all (\<lambda>d. 0 \<le> device_w states d) ds" using Cons.prems(2) by simp_all
  have st: "sun_after sun home (taken + x) a'" "aj_included a' = aj_included a + excluded_w states has_solar d x"
    "aj_total a' = aj_total a + excluded_w states has_solar d x - missing_w states d"
    using adjust_device_step [OF Cons.prems(1) d(1) Cons.prems(3) x_def] by (simp_all add: a'_def)
  have x: "0 \<le> x" "x \<le> max 0 (sun - taken)" "\<not> xd_cover_home d \<Longrightarrow> x \<le> max 0 (left_of home - taken)"
    unfolding x_def by (rule sun_share_within [OF d(1) Cons.prems(4,5)]; assumption)+
  have "0 \<le> taken + x" using Cons.prems(3) x(1) by simp
  from Cons.IH [OF st(1) d(2) this Cons.prems(4,5)]
  obtain xs where xs: "length xs = length ds"
    "\<forall>k < length ds. xs ! k = sun_share states has_solar sun (left_of home) (ds ! k) (taken + x + sum_list (take k xs))"
    "sum_list xs \<le> max 0 (sun - (taken + x))"
    "sum_list (map2 (\<lambda>d x. if xd_cover_home d then 0 else x) ds xs) \<le> max 0 (left_of home - (taken + x))"
    "aj_included (fold (adjust_device states has_solar) ds a') = aj_included a' + sum_list (map2 (excluded_w states has_solar) ds xs)"
    "aj_total (fold (adjust_device states has_solar) ds a')
        = aj_total a' + sum_list (map2 (excluded_w states has_solar) ds xs) - sum_list (map (missing_w states) ds)"
    by blast
  have "\<forall>k < length (d # ds). (x # xs) ! k
      = sun_share states has_solar sun (left_of home) ((d # ds) ! k) (taken + sum_list (take k (x # xs)))"
    using xs(2) by (simp add: All_less_Suc2 x_def add.assoc)
  moreover have "sum_list (x # xs) \<le> max 0 (sun - taken)" using x(1,2) xs(3) by (auto simp: max_def split: if_splits)
  moreover have "sum_list (map2 (\<lambda>d x. if xd_cover_home d then 0 else x) (d # ds) (x # xs)) \<le> max 0 (left_of home - taken)"
    using x(1,3) xs(4) by (auto simp: max_def split: if_splits)
  ultimately show ?case using xs(1,5,6) st(2,3) by (intro exI [of _ "x # xs"]) (simp add: a'_def [symmetric])
qed simp

text \<open>
  C24. The sun is handed out once, and all that is left to the batteries: with readings that are
  not negative, each device that follows the sun is offset, in the order of the list, by as much
  of its power as the devices before it have left of its sun (all the sun for a device that
  covers the home, what the home leaves for another); together no more than the sun, and those
  that do not cover the home no more than the home leaves. What is taken off the grid reading
  is, device by device, the share of the rest that is to be excluded, less the power of the
  metered devices the reading does not hold; the sum of the shares alone is what is kept as the
  excluded power.
\<close>

theorem sun_is_handed_out_once:
  assumes "list_all (\<lambda>d. 0 \<le> device_w states d) ds" and "0 \<le> read_sensor_w states solar_sensor"
    and "sun = read_sensor_w states solar_sensor"
    and "left = (case (solar_sensor, read_home_consumption states home_sensor) of
        (Some _, Some h) \<Rightarrow> max 0 (sun - max 0 (h - included_device_power_w states ds)) | _ \<Rightarrow> 0)"
    and "a = calculate_adjustment states solar_sensor home_sensor ds"
  shows "\<exists>xs. length xs = length ds
    \<and> (\<forall>k < length ds. xs ! k = sun_share states (solar_sensor \<noteq> None) sun left (ds ! k) (sum_list (take k xs)))
    \<and> sum_list xs \<le> sun \<and> sum_list (map2 (\<lambda>d x. if xd_cover_home d then 0 else x) ds xs) \<le> left
    \<and> aj_included a = sum_list (map2 (excluded_w states (solar_sensor \<noteq> None)) ds xs)
    \<and> aj_total a = aj_included a - sum_list (map (missing_w states) ds)"
proof -
  define s where "s = start_adjustment states solar_sensor home_sensor ds"
  have sun: "aj_solar s = sun" "aj_included s = 0" "aj_total s = 0"
    by (auto simp: s_def assms(3) start_adjustment_def read_sensor_w_def read_sensor_w_opt_def known_state_def Let_def)
  have left: "left_of (aj_surplus s) = left" "0 \<le> left" "left \<le> sun"
    using assms(2) by (auto simp: s_def assms(3,4) start_adjustment_def read_sensor_w_def read_sensor_w_opt_def known_state_def
        Let_def split: option.split)
  have "sun_after sun (aj_surplus s) 0 s"
    using left sun(1) by (cases "aj_surplus s") (auto simp: sun_after_def)
  from adjust_devices_sum [OF this assms(1), of "solar_sensor \<noteq> None"]
  obtain xs where "length xs = length ds"
    "\<forall>k < length ds. xs ! k = sun_share states (solar_sensor \<noteq> None) sun left (ds ! k) (sum_list (take k xs))"
    "sum_list xs \<le> sun" "sum_list (map2 (\<lambda>d x. if xd_cover_home d then 0 else x) ds xs) \<le> left"
    "aj_included a = sum_list (map2 (excluded_w states (solar_sensor \<noteq> None)) ds xs)"
    "aj_total a = sum_list (map2 (excluded_w states (solar_sensor \<noteq> None)) ds xs) - sum_list (map (missing_w states) ds)"
    using left sun(2,3) order_trans [OF left(2,3)]
    unfolding assms(5) calculate_adjustment_def s_def [symmetric] left(1) add_0 diff_zero by force
  then show ?thesis by (intro exI [of _ xs]) simp
qed

section \<open>Charging vehicles\<close>


definition ev_after :: "time \<Rightarrow> bool \<Rightarrow> bool \<times> time option \<Rightarrow> bool \<times> time option" where
  "ev_after now charging c =
     (let p = (if charging \<and> \<not> fst c then Some (now + EV_PAUSE_S) else if \<not> charging \<and> fst c then None else snd c)
      in (charging, case p of None \<Rightarrow> None | Some t \<Rightarrow> if now < t then Some t else None))"

definition ev_view :: "ev_state \<Rightarrow> string \<Rightarrow> bool \<times> time option" where
  "ev_view st k = (dict_get False (ev_charging st) k, map_of (ev_pause_until st) k)"

lemma check_ev_view:
  "ev_view (fst (check_ev now k charging st)) k' = (if k' = k then ev_after now charging (ev_view st k) else ev_view st k')"
  "snd (check_ev now k charging st) = (snd (ev_after now charging (ev_view st k)) \<noteq> None,
     charging \<and> snd (ev_after now charging (ev_view st k)) = None)"
  by (auto simp: check_ev_def ev_view_def ev_after_def Let_def dict_get_update update_conv' delete_conv' dict_get_def split: option.splits)

lemma ev_after_idem: "ev_after now charging (ev_after now charging c) = ev_after now charging c"
  by (auto simp: ev_after_def Let_def split: option.splits)

definition seen_charging :: "load_states \<Rightarrow> string \<Rightarrow> bool option" where
  "seen_charging states k = map_option (\<lambda>v. state_is_active (Some v)) (known_state states (Some k))"

definition ev_next :: "load_states \<Rightarrow> time \<Rightarrow> load_device list \<Rightarrow> ev_state \<Rightarrow> string \<Rightarrow> bool \<times> time option" where
  "ev_next states now ds st k = (case seen_charging states k of
     Some charging \<Rightarrow> if Some k \<in> ev_sensor ` set ds then ev_after now charging (ev_view st k) else ev_view st k
   | None \<Rightarrow> ev_view st k)"

lemma check_evs_Cons:
  "check_ev_charger_state states now (d # ds) st =
     (case ev_sensor d of None \<Rightarrow> check_ev_charger_state states now ds st
      | Some j \<Rightarrow> (case seen_charging states j of None \<Rightarrow> check_ev_charger_state states now ds st
        | Some charging \<Rightarrow>
           (let r = check_ev now j charging st; q = check_ev_charger_state states now ds (fst r)
            in (fst q, fst (snd r) \<or> fst (snd q), snd (snd r) \<or> snd (snd q)))))"
proof (cases "ev_sensor d")
  case (Some j)
  then show ?thesis by (cases "known_state states (Some j)") (simp_all add: seen_charging_def Let_def split_beta)
qed (simp add: known_state_def)

lemma check_evs_view:
  "ev_view (fst (check_ev_charger_state states now ds st)) k = ev_next states now ds st k"
proof (induction ds arbitrary: st)
  case (Cons d ds)
  show ?case
    by (auto simp: check_evs_Cons Cons.IH ev_next_def Let_def check_ev_view ev_after_idem image_iff
        simp del: check_ev_charger_state.simps split: option.splits)
qed (simp add: ev_next_def split: option.split)

lemma check_evs_flags:
  "snd (check_ev_charger_state states now ds st) =
     ((\<exists>k c. Some k \<in> ev_sensor ` set ds \<and> seen_charging states k = Some c \<and> snd (ev_after now c (ev_view st k)) \<noteq> None),
      (\<exists>k. Some k \<in> ev_sensor ` set ds \<and> seen_charging states k = Some True \<and> snd (ev_after now True (ev_view st k)) = None))"
proof (induction ds arbitrary: st)
  case (Cons d ds)
  show ?case
  proof (cases "\<exists>j c. ev_sensor d = Some j \<and> seen_charging states j = Some c")
    case False
    then have "check_ev_charger_state states now (d # ds) st = check_ev_charger_state states now ds st"
      by (auto simp: check_evs_Cons simp del: check_ev_charger_state.simps split: option.split)
    with False show ?thesis by (fastforce simp: Cons.IH simp del: check_ev_charger_state.simps)
  next
    case True
    then obtain j c where j: "ev_sensor d = Some j" "seen_charging states j = Some c" by blast
    define st1 where "st1 = fst (check_ev now j c st)"
    have v: "seen_charging states k = Some b \<Longrightarrow> ev_after now b (ev_view st1 k) = ev_after now b (ev_view st k)" for k b
      using j by (auto simp: st1_def check_ev_view ev_after_idem)
    have eq: "snd (check_ev_charger_state states now (d # ds) st) =
        (snd (ev_after now c (ev_view st j)) \<noteq> None \<or> fst (snd (check_ev_charger_state states now ds st1)),
         c \<and> snd (ev_after now c (ev_view st j)) = None \<or> snd (snd (check_ev_charger_state states now ds st1)))"
      using j by (simp add: check_evs_Cons Let_def check_ev_view st1_def del: check_ev_charger_state.simps)
    show ?thesis unfolding eq Cons.IH using j by (auto simp: v image_iff)
  qed
qed simp

lemma active_put_global:
  "active (put_global d s r dets now on g) d' sc =
     (if d' = d \<and> sc = None then (if on then insert s (active g d None) else active g d None - {s}) else active g d' sc)"
  by (simp add: put_global_def active_set_block active_remove_block)

definition pausing :: "load_states \<Rightarrow> time \<Rightarrow> load_device list \<Rightarrow> ev_state \<Rightarrow> bool" where
  "pausing states now ds st = fst (snd (check_ev_charger_state states now ds st))"

definition feeding :: "load_states \<Rightarrow> time \<Rightarrow> load_device list \<Rightarrow> ev_state \<Rightarrow> bool" where
  "feeding states now ds st = snd (snd (check_ev_charger_state states now ds st))"

lemma refresh_ev_active:
  "active (snd (refresh_ev_blocks states now ds stamp s)) True None =
     (if pausing states now ds (fst s) then insert ''ev_pause'' (active (snd s) True None) else active (snd s) True None - {''ev_pause''})"
  "''ev_pause'' \<in> active (snd (refresh_ev_blocks states now ds stamp s)) False None \<longleftrightarrow> pausing states now ds (fst s)"
  "''ev_charging'' \<in> active (snd (refresh_ev_blocks states now ds stamp s)) False None \<longleftrightarrow> feeding states now ds (fst s)"
  by (auto simp: refresh_ev_blocks_def Let_def split_beta active_put_global pausing_def feeding_def)

lemma refresh_ev_view: "ev_view (fst (refresh_ev_blocks states now ds stamp s)) k = ev_next states now ds (fst s) k"
  by (simp add: refresh_ev_blocks_def Let_def split_beta check_evs_view)

definition ev_run :: "load_device list \<Rightarrow> (load_states \<times> time \<times> rat) list \<Rightarrow> ev_state \<times> gate_state \<Rightarrow> ev_state \<times> gate_state" where
  "ev_run ds obs s = fold (\<lambda>(states, now, stamp). refresh_ev_blocks states now ds stamp) obs s"

lemma charging_streak:
  assumes "list_all (\<lambda>(states, now, stamp). seen_charging states k = Some True \<and> t0 \<le> now) obs"
    and "sorted (map (\<lambda>(states, now, stamp). now) obs)" and "Some k \<in> ev_sensor ` set ds"
    and "ev_view (fst s) k = (True, p)" and "p = None \<or> p = Some (t0 + EV_PAUSE_S)"
    and "p = None \<Longrightarrow> list_all (\<lambda>(states, now, stamp). t0 + EV_PAUSE_S \<le> now) obs" and "obs \<noteq> []"
  shows "ev_view (fst (ev_run ds obs s)) k
    = (True, if fst (snd (List.last obs)) < t0 + EV_PAUSE_S then Some (t0 + EV_PAUSE_S) else None)"
  using assms
proof (induction obs arbitrary: s p)
  case (Cons ob obs)
  obtain states now stamp where ob: "ob = (states, now, stamp)" by (cases ob)
  let ?s = "refresh_ev_blocks states now ds stamp s"
  have v: "ev_view (fst ?s) k = (True, if now < t0 + EV_PAUSE_S then Some (t0 + EV_PAUSE_S) else None)"
    using Cons.prems ob by (auto simp: refresh_ev_view ev_next_def ev_after_def)
  show ?case
  proof (cases "obs = []")
    case False
    have "ev_view (fst (ev_run ds obs ?s)) k
        = (True, if fst (snd (List.last obs)) < t0 + EV_PAUSE_S then Some (t0 + EV_PAUSE_S) else None)"
      using Cons.prems ob False by (intro Cons.IH [OF _ _ _ v]) (auto simp: list_all_iff split: if_splits)
    then show ?thesis using False by (simp add: ev_run_def ob)
  qed (use v in \<open>simp add: ev_run_def ob\<close>)
qed simp

text \<open>Pauses of vehicles that charge only.\<close>

definition pauses_charge :: "ev_state \<Rightarrow> bool" where
  "pauses_charge st = (\<forall>k. snd (ev_view st k) \<noteq> None \<longrightarrow> fst (ev_view st k))"

lemma pauses_charge_run: "pauses_charge (fst s) \<Longrightarrow> pauses_charge (fst (ev_run ds obs s))"
proof (induction obs arbitrary: s)
  case (Cons ob obs)
  obtain states now stamp where ob: "ob = (states, now, stamp)" by (cases ob)
  have "pauses_charge (fst (refresh_ev_blocks states now ds stamp s))"
    using Cons.prems by (auto simp: pauses_charge_def refresh_ev_view ev_next_def ev_after_def Let_def split: option.splits)
  from Cons.IH [OF this] show ?case by (simp add: ev_run_def ob)
qed (simp add: ev_run_def)

lemma idle_vehicles_release:
  assumes "pauses_charge (fst s)"
    and "\<forall>k \<in> {k. Some k \<in> ev_sensor ` set ds}. seen_charging states k = Some False"
  shows "''ev_pause'' \<notin> active (snd (refresh_ev_blocks states now ds stamp s)) True None
    \<and> {''ev_pause'', ''ev_charging''} \<inter> active (snd (refresh_ev_blocks states now ds stamp s)) False None = {}"
proof -
  have "snd (ev_after now False (ev_view (fst s) k)) = None" for k
    using assms(1) by (auto simp: pauses_charge_def ev_after_def Let_def split: option.split)
  then have "\<not> pausing states now ds (fst s) \<and> \<not> feeding states now ds (fst s)"
    using assms(2) by (auto simp: pausing_def feeding_def check_evs_flags)
  then show ?thesis using refresh_ev_active [of states now ds stamp s] by auto
qed

text \<open>
  C28. A charging vehicle is kept from the batteries: from the first look at it, at \<open>t0\<close>, and as
  long as it is seen charging, whatever the other vehicles do, the discharge is blocked for every
  battery; for five minutes the charge is blocked too. The next
  look, if it sees every vehicle idle, withdraws both sources.
\<close>

theorem charging_vehicle_kept_from_batteries:
  assumes "pauses_charge (fst s)"
    and "list_all (\<lambda>(states, now, stamp). seen_charging states k = Some True) ((states0, t0, stamp0) # obs)"
    and "sorted (map (\<lambda>(states, now, stamp). now) ((states0, t0, stamp0) # obs))" and "Some k \<in> ev_sensor ` set ds"
    and "\<not> dict_get False (ev_charging (fst s)) k"
    and "t = fst (snd (List.last ((states0, t0, stamp0) # obs)))" and "g = snd (ev_run ds ((states0, t0, stamp0) # obs) s)"
  shows "is_discharge_blocked g oc ie
    \<and> (if t < t0 + 300 then is_charge_blocked g oc \<and> ''ev_pause'' \<in> active g True None \<inter> active g False None
       else ''ev_charging'' \<in> active g False None)
    \<and> (\<forall>states' t' stamp'. (\<forall>k' \<in> {k'. Some k' \<in> ev_sensor ` set ds}. seen_charging states' k' = Some False) \<longrightarrow>
        ''ev_pause'' \<notin> active (snd (refresh_ev_blocks states' t' ds stamp' (ev_run ds ((states0, t0, stamp0) # obs) s))) True None
        \<and> {''ev_pause'', ''ev_charging''} \<inter>
            active (snd (refresh_ev_blocks states' t' ds stamp' (ev_run ds ((states0, t0, stamp0) # obs) s))) False None = {})"
proof -
  define s1 where "s1 = ev_run ds (butlast ((states0, t0, stamp0) # obs)) s"
  obtain states stamp where l: "List.last ((states0, t0, stamp0) # obs) = (states, t, stamp)"
    using assms(6) by (metis prod.collapse fst_conv snd_conv)
  have run: "ev_run ds ((states0, t0, stamp0) # obs) s = refresh_ev_blocks states t ds stamp s1"
    unfolding s1_def ev_run_def
    by (subst append_butlast_last_id [symmetric, of "(states0, t0, stamp0) # obs"], simp, simp only: l fold_append) simp
  have "(states, t, stamp) \<in> set ((states0, t0, stamp0) # obs)" using last_in_set [of "(states0, t0, stamp0) # obs"] l by simp
  then have seen: "seen_charging states k = Some True" using assms(2) by (auto simp: list_all_iff)
  have idle: "\<not> fst (ev_view (fst s) k)" using assms(5) by (simp add: ev_view_def)
  have first: "ev_view (fst (refresh_ev_blocks states0 t0 ds stamp0 s)) k = (True, Some (t0 + EV_PAUSE_S))"
    using assms(2,4) idle by (simp add: refresh_ev_view ev_next_def ev_after_def EV_PAUSE_S_def)
  have v: "ev_view (fst (refresh_ev_blocks states t ds stamp s1)) k
      = (True, if t < t0 + EV_PAUSE_S then Some (t0 + EV_PAUSE_S) else None)"
  proof (cases "obs = []")
    case True
    then show ?thesis using first run l by (simp add: ev_run_def EV_PAUSE_S_def)
  next
    case False
    have "ev_view (fst (ev_run ds obs (refresh_ev_blocks states0 t0 ds stamp0 s))) k
        = (True, if fst (snd (List.last obs)) < t0 + EV_PAUSE_S then Some (t0 + EV_PAUSE_S) else None)"
      using assms(2-4) False by (intro charging_streak [OF _ _ _ first]) (auto simp: list_all_iff)
    then show ?thesis using run l False by (simp add: ev_run_def)
  qed
  have nx: "ev_next states t ds (fst s1) k = ev_after t True (ev_view (fst s1) k)"
    using seen assms(4) by (simp add: ev_next_def)
  have g: "g = snd (refresh_ev_blocks states t ds stamp s1)" by (simp only: assms(7) run)
  have "if t < t0 + 300 then pausing states t ds (fst s1) else feeding states t ds (fst s1)"
    using v nx seen assms(4) unfolding refresh_ev_view pausing_def feeding_def check_evs_flags EV_PAUSE_S_def
    by (cases "t < t0 + 300") (simp_all only: if_True if_False not_False_eq_True fst_conv snd_conv, metis option.simps(3) snd_conv, metis snd_conv)
  then have now: "is_discharge_blocked g oc ie
    \<and> (if t < t0 + 300 then is_charge_blocked g oc \<and> ''ev_pause'' \<in> active g True None \<inter> active g False None
       else ''ev_charging'' \<in> active g False None)"
  proof (cases "t < t0 + 300")
    case True
    then have "''ev_pause'' \<in> active g True None" "''ev_pause'' \<in> active g False None"
      using \<open>if t < t0 + 300 then _ else _\<close> refresh_ev_active(1,2) [of states t ds stamp s1] by (simp_all add: g)
    moreover have "''ev_pause'' \<notin> set economic" by (simp add: economic_def)
    ultimately show ?thesis using True unfolding is_discharge_blocked_active is_charge_blocked_active by auto
  next
    case False
    then have "''ev_charging'' \<in> active g False None"
      using \<open>if t < t0 + 300 then _ else _\<close> refresh_ev_active(3) [of states t ds stamp s1] by (simp add: g)
    moreover have "''ev_charging'' \<notin> set economic" by (simp add: economic_def)
    ultimately show ?thesis using False unfolding is_discharge_blocked_active by auto
  qed
  show ?thesis
    by (intro conjI allI impI, use now in blast, use now in blast)
      (use idle_vehicles_release [OF pauses_charge_run [OF assms(1)]] in blast)+
qed

section \<open>Controlled loads\<close>

text \<open>One device over looks at (time, sun, its power), none of them requesting power.\<close>

definition dyn_run :: "load_device \<Rightarrow> (time \<times> rat \<times> rat) list \<Rightarrow> dyn_latch \<Rightarrow> dyn_latch \<times> dyn_verdict" where
  "dyn_run d looks l = fold (\<lambda>(now, s, p) (l, v). dyn_step d now (Some s) (Some p) False l) looks (l, no_verdict)"

lemma dyn_run_snoc: "dyn_run d (looks @ [(now, s, p)]) l = dyn_step d now (Some s) (Some p) False (fst (dyn_run d looks l))"
  by (simp add: dyn_run_def split_beta)

definition within_step :: "rat \<Rightarrow> rat \<Rightarrow> rat \<Rightarrow> bool" where
  "within_step lo s p = (lo \<le> s - p \<and> s - p < lo + DYNAMIC_CONTROL_SOLAR_STEP_W)"

definition steady_latch :: "rat \<Rightarrow> time \<Rightarrow> time \<Rightarrow> bool \<Rightarrow> dyn_latch \<Rightarrow> bool" where
  "steady_latch lo hold yield drawing l = (dl_hold l = Some hold \<and> dl_yield l = Some yield \<and> dl_was_drawing l = drawing
     \<and> (\<exists>a b. dl_solar l = Some a \<and> dl_device l = Some b \<and> within_step lo a b))"

lemma drawing_starts:
  assumes "DYNAMIC_CONTROL_ACTIVE_POWER_W < p" "within_step lo s p"
  shows "steady_latch lo (now + 300) (now + 30) True (fst (dyn_step d now (Some s) (Some p) False no_latch))"
  using assms
  by (simp_all add: dyn_step_def drawing_latch_def no_latch_def remember_def or_else_def Let_def steady_latch_def
      DYNAMIC_CONTROL_HOLD_S_def DYNAMIC_CONTROL_INITIAL_YIELD_S_def)

lemma drawing_goes_on:
  assumes "DYNAMIC_CONTROL_ACTIVE_POWER_W < p" "within_step lo s p" "steady_latch lo hold yield True l"
  shows "steady_latch lo (now + 300) yield True (fst (dyn_step d now (Some s) (Some p) False l))"
  using assms
  by (auto simp: dyn_step_def drawing_latch_def remember_def or_else_def Let_def steady_latch_def within_step_def DYNAMIC_CONTROL_HOLD_S_def)

lemma drawing_verdict:
  assumes "DYNAMIC_CONTROL_ACTIVE_POWER_W < p" "steady_latch lo hold yield True (fst (dyn_step d now (Some s) (Some p) False l))"
  shows "dv_charge (snd (dyn_step d now (Some s) (Some p) False l)) \<longleftrightarrow> now < yield"
    "dv_discharge (snd (dyn_step d now (Some s) (Some p) False l)) \<longleftrightarrow> \<not> xd_cover_home d"
    "dv_priority (snd (dyn_step d now (Some s) (Some p) False l))"
  using assms by (auto simp: dyn_step_def Let_def steady_latch_def yielding_def or_else_def)

lemma idle_starts:
  assumes "p \<le> DYNAMIC_CONTROL_ACTIVE_POWER_W" "within_step lo s p" "dl_hold l = Some hold" "dl_was_drawing l"
    "xd_activity_sensor d = None"
  shows "if now < hold then steady_latch lo hold (now + 30) False (fst (dyn_step d now (Some s) (Some p) False l))
    else fst (dyn_step d now (Some s) (Some p) False l) = no_latch"
  using assms
  by (auto simp: dyn_step_def held_latch_def remember_def or_else_def Let_def steady_latch_def within_step_def DYNAMIC_CONTROL_INITIAL_YIELD_S_def)

lemma idle_goes_on:
  assumes "p \<le> DYNAMIC_CONTROL_ACTIVE_POWER_W" "within_step lo s p" "steady_latch lo hold yield False l" "xd_activity_sensor d = None"
  shows "if now < hold then steady_latch lo hold yield False (fst (dyn_step d now (Some s) (Some p) False l))
    else fst (dyn_step d now (Some s) (Some p) False l) = no_latch"
  using assms
  by (auto simp: dyn_step_def held_latch_def remember_def or_else_def Let_def steady_latch_def within_step_def)

lemma idle_verdict:
  assumes "p \<le> DYNAMIC_CONTROL_ACTIVE_POWER_W" "xd_activity_sensor d = None"
    "if now < hold then steady_latch lo hold yield False (fst (dyn_step d now (Some s) (Some p) False l))
     else fst (dyn_step d now (Some s) (Some p) False l) = no_latch" "dl_hold l = Some hold"
  shows "dv_charge (snd (dyn_step d now (Some s) (Some p) False l)) \<longleftrightarrow> now < hold \<and> now < yield"
    "dv_discharge (snd (dyn_step d now (Some s) (Some p) False l)) \<longleftrightarrow> now < hold \<and> \<not> xd_cover_home d"
    "dv_priority (snd (dyn_step d now (Some s) (Some p) False l)) \<longleftrightarrow> now < hold"
  using assms by (auto simp: dyn_step_def Let_def steady_latch_def yielding_def or_else_def no_verdict_def)

lemma idle_forgotten:
  assumes "p \<le> DYNAMIC_CONTROL_ACTIVE_POWER_W" 
  shows "dyn_step d now (Some s) (Some p) False no_latch = (no_latch, no_verdict)"
  using assms by (simp add: dyn_step_def no_latch_def)

definition drawing_look :: "rat \<Rightarrow> time \<times> rat \<times> rat \<Rightarrow> bool" where
  "drawing_look lo = (\<lambda>(now, s, p). DYNAMIC_CONTROL_ACTIVE_POWER_W < p \<and> within_step lo s p)"

definition idle_look :: "rat \<Rightarrow> time \<times> rat \<times> rat \<Rightarrow> bool" where
  "idle_look lo = (\<lambda>(now, s, p). p \<le> DYNAMIC_CONTROL_ACTIVE_POWER_W \<and> within_step lo s p)"

lemma drawing_run:
  assumes "looks \<noteq> []" "list_all (drawing_look lo) looks"
  shows "steady_latch lo (fst (List.last looks) + 300) (fst (hd looks) + 30) True (fst (dyn_run d looks no_latch))"
  using assms
proof (induction looks rule: rev_induct)
  case (snoc x looks)
  obtain now s p where x: "x = (now, s, p)" by (cases x)
  have a: "DYNAMIC_CONTROL_ACTIVE_POWER_W < p" "within_step lo s p" using snoc.prems(2) by (auto simp: x drawing_look_def)
  show ?case
  proof (cases "looks = []")
    case True
    then show ?thesis using drawing_starts [OF a] by (simp add: x dyn_run_def)
  next
    case False
    then have "steady_latch lo (fst (List.last looks) + 300) (fst (hd looks) + 30) True (fst (dyn_run d looks no_latch))"
      using snoc by simp
    from drawing_goes_on [OF a this] show ?thesis using False by (simp add: x dyn_run_snoc)
  qed
qed simp

lemma idle_run:
  assumes "looks \<noteq> []" "list_all (idle_look lo) looks" "sorted (map fst looks)" "dl_hold l = Some hold" "dl_was_drawing l"
    "xd_activity_sensor d = None"
  shows "if fst (List.last looks) < hold then steady_latch lo hold (fst (hd looks) + 30) False (fst (dyn_run d looks l))
    else fst (dyn_run d looks l) = no_latch"
  using assms(1-3)
proof (induction looks rule: rev_induct)
  case (snoc x looks)
  obtain now s p where x: "x = (now, s, p)" by (cases x)
  have a: "p \<le> DYNAMIC_CONTROL_ACTIVE_POWER_W" "within_step lo s p" using snoc.prems(2) by (auto simp: x idle_look_def)
  show ?case
  proof (cases "looks = []")
    case True
    then show ?thesis using idle_starts [OF a assms(4-6), of now] by (simp add: x dyn_run_def)
  next
    case False
    then have ih: "if fst (List.last looks) < hold then steady_latch lo hold (fst (hd looks) + 30) False (fst (dyn_run d looks l))
        else fst (dyn_run d looks l) = no_latch"
      using snoc by (simp add: sorted_append)
    have "fst (List.last looks) \<le> now" using snoc.prems(3) False by (simp add: x sorted_append)
    then show ?thesis
      using ih idle_goes_on [OF a _ assms(6), of hold "fst (hd looks) + 30" "fst (dyn_run d looks l)" now]
        idle_forgotten [OF a(1), of d now s] False
      by (cases "fst (List.last looks) < hold") (simp_all add: x dyn_run_snoc)
  qed
qed simp

lemma dyn_run_append: "dyn_run d (xs @ ys) l = (if ys = [] then dyn_run d xs l else dyn_run d ys (fst (dyn_run d xs l)))"
proof (induction ys rule: rev_induct)
  case (snoc y ys)
  obtain now s p where y: "y = (now, s, p)" by (cases y)
  have "dyn_run d (xs @ ys @ [y]) l = dyn_step d now (Some s) (Some p) False (fst (dyn_run d (xs @ ys) l))"
    using dyn_run_snoc [of d "xs @ ys" now s p l] by (simp add: y)
  then show ?case using snoc dyn_run_snoc [of d ys now s p] by (cases "ys = []") (simp_all add: y dyn_run_def)
qed simp

text \<open>
  C35. A controlled load without an activity sensor, while its sun margin moves by less than the
  step of 200 W, first as it draws and then as it idles: from the first look that sees it draw the
  charge yields for 30 s and no longer, and the discharge is blocked as long as it draws (never
  for a device that covers the home). After it stopped the priority and that block are kept for
  300 s from the last look at a draw and for no look after that; the charge yields a second time,
  for 30 s from the first idle look, within them; and then the device is forgotten.
\<close>

theorem controlled_load_yields_and_lets_go:
  assumes "list_all (drawing_look lo) draws" and "draws \<noteq> []" and "list_all (idle_look lo') idles" and "sorted (map fst idles)"
    and "xd_activity_sensor d = None" and "v = snd (dyn_run d (draws @ idles) no_latch)"
    and "t = fst (List.last (draws @ idles))" and "hold = fst (List.last draws) + 300"
  shows "if idles = []
    then dv_priority v \<and> (dv_charge v \<longleftrightarrow> t < fst (hd draws) + 30) \<and> (dv_discharge v \<longleftrightarrow> \<not> xd_cover_home d)
    else (dv_priority v \<longleftrightarrow> t < hold) \<and> (dv_charge v \<longleftrightarrow> t < hold \<and> t < fst (hd idles) + 30)
      \<and> (dv_discharge v \<longleftrightarrow> t < hold \<and> \<not> xd_cover_home d)
      \<and> (hold \<le> t \<longrightarrow> fst (dyn_run d (draws @ idles) no_latch) = no_latch)"
proof (cases "idles = []")
  case True
  obtain ds now s p where l: "draws = ds @ [(now, s, p)]"
    using assms(2) by (metis append_butlast_last_id prod.collapse)
  have "DYNAMIC_CONTROL_ACTIVE_POWER_W < p" using assms(1) by (simp add: l drawing_look_def)
  moreover have "steady_latch lo (now + 300) (fst (hd draws) + 30) True (fst (dyn_step d now (Some s) (Some p) False (fst (dyn_run d ds no_latch))))"
    using drawing_run [OF assms(2,1), of d] by (simp add: l dyn_run_snoc)
  ultimately show ?thesis using drawing_verdict True by (simp add: assms(6,7) l dyn_run_snoc)
next
  case False
  obtain ms now s p where l: "idles = ms @ [(now, s, p)]"
    using False by (metis append_butlast_last_id prod.collapse)
  define l0 where "l0 = fst (dyn_run d draws no_latch)"
  have l0: "dl_hold l0 = Some hold" "dl_was_drawing l0"
    using drawing_run [OF assms(2,1), of d] by (simp_all add: l0_def steady_latch_def assms(8))
  have idle: "if now < hold then steady_latch lo' hold (fst (hd idles) + 30) False (fst (dyn_run d idles l0))
      else fst (dyn_run d idles l0) = no_latch"
    using idle_run [OF False assms(3,4) l0 assms(5)] by (simp add: l)
  have p: "p \<le> DYNAMIC_CONTROL_ACTIVE_POWER_W" using assms(3) by (simp add: l idle_look_def)
  define l1 where "l1 = fst (dyn_run d ms l0)"
  have step: "dyn_run d idles l0 = dyn_step d now (Some s) (Some p) False l1" by (simp add: l l1_def dyn_run_snoc)
  have run: "dyn_run d (draws @ idles) no_latch = dyn_step d now (Some s) (Some p) False l1" "t = now"
    using False step by (simp_all add: dyn_run_append l0_def assms(7) l)
  have h: "dl_hold l1 = Some hold \<or> l1 = no_latch \<and> hold \<le> now"
  proof (cases "ms = []")
    case True
    then show ?thesis using l0 by (simp add: l1_def dyn_run_def)
  next
    case False
    then have "if fst (List.last ms) < hold then steady_latch lo' hold (fst (hd ms) + 30) False l1 else l1 = no_latch"
      using assms(3,4) idle_run [OF False _ _ l0 assms(5), of lo'] by (simp add: l1_def l sorted_append)
    moreover have "fst (List.last ms) \<le> now" using assms(4) False by (simp add: l sorted_append)
    ultimately show ?thesis by (auto simp: steady_latch_def split: if_splits)
  qed
  show ?thesis
  proof (cases "l1 = no_latch \<and> hold \<le> now")
    case True
    then show ?thesis using False idle_forgotten [OF p, of d now s] by (simp add: assms(6) run no_verdict_def)
  next
    case lf: False
    then have "dl_hold l1 = Some hold" using h by blast
    from idle_verdict [OF p assms(5) idle [unfolded step] this] show ?thesis using False idle step by (auto simp: assms(6) run)
  qed
qed

section \<open>Witnesses\<close>

definition some_load :: load_device where
  "some_load = \<lparr>xd_enabled = True, xd_no_telemetry = False, xd_included = True, xd_surplus = True, xd_dynamic = True,
     xd_cover_home = False, xd_exclusion = None, xd_power_sensor = Some ''p'', xd_activity_sensor = None,
     xd_demand_sensor = None, xd_presence_sensor = None\<rparr>"

definition some_view :: "rat \<Rightarrow> load_view" where
  "some_view w = \<lparr>lv_known = True, lv_text = ''charging'', lv_value = Some w, lv_in_watts = True, lv_kwh = None, lv_quality = None\<rparr>"

definition some_states :: load_states where
  "some_states = [''p'' \<mapsto> some_view 1500, ''sun'' \<mapsto> some_view 2000, ''home'' \<mapsto> some_view 2500]"

theorem sun_is_handed_out_once_witness:
  "\<exists>x. x = sun_share some_states True 2000 1000 some_load 0
    \<and> aj_total (calculate_adjustment some_states (Some ''sun'') (Some ''home'') [some_load]) = excluded_w some_states True some_load x"
proof -
  have r: "read_home_consumption some_states (Some ''home'') = Some 2500" "read_sensor_w some_states (Some ''sun'') = 2000"
    "included_device_power_w some_states [some_load] = 1500" "device_w some_states some_load = 1500" by code_simp+
  have "list_all (\<lambda>d. 0 \<le> device_w some_states d) [some_load]" "0 \<le> read_sensor_w some_states (Some ''sun'')"
    "(1000 :: rat) = (case (Some ''sun'', read_home_consumption some_states (Some ''home'')) of
        (Some _, Some h) \<Rightarrow> max 0 (2000 - max 0 (h - included_device_power_w some_states [some_load])) | _ \<Rightarrow> 0)"
    by (simp_all add: r)
  from sun_is_handed_out_once [OF this(1,2) r(2) [symmetric] this(3) refl]
  obtain xs where xs: "length xs = length [some_load]"
    "\<forall>k < length [some_load]. xs ! k = sun_share some_states (Some ''sun'' \<noteq> None) 2000 1000 ([some_load] ! k) (sum_list (take k xs))"
    "aj_included (calculate_adjustment some_states (Some ''sun'') (Some ''home'') [some_load])
       = sum_list (map2 (excluded_w some_states (Some ''sun'' \<noteq> None)) [some_load] xs)"
    "aj_total (calculate_adjustment some_states (Some ''sun'') (Some ''home'') [some_load])
       = aj_included (calculate_adjustment some_states (Some ''sun'') (Some ''home'') [some_load]) - sum_list (map (missing_w some_states) [some_load])"
    by blast
  obtain x where x: "xs = [x]" using xs(1) by (auto simp: length_Suc_conv)
  have "missing_w some_states some_load = 0" by (simp add: missing_w_def some_load_def)
  with xs(2-4) show ?thesis unfolding x by simp
qed

theorem charging_vehicle_kept_from_batteries_witness:
  "is_discharge_blocked (snd (ev_run [some_load\<lparr>xd_no_telemetry := True\<rparr>] [(some_states, 5, 5), (some_states, 400, 400)]
     (\<lparr>ev_charging = [], ev_pause_until = []\<rparr>, empty_gates))) None True"
proof -
  have c: "seen_charging some_states ''p'' = Some True" by code_simp
  show ?thesis
    using charging_vehicle_kept_from_batteries [of "(\<lparr>ev_charging = [], ev_pause_until = []\<rparr>, empty_gates)" "''p''"
        some_states 5 5 "[(some_states, 400, 400)]" "[some_load\<lparr>xd_no_telemetry := True\<rparr>]", OF _ _ _ _ _ refl refl]
    by (simp add: c pauses_charge_def ev_view_def ev_sensor_def some_load_def dict_get_def)
qed

theorem controlled_load_yields_and_lets_go_witness:
  "fst (dyn_run some_load ([(0, 3000, 1000), (10, 3100, 1000)] @ [(20, 3000, 50), (310, 3000, 0)]) no_latch) = no_latch"
  using controlled_load_yields_and_lets_go [of 2000 "[(0, 3000, 1000), (10, 3100, 1000)]" 2900 "[(20, 3000, 50), (310, 3000, 0)]"
      some_load, OF _ _ _ _ _ refl refl refl]
  by (simp add: drawing_look_def idle_look_def within_step_def DYNAMIC_CONTROL_ACTIVE_POWER_W_def DYNAMIC_CONTROL_SOLAR_STEP_W_def some_load_def)

end
