(* ===== verification/Local_Bins.thy ===== *)
theory Local_Bins
  imports Price_Base "HOL-Library.AList"
begin

text \<open>
  The quarter-hour bins of the household profile (\<open>tracking/consumption_profile.py\<close>): a range
  of time is cut at the local quarters and at changes of the clock, a power sample is integrated
  over the bins it crosses, and a day is 96 bins of energy and observed time. Instants are seconds
  of UTC; dates are days since 1970-01-01, a wall time is seconds since that midnight. The time
  zone (\<open>zoneinfo\<close>) is a parameter: the clock of an instant, its offset and its fold, and the
  instant of a wall time in either fold. Recorded power is \<open>None\<close> where it is no number.
\<close>

section \<open>Time\<close>

record zone =
  wall_of :: "time \<Rightarrow> time"
  offset_of :: "time \<Rightarrow> rat"
  fold_of :: "time \<Rightarrow> bool"
  stamp_of :: "bool \<Rightarrow> time \<Rightarrow> time"

definition INTERVAL_SECONDS :: rat where "INTERVAL_SECONDS = 900"
definition INTERVAL_COUNT :: nat where "INTERVAL_COUNT = 96"
definition PROFILE_RETENTION_DAYS :: int where "PROFILE_RETENTION_DAYS = 28"
definition MIN_INTERVAL_COVERAGE_S :: rat where "MIN_INTERVAL_COVERAGE_S = 900 * 75 / 100"
definition MAX_SAMPLE_GAP_SECONDS :: rat where "MAX_SAMPLE_GAP_SECONDS = 300"
definition TIME_STEP :: rat where "TIME_STEP = 1 / 10 ^ 7"

definition local_day :: "zone \<Rightarrow> time \<Rightarrow> int" where
  "local_day z t = \<lfloor>wall_of z t / 86400\<rfloor>"

definition interval_index :: "zone \<Rightarrow> time \<Rightarrow> nat" where
  "interval_index z t = min (INTERVAL_COUNT - 1) (nat \<lfloor>(wall_of z t - 86400 * of_int (local_day z t)) / 900\<rfloor>)"

definition quarter_wall :: "time \<Rightarrow> time" where
  "quarter_wall w = 900 * of_int \<lfloor>w / 900\<rfloor> + 900"

definition bisect_offset :: "zone \<Rightarrow> rat \<Rightarrow> time \<times> time \<Rightarrow> time \<times> time" where
  "bisect_offset z off b = (let m = (fst b + snd b) / 2 in if offset_of z m = off then (m, snd b) else (fst b, m))"

text \<open>The first probe, a quarter apart and two hours at most, that sees another offset.\<close>

definition offset_probe :: "zone \<Rightarrow> time \<Rightarrow> time \<Rightarrow> time option" where
  "offset_probe z cursor boundary = List.find (\<lambda>p. offset_of z p \<noteq> offset_of z cursor)
     (takeWhile (\<lambda>p. p < boundary - TIME_STEP) (map (\<lambda>k. cursor + 900 * of_nat k) [1..<9]))"

definition next_local_quarter :: "zone \<Rightarrow> time \<Rightarrow> time" where
  "next_local_quarter z cursor =
     (let boundary = quarter_wall (wall_of z cursor);
          candidates = filter (\<lambda>c. cursor + TIME_STEP < c) (map (\<lambda>f. stamp_of z f boundary) [False, True]);
          b = (if candidates = [] then cursor + INTERVAL_SECONDS else Min (set candidates))
      in case offset_probe z cursor b of
          None \<Rightarrow> b
        | Some p \<Rightarrow> min b (snd ((bisect_offset z (offset_of z cursor) ^^ 40) (cursor, p))))"

function segments :: "zone \<Rightarrow> time \<Rightarrow> time \<Rightarrow> (time \<times> time) list" where
  "segments z cursor finish =
     (if cursor < finish - TIME_STEP
      then (let stop = min finish (max (cursor + TIME_STEP) (next_local_quarter z cursor))
            in (cursor, stop) # segments z stop finish)
      else [])"
  by auto
termination
proof (relation "measure (\<lambda>(z, cursor, finish). nat \<lceil>(finish - cursor) * 10 ^ 7\<rceil>)", simp)
  fix z cursor finish and stop :: time
  assume c: "cursor < finish - TIME_STEP" and s: "stop = min finish (max (cursor + TIME_STEP) (next_local_quarter z cursor))"
  have "(finish - stop) * 10 ^ 7 \<le> (finish - cursor) * 10 ^ 7 - 1"
    using c s by (auto simp: TIME_STEP_def min_def max_def)
  then have "\<lceil>(finish - stop) * 10 ^ 7\<rceil> \<le> \<lceil>(finish - cursor) * 10 ^ 7\<rceil> - 1" by (simp add: ceiling_le_iff le_diff_eq) linarith
  moreover have "0 < \<lceil>(finish - cursor) * 10 ^ 7\<rceil>" using c by (simp add: TIME_STEP_def)
  ultimately show "((z, stop, finish), z, cursor, finish) \<in> measure (\<lambda>(z, cursor, finish). nat \<lceil>(finish - cursor) * 10 ^ 7\<rceil>)"
    by simp
qed

declare segments.simps [simp del]

definition local_segments :: "zone \<Rightarrow> time \<Rightarrow> time \<Rightarrow> (time \<times> time) list" where
  "local_segments z start finish = (if finish \<le> start then [] else segments z start finish)"

definition midpoint :: "time \<times> time \<Rightarrow> time" where
  "midpoint seg = (fst seg + snd seg) / 2"

section \<open>Samples\<close>

record contribution =
  bc_date :: int
  bc_index :: nat
  bc_energy :: rat
  bc_coverage :: rat

definition finite_non_negative :: "pyfloat option \<Rightarrow> rat option" where
  "finite_non_negative v = (case v of Some (Fin q) \<Rightarrow> if q < 0 then None else Some q | _ \<Rightarrow> None)"

definition contribution_of :: "zone \<Rightarrow> time \<Rightarrow> time \<Rightarrow> rat \<Rightarrow> rat \<Rightarrow> time \<times> time \<Rightarrow> contribution" where
  "contribution_of z start finish previous_kw current_kw seg =
     (let duration = finish - start;
          power_start = previous_kw + (current_kw - previous_kw) * ((fst seg - start) / duration);
          power_end = previous_kw + (current_kw - previous_kw) * ((snd seg - start) / duration);
          seconds = snd seg - fst seg
      in \<lparr>bc_date = local_day z (midpoint seg), bc_index = interval_index z (midpoint seg),
          bc_energy = (power_start + power_end) / 2 * seconds / 3600, bc_coverage = seconds\<rparr>)"

definition split_sample_across_bins :: "zone \<Rightarrow> time \<Rightarrow> time \<Rightarrow> pyfloat option \<Rightarrow> pyfloat option \<Rightarrow> contribution list" where
  "split_sample_across_bins z start finish previous_kw current_kw =
     (case (finite_non_negative previous_kw, finite_non_negative current_kw) of
        (Some p, Some c) \<Rightarrow>
          (if finish - start \<le> 0 then []
           else filter (\<lambda>b. 0 \<le> bc_energy b) (map (contribution_of z start finish p c) (local_segments z start finish)))
      | _ \<Rightarrow> [])"

section \<open>Days\<close>

record profile_day =
  pd_date :: int
  pd_energy :: "rat list"
  pd_coverage :: "rat list"
  pd_complete :: bool

definition blank_day :: "int \<Rightarrow> profile_day" where
  "blank_day d = \<lparr>pd_date = d, pd_energy = replicate INTERVAL_COUNT 0, pd_coverage = replicate INTERVAL_COUNT 0, pd_complete = False\<rparr>"

definition normalized_interval :: "profile_day \<Rightarrow> nat \<Rightarrow> rat option" where
  "normalized_interval d i =
     (if \<not> i < INTERVAL_COUNT then None
      else if pd_coverage d ! i < MIN_INTERVAL_COVERAGE_S then None
      else if pd_coverage d ! i < 0 \<or> pd_energy d ! i < 0 then None
      else Some (max 0 (pd_energy d ! i / pd_coverage d ! i * INTERVAL_SECONDS)))"

definition valid_interval_count :: "profile_day \<Rightarrow> nat" where
  "valid_interval_count d = length (filter (\<lambda>i. normalized_interval d i \<noteq> None) [0..<INTERVAL_COUNT])"

definition has_valid_data :: "profile_day \<Rightarrow> bool" where
  "has_valid_data d = (0 < valid_interval_count d)"

definition add_to_bin :: "nat \<Rightarrow> rat \<Rightarrow> rat \<Rightarrow> profile_day \<Rightarrow> profile_day" where
  "add_to_bin i e c d = d\<lparr>pd_energy := (pd_energy d)[i := pd_energy d ! i + e], pd_coverage := (pd_coverage d)[i := pd_coverage d ! i + c]\<rparr>"

definition day_in :: "(int, profile_day) dict \<Rightarrow> int \<Rightarrow> profile_day" where
  "day_in days k = (case map_of days k of Some d \<Rightarrow> d | None \<Rightarrow> blank_day k)"

definition book :: "contribution \<Rightarrow> (int, profile_day) dict \<Rightarrow> (int, profile_day) dict" where
  "book b days = AList.update (bc_date b) (add_to_bin (bc_index b) (bc_energy b) (bc_coverage b) (day_in days (bc_date b))) days"

text \<open>A series of recorded samples: an unreadable one breaks it, a gap is not filled.\<close>

definition series_step :: "zone \<Rightarrow> time option \<times> rat option \<Rightarrow> (time \<times> rat) option \<times> (int, profile_day) dict
    \<Rightarrow> (time \<times> rat) option \<times> (int, profile_day) dict" where
  "series_step z s acc = (case s of
     (Some t, Some kw) \<Rightarrow>
       (Some (t, kw), (case fst acc of None \<Rightarrow> snd acc
          | Some (t0, kw0) \<Rightarrow>
             (if 0 < t - t0 \<and> t - t0 \<le> MAX_SAMPLE_GAP_SECONDS
              then fold book (split_sample_across_bins z t0 t (Some (Fin kw0)) (Some (Fin kw))) (snd acc) else snd acc)))
   | _ \<Rightarrow> (None, snd acc))"

definition series_to_bins :: "zone \<Rightarrow> (time option \<times> rat option) list \<Rightarrow> (int, profile_day) dict" where
  "series_to_bins z samples = snd (fold (series_step z) samples (None, []))"

text \<open>The power of a recorded state: its number and unit in lower case.\<close>

definition state_to_power_kw :: "(pyfloat option \<times> string) option \<Rightarrow> rat option" where
  "state_to_power_kw s = (case s of None \<Rightarrow> None
   | Some (v, unit) \<Rightarrow> (case finite_non_negative v of None \<Rightarrow> None
      | Some q \<Rightarrow> if unit = ''kw'' then Some q else if unit = ''w'' then Some (q / 1000) else None))"

definition apply_external_load_to_day :: "profile_day \<Rightarrow> rat \<Rightarrow> profile_day \<Rightarrow> profile_day" where
  "apply_external_load_to_day device factor d = d\<lparr>pd_energy := map (\<lambda>i.
     if pd_coverage device ! i \<le> 0 \<or> pd_coverage d ! i \<le> 0 then pd_energy d ! i
     else max 0 (pd_energy d ! i + factor * (pd_energy device ! i * pd_coverage d ! i / pd_coverage device ! i))) [0..<INTERVAL_COUNT]\<rparr>"

section \<open>Another time zone\<close>

text \<open>One bin of an old day, spread over the bins of the new zone its quarter covers.\<close>

definition rebin_interval :: "zone \<Rightarrow> zone \<Rightarrow> profile_day \<Rightarrow> nat \<Rightarrow> (int, profile_day) dict \<times> int list
    \<Rightarrow> (int, profile_day) dict \<times> int list" where
  "rebin_interval old new d i acc =
     (if pd_coverage d ! i \<le> 0 then acc
      else (let start = stamp_of old False (86400 * of_int (pd_date d) + 900 * of_nat i);
                segs = local_segments new start (start + INTERVAL_SECONDS);
                span = sum_list (map (\<lambda>s. snd s - fst s) segs)
            in if span \<le> 0 then acc
               else fold (\<lambda>s (days, partial).
                  (let share = (snd s - fst s) / span; k = local_day new (midpoint s)
                   in (AList.update k (add_to_bin (interval_index new (midpoint s)) (pd_energy d ! i * share) (pd_coverage d ! i * share) (day_in days k)) days,
                       if pd_complete d then partial else k # partial))) segs acc))"

definition rebin_days_to_timezone :: "zone \<Rightarrow> zone \<Rightarrow> (int, profile_day) dict \<Rightarrow> (int, profile_day) dict" where
  "rebin_days_to_timezone old new days =
     (let (out, partial) = fold (\<lambda>(k, d) acc. fold (rebin_interval old new d) [0..<INTERVAL_COUNT] acc) days ([], [])
      in map (\<lambda>(k, d). (k, d\<lparr>pd_complete := k \<notin> set partial \<and> list_all (\<lambda>c. 0 < c) (pd_coverage d)\<rparr>)) out)"

section \<open>A range is cut without loss\<close>

lemma segments_tile:
  assumes "start \<le> finish" and "0 \<le> finish - start"
  shows "\<exists>stop \<in> {finish - TIME_STEP..finish}.
    start \<le> stop \<and> (\<forall>F. sum_list (map (\<lambda>s. F (snd s) - F (fst s)) (segments z start finish)) = F stop - (F start :: rat))
    \<and> list_all (\<lambda>s. start \<le> fst s \<and> fst s < snd s \<and> snd s \<le> stop) (segments z start finish)"
  using assms
proof (induction z start finish rule: segments.induct)
  case (1 z cursor finish)
  let ?s = "min finish (max (cursor + TIME_STEP) (next_local_quarter z cursor))"
  show ?case
  proof (cases "cursor < finish - TIME_STEP")
    case True
    have s: "cursor < ?s" "?s \<le> finish" using True by (auto simp: TIME_STEP_def)
    then obtain stop where t: "stop \<in> {finish - TIME_STEP..finish}" "?s \<le> stop"
      "\<forall>F. sum_list (map (\<lambda>s. F (snd s) - F (fst s)) (segments z ?s finish)) = F stop - (F ?s :: rat)"
      "list_all (\<lambda>s. ?s \<le> fst s \<and> fst s < snd s \<and> snd s \<le> stop) (segments z ?s finish)"
      using "1.IH" [OF True refl] by auto
    have "segments z cursor finish = (cursor, ?s) # segments z ?s finish"
      using True by (subst segments.simps) (simp add: Let_def)
    then show ?thesis using s t by (intro bexI [of _ stop]) (auto simp: list_all_iff)
  next
    case False
    then have "segments z cursor finish = []" by (simp add: segments.simps)
    then show ?thesis using False "1.prems" by (intro bexI [of _ cursor]) auto
  qed
qed

definition energy_until_s :: "time \<Rightarrow> time \<Rightarrow> rat \<Rightarrow> rat \<Rightarrow> time \<Rightarrow> rat" where
  "energy_until_s start finish p c t = (p * (t - start) + (c - p) * (t - start)\<^sup>2 / (2 * (finish - start))) / 3600"

lemma contribution_energy:
  assumes "start < finish"
  shows "bc_energy (contribution_of z start finish p c s) = energy_until_s start finish p c (snd s) - energy_until_s start finish p c (fst s)"
proof -
  have d: "finish - start \<noteq> 0" using assms by simp
  show ?thesis using d
    by (simp add: contribution_of_def Let_def energy_until_s_def divide_simps power2_eq_square) (simp add: algebra_simps)
qed

lemma contribution_nonneg:
  assumes "start < finish" "0 \<le> p" "0 \<le> c" "start \<le> fst s" "fst s < snd s" "snd s \<le> finish"
  shows "0 \<le> bc_energy (contribution_of z start finish p c s)"
proof -
  have "0 \<le> p + (c - p) * ((t - start) / (finish - start))" if "start \<le> t" "t \<le> finish" for t
  proof -
    define f where "f = (t - start) / (finish - start)"
    have f: "0 \<le> f" "f \<le> 1" using that assms(1) by (auto simp: f_def divide_simps)
    have "p + (c - p) * f = p * (1 - f) + c * f" by (simp add: algebra_simps)
    then show ?thesis using f assms(2,3) unfolding f_def [symmetric] by simp
  qed
  from this [of "fst s"] this [of "snd s"] assms(4-6) show ?thesis
    by (simp add: contribution_of_def Let_def)
qed

section \<open>A zone of constant offset\<close>

text \<open>A clock that is a whole number of seconds from UTC, and never changed.\<close>

definition fixed_zone :: "zone \<Rightarrow> int \<Rightarrow> bool" where
  "fixed_zone z off \<longleftrightarrow> (\<forall>t. wall_of z t = t + of_int off \<and> offset_of z t = of_int off \<and> (\<forall>f. stamp_of z f (t + of_int off) = t))"

definition quarter_start :: "int \<Rightarrow> int \<Rightarrow> nat \<Rightarrow> time" where
  "quarter_start off d i = 86400 * of_int d + 900 * of_nat i - of_int off"

definition in_one_quarter :: "int \<Rightarrow> time \<times> time \<Rightarrow> bool" where
  "in_one_quarter off s \<longleftrightarrow> snd s \<le> 900 * of_int \<lfloor>(fst s + of_int off) / 900\<rfloor> + 900 - of_int off"

lemma offset_probe_fixed: "fixed_zone z off \<Longrightarrow> offset_probe z cursor b = None"
  by (auto simp: offset_probe_def fixed_zone_def find_None_iff dest: set_takeWhileD)

lemma next_quarter_fixed:
  assumes "fixed_zone z off" "q = 900 * of_int \<lfloor>(cursor + of_int off) / 900\<rfloor> + 900 - of_int off" "cursor + TIME_STEP < q"
  shows "next_local_quarter z cursor = q"
proof -
  have "stamp_of z f (q + of_int off) = q" for f using assms(1) by (simp add: fixed_zone_def)
  moreover have "quarter_wall (wall_of z cursor) = q + of_int off" using assms(1,2) by (simp add: fixed_zone_def quarter_wall_def)
  ultimately show ?thesis using assms(3) offset_probe_fixed [OF assms(1)] by (simp add: next_local_quarter_def Let_def)
qed

text \<open>On the grid of microseconds a quarter is never nearer than the time step.\<close>

lemma quarter_far:
  assumes "cursor * 10 ^ 6 = of_int n"
  shows "cursor + TIME_STEP < 900 * of_int \<lfloor>(cursor + of_int off) / 900\<rfloor> + 900 - of_int off"
proof -
  define q :: rat where "q = 900 * of_int \<lfloor>(cursor + of_int off) / 900\<rfloor> + 900 - of_int off"
  define m where "m = (900 * \<lfloor>(cursor + of_int off) / 900\<rfloor> + 900 - off) * 10 ^ 6"
  have "q * 10 ^ 6 = of_int m" by (simp add: q_def m_def)
  moreover have "cursor < q" unfolding q_def using floor_correct [of "(cursor + of_int off) / 900"] by (simp add: field_simps)
  ultimately have "n < m" using assms by (metis of_int_less_iff mult_strict_right_mono zero_less_numeral zero_less_power)
  then have "of_int n + 1 \<le> (of_int m :: rat)" by (metis of_int_1 of_int_add of_int_le_iff zless_imp_add1_zle)
  then have "cursor * 10 ^ 6 + 1 \<le> q * 10 ^ 6" using assms \<open>q * 10 ^ 6 = of_int m\<close> by simp
  then have "cursor + TIME_STEP < q" by (simp add: TIME_STEP_def)
  then show ?thesis unfolding q_def .
qed

lemma segments_quarters:
  assumes "fixed_zone z off" "start * 10 ^ 6 = of_int n"
  shows "list_all (in_one_quarter off) (segments z start finish)"
  using assms
proof (induction z start finish arbitrary: n rule: segments.induct)
  case (1 z cursor finish)
  define q :: rat where "q = 900 * of_int \<lfloor>(cursor + of_int off) / 900\<rfloor> + 900 - of_int off"
  have far: "cursor + TIME_STEP < q" unfolding q_def by (rule quarter_far [OF "1.prems"(2)])
  have nq: "next_local_quarter z cursor = q" by (rule next_quarter_fixed [OF "1.prems"(1) q_def far])
  have stop: "min finish (max (cursor + TIME_STEP) (next_local_quarter z cursor)) = min finish q" using far nq by simp
  show ?case
  proof (cases "cursor < finish - TIME_STEP")
    case False
    then show ?thesis by (subst segments.simps) simp
  next
    case True
    have here: "in_one_quarter off (cursor, min finish q)" by (simp add: in_one_quarter_def q_def)
    have "list_all (in_one_quarter off) (segments z (min finish q) finish)"
    proof (cases "finish \<le> q")
      case True
      then show ?thesis by (subst segments.simps) (simp add: TIME_STEP_def)
    next
      case False
      have "min finish q * 10 ^ 6 = of_int ((900 * \<lfloor>(cursor + of_int off) / 900\<rfloor> + 900 - off) * 10 ^ 6)"
        using False by (simp add: q_def)
      from "1.IH" [OF True refl "1.prems"(1), unfolded stop, OF this] show ?thesis .
    qed
    then show ?thesis using here True by (subst segments.simps) (simp add: Let_def stop)
  qed
qed

lemma quarter_number:
  assumes "900 * of_int n \<le> (w :: rat)" "w < 900 * of_int n + 900"
  shows "\<lfloor>w / 86400\<rfloor> = n div 96" "\<lfloor>(w - 86400 * of_int (n div 96)) / 900\<rfloor> = n mod 96"
proof -
  have n: "(of_int n :: rat) = 96 * of_int (n div 96) + of_int (n mod 96)"
    by (metis mult_div_mod_eq of_int_add of_int_mult of_int_numeral)
  have m: "0 \<le> (of_int (n mod 96) :: rat)" "of_int (n mod 96) \<le> (95 :: rat)"
  proof -
    have "n mod 96 \<le> 95" "0 \<le> n mod 96" by (simp_all add: zle_diff1_eq [of _ 96, symmetric, simplified])
    then show "0 \<le> (of_int (n mod 96) :: rat)" "of_int (n mod 96) \<le> (95 :: rat)"
      by (simp, metis of_int_le_iff of_int_numeral)
  qed
  show "\<lfloor>w / 86400\<rfloor> = n div 96" using assms m unfolding n by (intro floor_unique) (simp_all add: field_simps)
  show "\<lfloor>(w - 86400 * of_int (n div 96)) / 900\<rfloor> = n mod 96"
    using assms unfolding n by (intro floor_unique) (simp_all add: field_simps)
qed

text \<open>The part of a time in a quarter, from the quarter's start or end at the least and most.\<close>

definition within_quarter :: "time \<Rightarrow> time \<Rightarrow> time" where
  "within_quarter q t = max q (min (q + 900) t)"

lemma segment_bin:
  assumes "fixed_zone z off" "in_one_quarter off s" "fst s < snd s" "i < 96"
  shows "within_quarter (quarter_start off d i) (fst s) = (if (local_day z (midpoint s), interval_index z (midpoint s)) = (d, i)
      then fst s else within_quarter (quarter_start off d i) (snd s))"
    "(local_day z (midpoint s), interval_index z (midpoint s)) = (d, i) \<Longrightarrow> within_quarter (quarter_start off d i) (snd s) = snd s"
proof -
  define n where "n = \<lfloor>(fst s + of_int off) / 900\<rfloor>"
  have lo: "900 * of_int n \<le> fst s + of_int off" using floor_correct [of "(fst s + of_int off) / 900"] by (simp add: n_def field_simps)
  have hi: "snd s + of_int off \<le> 900 * of_int n + 900" using assms(2) by (simp add: in_one_quarter_def n_def)
  have mid: "wall_of z (midpoint s) = midpoint s + of_int off" using assms(1) by (simp add: fixed_zone_def)
  have "900 * of_int n \<le> midpoint s + of_int off" "midpoint s + of_int off < 900 * of_int n + 900"
    using lo hi assms(3) by (simp_all add: midpoint_def field_simps)
  note q = quarter_number [OF this]
  have mod: "0 \<le> n mod 96" "n mod 96 < 96" by simp_all
  have day: "local_day z (midpoint s) = n div 96" by (simp add: local_day_def mid q(1))
  have idx: "interval_index z (midpoint s) = nat (n mod 96)"
    using mod by (simp add: interval_index_def day mid q(2) INTERVAL_COUNT_def)
  have bin: "(local_day z (midpoint s), interval_index z (midpoint s)) = (d, i) \<longleftrightarrow> n = 96 * d + int i"
    unfolding day idx using assms(4) mod by (auto simp: nat_eq_iff) (metis mult_div_mod_eq)
  have Q: "quarter_start off d i = 900 * of_int (96 * d + int i) - of_int off" by (simp add: quarter_start_def)
  have out: "n < 96 * d + int i \<Longrightarrow> 900 * of_int n + 900 \<le> (900 * of_int (96 * d + int i) :: rat)"
    "96 * d + int i < n \<Longrightarrow> 900 * of_int (96 * d + int i) + 900 \<le> (900 * of_int n :: rat)"
    by (metis add.commute distrib_left mult.right_neutral mult_le_cancel_left_pos of_int_1 of_int_add of_int_le_iff zero_less_numeral
        zless_imp_add1_zle)+
  show "within_quarter (quarter_start off d i) (fst s) = (if (local_day z (midpoint s), interval_index z (midpoint s)) = (d, i)
      then fst s else within_quarter (quarter_start off d i) (snd s))"
    unfolding bin Q within_quarter_def using lo hi out assms(3) by (cases "n = 96 * d + int i") (auto simp: max_def min_def not_less)
  show "(local_day z (midpoint s), interval_index z (midpoint s)) = (d, i) \<Longrightarrow> within_quarter (quarter_start off d i) (snd s) = snd s"
    unfolding bin Q within_quarter_def using lo hi assms(3) by (auto simp: max_def min_def)
qed

lemma sum_list_filter_map: "sum_list (map f (filter P (map g xs))) = sum_list (map (\<lambda>x. if P (g x) then f (g x) else (0 :: rat)) xs)"
  by (induction xs) auto

lemma quarter_sum:
  assumes "fixed_zone z off" "list_all (in_one_quarter off) segs" "list_all (\<lambda>s. fst s < snd s) segs" "i < 96"
    and f: "\<And>s. s \<in> set segs \<Longrightarrow> f (contribution_of z start finish p c s) = (F (snd s) - F (fst s) :: rat)"
  shows "sum_list (map f (filter (\<lambda>b. bc_date b = d \<and> bc_index b = i) (map (contribution_of z start finish p c) segs)))
    = sum_list (map (\<lambda>s. F (within_quarter (quarter_start off d i) (snd s)) - F (within_quarter (quarter_start off d i) (fst s))) segs)"
  unfolding sum_list_filter_map
proof (intro arg_cong [where f = sum_list] map_cong refl)
  fix s
  assume s: "s \<in> set segs"
  have "in_one_quarter off s" "fst s < snd s" using assms(2,3) s by (auto simp: list_all_iff)
  note b = segment_bin [OF assms(1) this assms(4), of d]
  have c: "bc_date (contribution_of z start finish p c s) = local_day z (midpoint s)"
    "bc_index (contribution_of z start finish p c s) = interval_index z (midpoint s)" by (simp_all add: contribution_of_def Let_def)
  show "(if bc_date (contribution_of z start finish p c s) = d \<and> bc_index (contribution_of z start finish p c s) = i
      then f (contribution_of z start finish p c s) else 0)
    = F (within_quarter (quarter_start off d i) (snd s)) - F (within_quarter (quarter_start off d i) (fst s))"
    unfolding c f [OF s] using b by auto
qed

text \<open>
  C23. Capture loses no energy and books it where it belongs. In every time zone, whatever its clock
  does, the cutting of a sample at the local quarters ends, and the energies it books are the
  integral of the line between the two readings over the time they cover: the whole sample but for
  its last 100 nanoseconds at most; every contribution is non-negative and goes to one of the 96
  bins. In a zone of constant offset a sample that starts at a whole microsecond gives each quarter
  of each day exactly the time and the integral of its own part of the sample.
\<close>

theorem capture_loses_no_energy:
  assumes "start < finish" and "0 \<le> p" and "0 \<le> c"
    and "bs = split_sample_across_bins z start finish (Some (Fin p)) (Some (Fin c))"
    and "energy = (\<lambda>t. (p * (t - start) + (c - p) * (t - start)\<^sup>2 / (2 * (finish - start))) / 3600)"
  shows "\<exists>stop. finish - 1 / 10 ^ 7 \<le> stop \<and> stop \<le> finish
    \<and> sum_list (map bc_coverage bs) = stop - start \<and> sum_list (map bc_energy bs) = energy stop
    \<and> list_all (\<lambda>b. 0 \<le> bc_energy b \<and> 0 < bc_coverage b \<and> bc_index b < 96) bs
    \<and> (\<forall>off n d i. fixed_zone z off \<and> start * 10 ^ 6 = of_int n \<and> i < 96 \<longrightarrow>
        (let here = filter (\<lambda>b. bc_date b = d \<and> bc_index b = i) bs;
             from = within_quarter (quarter_start off d i) start; upto = within_quarter (quarter_start off d i) stop
         in sum_list (map bc_coverage here) = upto - from \<and> sum_list (map bc_energy here) = energy upto - energy from))"
proof -
  have e: "energy = energy_until_s start finish p c" unfolding assms(5) by (rule ext) (simp add: energy_until_s_def)
  obtain stop where t: "finish - TIME_STEP \<le> stop" "stop \<le> finish" "start \<le> stop"
    "\<And>F. sum_list (map (\<lambda>s. F (snd s) - F (fst s)) (segments z start finish)) = F stop - (F start :: rat)"
    "list_all (\<lambda>s. start \<le> fst s \<and> fst s < snd s \<and> snd s \<le> stop) (segments z start finish)"
    using segments_tile [of start finish z] assms(1) by auto
  have nn: "0 \<le> bc_energy (contribution_of z start finish p c s)" if "s \<in> set (segments z start finish)" for s
    using that t(2,5) assms(1-3) by (intro contribution_nonneg) (auto simp: list_all_iff intro: order.trans)
  have bs: "bs = map (contribution_of z start finish p c) (segments z start finish)"
    using assms nn by (simp add: split_sample_across_bins_def finite_non_negative_def local_segments_def filter_id_conv)
  have cov: "bc_coverage (contribution_of z start finish p c s) = snd s - fst s" for s by (simp add: contribution_of_def Let_def)
  note en = contribution_energy [OF assms(1), of z p c]
  have "sum_list (map bc_coverage bs) = stop - start" using t(4) [of "\<lambda>x. x"] by (simp add: bs comp_def cov)
  moreover have "sum_list (map bc_energy bs) = energy stop"
    using t(4) [of energy] by (simp add: bs comp_def en e) (simp add: energy_until_s_def)
  moreover have "list_all (\<lambda>b. 0 \<le> bc_energy b \<and> 0 < bc_coverage b \<and> bc_index b < 96) bs"
    using nn t(5) by (auto simp: bs list_all_iff) (auto simp: contribution_of_def Let_def interval_index_def INTERVAL_COUNT_def)
  moreover have "let here = filter (\<lambda>b. bc_date b = d \<and> bc_index b = i) bs;
      from = within_quarter (quarter_start off d i) start; upto = within_quarter (quarter_start off d i) stop
    in sum_list (map bc_coverage here) = upto - from \<and> sum_list (map bc_energy here) = energy upto - energy from"
    if z: "fixed_zone z off" and n: "start * 10 ^ 6 = of_int n" and i: "i < 96" for off n d i
  proof -
    have segs: "list_all (in_one_quarter off) (segments z start finish)" "list_all (\<lambda>s. fst s < snd s) (segments z start finish)"
      using segments_quarters [OF z n] t(5) by (auto simp: list_all_iff)
    show ?thesis unfolding Let_def bs quarter_sum [OF z segs i, where f = bc_coverage and F = "\<lambda>x. x", OF cov]
        quarter_sum [OF z segs i, where f = bc_energy and F = energy, OF en [folded e]]
      using t(4) [of "\<lambda>x. within_quarter (quarter_start off d i) x"] t(4) [of "\<lambda>x. energy (within_quarter (quarter_start off d i) x)"]
      by simp
  qed
  ultimately show ?thesis using t(1,2) by (intro exI [of _ stop]) (simp add: TIME_STEP_def)
qed

definition utc_zone :: zone where
  "utc_zone = \<lparr>wall_of = (\<lambda>t. t), offset_of = (\<lambda>_. 0), fold_of = (\<lambda>_. False), stamp_of = (\<lambda>_ w. w)\<rparr>"

lemma capture_loses_no_energy_witness:
  "sum_list (map bc_coverage (filter (\<lambda>b. bc_date b = 0 \<and> bc_index b = 0)
     (split_sample_across_bins utc_zone 600 1200 (Some (Fin 2)) (Some (Fin 4))))) = 300"
proof -
  have z: "fixed_zone utc_zone 0" "(600 :: rat) * 10 ^ 6 = of_int 600000000" "(0 :: nat) < 96"
    by (simp_all add: fixed_zone_def utc_zone_def)
  obtain stop where "(1200 :: rat) - 1 / 10 ^ 7 \<le> stop"
    "sum_list (map bc_coverage (filter (\<lambda>b. bc_date b = 0 \<and> bc_index b = 0)
       (split_sample_across_bins utc_zone 600 1200 (Some (Fin 2)) (Some (Fin 4)))))
     = within_quarter (quarter_start 0 0 0) stop - within_quarter (quarter_start 0 0 0) 600"
    using capture_loses_no_energy [of 600 1200 2 4, OF _ _ _ refl refl, of utc_zone] z by (auto simp: Let_def)
  then show ?thesis by (simp add: within_quarter_def quarter_start_def)
qed

end
