(* ===== verification/Consumption_Profile.thy ===== *)
theory Consumption_Profile
  imports Local_Bins
begin

text \<open>
  The learned household profile (\<open>ConsumptionProfileTracker\<close> of
  \<open>tracking/consumption_profile.py\<close>): 28 days of quarter-hour bins, captured live, merged from the
  Recorder and from the Store, and the forecast built from them, with its cache of training
  aggregates, its maturity gate and its fallbacks. The hash of the configuration, the readings of
  the controller and the clock are inputs; a reading that fails or is missing is \<open>None\<close>.
\<close>

section \<open>Fallback curve\<close>

definition FALLBACK_HOURLY_WEIGHTS :: "rat list" where
  "FALLBACK_HOURLY_WEIGHTS = map (\<lambda>n. of_int n / 100)
     [35, 35, 35, 35, 35, 35, 60, 90, 110, 95, 100, 110, 120, 125, 120, 105, 100, 105, 115, 130, 145, 140, 100, 60]"

definition DEFAULT_BASE_CONSUMPTION_KWH :: rat where "DEFAULT_BASE_CONSUMPTION_KWH = 5"
definition FALLBACK_LIVE_ADJUSTMENT_LIMIT :: rat where "FALLBACK_LIVE_ADJUSTMENT_LIMIT = 30/100"
definition FALLBACK_LIVE_ADJUSTMENT_START_HOUR :: rat where "FALLBACK_LIVE_ADJUSTMENT_START_HOUR = 3"
definition FALLBACK_LIVE_ADJUSTMENT_FULL_HOUR :: rat where "FALLBACK_LIVE_ADJUSTMENT_FULL_HOUR = 12"

definition or_zero :: "rat option \<Rightarrow> rat" where
  "or_zero v = (case v of None \<Rightarrow> 0 | Some q \<Rightarrow> q)"

definition fallback_daily_intervals :: "pyfloat option \<Rightarrow> rat list" where
  "fallback_daily_intervals daily =
     (let per_hour = or_zero (finite_non_negative daily) / sum_list FALLBACK_HOURLY_WEIGHTS
      in concat (map (\<lambda>w. replicate 4 (per_hour * w / 4)) FALLBACK_HOURLY_WEIGHTS))"

definition adjust_remaining_fallback_energy :: "pyfloat option \<Rightarrow> pyfloat option \<Rightarrow> pyfloat option \<Rightarrow> pyfloat option \<Rightarrow> rat \<times> rat" where
  "adjust_remaining_fallback_energy baseline_remaining daily_expected consumed_today elapsed_hours =
     (let baseline = or_zero (finite_non_negative baseline_remaining); daily = or_zero (finite_non_negative daily_expected);
          elapsed = or_zero (finite_non_negative elapsed_hours)
      in case finite_non_negative consumed_today of
          None \<Rightarrow> (baseline, 0)
        | Some consumed \<Rightarrow>
           (if baseline \<le> 0 \<or> daily \<le> 0 then (baseline, 0)
            else (let confidence = max 0 (min 1 ((elapsed - FALLBACK_LIVE_ADJUSTMENT_START_HOUR)
                        / (FALLBACK_LIVE_ADJUSTMENT_FULL_HOUR - FALLBACK_LIVE_ADJUSTMENT_START_HOUR)));
                      raw = (max 0 (daily - consumed) - baseline) * confidence;
                      limit = baseline * FALLBACK_LIVE_ADJUSTMENT_LIMIT;
                      correction = max (- limit) (min limit raw)
                  in (max 0 (baseline + correction), correction))))"

text \<open>The curve keeps the daily total, and the correction stays within its share of the rest of the day.\<close>

lemma fallback_weights: "length FALLBACK_HOURLY_WEIGHTS = 24" "0 < sum_list FALLBACK_HOURLY_WEIGHTS"
  by (simp_all add: FALLBACK_HOURLY_WEIGHTS_def)

lemma sum_replicated_quarters: "sum_list (concat (map (\<lambda>w. replicate 4 (q * w / 4)) ws)) = q * (sum_list ws :: rat)"
  by (induction ws) (simp_all add: sum_list_replicate distrib_left)

lemma fallback_keeps_daily_total:
  assumes "0 \<le> daily"
  shows "sum_list (fallback_daily_intervals (Some (Fin daily))) = daily"
proof -
  have eq: "fallback_daily_intervals (Some (Fin daily))
      = concat (map (\<lambda>w. replicate 4 (daily / sum_list FALLBACK_HOURLY_WEIGHTS * w / 4)) FALLBACK_HOURLY_WEIGHTS)"
    using assms by (simp only: fallback_daily_intervals_def Let_def or_zero_def finite_non_negative_def option.case pyfloat.case
        not_less [symmetric] if_False if_not_P)
  show ?thesis unfolding eq sum_replicated_quarters using fallback_weights(2) by simp
qed

lemma clamp_near: "0 \<le> l \<Longrightarrow> l \<le> (b :: rat) \<Longrightarrow> \<bar>max 0 (b + max (- l) (min l r)) - b\<bar> \<le> l"
  by (simp add: max_def min_def abs_le_iff)

lemma adjusted_within_limit:
  assumes "0 \<le> baseline"
  shows "\<bar>fst (adjust_remaining_fallback_energy (Some (Fin baseline)) daily consumed elapsed) - baseline\<bar> \<le> baseline * (30 / 100)"
proof -
  define l where "l = baseline * (30 / 100)"
  have b: "or_zero (finite_non_negative (Some (Fin baseline))) = baseline" using assms by (simp add: or_zero_def finite_non_negative_def)
  have "\<exists>r. fst (adjust_remaining_fallback_energy (Some (Fin baseline)) daily consumed elapsed) \<in> {baseline, max 0 (baseline + max (- l) (min l r))}"
    unfolding adjust_remaining_fallback_energy_def Let_def b FALLBACK_LIVE_ADJUSTMENT_LIMIT_def l_def [symmetric]
    by (cases "finite_non_negative consumed") auto
  moreover have "0 \<le> l" "l \<le> baseline" using assms by (simp_all add: l_def)
  ultimately show ?thesis unfolding l_def [symmetric] using clamp_near [of l baseline] by fastforce
qed

section \<open>State\<close>

record aggregate =
  ag_values :: "rat list"
  ag_weekday :: "nat list"
  ag_day_type :: "nat list"
  ag_present :: "bool list"
  ag_latest :: "int option list"

type_synonym days = "(int, profile_day) dict"

record profile_state =
  ps_days :: days
  ps_cache :: "(int \<times> bool, aggregate) dict"
  ps_cache_date :: "int option"
  ps_last_time :: "time option"
  ps_last_mono :: "rat option"
  ps_last_kw :: "rat option"
  ps_last_date :: "int option"
  ps_last_save :: rat
  ps_saves :: nat
  ps_periods :: "(time \<times> time option) list"
  ps_invalidated :: bool
  ps_fingerprint :: string
  ps_error :: "string option"

definition new_profile :: "string \<Rightarrow> profile_state" where
  "new_profile fp = \<lparr>ps_days = [], ps_cache = [], ps_cache_date = None, ps_last_time = None, ps_last_mono = None, ps_last_kw = None,
     ps_last_date = None, ps_last_save = 0, ps_saves = 0, ps_periods = [], ps_invalidated = False, ps_fingerprint = fp, ps_error = None\<rparr>"

definition invalidate_forecast_cache :: "profile_state \<Rightarrow> profile_state" where
  "invalidate_forecast_cache st = st\<lparr>ps_cache := []\<rparr>"

definition request_save :: "profile_state \<Rightarrow> profile_state" where
  "request_save st = st\<lparr>ps_saves := Suc (ps_saves st)\<rparr>"

definition set_excluded_periods :: "(time \<times> time option) list \<Rightarrow> profile_state \<Rightarrow> profile_state" where
  "set_excluded_periods periods st =
     (let st' = st\<lparr>ps_periods := periods\<rparr> in if periods \<noteq> ps_periods st then invalidate_forecast_cache st' else st')"

text \<open>Both folds of a wall time; one that does not exist maps back to another.\<close>

definition interval_is_excluded :: "zone \<Rightarrow> (time \<times> time option) list \<Rightarrow> int \<Rightarrow> nat \<Rightarrow> bool" where
  "interval_is_excluded z periods d i =
     (let wall = 86400 * of_int d + 900 * of_nat i in
      list_ex (\<lambda>f. (let start = stamp_of z f wall in
        wall_of z start = wall \<and> fold_of z start = f
        \<and> list_ex (\<lambda>(p, q). p < start + INTERVAL_SECONDS \<and> (case q of None \<Rightarrow> True | Some e \<Rightarrow> start < e)) periods)) [False, True])"

definition training_interval :: "zone \<Rightarrow> (time \<times> time option) list \<Rightarrow> profile_day \<Rightarrow> nat \<Rightarrow> rat option" where
  "training_interval z periods d i = (if interval_is_excluded z periods (pd_date d) i then None else normalized_interval d i)"

definition day_has_training_data :: "zone \<Rightarrow> (time \<times> time option) list \<Rightarrow> profile_day \<Rightarrow> bool" where
  "day_has_training_data z periods d = list_ex (\<lambda>i. training_interval z periods d i \<noteq> None) [0..<INTERVAL_COUNT]"

definition usable_days :: "zone \<Rightarrow> (time \<times> time option) list \<Rightarrow> days \<Rightarrow> profile_day list" where
  "usable_days z periods days = filter (\<lambda>d. pd_complete d \<and> day_has_training_data z periods d) (map snd days)"

section \<open>Capture\<close>

definition prune :: "int \<Rightarrow> profile_state \<Rightarrow> profile_state" where
  "prune reference st =
     (let kept = filter (\<lambda>(k, d). reference - PROFILE_RETENTION_DAYS \<le> k \<and> k \<le> reference) (ps_days st);
          st' = st\<lparr>ps_days := kept\<rparr>
      in if length kept \<noteq> length (ps_days st) then invalidate_forecast_cache st' else st')"

definition close_previous_days :: "int \<Rightarrow> profile_state \<Rightarrow> profile_state \<times> bool" where
  "close_previous_days current st =
     (let changed = list_ex (\<lambda>(k, d). k < current \<and> \<not> pd_complete d) (ps_days st);
          st' = st\<lparr>ps_days := map (\<lambda>(k, d). (k, if k < current then d\<lparr>pd_complete := True\<rparr> else d)) (ps_days st)\<rparr>
      in (prune current (if changed then invalidate_forecast_cache st' else st'), changed))"

definition ensure_day :: "int \<Rightarrow> profile_state \<Rightarrow> profile_state" where
  "ensure_day k st = (case map_of (ps_days st) k of None \<Rightarrow> st\<lparr>ps_days := ps_days st @ [(k, blank_day k)]\<rparr> | Some d \<Rightarrow> st)"

definition book_live :: "contribution \<Rightarrow> profile_state \<Rightarrow> profile_state" where
  "book_live b st =
     (let complete = pd_complete (day_in (ps_days st) (bc_date b)); st' = st\<lparr>ps_days := book b (ps_days st)\<rparr>
      in if complete then invalidate_forecast_cache st' else st')"

definition roll_over :: "int \<Rightarrow> profile_state \<Rightarrow> profile_state" where
  "roll_over today st =
     (if ps_last_date st = Some today then st
      else (let (st', changed) = close_previous_days today st in (if changed then request_save st' else st')\<lparr>ps_last_date := Some today\<rparr>))"

definition break_sample :: "profile_state \<Rightarrow> profile_state" where
  "break_sample st = st\<lparr>ps_last_time := None, ps_last_mono := None, ps_last_kw := None\<rparr>"

text \<open>The time between two samples, by the monotonic clock where both have it.\<close>

definition sample_gap :: "time \<Rightarrow> rat option \<Rightarrow> profile_state \<Rightarrow> time \<Rightarrow> rat" where
  "sample_gap now mark st t0 = (case (mark, ps_last_mono st) of (Some m, Some m0) \<Rightarrow> m - m0 | _ \<Rightarrow> now - t0)"

definition record_power_sample :: "zone \<Rightarrow> pyfloat option \<Rightarrow> time \<Rightarrow> rat option \<Rightarrow> rat \<Rightarrow> profile_state \<Rightarrow> profile_state" where
  "record_power_sample z reading now mark tick st =
     (let today = local_day z now;
          st1 = roll_over today (ensure_day today st)
      in case finite_non_negative reading of
          None \<Rightarrow> break_sample st1
        | Some kw \<Rightarrow>
           (let st2 = (case (ps_last_time st1, ps_last_kw st1) of
                  (Some t0, Some kw0) \<Rightarrow>
                    (if 0 < sample_gap now mark st1 t0 \<and> sample_gap now mark st1 t0 \<le> MAX_SAMPLE_GAP_SECONDS
                     then fold book_live (split_sample_across_bins z t0 now (Some (Fin kw0)) (Some (Fin kw))) st1 else st1)
                | _ \<Rightarrow> st1);
                st3 = prune today (st2\<lparr>ps_last_time := Some now, ps_last_mono := mark, ps_last_kw := Some kw\<rparr>)
            in if ps_last_save st3 = 0 \<or> 300 \<le> tick - ps_last_save st3 then request_save (st3\<lparr>ps_last_save := tick\<rparr>) else st3))"

definition better_bins :: "profile_day \<Rightarrow> profile_day \<Rightarrow> profile_day" where
  "better_bins new old =
     (let better = (\<lambda>i. i < INTERVAL_COUNT \<and> pd_coverage old ! i < pd_coverage new ! i) in
      old\<lparr>pd_energy := map (\<lambda>i. if better i then pd_energy new ! i else pd_energy old ! i) [0..<length (pd_energy old)],
          pd_coverage := map (\<lambda>i. if better i then pd_coverage new ! i else pd_coverage old ! i) [0..<length (pd_coverage old)],
          pd_complete := pd_complete old \<or> pd_complete new\<rparr>)"

definition merge_backfilled_day :: "profile_day \<Rightarrow> profile_state \<Rightarrow> profile_state \<times> bool" where
  "merge_backfilled_day adjusted st = (case map_of (ps_days st) (pd_date adjusted) of
     None \<Rightarrow> (invalidate_forecast_cache (st\<lparr>ps_days := ps_days st @ [(pd_date adjusted, adjusted)]\<rparr>), True)
   | Some before \<Rightarrow>
      (let changed = (list_ex (\<lambda>i. pd_coverage before ! i < pd_coverage adjusted ! i) [0..<INTERVAL_COUNT]
                      \<or> pd_complete adjusted \<and> \<not> pd_complete before);
           st' = st\<lparr>ps_days := AList.update (pd_date adjusted) (better_bins adjusted before) (ps_days st)\<rparr>
       in if changed then (invalidate_forecast_cache st', True) else (st', False)))"

definition day_needs_backfill :: "profile_state \<Rightarrow> int \<Rightarrow> bool" where
  "day_needs_backfill st k = (case map_of (ps_days st) k of None \<Rightarrow> True
   | Some d \<Rightarrow> \<not> pd_complete d \<or> int (valid_interval_count d) < \<lceil>of_nat INTERVAL_COUNT * 75 / 100 :: rat\<rceil>)"

section \<open>Store\<close>

text \<open>A stored day, as far as it parses: its date, and the numbers of its lists.\<close>

record raw_day =
  rd_date :: "int option"
  rd_energy :: "pyfloat option list"
  rd_coverage :: "pyfloat option list"
  rd_complete :: bool

definition round_to :: "nat \<Rightarrow> rat \<Rightarrow> rat" where
  "round_to n x = of_int (py_round (x * 10 ^ n)) / 10 ^ n"

definition day_as_dict :: "profile_day \<Rightarrow> raw_day" where
  "day_as_dict d = \<lparr>rd_date = Some (pd_date d), rd_energy = map (\<lambda>e. Some (Fin (round_to 9 (max 0 e)))) (pd_energy d),
     rd_coverage = map (\<lambda>c. Some (Fin (round_to 3 (max 0 c)))) (pd_coverage d), rd_complete = pd_complete d\<rparr>"

definition parse_day :: "raw_day \<Rightarrow> profile_day option" where
  "parse_day r = (case rd_date r of None \<Rightarrow> None
   | Some k \<Rightarrow>
      (if length (rd_energy r) \<noteq> INTERVAL_COUNT \<or> length (rd_coverage r) \<noteq> INTERVAL_COUNT
          \<or> list_ex (\<lambda>v. finite_non_negative v = None) (rd_energy r @ rd_coverage r) then None
       else Some \<lparr>pd_date = k, pd_energy = map (or_zero \<circ> finite_non_negative) (rd_energy r),
              pd_coverage = map (or_zero \<circ> finite_non_negative) (rd_coverage r), pd_complete = rd_complete r\<rparr>))"

definition add_day :: "profile_day \<Rightarrow> profile_state \<Rightarrow> profile_state" where
  "add_day d st = (case parse_day (day_as_dict d) of None \<Rightarrow> st
   | Some p \<Rightarrow> (case map_of (ps_days st) (pd_date p) of
        None \<Rightarrow> invalidate_forecast_cache (st\<lparr>ps_days := ps_days st @ [(pd_date p, p)]\<rparr>)
      | Some old \<Rightarrow> invalidate_forecast_cache (st\<lparr>ps_days := AList.update (pd_date p) (better_bins p old) (ps_days st)\<rparr>)))"

record profile_payload =
  pp_version :: int
  pp_timezone :: string
  pp_fingerprint :: string
  pp_days :: "raw_day list"

definition PROFILE_CAPTURE_VERSION :: int where "PROFILE_CAPTURE_VERSION = 3"

definition store_payload :: "int \<Rightarrow> string \<Rightarrow> string \<Rightarrow> profile_state \<Rightarrow> profile_state \<times> profile_payload" where
  "store_payload today tz fp st =
     (let st' = prune today st
      in (st', \<lparr>pp_version = PROFILE_CAPTURE_VERSION, pp_timezone = tz, pp_fingerprint = fp,
               pp_days = map (\<lambda>k. day_as_dict (day_in (ps_days st') k)) (sort (map fst (ps_days st')))\<rparr>))"

definition keep_better :: "raw_day \<Rightarrow> days \<Rightarrow> days" where
  "keep_better r days = (case parse_day r of None \<Rightarrow> days
   | Some p \<Rightarrow> (case map_of days (pd_date p) of
        None \<Rightarrow> AList.update (pd_date p) p days
      | Some old \<Rightarrow> if sum_list (pd_coverage old) < sum_list (pd_coverage p) then AList.update (pd_date p) p days else days))"

text \<open>A load that succeeds. \<open>zones\<close> resolves the name of a time zone.\<close>

definition async_load :: "(string \<Rightarrow> zone option) \<Rightarrow> zone \<Rightarrow> string \<Rightarrow> int \<Rightarrow> string \<Rightarrow> profile_payload option \<Rightarrow> profile_state
    \<Rightarrow> profile_state \<times> bool" where
  "async_load zones z tz today fp data st = (case data of None \<Rightarrow> (st, False)
   | Some pay \<Rightarrow>
      (let moved = pp_timezone pay \<noteq> [] \<and> pp_timezone pay \<noteq> tz in
       if moved \<and> zones (pp_timezone pay) = None
       then ((invalidate_forecast_cache (st\<lparr>ps_days := []\<rparr>))\<lparr>ps_invalidated := True, ps_fingerprint := fp,
               ps_error := Some ''profile invalidated after unknown timezone change''\<rparr>, False)
       else if pp_version pay \<noteq> PROFILE_CAPTURE_VERSION
       then ((invalidate_forecast_cache (st\<lparr>ps_days := []\<rparr>))\<lparr>ps_invalidated := True, ps_fingerprint := fp,
               ps_error := None\<rparr>, False)
       else (let read = fold keep_better (pp_days pay) [];
                 loaded = (if moved then rebin_days_to_timezone (the (zones (pp_timezone pay))) z read else read);
                 st' = (prune today (invalidate_forecast_cache (st\<lparr>ps_days := loaded\<rparr>)))\<lparr>ps_fingerprint := fp\<rparr>
             in (st', ps_days st' \<noteq> []))))"

definition invalidate_if_configuration_changed :: "string \<Rightarrow> profile_state \<Rightarrow> profile_state \<times> bool" where
  "invalidate_if_configuration_changed fp st =
     (if fp = ps_fingerprint st then (st, False) else (request_save (break_sample (st\<lparr>ps_fingerprint := fp\<rparr>)), True))"

text \<open>A save that succeeds clears the last error.\<close>

definition async_save :: "int \<Rightarrow> string \<Rightarrow> string \<Rightarrow> profile_state \<Rightarrow> profile_state \<times> profile_payload" where
  "async_save today tz fp st = (let (st', pay) = store_payload today tz fp st in (st'\<lparr>ps_error := None\<rparr>, pay))"

section \<open>Training aggregate\<close>

definition weekday :: "int \<Rightarrow> int" where
  "weekday d = (d + 3) mod 7"

definition is_weekend :: "int \<Rightarrow> bool" where
  "is_weekend d = (5 \<le> weekday d)"

definition age_weight :: "int \<Rightarrow> rat" where
  "age_weight age = (if age \<le> 6 then 1 else if age \<le> 13 then 75/100 else if age \<le> 20 then 50/100 else if age \<le> 27 then 25/100 else 0)"

definition weighted_mean :: "(rat \<times> rat) list \<Rightarrow> rat" where
  "weighted_mean vs = (if vs = [] then 0
     else (let weights = sum_list (map snd vs) in if weights = 0 then 0 else sum_list (map (\<lambda>(v, w). v * w) vs) / weights))"

text \<open>\<open>a or b\<close> of two numbers.\<close>

definition or_else_if_zero :: "rat \<Rightarrow> rat \<Rightarrow> rat" where
  "or_else_if_zero a b = (if a = 0 then b else a)"

text \<open>The samples of one interval: value, weight and date of each day that trains it.\<close>

definition interval_samples :: "zone \<Rightarrow> (time \<times> time option) list \<Rightarrow> int \<Rightarrow> profile_day list \<Rightarrow> nat \<Rightarrow> (rat \<times> rat \<times> int) list" where
  "interval_samples z periods today days i = List.map_filter (\<lambda>d.
     let w = age_weight (max 0 (today - pd_date d)) in
     if w \<le> 0 then None else map_option (\<lambda>v. (v, w, pd_date d)) (training_interval z periods d i)) days"

definition samples_where :: "(int \<Rightarrow> bool) \<Rightarrow> (rat \<times> rat \<times> int) list \<Rightarrow> (rat \<times> rat) list" where
  "samples_where P xs = map (\<lambda>(v, w, d). (v, w)) (filter (\<lambda>(v, w, d). P d) xs)"

definition blended_value :: "int \<Rightarrow> bool \<Rightarrow> (rat \<times> rat \<times> int) list \<Rightarrow> rat" where
  "blended_value wd weekend xs =
     (let same_day = samples_where (\<lambda>d. weekday d = wd) xs;
          base = or_else_if_zero (weighted_mean (samples_where (\<lambda>d. is_weekend d = weekend) xs)) (weighted_mean (samples_where (\<lambda>d. True) xs))
      in if same_day \<noteq> []
         then (let weight = 65/100 * min 1 (of_nat (length same_day) / 4) in weight * weighted_mean same_day + (1 - weight) * base)
         else base)"

definition latest_date :: "(rat \<times> rat \<times> int) list \<Rightarrow> int option" where
  "latest_date xs = (if xs = [] then None else Some (Max (set (map (\<lambda>(v, w, d). d) xs))))"

definition build_aggregate :: "zone \<Rightarrow> (time \<times> time option) list \<Rightarrow> int \<Rightarrow> bool \<Rightarrow> int \<Rightarrow> profile_day list \<Rightarrow> aggregate" where
  "build_aggregate z periods wd weekend today days =
     (let rows = map (interval_samples z periods today days) [0..<INTERVAL_COUNT]
      in \<lparr>ag_values = map (\<lambda>xs. max 0 (if xs \<noteq> [] then blended_value wd weekend xs else 0)) rows,
          ag_weekday = map (\<lambda>xs. length (samples_where (\<lambda>d. weekday d = wd) xs)) rows,
          ag_day_type = map (\<lambda>xs. length (samples_where (\<lambda>d. is_weekend d = weekend) xs)) rows,
          ag_present = map (\<lambda>xs. xs \<noteq> []) rows, ag_latest = map latest_date rows\<rparr>)"

definition profile_aggregate :: "zone \<Rightarrow> int \<Rightarrow> int \<Rightarrow> profile_day list \<Rightarrow> profile_state \<Rightarrow> aggregate \<times> profile_state" where
  "profile_aggregate z target today days st0 =
     (let st = (if ps_cache_date st0 \<noteq> Some today then st0\<lparr>ps_cache := [], ps_cache_date := Some today\<rparr> else st0);
          k = (weekday target, is_weekend target)
      in case map_of (ps_cache st) k of
          Some a \<Rightarrow> (a, st)
        | None \<Rightarrow> (let a = build_aggregate z (ps_periods st) (weekday target) (is_weekend target) today days
                   in (a, st\<lparr>ps_cache := AList.update k a (ps_cache st)\<rparr>)))"

section \<open>Forecast of a date\<close>

datatype fallback_kind = LegacyDaily | CurrentRate

datatype forecast_source = Profile | Fallback fallback_kind

record forecast =
  cf_energy :: rat
  cf_intervals :: "rat list"
  cf_source :: forecast_source
  cf_mature :: bool
  cf_coverage :: rat
  cf_weekday :: nat
  cf_day_type :: nat
  cf_total :: nat
  cf_reason :: "string option"
  cf_age :: "int option"
  cf_newest :: "int option"
  cf_by_date :: "(int, rat list) dict"

definition safe_value :: "rat \<Rightarrow> rat" where
  "safe_value v = (if 0 \<le> v then v else 0)"

definition post_init :: "forecast \<Rightarrow> forecast" where
  "post_init f = f\<lparr>cf_energy := safe_value (cf_energy f), cf_intervals := map safe_value (cf_intervals f),
     cf_coverage := min 1 (max 0 (cf_coverage f)), cf_by_date := map (\<lambda>(k, vs). (k, map safe_value vs)) (cf_by_date f)\<rparr>"

record profile_inputs =
  pi_fallback :: "pyfloat option"
  pi_average :: "pyfloat option"
  pi_home_kw :: "pyfloat option"

definition positive_value :: "pyfloat option \<Rightarrow> rat option" where
  "positive_value v = (case finite_non_negative v of Some q \<Rightarrow> if 0 < q then Some q else None | None \<Rightarrow> None)"

definition fallback_daily_value :: "profile_inputs \<Rightarrow> rat" where
  "fallback_daily_value i = (case positive_value (if pi_fallback i = None then pi_average i else pi_fallback i) of
     Some q \<Rightarrow> q
   | None \<Rightarrow> (case positive_value (pi_average i) of Some q \<Rightarrow> q | None \<Rightarrow> DEFAULT_BASE_CONSUMPTION_KWH))"

definition current_rate_value :: "profile_inputs \<Rightarrow> rat" where
  "current_rate_value i = (case finite_non_negative (pi_home_kw i) of Some q \<Rightarrow> q | None \<Rightarrow> fallback_daily_value i / 24)"

definition fallback_intervals :: "profile_inputs \<Rightarrow> fallback_kind \<Rightarrow> rat list" where
  "fallback_intervals i fb = (case fb of
     CurrentRate \<Rightarrow> replicate INTERVAL_COUNT (current_rate_value i * INTERVAL_SECONDS / 3600)
   | LegacyDaily \<Rightarrow> fallback_daily_intervals (Some (Fin (fallback_daily_value i))))"

definition requested_indices :: "nat list \<Rightarrow> nat list" where
  "requested_indices idx =
     (let r = filter (\<lambda>i. i \<in> set idx) [0..<INTERVAL_COUNT] in if r = [] then [0..<INTERVAL_COUNT] else r)"

definition newest_of :: "int option list \<Rightarrow> int option" where
  "newest_of ds = (let known = List.map_filter id ds in if known = [] then None else Some (Max (set known)))"

definition present_count :: "aggregate \<Rightarrow> nat list \<Rightarrow> nat" where
  "present_count a req = length (filter (\<lambda>i. ag_present a ! i) req)"

definition enough_samples :: "aggregate \<Rightarrow> nat list \<Rightarrow> bool" where
  "enough_samples a req =
     (let threshold = \<lceil>of_nat (length req) * 75 / 100 :: rat\<rceil>; pairs = (\<lambda>counts. int (length (filter (\<lambda>i. 2 \<le> counts ! i) req)))
      in threshold \<le> pairs (ag_weekday a) \<or> threshold \<le> pairs (ag_day_type a))"

definition coverage_of :: "aggregate \<Rightarrow> nat list \<Rightarrow> rat" where
  "coverage_of a req = of_nat (present_count a req) / of_nat (length req)"

definition profile_is_mature :: "aggregate \<Rightarrow> nat list \<Rightarrow> nat \<Rightarrow> int option \<Rightarrow> bool" where
  "profile_is_mature a req days_n newest_age =
     (enough_samples a req \<and> 7 \<le> days_n \<and> 80/100 \<le> coverage_of a req
      \<and> (case newest_age of None \<Rightarrow> False | Some n \<Rightarrow> n \<le> 7))"

definition immaturity_reason :: "aggregate \<Rightarrow> nat list \<Rightarrow> nat \<Rightarrow> int option \<Rightarrow> string option \<Rightarrow> string" where
  "immaturity_reason a req days_n newest_age err =
     (if days_n = 0 then ''no_profile_data''
      else if days_n < 7 then ''insufficient_days''
      else if \<not> enough_samples a req then ''insufficient_weekday_samples''
      else if coverage_of a req < 80/100 then ''insufficient_coverage''
      else if newest_age = None \<or> 7 < the newest_age then ''stale_profile''
      else (case err of Some e \<Rightarrow> e | None \<Rightarrow> ''profile_not_mature''))"

definition profile_values :: "aggregate \<Rightarrow> nat list \<Rightarrow> rat list" where
  "profile_values a req =
     (let present = filter (\<lambda>i. ag_present a ! i) req;
          mean = sum_list (map (\<lambda>i. ag_values a ! i) present) / of_nat (max 1 (length present))
      in map2 (\<lambda>v p. if p then v else mean) (ag_values a) (ag_present a))"

text \<open>The forecast from the aggregate; \<open>days_n\<close> is the number of days that train.\<close>

definition forecast_from :: "aggregate \<Rightarrow> nat list \<Rightarrow> nat \<Rightarrow> int \<Rightarrow> rat list \<Rightarrow> fallback_kind \<Rightarrow> string option \<Rightarrow> forecast" where
  "forecast_from a req days_n today fallbacks fb err =
     (let newest = newest_of (map (\<lambda>i. ag_latest a ! i) req);
          newest_age = map_option (\<lambda>n. today - n) newest;
          mature = profile_is_mature a req days_n newest_age;
          values = (if mature then profile_values a req else fallbacks)
      in post_init \<lparr>cf_energy = sum_list values, cf_intervals = values, cf_source = (if mature then Profile else Fallback fb), cf_mature = mature,
          cf_coverage = coverage_of a req, cf_weekday = Min (set (map (\<lambda>i. ag_weekday a ! i) req)),
          cf_day_type = Min (set (map (\<lambda>i. ag_day_type a ! i) req)), cf_total = days_n,
          cf_reason = (if mature then None else Some (immaturity_reason a req days_n newest_age err)),
          cf_age = newest_age, cf_newest = newest, cf_by_date = []\<rparr>)"

definition forecast_for_date :: "zone \<Rightarrow> profile_inputs \<Rightarrow> int \<Rightarrow> int \<Rightarrow> fallback_kind \<Rightarrow> nat list \<Rightarrow> profile_state \<Rightarrow> forecast \<times> profile_state" where
  "forecast_for_date z i today target fb idx st =
     (let days = usable_days z (ps_periods st) (ps_days st);
          (a, st') = profile_aggregate z target today days st
      in (forecast_from a (requested_indices idx) (length days) today (fallback_intervals i fb) fb (ps_error st), st'))"

section \<open>Forecast of a range\<close>

record op_slot =
  os_enabled :: bool
  os_times :: "(time \<times> time) option"
  os_days :: "int list"

definition slot_active :: "zone \<Rightarrow> op_slot list \<Rightarrow> time \<Rightarrow> bool" where
  "slot_active z slots t =
     (let d = local_day z t; clock = wall_of z t - 86400 * of_int d in
      list_ex (\<lambda>s. os_enabled s \<and> (case os_times s of None \<Rightarrow> False
        | Some (a, b) \<Rightarrow>
           (if a \<le> b then weekday d \<in> set (os_days s) \<and> a \<le> clock \<and> clock < b
            else weekday d \<in> set (os_days s) \<and> a \<le> clock \<or> weekday (d - 1) \<in> set (os_days s) \<and> clock < b))) slots)"

definition day_has_operating_slot :: "op_slot list \<Rightarrow> int \<Rightarrow> bool" where
  "day_has_operating_slot slots d = (slots = []
     \<or> list_ex (\<lambda>s. os_enabled s \<and> (case os_times s of None \<Rightarrow> False
          | Some (a, b) \<Rightarrow> weekday d \<in> set (os_days s) \<or> b < a \<and> weekday (d - 1) \<in> set (os_days s))) slots)"

text \<open>The energy of a curve over the segments of a range.\<close>

definition curve_energy :: "zone \<Rightarrow> rat list \<Rightarrow> (time \<times> time) list \<Rightarrow> rat" where
  "curve_energy z curve segs = sum_list (map (\<lambda>s. curve ! interval_index z (midpoint s) * (snd s - fst s) / INTERVAL_SECONDS) segs)"

definition legacy_fallback_day_scale :: "zone \<Rightarrow> int \<Rightarrow> forecast \<Rightarrow> rat" where
  "legacy_fallback_day_scale z d f =
     (if cf_source f \<noteq> Fallback LegacyDaily then 1
      else (let day_start = stamp_of z False (86400 * of_int d); next_day = stamp_of z False (86400 * of_int (d + 1));
                day_energy = (if next_day - day_start = 24 * 3600 then sum_list (cf_intervals f)
                              else curve_energy z (cf_intervals f) (local_segments z day_start next_day))
            in if day_energy \<le> 0 then 0 else cf_energy f / day_energy))"

definition usable_segments :: "zone \<Rightarrow> op_slot list \<Rightarrow> bool \<Rightarrow> time \<Rightarrow> time \<Rightarrow> (time \<times> time) list" where
  "usable_segments z slots excl start finish = filter (\<lambda>s.
     \<not> (excl \<and> (\<not> day_has_operating_slot slots (local_day z (midpoint s)) \<or> slot_active z slots (midpoint s))))
     (local_segments z start finish)"

definition indices_on :: "zone \<Rightarrow> (time \<times> time) list \<Rightarrow> int \<Rightarrow> nat list" where
  "indices_on z segs d = map (\<lambda>s. interval_index z (midpoint s)) (filter (\<lambda>s. local_day z (midpoint s) = d) segs)"

text \<open>What the loop over the segments keeps; a date is forecast when it is met first.\<close>

record range_acc =
  ra_state :: profile_state
  ra_forecasts :: "(int, forecast \<times> rat) dict"
  ra_energy :: rat
  ra_intervals :: "rat list"
  ra_seconds :: rat
  ra_profile_s :: rat

definition meet_date :: "zone \<Rightarrow> profile_inputs \<Rightarrow> int \<Rightarrow> fallback_kind \<Rightarrow> (time \<times> time) list \<Rightarrow> int \<Rightarrow> range_acc \<Rightarrow> (forecast \<times> rat) \<times> range_acc" where
  "meet_date z i today fb segs d acc = (case map_of (ra_forecasts acc) d of
     Some fs \<Rightarrow> (fs, acc)
   | None \<Rightarrow>
      (let (f, st) = forecast_for_date z i today d fb (indices_on z segs d) (ra_state acc);
           fs = (f, legacy_fallback_day_scale z d f)
       in (fs, acc\<lparr>ra_state := st, ra_forecasts := AList.update d fs (ra_forecasts acc)\<rparr>)))"

definition range_step :: "zone \<Rightarrow> profile_inputs \<Rightarrow> int \<Rightarrow> fallback_kind \<Rightarrow> (time \<times> time) list \<Rightarrow> time \<times> time \<Rightarrow> range_acc \<Rightarrow> range_acc" where
  "range_step z i today fb segs seg acc0 =
     (let ((f, scale), acc) = meet_date z i today fb segs (local_day z (midpoint seg)) acc0;
          n = interval_index z (midpoint seg);
          portion = max 0 (cf_intervals f ! n * (snd seg - fst seg) / INTERVAL_SECONDS * scale)
      in acc\<lparr>ra_energy := ra_energy acc + portion, ra_intervals := (ra_intervals acc)[n := ra_intervals acc ! n + portion],
             ra_seconds := ra_seconds acc + (snd seg - fst seg),
             ra_profile_s := ra_profile_s acc + (if cf_source f = Profile then snd seg - fst seg else 0)\<rparr>)"

definition joined_reasons :: "forecast list \<Rightarrow> string option" where
  "joined_reasons fs = (let rs = rev (remdups (rev (List.map_filter cf_reason fs)))
     in if rs = [] then None else Some (foldl (\<lambda>s r. s @ '';'' @ r) (hd rs) (tl rs)))"

definition range_forecast :: "int \<Rightarrow> fallback_kind \<Rightarrow> range_acc \<Rightarrow> forecast" where
  "range_forecast today fb acc =
     (let fs = map (fst \<circ> snd) (ra_forecasts acc);
          profiled = (fs \<noteq> [] \<and> list_all (\<lambda>f. cf_source f = Profile) fs);
          newest = newest_of (map cf_newest fs)
      in post_init \<lparr>cf_energy = ra_energy acc, cf_intervals = ra_intervals acc, cf_source = (if profiled then Profile else Fallback fb),
          cf_mature = (list_all cf_mature fs \<and> profiled), cf_coverage = (if 0 < ra_seconds acc then ra_profile_s acc / ra_seconds acc else 0),
          cf_weekday = (if fs = [] then 0 else Min (set (map cf_weekday fs))), cf_day_type = (if fs = [] then 0 else Min (set (map cf_day_type fs))),
          cf_total = foldr max (map cf_total fs) 0, cf_reason = joined_reasons fs, cf_age = map_option (\<lambda>n. today - n) newest, cf_newest = newest,
          cf_by_date = map (\<lambda>(k, f, scale). (k, map (\<lambda>v. v * scale) (cf_intervals f))) (ra_forecasts acc)\<rparr>)"

definition start_range :: "profile_state \<Rightarrow> range_acc" where
  "start_range st = \<lparr>ra_state = st, ra_forecasts = [], ra_energy = 0, ra_intervals = replicate INTERVAL_COUNT 0, ra_seconds = 0, ra_profile_s = 0\<rparr>"

definition empty_range :: "fallback_kind \<Rightarrow> forecast" where
  "empty_range fb = post_init \<lparr>cf_energy = 0, cf_intervals = replicate INTERVAL_COUNT 0, cf_source = Fallback fb, cf_mature = False, cf_coverage = 0,
     cf_weekday = 0, cf_day_type = 0, cf_total = 0, cf_reason = Some ''empty_range'', cf_age = None, cf_newest = None, cf_by_date = []\<rparr>"

definition forecast_energy_between :: "zone \<Rightarrow> profile_inputs \<Rightarrow> op_slot list \<Rightarrow> int \<Rightarrow> time \<Rightarrow> time \<Rightarrow> bool \<Rightarrow> fallback_kind
    \<Rightarrow> profile_state \<Rightarrow> forecast \<times> profile_state" where
  "forecast_energy_between z i slots today start finish excl fb st =
     (if finish \<le> start then (empty_range fb, st)
      else (let segs = usable_segments z slots excl start finish;
                acc = fold (range_step z i today fb segs) segs (start_range st)
            in (range_forecast today fb acc, ra_state acc)))"

section \<open>Reports\<close>

definition daily_energy_for_date :: "zone \<Rightarrow> int \<Rightarrow> profile_state \<Rightarrow> rat option" where
  "daily_energy_for_date z k st = (case map_of (ps_days st) k of None \<Rightarrow> None
   | Some d \<Rightarrow>
      (if \<not> pd_complete d then None
       else (let start = stamp_of z False (86400 * of_int k); finish = stamp_of z False (86400 * of_int (k + 1));
                 cursors = map (\<lambda>n. start + 900 * of_nat n) [0..<nat \<lceil>(finish - start) / 900\<rceil>];
                 required = remdups (map (\<lambda>c. interval_index z (min finish (c + INTERVAL_SECONDS) - INTERVAL_SECONDS / 2)) cursors)
             in if required = [] \<or> list_ex (\<lambda>n. normalized_interval d n = None) required then None
                else (let energy = sum_list (map (\<lambda>n. pd_energy d ! n) required)
                      in if 0 < energy then Some (round_to 2 energy) else None))))"

section \<open>The cache is never seen\<close>

text \<open>The operations, in any order; the time zone is fixed and a failure of the backfill is recorded.\<close>

datatype profile_event =
  ProfileSample "pyfloat option" time "rat option" rat
| ProfileMerge profile_day
| ProfileAdd profile_day
| ProfilePeriods "(time \<times> time option) list"
| ProfileConfig string
| ProfileSave int string string
| ProfileLoad "string \<Rightarrow> zone option" string int string "profile_payload option"
| ProfileError "string option"
| ProfileForecast profile_inputs int int fallback_kind "nat list"
| ProfileRange profile_inputs "op_slot list" int time time bool fallback_kind

fun profile_step :: "zone \<Rightarrow> profile_state \<Rightarrow> profile_event \<Rightarrow> profile_state" where
  "profile_step z st (ProfileSample reading now mark tick) = record_power_sample z reading now mark tick st"
| "profile_step z st (ProfileMerge d) = fst (merge_backfilled_day d st)"
| "profile_step z st (ProfileAdd d) = add_day d st"
| "profile_step z st (ProfilePeriods periods) = set_excluded_periods periods st"
| "profile_step z st (ProfileConfig fp) = fst (invalidate_if_configuration_changed fp st)"
| "profile_step z st (ProfileSave today tz fp) = fst (async_save today tz fp st)"
| "profile_step z st (ProfileLoad zones tz today fp data) = fst (async_load zones z tz today fp data st)"
| "profile_step z st (ProfileError e) = st\<lparr>ps_error := e\<rparr>"
| "profile_step z st (ProfileForecast i today target fb idx) = snd (forecast_for_date z i today target fb idx st)"
| "profile_step z st (ProfileRange i slots today start finish excl fb) = snd (forecast_energy_between z i slots today start finish excl fb st)"

definition training :: "zone \<Rightarrow> profile_state \<Rightarrow> profile_day list" where
  "training z st = usable_days z (ps_periods st) (ps_days st)"

definition cache_ok :: "zone \<Rightarrow> profile_state \<Rightarrow> bool" where
  "cache_ok z st = (case ps_cache_date st of None \<Rightarrow> ps_cache st = []
   | Some t \<Rightarrow> \<forall>k a. map_of (ps_cache st) k = Some a \<longrightarrow> a = build_aggregate z (ps_periods st) (fst k) (snd k) t (training z st))"

text \<open>A change that drops the cache, or touches nothing the training reads.\<close>

definition trains_like :: "zone \<Rightarrow> profile_state \<Rightarrow> profile_state \<Rightarrow> bool" where
  "trains_like z st st' \<longleftrightarrow> ps_cache_date st' = ps_cache_date st
     \<and> (ps_cache st' = [] \<or> ps_cache st' = ps_cache st \<and> ps_periods st' = ps_periods st \<and> training z st' = training z st)"

lemma trains_like_ok: "cache_ok z st \<Longrightarrow> trains_like z st st' \<Longrightarrow> cache_ok z st'"
  by (auto simp: cache_ok_def trains_like_def split: option.splits)

lemma trains_like_trans [trans]: "trains_like z a b \<Longrightarrow> trains_like z b c \<Longrightarrow> trains_like z a c"
  by (auto simp: trains_like_def)

lemma trains_like_simps [simp]:
  "trains_like z st st" "trains_like z st (invalidate_forecast_cache st)"
  "trains_like z a b \<Longrightarrow> trains_like z a (invalidate_forecast_cache b)"
  "trains_like z a (invalidate_forecast_cache (b\<lparr>ps_days := ds\<rparr>)) = (ps_cache_date b = ps_cache_date a)"
  "trains_like z a (request_save b) = trains_like z a b" "trains_like z a (break_sample b) = trains_like z a b"
  "trains_like z a (b\<lparr>ps_last_date := d\<rparr>) = trains_like z a b" "trains_like z a (b\<lparr>ps_last_save := r\<rparr>) = trains_like z a b"
  "trains_like z a (b\<lparr>ps_last_time := t, ps_last_mono := m, ps_last_kw := w\<rparr>) = trains_like z a b"
  "trains_like z a (b\<lparr>ps_fingerprint := f\<rparr>) = trains_like z a b" "trains_like z a (b\<lparr>ps_error := e\<rparr>) = trains_like z a b"
  "trains_like z a (b\<lparr>ps_invalidated := v, ps_fingerprint := f, ps_error := e\<rparr>) = trains_like z a b"
  by (auto simp: trains_like_def training_def invalidate_forecast_cache_def request_save_def break_sample_def)

lemma trains_like_date: "trains_like z a st \<Longrightarrow> ps_cache_date st = ps_cache_date a"
  by (simp add: trains_like_def)

lemma usable_update:
  assumes "\<not> pd_complete (day_in days k)" "\<not> pd_complete d"
  shows "usable_days z periods (AList.update k d days) = usable_days z periods days"
  using assms by (induction days) (auto simp: usable_days_def day_in_def split: if_splits)

lemma update_same: "map_of days k = Some d \<Longrightarrow> AList.update k d days = days"
  by (induction days) auto

lemma prune_like [simp]: "trains_like z a st \<Longrightarrow> trains_like z a (prune today st)"
  by (auto simp: prune_def Let_def trains_like_def training_def invalidate_forecast_cache_def)
    (metis (no_types, lifting) length_filter_less filter_True less_irrefl)+

lemma complete_id: "pd_complete d \<Longrightarrow> d\<lparr>pd_complete := True\<rparr> = d"
  by (cases d) simp

lemma close_like [simp]: "trains_like z a st \<Longrightarrow> trains_like z a (fst (close_previous_days today st))"
proof -
  assume a: "trains_like z a st"
  show ?thesis
  proof (cases "list_ex (\<lambda>(k, d). k < today \<and> \<not> pd_complete d) (ps_days st)")
    case True
    then show ?thesis using trains_like_date [OF a] by (simp add: close_previous_days_def Let_def)
  next
    case False
    then have "map (\<lambda>(k, d). (k, if k < today then d\<lparr>pd_complete := True\<rparr> else d)) (ps_days st) = ps_days st"
      by (intro map_idI) (auto simp: list_ex_iff intro!: complete_id)
    then show ?thesis using a False by (simp add: close_previous_days_def Let_def)
  qed
qed

lemma ensure_like [simp]: "trains_like z a st \<Longrightarrow> trains_like z a (ensure_day k st)"
  by (auto simp: ensure_day_def trains_like_def training_def usable_days_def blank_day_def split: option.split)

lemma roll_over_like [simp]: "trains_like z a st \<Longrightarrow> trains_like z a (roll_over today st)"
  using close_like [of z a st today] by (simp add: roll_over_def Let_def case_prod_unfold)

lemma book_like [simp]: "trains_like z a st \<Longrightarrow> trains_like z a (book_live b st)"
proof (cases "pd_complete (day_in (ps_days st) (bc_date b))")
  case False
  assume "trains_like z a st"
  moreover have "\<not> pd_complete (add_to_bin n e c (day_in (ps_days st) (bc_date b)))" for n e c
    using False by (simp add: add_to_bin_def)
  ultimately show ?thesis using False usable_update [OF False]
    by (auto simp: book_live_def book_def Let_def trains_like_def training_def)
qed (simp add: book_live_def Let_def trains_like_date)

lemma book_all_like [simp]: "trains_like z a st \<Longrightarrow> trains_like z a (fold book_live bs st)"
  by (induction bs arbitrary: st) auto

lemma record_like [simp]: "trains_like z st (record_power_sample z reading now mark tick st)"
  by (simp add: record_power_sample_def Let_def split: option.split)

lemma better_bins_same:
  assumes "\<not> list_ex (\<lambda>i. pd_coverage old ! i < pd_coverage new ! i) [0..<INTERVAL_COUNT]" "pd_complete new \<longrightarrow> pd_complete old"
  shows "better_bins new old = old"
proof -
  have "(i < INTERVAL_COUNT \<and> pd_coverage old ! i < pd_coverage new ! i) = False" for i using assms(1) by (auto simp: list_ex_iff)
  moreover have "(pd_complete old \<or> pd_complete new) = pd_complete old" using assms(2) by blast
  ultimately have "better_bins new old = old\<lparr>pd_energy := map (\<lambda>i. pd_energy old ! i) [0..<length (pd_energy old)],
      pd_coverage := map (\<lambda>i. pd_coverage old ! i) [0..<length (pd_coverage old)], pd_complete := pd_complete old\<rparr>"
    by (simp only: better_bins_def Let_def if_False)
  then show ?thesis by (simp add: map_nth)
qed

lemma merge_like [simp]: "trains_like z st (fst (merge_backfilled_day d st))"
proof (cases "map_of (ps_days st) (pd_date d)")
  case (Some before)
  show ?thesis
  proof (cases "list_ex (\<lambda>i. pd_coverage before ! i < pd_coverage d ! i) [0..<INTERVAL_COUNT] \<or> pd_complete d \<and> \<not> pd_complete before")
    case True
    then show ?thesis using Some by (simp add: merge_backfilled_day_def Let_def)
  next
    case False
    then have "better_bins d before = before" by (intro better_bins_same) auto
    then show ?thesis using False Some by (simp add: merge_backfilled_day_def Let_def update_same)
  qed
qed (simp add: merge_backfilled_day_def)

lemma stored_like [simp]:
  "trains_like z st (add_day d st)" "trains_like z st (set_excluded_periods periods st)"
  "trains_like z st (fst (invalidate_if_configuration_changed fp st))" "trains_like z st (fst (async_save today tz fp st))"
  "trains_like z st (fst (async_load zones z tz today fp data st))"
  by (auto simp: add_day_def set_excluded_periods_def invalidate_if_configuration_changed_def async_save_def store_payload_def
      async_load_def Let_def split: option.split)
    (auto simp: trains_like_def invalidate_forecast_cache_def)

definition same_data :: "profile_state \<Rightarrow> profile_state \<Rightarrow> bool" where
  "same_data st st' \<longleftrightarrow> ps_days st' = ps_days st \<and> ps_periods st' = ps_periods st \<and> ps_error st' = ps_error st"

lemma profile_aggregate_ok:
  assumes "cache_ok z st" and "days = training z st" and "profile_aggregate z target today days st = (a, st')"
  shows "a = build_aggregate z (ps_periods st) (weekday target) (is_weekend target) today days \<and> cache_ok z st' \<and> same_data st st'"
proof -
  define st1 where "st1 = (if ps_cache_date st \<noteq> Some today then st\<lparr>ps_cache := [], ps_cache_date := Some today\<rparr> else st)"
  have s1: "cache_ok z st1" "same_data st st1" "ps_cache_date st1 = Some today" "training z st1 = days"
    using assms(1,2) by (auto simp: st1_def cache_ok_def same_data_def training_def)
  then have c: "\<And>k b. map_of (ps_cache st1) k = Some b \<Longrightarrow> b = build_aggregate z (ps_periods st) (fst k) (snd k) today days"
    by (auto simp: cache_ok_def same_data_def)
  show ?thesis
  proof (cases "map_of (ps_cache st1) (weekday target, is_weekend target)")
    case (Some b)
    then have "a = b" "st' = st1" using assms(3) by (simp_all add: profile_aggregate_def st1_def [symmetric] Let_def)
    then show ?thesis using c [OF Some] s1 by simp
  next
    case None
    have p: "ps_periods st1 = ps_periods st" using s1(2) by (simp add: same_data_def)
    have new: "a = build_aggregate z (ps_periods st) (weekday target) (is_weekend target) today days"
      "st' = st1\<lparr>ps_cache := AList.update (weekday target, is_weekend target) a (ps_cache st1)\<rparr>"
      using assms(3) None p by (auto simp: profile_aggregate_def st1_def [symmetric] Let_def)
    moreover have "cache_ok z st'" using s1(3,4) c new(1) p unfolding new(2)
      by (auto simp: cache_ok_def training_def update_conv' split: if_splits)
    moreover have "same_data st st'" using s1(2) by (simp add: new(2) same_data_def)
    ultimately show ?thesis by simp
  qed
qed

text \<open>The forecast built from the days alone.\<close>

definition fresh_forecast :: "zone \<Rightarrow> profile_inputs \<Rightarrow> int \<Rightarrow> int \<Rightarrow> fallback_kind \<Rightarrow> nat list \<Rightarrow> profile_state \<Rightarrow> forecast" where
  "fresh_forecast z i today target fb idx st =
     (let days = usable_days z (ps_periods st) (ps_days st)
      in forecast_from (build_aggregate z (ps_periods st) (weekday target) (is_weekend target) today days)
           (requested_indices idx) (length days) today (fallback_intervals i fb) fb (ps_error st))"

lemma forecast_for_date_ok:
  assumes "cache_ok z st" and "forecast_for_date z i today target fb idx st = (f, st')"
  shows "f = fresh_forecast z i today target fb idx st \<and> cache_ok z st' \<and> same_data st st'"
proof -
  obtain a s where a: "profile_aggregate z target today (training z st) st = (a, s)" by fastforce
  from profile_aggregate_ok [OF assms(1) refl a] show ?thesis
    using assms(2) a by (auto simp: forecast_for_date_def fresh_forecast_def training_def Let_def)
qed

text \<open>Two loops over a range that differ in the cache only stay so.\<close>

definition alike :: "zone \<Rightarrow> range_acc \<Rightarrow> range_acc \<Rightarrow> bool" where
  "alike z a b \<longleftrightarrow> cache_ok z (ra_state a) \<and> cache_ok z (ra_state b) \<and> same_data (ra_state a) (ra_state b)
     \<and> ra_forecasts b = ra_forecasts a \<and> ra_energy b = ra_energy a \<and> ra_intervals b = ra_intervals a
     \<and> ra_seconds b = ra_seconds a \<and> ra_profile_s b = ra_profile_s a"

lemma fresh_same: "same_data s t \<Longrightarrow> fresh_forecast z i today d fb idx t = fresh_forecast z i today d fb idx s"
  by (simp add: fresh_forecast_def same_data_def)

lemma same_data_trans: "same_data a b \<Longrightarrow> same_data c d \<Longrightarrow> same_data a c \<Longrightarrow> same_data b d"
  by (simp add: same_data_def)

lemma meet_date_alike:
  assumes "alike z a b" "meet_date z i today fb segs d a = (fs, a')" "meet_date z i today fb segs d b = (fs', b')"
  shows "fs' = fs \<and> alike z a' b'"
proof (cases "map_of (ra_forecasts a) d")
  case (Some x)
  then show ?thesis using assms by (simp add: meet_date_def alike_def)
next
  case None
  obtain f s where f: "forecast_for_date z i today d fb (indices_on z segs d) (ra_state a) = (f, s)" by fastforce
  obtain g t where g: "forecast_for_date z i today d fb (indices_on z segs d) (ra_state b) = (g, t)" by fastforce
  have st: "cache_ok z (ra_state a)" "cache_ok z (ra_state b)" "same_data (ra_state a) (ra_state b)"
    "map_of (ra_forecasts b) d = None" using assms(1) None by (simp_all add: alike_def)
  note F = forecast_for_date_ok [OF st(1) f] and G = forecast_for_date_ok [OF st(2) g]
  have "g = f" using F G fresh_same [OF st(3)] by simp
  moreover have "same_data s t" using F G st(3) same_data_trans by blast
  ultimately show ?thesis using assms None st(4) f g F G by (auto simp: meet_date_def alike_def Let_def)
qed

lemma range_step_alike:
  assumes "alike z a b"
  shows "alike z (range_step z i today fb segs seg a) (range_step z i today fb segs seg b)"
proof -
  obtain f sc a' where m: "meet_date z i today fb segs (local_day z (midpoint seg)) a = ((f, sc), a')" by (metis prod.exhaust)
  obtain fs' b' where n: "meet_date z i today fb segs (local_day z (midpoint seg)) b = (fs', b')" by fastforce
  from meet_date_alike [OF assms m n] show ?thesis
    by (auto simp: range_step_def m n alike_def Let_def)
qed

lemma range_fold_alike: "alike z a b \<Longrightarrow> alike z (fold (range_step z i today fb segs) ss a) (fold (range_step z i today fb segs) ss b)"
  by (induction ss arbitrary: a b) (auto intro: range_step_alike)

lemma range_forecast_alike: "alike z a b \<Longrightarrow> range_forecast today fb b = range_forecast today fb a"
  by (simp add: range_forecast_def alike_def Let_def)

lemma start_alike: "cache_ok z s \<Longrightarrow> cache_ok z t \<Longrightarrow> same_data s t \<Longrightarrow> alike z (start_range s) (start_range t)"
  by (simp add: alike_def start_range_def)

lemma range_ok:
  assumes "cache_ok z st"
  shows "cache_ok z (snd (forecast_energy_between z i slots today start finish excl fb st))"
proof -
  have "alike z (start_range st) (start_range st)" using start_alike [OF assms assms] by (simp add: same_data_def)
  from range_fold_alike [OF this] show ?thesis
    using assms by (auto simp: forecast_energy_between_def alike_def Let_def)
qed

interpretation profile: invariant_machine "profile_step z" "cache_ok z" "\<lambda>_. True" for z
proof
  fix st e
  assume st: "cache_ok z st"
  show "cache_ok z (profile_step z st e)"
  proof (cases e)
    case (ProfileForecast i today target fb idx)
    then show ?thesis using forecast_for_date_ok [OF st prod.collapse [symmetric]] by simp
  next
    case (ProfileRange i slots today start finish excl fb)
    then show ?thesis using range_ok [OF st] by simp
  qed (simp_all add: trains_like_ok [OF st])
qed

text \<open>
  C36. The cache of the training aggregates is never seen: after any run of samples, merged and
  added days, vacation masks, changed sources, saves, loads and forecasts, in any order and over
  any dates, the forecast of a date is the one built from the complete days and the masks held
  now, and the forecast of a range is the one an empty cache gives.
\<close>

theorem forecast_ignores_the_cache:
  "let st = run (profile_step z) (new_profile fp) es; days = usable_days z (ps_periods st) (ps_days st) in
     fst (forecast_for_date z i today target fb idx st)
       = forecast_from (build_aggregate z (ps_periods st) (weekday target) (is_weekend target) today days)
           (requested_indices idx) (length days) today (fallback_intervals i fb) fb (ps_error st)
     \<and> fst (forecast_energy_between z i slots today start finish excl fb st)
       = fst (forecast_energy_between z i slots today start finish excl fb (st\<lparr>ps_cache := []\<rparr>))"
proof -
  define st where "st = run (profile_step z) (new_profile fp) es"
  have "cache_ok z (new_profile fp)" by (simp add: cache_ok_def new_profile_def)
  then have ok: "cache_ok z st" unfolding st_def by (rule profile.run_inv) simp
  moreover have "cache_ok z (st\<lparr>ps_cache := []\<rparr>)" "same_data st (st\<lparr>ps_cache := []\<rparr>)"
    by (simp_all add: cache_ok_def same_data_def split: option.split)
  ultimately have "alike z (start_range st) (start_range (st\<lparr>ps_cache := []\<rparr>))" by (rule start_alike)
  note r = range_forecast_alike [OF range_fold_alike [OF this]]
  have "fst (forecast_energy_between z i slots today start finish excl fb st)
      = fst (forecast_energy_between z i slots today start finish excl fb (st\<lparr>ps_cache := []\<rparr>))"
    using r by (simp add: forecast_energy_between_def Let_def)
  then show ?thesis
    using forecast_for_date_ok [OF ok prod.collapse [symmetric]] unfolding st_def [symmetric]
    by (simp add: fresh_forecast_def Let_def)
qed

end
