(* ===== verification/Spec2Isabelle.thy ===== *)
theory Spec2Isabelle
  imports Energy Power_Limits Blockers PD_Control Control_Cycle Non_Responsive Top_Charge Reserve Price_Slots Chronological Absorption Curtailment Weekly_Charge Charge_Delay High_Price Hold_Control Export_Control Hourly_Balance External_Loads Consumption_Profile
begin

text \<open>
  Omnibattery is a Home Assistant integration (\<open>src/custom_components/omnibattery/\<close>) that
  steers a fleet of home batteries behind one grid meter. Every control cycle reads the
  meter, decides one signed power for the fleet (positive charges, negative discharges),
  shapes it through guards and holds, clamps it to what is allowed, and shares it among
  the batteries. This library models that chain and proves what makes it safe.

  \<^bold>\<open>Parts and their theories.\<close>

  \<^item> \<open>Py_Prelude\<close>: what the code takes from Python (values, \<open>float\<close>, \<open>int\<close>, \<open>round\<close>,
    \<open>str.strip\<close>, insertion-ordered dictionaries as association lists) and the two locales
    for components that are a state and a step: \<open>invariant_machine\<close> and \<open>growing_machine\<close>.
  \<^item> \<open>Energy\<close> (\<open>energy.py\<close>): the effective discharge total and the integrator of backup
    energy; it only grows, equals the sum over active pairs, and is read back as published.
  \<^item> \<open>Pack_Soc\<close> (\<open>control/pack_soc.py\<close>): which state of charge and which cell voltage a
    battery of several packs is judged by.
  \<^item> \<open>Time_Slots\<close> (\<open>__init__.py\<close>, \<open>_is_time_slot_allowed\<close>, \<open>_get_active_slot\<close>, \<open>_slot_*\<close>,
    \<open>_apply_slot_power_ceiling\<close>): the whitelist and the lookup of slots.
  \<^item> \<open>Power_Limits\<close> (\<open>_battery_power_limit\<close>, \<open>control/temperature_limit.py\<close>,
    \<open>apply_charge_taper\<close>, \<open>_effective_system_capacity\<close>): the chain of caps on one battery.
    The contract of a cap is the locale \<open>power_cap\<close>; each cap of the code is an
    interpretation of it and the bounds of the chain rest on its facts.
  \<^item> \<open>Blockers\<close> (\<open>_set_operation_block\<close> to \<open>get_discharge_blockers\<close>, \<open>compute_active_target\<close>
    and the setpoint operations): the registries refine a set of (direction, scope,
    source) triples through the locale \<open>gate\<close>.
  \<^item> \<open>PD_Control\<close> (\<open>_filter_grid_sample\<close>, \<open>_check_feedforward_step\<close>, \<open>_compute_pd_new_power\<close>,
    \<open>_apply_min_power\<close>, \<open>_apply_relay_dwell\<close>, \<open>_apply_zero_cross_hold\<close> and the clamps at
    the end of \<open>_run_control_cycle\<close>): the control law. The state is the record \<open>pd_state\<close>,
    one field per attribute of the controller that the law reads or writes.
  \<^item> \<open>Fleet\<close>: the coordinators as the allocation reads them, one record per battery.
  \<^item> \<open>Residual_Load\<close> (\<open>control/residual_load.py\<close>): the reconstruction of the uncovered
    load and the three guards, a chain of stages (locales \<open>settling\<close> and
    \<open>settling_chain\<close>).
  \<^item> \<open>Charge_Order\<close> (\<open>control/charge_order.py\<close>): who is filled first, the weights of the
    split, the latched verdict on scarce sun.
  \<^item> \<open>Phase_Limiter\<close> (\<open>control/phase_power_limit.py\<close>): the three-phase safety envelope, from
    the sensor state to the limited allocation.
  \<^item> \<open>Distribution\<close> (\<open>control/power_distribution.py\<close>): selection of the batteries with its
    hysteresis and holds, and the sharing of the power. It composes \<open>Fleet\<close>,
    \<open>Residual_Load\<close>, \<open>Charge_Order\<close>, \<open>Phase_Limiter\<close> and the system caps.
  \<^item> \<open>Control_Cycle\<close> (\<open>_run_control_cycle\<close> once the readings and the target are set, to the
    writes, and \<open>_rebalance_expired_load_sharing_hold\<close>): idling, the deadband, the first
    execution and the regular cycle, which composes the law, the guards, the holds, the
    restrictions, the clamps, the selection and the distribution, with the state a cycle
    leaves. Its properties span the components.
  \<^item> \<open>Non_Responsive\<close> (\<open>tracking/non_responsive_tracker.py\<close>): exclusion, grace, cooldown
    and Repair of a battery that takes commands and delivers nothing.
  \<^item> \<open>Charge_Limits\<close> (\<open>_effective_charge_max_soc\<close>, \<open>_refresh_battery_charge_limit_blocks\<close>,
    \<open>_get_available_batteries\<close>): ceilings, floors, hysteresis and re-entry of every battery,
    kept twice by the code, in the blockers and in the selection.
  \<^item> \<open>Top_Charge\<close> (\<open>control/max_soc_charge.py\<close>, \<open>tick_bms_cutoff\<close>): what happens at the top
    of the charge: the cutoff of the BMS, its retries, the recalibration of the SOC and the
    balance measurement. Its operations are a \<open>metered_machine\<close>: refusals pay for retries.
  \<^item> \<open>Price_Base\<close>, \<open>Price_Slots\<close> (\<open>pricing/calculations.py\<close>): price slots, the cheapest
    hours and blocks, the price ceilings.
  \<^item> \<open>Chronological\<close> (\<open>pricing/chronological.py\<close>): the trajectory of the stored energy, its
    deadlines, and the allocation of the cheapest slots to them.
  \<^item> \<open>Reserve\<close> (\<open>pricing/discharge_reserve.py\<close>): energy kept for the dearest hours, with the
    credit for sun that lands before them.
  \<^item> \<open>Absorption\<close> (\<open>pricing/surplus_absorption.py\<close>): the hours in which storing the sun
    costs least, and the hold of the charge before them.
  \<^item> \<open>Curtailment\<close> (\<open>pricing/curtailment.py\<close>): discharge in dear hours to make room for the
    sun of a negative-price window.
  \<^item> \<open>High_Price\<close> (\<open>pricing/high_price_discharge.py\<close>): deliberate export at high prices: surplus
    that tomorrow's sun replaces, and household energy linked to a later, cheaper purchase.
    An invariant of the run over the candidates (\<open>run_inv\<close>) accounts for every linked kWh.
  \<^item> \<open>Weekly_Charge\<close> (\<open>control/weekly_full_charge.py\<close>): the weekly full charge, from the day
    logic to the cutoff registers, with failed writes, changed settings and restarts as
    inputs of a run: the configured limit is never lost and comes back.
  \<^item> \<open>Charge_Delay\<close> (\<open>control/charge_delay.py\<close>): the gate that leaves the morning to the sun
    and its SOC setpoint, with persistence and restarts. The models of sun, consumption and
    prices are functions in its inputs.
  \<^item> \<open>Plan_Cache\<close>, \<open>Reserve_Control\<close> (\<open>control/discharge_reserve.py\<close>, \<open>_refresh_price_reserve_blocks\<close>):
    the plan of the day as the managers cache it, and the manager of the reserve: gate, guards,
    rebuild, the figure of a cycle and the blocker per battery. A reserve in force is a rebuild
    of the same day by a feature that is on.
  \<^item> \<open>Hold_Control\<close> (\<open>control/surplus_price_hold.py\<close>): the manager of the surplus hold with its
    deadline and live target, its blocker, and the plan state that keeps the reserve from
    crediting the sun held back.
  \<^item> \<open>Export_Control\<close> (\<open>control/high_price_discharge.py\<close>): the manager of the export, with the sun
    of the forecast spread over the refill window and the setpoint override.
  \<^item> \<open>Hourly_Balance\<close> (\<open>tracking/hourly_balance.py\<close>): import less export of a clock hour,
    integrated from the meter or read from a sensor, and the offset that steers it to a target.
  \<^item> \<open>External_Loads\<close> (\<open>infra/external_loads.py\<close>, \<open>_refresh_ev_blocks\<close>,
    \<open>_refresh_dynamic_power_control_block\<close>): devices the batteries shall not serve, the sun
    shared among them, and the blockers for charging vehicles and controlled loads.
  \<^item> \<open>Local_Bins\<close>, \<open>Consumption_Profile\<close> (\<open>tracking/consumption_profile.py\<close>): the learned
    profile of the household: the cutting of a power sample at local quarters in any time
    zone, the 28 days of bins with their capture, merge, store and change of zone, and the
    forecast of a date and of a range with its cache of training aggregates, which no order
    of operations makes stale.

  \<^bold>\<open>Reading the model.\<close> Floating-point numbers are exact rationals: rounding errors of the
  hardware are not modelled, while the rounding the code asks for (\<open>round\<close>, \<open>int\<close>, floor to
  5 W, the 1e-9 tolerance of \<open>_round_down\<close>) is. Where the code can meet an infinity or a
  NaN and tests for it, or fails on it, the value is a \<open>pyfloat\<close> and the failure a
  \<open>py_error\<close>. Python integers are unbounded integers. A dictionary is an association list
  whose order is the insertion order; a dictionary that only serves lookups may be a map.
  Two readings of the clock within one call are one instant, passed as an argument.
  Logging is left out. State that a call changes is returned with its result.

  \<^bold>\<open>Termination.\<close> No definition runs on fuel: the loops that are not structural, the
  filling of a phase (\<open>fill_rows\<close>), the sharing of the power (\<open>share_out\<close>), the cutting of a run of slots
  (\<open>chunks\<close>) and of a range of time (\<open>segments\<close>), are functions with a termination proof. The walk over a
  consumption profile (\<open>walk_bins\<close>) is a partial function, and proved to return.

  \<^bold>\<open>Time and energy.\<close> The planning modules use naive local times: seconds since a local
  midnight, as rationals. Prices and energies are finite where the code checks them with
  \<open>isfinite\<close> or documents them so; where it does not, the header of the theory says which
  inputs are taken to be finite.

  \<^bold>\<open>Bounds.\<close> The phase limiter adds a tolerance of 1e-9 W before it rounds down. Its
  properties carry that tolerance, and assume a plan of fewer than a billion batteries,
  so that the tolerances of a plan stay below one watt.

  \<^bold>\<open>Not modelled.\<close> Device drivers and their clients, the entities and the user interface,
  storage, migration, the pricing engine that reads the entities and schedules the
  planning modules, the other trackers of consumption and sun, the Recorder queries, and the
  collection of the readings, the scheduling and the write path around the control cycle. What the
  modelled code takes from them (the driver's headroom, the forecast outlook, the verdict of
  \<open>_taper_applies\<close>, the list of available batteries) is an argument of its definitions.
\<close>

end
